(* ===== verification/CBase.thy ===== *)
theory CBase
  imports Main "HOL-Library.Word"
begin

unbundle bit_operations_syntax

section \<open>Shared C-level notions\<close>

text \<open>
  This theory holds what every other theory of the development shares: the machine types the
  code uses (bytes, 16-bit frame headers, 32-bit flag words), the errno values the code
  distinguishes, and the functions of the C library the code calls on strings
  (\<open>strchr\<close>, \<open>strncmp\<close>, \<open>strtok\<close>, \<open>strtol\<close>, \<open>sprintf\<close> of \<open>%d\<close>), with the lemmas about them
  that the component theories use.

  A C string is the list of its characters before the terminating NUL; a buffer is the list of
  its bytes. An \<open>int\<close> that the code only counts with is an \<^typ>\<open>int\<close>; where the code narrows a
  value (\<open>long\<close> to \<open>int\<close>, \<open>int\<close> to \<open>unsigned short\<close>) the narrowing is written out.
\<close>

named_theorems vt_run \<open>equations that evaluate the model on concrete inputs\<close>

subsection \<open>Machine types and errno\<close>

type_synonym byte = "8 word"
type_synonym flags = "32 word"

datatype errno =
  EINTR | EAGAIN | ENOBUFS | ENOENT | ESRCH | EPERM | ERANGE | ETIMEDOUT | EINPROGRESS | EBADFD
| EOTHER

text \<open>The retry test of the I/O loops: \<open>errno == EINTR || errno == EAGAIN\<close>.\<close>

definition soft_errno :: "errno \<Rightarrow> bool" where
  "soft_errno e = (e = EINTR \<or> e = EAGAIN)"

lemma soft_errno_simps [simp, vt_run]:
  "soft_errno EINTR" "soft_errno EAGAIN" "\<not> soft_errno ENOBUFS" "\<not> soft_errno EOTHER"
  by (simp_all add: soft_errno_def)

text \<open>Narrowing a \<open>long\<close> to \<open>int\<close> keeps the low 32 bits, read as two's complement.\<close>

definition to_int32 :: "int \<Rightarrow> int" where
  "to_int32 i = signed_take_bit 31 i"

lemma to_int32_id: "- (2 ^ 31) \<le> i \<Longrightarrow> i < 2 ^ 31 \<Longrightarrow> to_int32 i = i"
  by (simp add: to_int32_def signed_take_bit_int_eq_self_iff)

lemma to_int32_range: "- (2 ^ 31) \<le> to_int32 i \<and> to_int32 i < 2 ^ 31"
  by (simp add: to_int32_def signed_take_bit_int_greater_eq_minus_exp
      signed_take_bit_int_less_exp del: power_numeral)

text \<open>A byte below 128 keeps its value as a \<open>char\<close>, which is signed.\<close>

lemma sint_small_byte: "k < 128 \<Longrightarrow> sint (word_of_nat k :: byte) = int k"
  by (simp add: signed_of_nat signed_take_bit_int_eq_self_iff)

text \<open>One turn of a loop: go on, leave the loop, or undefined behaviour in the C source.\<close>

datatype 'a turn = Continue 'a | Break 'a | Crash

text \<open>A single bit of a flag word, tested and kept.\<close>

lemma and_single_bit: "(if w AND 2 ^ n \<noteq> 0 then 2 ^ n else 0) = w AND 2 ^ n" for w :: flags
proof -
  have "w AND 2 ^ n = (if bit w n then 2 ^ n else 0)"
    by (rule bit_word_eqI) (auto simp: bit_simps)
  then show ?thesis by (simp split: if_splits)
qed

subsection \<open>C strings\<close>

text \<open>The string held in a buffer: everything before the first NUL.\<close>

definition NUL :: char where
  "NUL = CHR 0x00"

definition cstr :: "char list \<Rightarrow> string" where
  "cstr b = takeWhile (\<lambda>c. c \<noteq> NUL) b"

definition nul_free :: "string \<Rightarrow> bool" where
  "nul_free s = (NUL \<notin> set s)"

lemma nul_free_simps [simp]:
  "nul_free []"
  "nul_free (c # s) = (c \<noteq> NUL \<and> nul_free s)"
  "nul_free (s @ t) = (nul_free s \<and> nul_free t)"
  by (auto simp: nul_free_def)

lemma cstr_append_nul: "nul_free s \<Longrightarrow> cstr (s @ NUL # r) = s"
  by (induction s) (auto simp: cstr_def)

lemma cstr_id: "nul_free s \<Longrightarrow> cstr s = s"
  by (induction s) (auto simp: cstr_def)

lemma nul_free_cstr [simp]: "nul_free (cstr b)"
  by (auto simp: cstr_def nul_free_def dest: set_takeWhileD)

lemma nul_free_take: "nul_free s \<Longrightarrow> nul_free (take n s)"
  by (auto simp: nul_free_def dest: in_set_takeD)

text \<open>\<open>strchr(s, c)\<close>: the suffix of \<open>s\<close> that starts at the first \<open>c\<close>.\<close>

definition strchr :: "string \<Rightarrow> char \<Rightarrow> string option" where
  "strchr s c = (case dropWhile (\<lambda>x. x \<noteq> c) s of [] \<Rightarrow> None | y # ys \<Rightarrow> Some (y # ys))"

lemma strchr_skip: "c \<notin> set s \<Longrightarrow> strchr (s @ c # r) c = Some (c # r)"
  by (induction s) (auto simp: strchr_def)

lemma strchr_Some_hd: "strchr s c = Some r \<Longrightarrow> \<exists>t. r = c # t"
proof -
  assume a: "strchr s c = Some r"
  then obtain y ys where d: "dropWhile (\<lambda>x. x \<noteq> c) s = y # ys" and r: "r = y # ys"
    by (auto simp: strchr_def split: list.splits)
  from d have "y = c" using hd_dropWhile [of "\<lambda>x. x \<noteq> c" s] by auto
  with r show ?thesis by blast
qed

text \<open>\<open>!strncmp(s, t, n)\<close>: the first \<open>n\<close> characters agree, a NUL ends the comparison.\<close>

definition strn_eq :: "string \<Rightarrow> string \<Rightarrow> nat \<Rightarrow> bool" where
  "strn_eq s t n = (take n s = take n t)"

text \<open>
  \<open>strtok(s, delims)\<close> on a fresh string: \<open>None\<close> when only delimiters are left; otherwise the
  C string that starts at \<open>s\<close> after the call (the NUL written behind the token shortens it), the
  token, and what a following \<open>strtok(NULL, ...)\<close> continues with.
\<close>

definition strtok :: "string \<Rightarrow> string \<Rightarrow> (string \<times> string \<times> string) option" where
  "strtok delims s =
     (let lead = takeWhile (\<lambda>c. c \<in> set delims) s;
          r = dropWhile (\<lambda>c. c \<in> set delims) s;
          tok = takeWhile (\<lambda>c. c \<notin> set delims) r
      in if r = [] then None
         else Some (lead @ tok, tok, drop 1 (dropWhile (\<lambda>c. c \<notin> set delims) r)))"

lemma strtok_token_then_delim:
  assumes "t \<noteq> []" and "set t \<inter> set ds = {}" and "d \<in> set ds"
  shows "strtok ds (t @ d # r) = Some (t, t, r)"
proof -
  from assms have "takeWhile (\<lambda>c. c \<in> set ds) (t @ d # r) = []"
    and "dropWhile (\<lambda>c. c \<in> set ds) (t @ d # r) = t @ d # r"
    by (cases t; auto)+
  moreover have "takeWhile (\<lambda>c. c \<notin> set ds) (t @ d # r) = t"
    "dropWhile (\<lambda>c. c \<notin> set ds) (t @ d # r) = d # r"
    using assms by (simp_all add: takeWhile_append2 dropWhile_append2 disjoint_iff)
  ultimately show ?thesis by (simp add: strtok_def)
qed

lemma strtok_whole:
  assumes "t \<noteq> []" and "set t \<inter> set ds = {}"
  shows "strtok ds t = Some (t, t, [])"
proof -
  have 1: "takeWhile (\<lambda>c. c \<in> set ds) t = []" "dropWhile (\<lambda>c. c \<in> set ds) t = t"
    using assms by (cases t; auto)+
  have 2: "takeWhile (\<lambda>c. c \<notin> set ds) t = t" "dropWhile (\<lambda>c. c \<notin> set ds) t = []"
    using assms(2) by (simp_all add: disjoint_iff)
  show ?thesis using assms(1) by (simp add: strtok_def Let_def 1 2)
qed

lemma strtok_skip:
  assumes "d \<in> set ds"
  shows "strtok ds (d # s) = map_option (\<lambda>(b, t, r). (d # b, t, r)) (strtok ds s)"
  using assms by (simp add: strtok_def Let_def)

subsection \<open>Decimal numbers: \<open>sprintf("%d")\<close> and \<open>strtol\<close>\<close>

definition digits10 :: string where
  "digits10 = ''0123456789''"

fun show_nat :: "nat \<Rightarrow> string" where
  "show_nat n = (if n < 10 then [digits10 ! n] else show_nat (n div 10) @ [digits10 ! (n mod 10)])"

declare show_nat.simps [simp del]

lemmas [vt_run] = show_nat.simps digits10_def

definition show_int :: "int \<Rightarrow> string" where
  "show_int i = (if i < 0 then CHR ''-'' # show_nat (nat (- i)) else show_nat (nat i))"

definition is_digit :: "char \<Rightarrow> bool" where
  "is_digit c = (c \<in> set digits10)"

definition digit_val :: "char \<Rightarrow> int" where
  "digit_val c = of_char c - 48"

definition isspace :: "char \<Rightarrow> bool" where
  "isspace c = (c = CHR '' '' \<or> (9 \<le> (of_char c :: nat) \<and> (of_char c :: nat) \<le> 13))"

text \<open>The digits at the front of a string, accumulated, and the rest.\<close>

fun read_digits :: "int \<Rightarrow> string \<Rightarrow> int \<times> string" where
  "read_digits acc [] = (acc, [])"
| "read_digits acc (c # s) =
     (if is_digit c then read_digits (10 * acc + digit_val c) s else (acc, c # s))"

text \<open>\<open>strtol\<close> saturates at the ends of \<open>long\<close> (64 bits).\<close>

definition clamp_long :: "int \<Rightarrow> int" where
  "clamp_long v = max (- (2 ^ 63)) (min (2 ^ 63 - 1) v)"

text \<open>
  \<open>strtol(s, &p, 10)\<close>: the value and the string at \<open>p\<close>. With no digits the value is 0 and
  \<open>p\<close> stays at \<open>s\<close>.
\<close>

definition strtol :: "string \<Rightarrow> int \<times> string" where
  "strtol s =
     (let s1 = dropWhile isspace s;
          neg = (s1 \<noteq> [] \<and> hd s1 = CHR ''-'');
          s2 = (if s1 \<noteq> [] \<and> (hd s1 = CHR ''-'' \<or> hd s1 = CHR ''+'') then tl s1 else s1)
      in if s2 = [] \<or> \<not> is_digit (hd s2) then (0, s)
         else (case read_digits 0 s2 of
                 (v, r) \<Rightarrow> (clamp_long (if neg then - v else v), r)))"

lemma digit_cases: "n < 10 \<Longrightarrow> n \<in> {0, 1, 2, 3, 4, 5, 6, 7, 8, 9 :: nat}"
  by auto

lemma digits10_nth:
  assumes "n < 10"
  shows "is_digit (digits10 ! n)" and "digit_val (digits10 ! n) = int n"
    and "digits10 ! n \<noteq> NUL" and "\<not> isspace (digits10 ! n)"
    and "digits10 ! n \<noteq> CHR ''-''" and "digits10 ! n \<noteq> CHR ''+''"
  using digit_cases [OF assms]
  by (auto simp: is_digit_def digit_val_def digits10_def NUL_def isspace_def)

lemma read_digits_append_digit:
  "(\<forall>c \<in> set s. is_digit c) \<Longrightarrow> read_digits a (s @ r) = read_digits (fst (read_digits a s)) r"
  by (induction s arbitrary: a) auto

lemma show_nat_props:
  "show_nat n \<noteq> [] \<and> (\<forall>c \<in> set (show_nat n). is_digit c)
   \<and> fst (read_digits 0 (show_nat n)) = int n"
proof (induction n rule: show_nat.induct)
  case (1 n)
  show ?case
  proof (cases "n < 10")
    case True
    then show ?thesis by (simp add: show_nat.simps [of n] digits10_nth)
  next
    case False
    with 1 have IH: "\<forall>c \<in> set (show_nat (n div 10)). is_digit c"
      "fst (read_digits 0 (show_nat (n div 10))) = int (n div 10)" by auto
    have m: "n mod 10 < 10" by simp
    have "fst (read_digits 0 (show_nat (n div 10) @ [digits10 ! (n mod 10)]))
            = 10 * int (n div 10) + int (n mod 10)"
      using IH m by (simp add: read_digits_append_digit digits10_nth)
    also have "\<dots> = int n" by presburger
    finally show ?thesis
      using False IH m by (simp add: show_nat.simps [of n] digits10_nth)
  qed
qed

lemma show_nat_digits: "c \<in> set (show_nat n) \<Longrightarrow> is_digit c"
  using show_nat_props by blast

lemma digit_not_special:
  "is_digit c \<Longrightarrow> c \<noteq> NUL \<and> c \<noteq> CHR ''-'' \<and> c \<noteq> CHR ''+'' \<and> \<not> isspace c
     \<and> c \<noteq> CHR ''<'' \<and> c \<noteq> CHR ''>'' \<and> c \<noteq> CHR 0x0A"
  by (auto simp: is_digit_def digits10_def NUL_def isspace_def)

lemma show_int_nul_free: "nul_free (show_int i)"
  using digit_not_special [OF show_nat_digits]
  by (auto simp: show_int_def nul_free_def NUL_def)

text \<open>Reading back a printed number: the round trip the flag strings rely on.\<close>

lemma read_digits_show_nat:
  assumes "r = [] \<or> \<not> is_digit (hd r)"
  shows "read_digits 0 (show_nat n @ r) = (int n, r)"
proof -
  have "read_digits (int n) r = (int n, r)"
    using assms by (cases r) auto
  then show ?thesis
    using show_nat_props [of n] by (simp add: read_digits_append_digit)
qed

lemma strtol_show_int:
  assumes r: "r = [] \<or> \<not> is_digit (hd r)" and "- (2 ^ 31) \<le> i" and "i < 2 ^ 31"
  shows "strtol (show_int i @ r) = (i, r)"
proof -
  obtain d ds where n: "show_nat (nat \<bar>i\<bar>) = d # ds" and d: "is_digit d"
    using show_nat_props [of "nat \<bar>i\<bar>"] by (cases "show_nat (nat \<bar>i\<bar>)") auto
  have rd: "read_digits 0 (d # (ds @ r)) = (\<bar>i\<bar>, r)"
    using read_digits_show_nat [OF r, of "nat \<bar>i\<bar>"] n by simp
  have cl: "clamp_long i = i"
    using assms(2,3) by (simp add: clamp_long_def)
  note sp = digit_not_special [OF d]
  have min: "\<not> isspace (CHR ''-'')" by (simp add: isspace_def)
  show ?thesis
  proof (cases "i < 0")
    case True
    then have "show_int i @ r = CHR ''-'' # d # (ds @ r)"
      using n by (simp add: show_int_def)
    with True rd cl d min show ?thesis by (simp add: strtol_def del: read_digits.simps)
  next
    case False
    then have "show_int i @ r = d # (ds @ r)"
      using n by (simp add: show_int_def)
    with False rd cl d sp show ?thesis by (simp add: strtol_def del: read_digits.simps)
  qed
qed

lemma strtol_no_number:
  "\<not> isspace c \<Longrightarrow> \<not> is_digit c \<Longrightarrow> c \<noteq> CHR ''-'' \<Longrightarrow> c \<noteq> CHR ''+'' \<Longrightarrow> strtol (c # s) = (0, c # s)"
  by (simp add: strtol_def)

text \<open>Length of a printed number, for the sizes of the fixed buffers.\<close>

lemma length_show_nat_le: "n < 10 ^ Suc k \<Longrightarrow> length (show_nat n) \<le> Suc k"
proof (induction k arbitrary: n)
  case 0
  then show ?case by (simp add: show_nat.simps [of n])
next
  case (Suc k)
  show ?case
  proof (cases "n < 10")
    case True
    then show ?thesis by (simp add: show_nat.simps [of n])
  next
    case False
    from Suc.prems have "n div 10 < 10 ^ Suc k"
      by (simp add: less_mult_imp_div_less mult.commute)
    with Suc.IH have "length (show_nat (n div 10)) \<le> Suc k" by blast
    with False show ?thesis by (simp add: show_nat.simps [of n])
  qed
qed

end
