(* ===== verification/VtunHost.thy ===== *)
theory VtunHost
  imports CBase
begin

section \<open>Shared data of the daemon (\<open>vtun.h\<close>)\<close>

text \<open>
  The constants and structures of \<open>vtun.h\<close>. A pointer to a string that may be NULL is a
  \<^typ>\<open>string option\<close>; the two command lists of a host are lists of commands (the pointer
  structure behind an \<open>llist\<close> is the subject of theory LList). Flag words are 32-bit words, the
  statistics counters (\<open>unsigned long\<close>) 64-bit words.
\<close>

subsection \<open>Constants\<close>

definition VTUN_PORT :: int where [simp]: "VTUN_PORT = 5000"
definition VTUN_CONNECT_TIMEOUT :: int where [simp]: "VTUN_CONNECT_TIMEOUT = 30"
definition VTUN_TIMEOUT :: int where [simp]: "VTUN_TIMEOUT = 30"
definition VTUN_STAT_IVAL :: int where [simp]: "VTUN_STAT_IVAL = 5 * 60"

definition VTUN_CMD_WAIT :: int where [simp]: "VTUN_CMD_WAIT = 1"
definition VTUN_CMD_DELAY :: int where [simp]: "VTUN_CMD_DELAY = 2"
definition VTUN_ADDR_IFACE :: int where [simp]: "VTUN_ADDR_IFACE = 1"
definition VTUN_ADDR_NAME :: int where [simp]: "VTUN_ADDR_NAME = 2"

definition VTUN_TTY :: flags where [simp]: "VTUN_TTY = 0x0100"
definition VTUN_PIPE :: flags where [simp]: "VTUN_PIPE = 0x0200"
definition VTUN_ETHER :: flags where [simp]: "VTUN_ETHER = 0x0400"
definition VTUN_TUN :: flags where [simp]: "VTUN_TUN = 0x0800"
definition VTUN_TYPE_MASK :: flags where
  [simp]: "VTUN_TYPE_MASK = VTUN_TTY OR VTUN_PIPE OR VTUN_ETHER OR VTUN_TUN"

definition VTUN_TCP :: flags where [simp]: "VTUN_TCP = 0x0010"
definition VTUN_UDP :: flags where [simp]: "VTUN_UDP = 0x0020"
definition VTUN_PROT_MASK :: flags where [simp]: "VTUN_PROT_MASK = VTUN_TCP OR VTUN_UDP"
definition VTUN_KEEP_ALIVE :: flags where [simp]: "VTUN_KEEP_ALIVE = 0x0040"

definition VTUN_ZLIB :: flags where [simp]: "VTUN_ZLIB = 0x0001"
definition VTUN_LZO :: flags where [simp]: "VTUN_LZO = 0x0002"
definition VTUN_SHAPE :: flags where [simp]: "VTUN_SHAPE = 0x0004"
definition VTUN_ENCRYPT :: flags where [simp]: "VTUN_ENCRYPT = 0x0008"

definition VTUN_LEGACY_ENCRYPT :: int where [simp]: "VTUN_LEGACY_ENCRYPT = 999"

definition VTUN_CLNT_MASK :: flags where [simp]: "VTUN_CLNT_MASK = 0xf000"
definition VTUN_STAT :: flags where [simp]: "VTUN_STAT = 0x1000"
definition VTUN_PERSIST :: flags where [simp]: "VTUN_PERSIST = 0x2000"

definition VTUN_NAT_HACK_CLIENT :: flags where [simp]: "VTUN_NAT_HACK_CLIENT = 0x4000"
definition VTUN_NAT_HACK_SERVER :: flags where [simp]: "VTUN_NAT_HACK_SERVER = 0x8000"
definition VTUN_NAT_HACK_MASK :: flags where
  [simp]: "VTUN_NAT_HACK_MASK = VTUN_NAT_HACK_CLIENT OR VTUN_NAT_HACK_SERVER"

definition VTUN_FRAME_SIZE :: nat where [simp]: "VTUN_FRAME_SIZE = 2048"
definition VTUN_FRAME_OVERHEAD :: nat where [simp]: "VTUN_FRAME_OVERHEAD = 100"
definition VTUN_FSIZE_MASK :: int where [simp]: "VTUN_FSIZE_MASK = 0x0fff"
definition VTUN_CONN_CLOSE :: int where [simp]: "VTUN_CONN_CLOSE = 0x1000"
definition VTUN_ECHO_REQ :: int where [simp]: "VTUN_ECHO_REQ = 0x2000"
definition VTUN_ECHO_REP :: int where [simp]: "VTUN_ECHO_REP = 0x4000"
definition VTUN_BAD_FRAME :: int where [simp]: "VTUN_BAD_FRAME = 0x8000"

definition VTUN_MULTI_DENY :: int where [simp]: "VTUN_MULTI_DENY = 0"
definition VTUN_MULTI_ALLOW :: int where [simp]: "VTUN_MULTI_ALLOW = 1"
definition VTUN_MULTI_KILL :: int where [simp]: "VTUN_MULTI_KILL = 2"
definition VTUN_PERSIST_KEEPIF :: int where [simp]: "VTUN_PERSIST_KEEPIF = 2"
definition VTUN_SIG_TERM :: int where [simp]: "VTUN_SIG_TERM = 1"
definition VTUN_SIG_HUP :: int where [simp]: "VTUN_SIG_HUP = 2"
definition VTUN_STAND_ALONE :: int where [simp]: "VTUN_STAND_ALONE = 0"
definition VTUN_INETD :: int where [simp]: "VTUN_INETD = 1"

subsection \<open>Structures\<close>

record vtun_sopt =
  so_dev :: "string option"
  so_laddr :: "string option"
  so_lport :: int
  so_raddr :: "string option"
  so_rport :: int
  so_host :: "string option"

record vtun_stat =
  byte_in :: "64 word"
  byte_out :: "64 word"
  comp_in :: "64 word"
  comp_out :: "64 word"

record vtun_cmd =
  prog :: "string option"
  args :: "string option"
  cmd_flags :: int

record vtun_addr =
  ad_name :: "string option"
  ad_ip :: "string option"
  ad_port :: int
  ad_type :: int

record vtun_host =
  vh_host :: string
  vh_passwd :: "string option"
  vh_dev :: "string option"
  vh_up :: "vtun_cmd list"
  vh_down :: "vtun_cmd list"
  vh_flags :: flags
  vh_timeout :: int
  spd_in :: int
  spd_out :: int
  zlevel :: int
  cipher :: int
  rmt_fd :: int
  loc_fd :: int
  vh_persist :: int
  vh_multi :: int
  ka_interval :: int
  ka_maxfail :: int
  src_addr :: vtun_addr
  vh_stat :: vtun_stat
  vh_sopt :: vtun_sopt

text \<open>A flag is set, \<open>host->flags & F\<close> as a C condition.\<close>

definition has_flag :: "vtun_host \<Rightarrow> flags \<Rightarrow> bool" where
  "has_flag h f = (vh_flags h AND f \<noteq> 0)"

text \<open>A host with every field zero, as \<open>memset\<close> leaves it, and the defaults \<open>main\<close> sets on it.\<close>

definition zero_addr :: vtun_addr where
  "zero_addr = \<lparr>ad_name = None, ad_ip = None, ad_port = 0, ad_type = 0\<rparr>"

definition zero_stat :: vtun_stat where
  "zero_stat = \<lparr>byte_in = 0, byte_out = 0, comp_in = 0, comp_out = 0\<rparr>"

definition zero_sopt :: vtun_sopt where
  "zero_sopt = \<lparr>so_dev = None, so_laddr = None, so_lport = 0, so_raddr = None, so_rport = 0,
     so_host = None\<rparr>"

definition zero_host :: vtun_host where
  "zero_host = \<lparr>vh_host = [], vh_passwd = None, vh_dev = None, vh_up = [], vh_down = [],
     vh_flags = 0, vh_timeout = 0, spd_in = 0, spd_out = 0, zlevel = 0, cipher = 0,
     rmt_fd = 0, loc_fd = 0, vh_persist = 0, vh_multi = 0, ka_interval = 0, ka_maxfail = 0,
     src_addr = zero_addr, vh_stat = zero_stat, vh_sopt = zero_sopt\<rparr>"

definition default_host :: vtun_host where
  "default_host = zero_host\<lparr>vh_flags := VTUN_TTY OR VTUN_TCP, vh_multi := VTUN_MULTI_ALLOW,
     vh_timeout := VTUN_CONNECT_TIMEOUT, ka_interval := 30, ka_maxfail := 4,
     loc_fd := - 1, rmt_fd := - 1\<rparr>"

text \<open>The global options, \<open>struct vtun_opts\<close>.\<close>

record vtun_opts =
  o_timeout :: int
  o_persist :: int
  o_cfg_file :: string
  o_shell :: "string option"
  o_ppp :: "string option"
  o_ifcfg :: "string option"
  o_route :: "string option"
  o_fwall :: "string option"
  o_iproute :: "string option"
  o_svr_name :: "string option"
  o_svr_addr :: "string option"
  o_bind_addr :: vtun_addr
  o_svr_type :: int
  o_syslog :: int
  o_quiet :: int

end
