(* ===== verification/Process.thy ===== *)
theory Process
  imports VtunHost
begin

section \<open>Processes as programs of system calls\<close>

text \<open>
  The parts of the daemon that mostly talk to the system (locks, network set-up) are trees of
  system calls: \<open>Ask c k\<close> makes the call \<open>c\<close> and goes on with \<open>k\<close> on what the call returns.
  A tree can be run alone against a model of the system, or its calls can be interleaved
  with those of other processes. \<open>Fault\<close> is undefined behaviour of the C source.
\<close>

datatype ('q, 'a, 'r) prog = Ret 'r | Fault | Ask 'q "'a \<Rightarrow> ('q, 'a, 'r) prog"

primrec bind_prog :: "('q, 'a, 'r) prog \<Rightarrow> ('r \<Rightarrow> ('q, 'a, 's) prog) \<Rightarrow> ('q, 'a, 's) prog" where
  "bind_prog (Ret r) f = f r"
| "bind_prog Fault f = Fault"
| "bind_prog (Ask q k) f = Ask q (\<lambda>a. bind_prog (k a) f)"

text \<open>Running a program alone, on a system that answers one call at a time.\<close>

primrec run_prog :: "('q \<Rightarrow> 'w \<Rightarrow> 'a \<times> 'w) \<Rightarrow> ('q, 'a, 'r) prog \<Rightarrow> 'w \<Rightarrow> ('r \<times> 'w) option" where
  "run_prog sys (Ret r) w = Some (r, w)"
| "run_prog sys Fault w = None"
| "run_prog sys (Ask q k) w = (case sys q w of (a, w') \<Rightarrow> run_prog sys (k a) w')"

lemma run_bind [simp]:
  "run_prog sys (bind_prog p f) w
    = (case run_prog sys p w of None \<Rightarrow> None | Some (r, w') \<Rightarrow> run_prog sys (f r) w')"
  by (induction p arbitrary: w) (auto split: prod.splits)

lemma bind_assoc [simp]: "bind_prog (bind_prog p f) g = bind_prog p (\<lambda>r. bind_prog (f r) g)"
  by (induction p) auto

lemma bind_Ret [simp]: "bind_prog p Ret = p"
  by (induction p) auto

text \<open>
  Running it against a list of answers: \<open>step\<close> says which answers the system may give to a call in its
  state, and what becomes of the state. The result is \<^const>\<open>None\<close> when the list is not such a
  sequence of answers; a \<^const>\<open>Fault\<close> shows as the result \<^const>\<open>None\<close> inside.
\<close>

primrec replay :: "('w \<Rightarrow> 'q \<Rightarrow> 'a \<Rightarrow> 'w option) \<Rightarrow> ('q, 'a, 'r) prog \<Rightarrow> 'a list \<Rightarrow> 'w \<Rightarrow> ('r option \<times> 'w) option" where
  "replay step (Ret r) as w = Some (Some r, w)"
| "replay step Fault as w = Some (None, w)"
| "replay step (Ask q k) as w =
     (case as of
        [] \<Rightarrow> None
      | a # as' \<Rightarrow> (case step w q a of None \<Rightarrow> None | Some w' \<Rightarrow> replay step (k a) as' w'))"

text \<open>The weakest precondition: whatever the system answers, there is no fault and \<open>Q\<close> holds at the end.\<close>

primrec wp :: "('w \<Rightarrow> 'q \<Rightarrow> 'a \<Rightarrow> 'w option) \<Rightarrow> ('q, 'a, 'r) prog \<Rightarrow> 'w \<Rightarrow> ('r \<Rightarrow> 'w \<Rightarrow> bool) \<Rightarrow> bool" where
  "wp step (Ret r) w Q = Q r w"
| "wp step Fault w Q = False"
| "wp step (Ask q k) w Q = (\<forall>a w'. step w q a = Some w' \<longrightarrow> wp step (k a) w' Q)"

lemma wp_bind [simp]: "wp step (bind_prog p f) w Q = wp step p w (\<lambda>r w'. wp step (f r) w' Q)"
  by (induction p arbitrary: w) auto

lemma wp_mono: "wp step p w Q \<Longrightarrow> (\<And>r w'. Q r w' \<Longrightarrow> R r w') \<Longrightarrow> wp step p w R"
  by (induction p arbitrary: w) auto

lemma wp_replay: "wp step p w Q \<Longrightarrow> replay step p as w = Some (x, w') \<Longrightarrow> \<exists>r. x = Some r \<and> Q r w'"
proof (induction p arbitrary: w as)
  case (Ask q k)
  then show ?case by (auto split: list.splits option.splits) blast
qed auto

text \<open>The same for the runs that meet no \<^const>\<open>Fault\<close>.\<close>

primrec wlp :: "('w \<Rightarrow> 'q \<Rightarrow> 'a \<Rightarrow> 'w option) \<Rightarrow> ('q, 'a, 'r) prog \<Rightarrow> 'w \<Rightarrow> ('r \<Rightarrow> 'w \<Rightarrow> bool) \<Rightarrow> bool" where
  "wlp step (Ret r) w Q = Q r w"
| "wlp step Fault w Q = True"
| "wlp step (Ask q k) w Q = (\<forall>a w'. step w q a = Some w' \<longrightarrow> wlp step (k a) w' Q)"

lemma wlp_bind [simp]: "wlp step (bind_prog p f) w Q = wlp step p w (\<lambda>r w'. wlp step (f r) w' Q)"
  by (induction p arbitrary: w) auto

lemma wlp_mono: "wlp step p w Q \<Longrightarrow> (\<And>r w'. Q r w' \<Longrightarrow> R r w') \<Longrightarrow> wlp step p w R"
  by (induction p arbitrary: w) auto

lemma wp_wlp: "wp step p w Q \<Longrightarrow> wlp step p w Q"
  by (induction p arbitrary: w) auto

lemma wlp_replay: "wlp step p w Q \<Longrightarrow> replay step p as w = Some (Some r, w') \<Longrightarrow> Q r w'"
proof (induction p arbitrary: w as)
  case (Ask q k)
  then show ?case by (auto split: list.splits option.splits) blast
qed auto

text \<open>A program of a smaller set of calls as one of a larger set.\<close>

primrec embed :: "('q \<Rightarrow> 'p) \<Rightarrow> ('b \<Rightarrow> 'a) \<Rightarrow> ('q, 'a, 'r) prog \<Rightarrow> ('p, 'b, 'r) prog" where
  "embed f g (Ret r) = Ret r"
| "embed f g Fault = Fault"
| "embed f g (Ask q k) = Ask (f q) (\<lambda>b. embed f g (k (g b)))"

text \<open>What a call returns: its value, \<open>errno\<close> when it fails, and bytes it stores.\<close>

record ans =
  a_ret :: int
  a_errno :: errno
  a_data :: string

definition succeeded :: "int \<Rightarrow> ans" where
  "succeeded r = \<lparr>a_ret = r, a_errno = EOTHER, a_data = []\<rparr>"

definition failed :: "errno \<Rightarrow> ans" where
  "failed e = \<lparr>a_ret = - 1, a_errno = e, a_data = []\<rparr>"

lemma ans_simps [simp]:
  "a_ret (succeeded r) = r" "a_data (succeeded r) = []" "a_ret (failed e) = - 1" "a_errno (failed e) = e"
  "a_data (failed e) = []"
  by (simp_all add: succeeded_def failed_def)

end
