(* ===== verification/Lock.thy ===== *)
theory Lock
  imports Process
begin

section \<open>Host locks (\<open>lock.c\<close>)\<close>

text \<open>
  A host that allows one connection at a time has a lock file with the number of the process that
  serves it. The functions of \<open>lock.c\<close> are programs of system calls on a directory of files and a
  table of processes. A file is a name with its content: the code writes a temporary file of its
  own and \<open>link\<close>s it into place, and never writes a file after that, so a hard link can be a copy,
  and a descriptor opened for reading the content of its file.
\<close>

datatype lock_sig = Sig_0 | Sig_TERM | Sig_KILL

datatype lock_call =
    Open_new string
  | Write_file string string
  | Link string string
  | Unlink string
  | Open_rd string
  | Read_content string nat
  | Close_fd
  | Kill int lock_sig
  | Nanosleep

type_synonym 'r lprog = "(lock_call, ans, 'r) prog"

subsection \<open>The functions\<close>

definition lock_tmp :: "int \<Rightarrow> string \<Rightarrow> string" where
  "lock_tmp pid file = file @ ''_'' @ show_int pid @ ''_tmp'' @ [CHR 0x0A]"

definition lock_text :: "int \<Rightarrow> string" where
  "lock_text pid = show_int pid @ [CHR 0x0A]"

definition create_lock :: "int \<Rightarrow> string \<Rightarrow> int lprog" where
  "create_lock pid file =
     (let tmp_file = lock_tmp pid file;
          str = lock_text pid;
          finish = (\<lambda>ret. Ask Close_fd (\<lambda>_. Ask (Unlink tmp_file) (\<lambda>_. Ret ret)))
      in if 255 \<le> length tmp_file then Fault
         else Ask (Open_new tmp_file) (\<lambda>a.
           if a_ret a < 0 then Ret (- 1)
           else Ask (Write_file tmp_file str) (\<lambda>b.
             if a_ret b = int (length str)
             then Ask (Link tmp_file file) (\<lambda>c. finish (if a_ret c < 0 then - 1 else 0))
             else finish (- 1))))"

text \<open>\<open>strtol\<close> reports an overflow of \<open>long\<close>.\<close>

definition strtol_over :: "string \<Rightarrow> bool" where
  "strtol_over s =
     (let s1 = dropWhile isspace s;
          neg = (s1 \<noteq> [] \<and> hd s1 = CHR ''-'');
          s2 = (if s1 \<noteq> [] \<and> (hd s1 = CHR ''-'' \<or> hd s1 = CHR ''+'') then tl s1 else s1);
          v = (if neg then - fst (read_digits 0 s2) else fst (read_digits 0 s2))
      in clamp_long v \<noteq> v)"

text \<open>
  \<open>read_lock\<close>: \<open>junk\<close> is what the buffer \<open>str\<close> holds before \<open>read\<close> stores into it, and \<open>e\<close> the value
  of \<open>errno\<close> when the function is entered, which nothing resets before it is compared with
  \<open>ERANGE\<close>.
\<close>

definition read_lock :: "string \<Rightarrow> errno \<Rightarrow> string \<Rightarrow> int lprog" where
  "read_lock junk e file =
     Ask (Open_rd file) (\<lambda>a.
       if a_ret a < 0 then Ret (- 1)
       else Ask (Read_content (a_data a) 20) (\<lambda>b. Ask Close_fd (\<lambda>_.
         if a_ret b \<le> 0 then Ret (- 1)
         else (let str = cstr (take 19 (a_data b @ drop (length (a_data b)) junk));
                   pid = to_int32 (fst (strtol str))
               in if pid = 0 \<or> strtol_over str \<or> e = ERANGE
                  then Ask (Unlink file) (\<lambda>_. Ret (- 1))
                  else Ask (Kill pid Sig_0) (\<lambda>c.
                    if a_ret c < 0 \<and> a_errno c = ESRCH
                    then Ask (Unlink file) (\<lambda>_. Ret (- 1))
                    else Ret pid)))))"

text \<open>The wait for a process that was asked to end: at most \<open>n\<close> half seconds.\<close>

fun wait_gone :: "nat \<Rightarrow> int \<Rightarrow> unit lprog" where
  "wait_gone 0 pid = Ret ()"
| "wait_gone (Suc n) pid =
     Ask (Kill pid Sig_0) (\<lambda>a. if a_ret a = 0 then Ask Nanosleep (\<lambda>_. wait_gone n pid) else Ret ())"

definition lock_file :: "string \<Rightarrow> vtun_host \<Rightarrow> string" where
  "lock_file dir h = dir @ ''/'' @ vh_host h"

definition lock_host :: "string \<Rightarrow> errno \<Rightarrow> int \<Rightarrow> string \<Rightarrow> vtun_host \<Rightarrow> int lprog" where
  "lock_host junk e self dir h =
     (if vh_multi h = VTUN_MULTI_ALLOW then Ret 0
      else if 255 \<le> length (lock_file dir h) then Fault
      else bind_prog (read_lock junk e (lock_file dir h)) (\<lambda>pid.
        if pid > 0 then
          (if vh_multi h = VTUN_MULTI_KILL then
             Ask (Kill pid Sig_TERM) (\<lambda>a.
               if a_ret a < 0 \<and> a_errno a \<noteq> ESRCH then Ret (- 1)
               else bind_prog (wait_gone 10 pid) (\<lambda>_.
                 Ask (Kill pid Sig_KILL) (\<lambda>b.
                   if a_ret b = 0
                   then Ask (Unlink (lock_file dir h)) (\<lambda>_. create_lock self (lock_file dir h))
                   else create_lock self (lock_file dir h))))
           else if vh_multi h = VTUN_MULTI_DENY then Ret (- 1)
           else create_lock self (lock_file dir h))
        else create_lock self (lock_file dir h)))"

definition unlock_host :: "string \<Rightarrow> vtun_host \<Rightarrow> unit lprog" where
  "unlock_host dir h =
     (if vh_multi h = VTUN_MULTI_ALLOW then Ret ()
      else if 255 \<le> length (lock_file dir h) then Fault
      else Ask (Unlink (lock_file dir h)) (\<lambda>_. Ret ()))"

subsection \<open>The system\<close>

record lock_world =
  lw_files :: "string \<Rightarrow> string option"
  lw_alive :: "int \<Rightarrow> bool"

text \<open>
  One call. With a fault the call fails without an effect (a full disk, a missing permission);
  without one it does what it should. A signal 0 or \<open>SIGTERM\<close> has no effect of its own on the
  table of processes.
\<close>

definition set_file :: "string \<Rightarrow> string option \<Rightarrow> lock_world \<Rightarrow> lock_world" where
  "set_file f c w = w\<lparr>lw_files := (lw_files w)(f := c)\<rparr>"

fun lock_exec :: "errno option \<Rightarrow> lock_call \<Rightarrow> lock_world \<Rightarrow> ans \<times> lock_world" where
  "lock_exec (Some e) (Kill p s) w = (if lw_alive w p then (failed EPERM, w) else (failed ESRCH, w))"
| "lock_exec (Some e) c w = (failed e, w)"
| "lock_exec None (Open_new f) w = (succeeded 3, set_file f (Some []) w)"
| "lock_exec None (Write_file f d) w =
     (succeeded (int (length d)), set_file f (map_option (\<lambda>c. c @ d) (lw_files w f)) w)"
| "lock_exec None (Link a b) w =
     (case lw_files w b of
        Some _ \<Rightarrow> (failed EOTHER, w)
      | None \<Rightarrow> (case lw_files w a of
                   None \<Rightarrow> (failed ENOENT, w)
                 | Some c \<Rightarrow> (succeeded 0, set_file b (Some c) w)))"
| "lock_exec None (Unlink f) w =
     (case lw_files w f of
        None \<Rightarrow> (failed ENOENT, w)
      | Some _ \<Rightarrow> (succeeded 0, set_file f None w))"
| "lock_exec None (Open_rd f) w =
     (case lw_files w f of
        None \<Rightarrow> (failed ENOENT, w)
      | Some c \<Rightarrow> ((succeeded 3)\<lparr>a_data := c\<rparr>, w))"
| "lock_exec None (Read_content c n) w =
     ((succeeded (int (min n (length c))))\<lparr>a_data := take n c\<rparr>, w)"
| "lock_exec None Close_fd w = (succeeded 0, w)"
| "lock_exec None (Kill p s) w =
     (if \<not> lw_alive w p then (failed ESRCH, w)
      else (succeeded 0, if s = Sig_KILL then w\<lparr>lw_alive := (lw_alive w)(p := False)\<rparr> else w))"
| "lock_exec None Nanosleep w = (succeeded 0, w)"

subsection \<open>Lock files\<close>

definition pid_ok :: "int \<Rightarrow> bool" where
  "pid_ok p = (0 < p \<and> p < 2 ^ 31)"

lemma show_int_length: "pid_ok p \<Longrightarrow> length (show_int p) \<le> 10"
  using length_show_nat_le [of "nat p" 9] by (simp add: pid_ok_def show_int_def nat_less_iff)

lemma show_int_inj: "pid_ok p \<Longrightarrow> pid_ok q \<Longrightarrow> show_int p = show_int q \<Longrightarrow> p = q"
  using strtol_show_int [of "[]" p] strtol_show_int [of "[]" q] by (simp add: pid_ok_def)

lemma lock_text_inj: "pid_ok p \<Longrightarrow> pid_ok q \<Longrightarrow> lock_text p = lock_text q \<longleftrightarrow> p = q"
  using show_int_inj by (auto simp: lock_text_def)

lemma lock_tmp_inj: "pid_ok p \<Longrightarrow> pid_ok q \<Longrightarrow> lock_tmp p f = lock_tmp q f \<longleftrightarrow> p = q"
  using show_int_inj by (auto simp: lock_tmp_def)

lemma lock_tmp_other [simp]: "lock_tmp p f \<noteq> f" "f \<noteq> lock_tmp p f"
  by (auto simp: lock_tmp_def)

lemma lock_text_nonempty: "lock_text p \<noteq> []" by (simp add: lock_text_def)

text \<open>A lock file is read back as the number it was written with, whatever the buffer held.\<close>

lemma lock_str:
  assumes "pid_ok p"
  obtains r where "cstr (take 19 (lock_text p @ junk)) = show_int p @ CHR 0x0A # r"
proof -
  have "take 19 (lock_text p @ junk) = lock_text p @ take (19 - length (lock_text p)) junk"
  proof -
    have "length (lock_text p) \<le> 19" using show_int_length [OF assms] by (simp add: lock_text_def)
    then show ?thesis by simp
  qed
  moreover have "c \<in> set (lock_text p) \<Longrightarrow> c \<noteq> NUL" for c
    using show_int_nul_free [of p] by (auto simp: lock_text_def nul_free_def NUL_def)
  then have "cstr (lock_text p @ x) = lock_text p @ cstr x" for x
    by (simp add: cstr_def takeWhile_append2)
  ultimately show thesis using that by (simp add: lock_text_def)
qed

lemma not_digit_nl: "\<not> is_digit (CHR 0x0A)"
  by (simp add: is_digit_def digits10_def)

lemma strtol_lock:
  assumes "pid_ok p"
  shows "to_int32 (fst (strtol (show_int p @ CHR 0x0A # r))) = p"
proof -
  have "strtol (show_int p @ CHR 0x0A # r) = (p, CHR 0x0A # r)"
    by (rule strtol_show_int) (use assms not_digit_nl in \<open>simp_all add: pid_ok_def\<close>)
  then show ?thesis using assms by (simp add: to_int32_id pid_ok_def)
qed

lemma strtol_over_lock:
  assumes "pid_ok p"
  shows "\<not> strtol_over (show_int p @ CHR 0x0A # r)"
proof -
  obtain d ds where n: "show_nat (nat p) = d # ds" and d: "is_digit d"
    using show_nat_props [of "nat p"] by (cases "show_nat (nat p)") auto
  have p: "0 < p" "p < 2 ^ 31" using assms by (simp_all add: pid_ok_def)
  then have sh: "show_int p @ CHR 0x0A # r = d # ds @ CHR 0x0A # r" using n by (simp add: show_int_def)
  have "read_digits 0 (show_nat (nat p) @ CHR 0x0A # r) = (p, CHR 0x0A # r)"
    using read_digits_show_nat [of "CHR 0x0A # r" "nat p"] not_digit_nl p by simp
  then have v: "fst (read_digits 0 (d # ds @ CHR 0x0A # r)) = p" using n by simp
  have "dropWhile isspace (d # ds @ CHR 0x0A # r) = d # ds @ CHR 0x0A # r" "d \<noteq> CHR ''-''" "d \<noteq> CHR ''+''"
    using digit_not_special [OF d] by simp_all
  then show ?thesis unfolding sh strtol_over_def Let_def
    using v p by (simp add: clamp_long_def del: read_digits.simps)
qed

lemma read_back:
  assumes "pid_ok p"
  shows "to_int32 (fst (strtol (cstr (take 19 (lock_text p @ junk))))) = p"
    and "\<not> strtol_over (cstr (take 19 (lock_text p @ junk)))"
    and "take 20 (lock_text p) = lock_text p"
proof -
  obtain r where r: "cstr (take 19 (lock_text p @ junk)) = show_int p @ CHR 0x0A # r"
    using lock_str [OF assms] .
  show "to_int32 (fst (strtol (cstr (take 19 (lock_text p @ junk))))) = p"
    unfolding r by (rule strtol_lock [OF assms])
  show "\<not> strtol_over (cstr (take 19 (lock_text p @ junk)))"
    unfolding r by (rule strtol_over_lock [OF assms])
  show "take 20 (lock_text p) = lock_text p"
    using show_int_length [OF assms] by (simp add: lock_text_def)
qed

subsection \<open>One process alone\<close>

abbreviation alone :: "'r lprog \<Rightarrow> lock_world \<Rightarrow> ('r \<times> lock_world) option" where
  "alone \<equiv> run_prog (lock_exec None)"

lemma set_file_simps [simp]:
  "lw_files (set_file f c w) = (lw_files w)(f := c)" "lw_alive (set_file f c w) = lw_alive w"
  "set_file f c (set_file f d w) = set_file f c w"
  by (simp_all add: set_file_def)

lemma set_file_id: "lw_files w f = c \<Longrightarrow> set_file f c w = w"
  by (auto simp: set_file_def)

lemma set_file_swap: "f \<noteq> g \<Longrightarrow> set_file f c (set_file g d w) = set_file g d (set_file f c w)"
  by (simp add: set_file_def fun_upd_twist)

text \<open>The names fit the code's buffers of 255 bytes.\<close>

definition lock_fits :: "int \<Rightarrow> string \<Rightarrow> bool" where
  "lock_fits p f = (length (lock_tmp p f) < 255)"

lemma lock_fits_file: "lock_fits p f \<Longrightarrow> length f < 255"
  by (simp add: lock_fits_def lock_tmp_def)

lemma create_alone:
  assumes "lock_fits p f" and "lw_files w (lock_tmp p f) = None"
  shows "alone (create_lock p f) w
    = Some (case lw_files w f of None \<Rightarrow> (0, set_file f (Some (lock_text p)) w) | Some _ \<Rightarrow> (- 1, w))"
proof -
  have t: "set_file (lock_tmp p f) None w = w" using set_file_id [OF assms(2)] .
  have sw: "set_file (lock_tmp p f) None (set_file f (Some (lock_text p)) (set_file (lock_tmp p f) x w))
      = set_file f (Some (lock_text p)) w" for x
    using t set_file_swap [OF lock_tmp_other(1), of p f] by simp
  show ?thesis using assms t sw
    by (simp add: create_lock_def Let_def lock_fits_def split: option.splits)
qed

lemma read_alone:
  assumes "e \<noteq> ERANGE" and "lw_files w f = Some (lock_text q)" and "pid_ok q"
  shows "alone (read_lock junk e f) w
    = Some (if lw_alive w q then (q, w) else (- 1, set_file f None w))"
proof -
  have q: "q > 0" "q \<noteq> 0" using assms(3) by (simp_all add: pid_ok_def)
  have n: "min 20 (length (lock_text q)) \<noteq> 0" using lock_text_nonempty [of q] by simp
  note rb = read_back [OF assms(3)]
  show ?thesis using assms(1,2) q n
    by (simp add: read_lock_def Let_def rb min_def del: take_append)
qed

definition deny :: "vtun_host \<Rightarrow> bool" where
  "deny h = (vh_multi h = VTUN_MULTI_DENY)"

text \<open>
  \<open>lock_host\<close> run alone on a host that denies a second connection: the lock file of a living
  process refuses, one of a dead process is replaced, and afterwards the file names the caller and
  the temporary file is gone.
\<close>

theorem lock_host_alone:
  assumes "deny h" and "e \<noteq> ERANGE" and "lock_fits p (lock_file dir h)"
    and "lw_files w (lock_tmp p (lock_file dir h)) = None"
    and "lw_files w (lock_file dir h) = map_option lock_text q" and "\<forall>r. q = Some r \<longrightarrow> pid_ok r"
  shows "alone (lock_host junk e p dir h) w
    = Some (if \<exists>r. q = Some r \<and> lw_alive w r then (- 1, w)
            else (0, set_file (lock_file dir h) (Some (lock_text p)) w))"
proof (cases q)
  case None
  then have f: "lw_files w (lock_file dir h) = None" using assms(5) by simp
  then have "alone (read_lock junk e (lock_file dir h)) w = Some (- 1, w)"
    by (simp add: read_lock_def)
  then show ?thesis using assms None f lock_fits_file [OF assms(3)]
    by (simp add: lock_host_def deny_def create_alone)
next
  case (Some r)
  then have f: "lw_files w (lock_file dir h) = Some (lock_text r)" and r: "pid_ok r" using assms(5,6) by simp_all
  have "0 < r" using r by (simp add: pid_ok_def)
  then show ?thesis using assms(1-4) Some f lock_fits_file [OF assms(3)]
    by (simp add: lock_host_def deny_def create_alone read_alone [OF assms(2) f r])
qed

lemma unlock_alone:
  assumes "vh_multi h \<noteq> VTUN_MULTI_ALLOW" and "length (lock_file dir h) < 255"
  shows "alone (unlock_host dir h) w = Some ((), set_file (lock_file dir h) None w)"
  using assms set_file_id [of w "lock_file dir h" None] by (auto simp: unlock_host_def split: option.splits)

text \<open>A living process that ignores \<open>SIGTERM\<close> is waited for, killed, and its lock taken over.\<close>

lemma wait_alone: "\<exists>u. alone (wait_gone n q) w = Some (u, w)"
  by (induction n) auto

lemma kill_alone:
  assumes "vh_multi h = VTUN_MULTI_KILL" and "e \<noteq> ERANGE" and "lock_fits p (lock_file dir h)"
    and "lw_files w (lock_tmp p (lock_file dir h)) = None"
    and f: "lw_files w (lock_file dir h) = Some (lock_text q)" and q: "pid_ok q" and "lw_alive w q"
  shows "alone (lock_host junk e p dir h) w
    = Some (0, set_file (lock_file dir h) (Some (lock_text p)) (w\<lparr>lw_alive := (lw_alive w)(q := False)\<rparr>))"
proof -
  have "0 < q" using q by (simp add: pid_ok_def)
  moreover have "lock_exec None (Unlink (lock_file dir h)) (w\<lparr>lw_alive := (lw_alive w)(q := False)\<rparr>)
      = (succeeded 0, set_file (lock_file dir h) None (w\<lparr>lw_alive := (lw_alive w)(q := False)\<rparr>))"
    using f by simp
  ultimately show ?thesis using assms lock_fits_file [OF assms(3)] wait_alone [of 10 q w]
    by (auto simp: lock_host_def create_alone read_alone)
qed

text \<open>
  \<open>read_lock\<close> compares \<open>errno\<close> with \<open>ERANGE\<close> after \<open>strtol\<close> without clearing it first: entered with
  \<open>errno\<close> left at \<open>ERANGE\<close>, it takes the lock of a living process for a broken one and removes it, and
  \<open>lock_host\<close> admits a second connection to a host that denies it.
\<close>

theorem stale_errno_unlocks:
  assumes "deny h" and "lock_fits p (lock_file dir h)" and "lw_files w (lock_tmp p (lock_file dir h)) = None"
    and "lw_files w (lock_file dir h) = Some (lock_text q)" and "pid_ok q" and "lw_alive w q"
  shows "alone (lock_host junk ERANGE p dir h) w
    = Some (0, set_file (lock_file dir h) (Some (lock_text p)) w)"
proof -
  have "alone (read_lock junk ERANGE (lock_file dir h)) w = Some (- 1, set_file (lock_file dir h) None w)"
    using assms(4) read_back [OF assms(5)] lock_text_nonempty [of q]
    by (simp add: read_lock_def Let_def min_def del: take_append)
  then show ?thesis using assms lock_fits_file [OF assms(2)]
    by (simp add: lock_host_def deny_def create_alone)
qed

subsection \<open>The properties at work\<close>

definition ex_lock_world :: lock_world where
  "ex_lock_world = \<lparr>lw_files = [''/lock/gw'' \<mapsto> lock_text 7], lw_alive = (\<lambda>p. p = 7)\<rparr>"

definition ex_deny_host :: vtun_host where
  "ex_deny_host = zero_host\<lparr>vh_host := ''gw'', vh_multi := VTUN_MULTI_DENY\<rparr>"

lemma ex_deny:
  "deny ex_deny_host" "lock_file ''/lock'' ex_deny_host = ''/lock/gw''" "lock_fits 8 ''/lock/gw''"
  "lw_files ex_lock_world (lock_tmp 8 ''/lock/gw'') = None"
  "lw_files ex_lock_world ''/lock/gw'' = Some (lock_text 7)" "pid_ok 7" "lw_alive ex_lock_world 7"
proof -
  have "length (show_int 8) \<le> 10" by (rule show_int_length) (simp add: pid_ok_def)
  then show "lock_fits 8 ''/lock/gw''" by (simp add: lock_fits_def lock_tmp_def)
qed (simp_all add: deny_def ex_deny_host_def lock_file_def ex_lock_world_def pid_ok_def lock_tmp_def)

lemma lock_host_alone_witness:
  "alone (lock_host [] ENOENT 8 ''/lock'' ex_deny_host) ex_lock_world = Some (- 1, ex_lock_world)"
  by (rule lock_host_alone [of ex_deny_host ENOENT 8 "''/lock''" ex_lock_world "Some 7" "[]", THEN trans])
    (simp_all add: ex_deny)

lemma stale_errno_unlocks_witness:
  "alone (lock_host [] ERANGE 8 ''/lock'' ex_deny_host) ex_lock_world
    = Some (0, set_file (lock_file ''/lock'' ex_deny_host) (Some (lock_text 8)) ex_lock_world)"
  by (rule stale_errno_unlocks [of ex_deny_host 8 "''/lock''" ex_lock_world 7]) (simp_all add: ex_deny)

end
