(* ===== verification/LockPool.thy ===== *)
theory LockPool
  imports Lock
begin

section \<open>Processes that lock the same host\<close>

text \<open>
  The server forks one process per connection, so several of them may run \<open>lock_host\<close> on one host
  at the same time. Their system calls interleave: a schedule is a list of actions, each a call of
  one process (which may fail), its step from \<open>lock_host\<close> into the session or out of it, or its end.
\<close>

datatype lock_phase = Locking "int lprog" | Holding | Unlocking "unit lprog" | Gone

datatype lock_act = A_call int "errno option" | A_take int | A_leave int | A_exit int

record pool =
  pl_world :: lock_world
  pl_phase :: "int \<Rightarrow> lock_phase"

definition set_phase :: "int \<Rightarrow> lock_phase \<Rightarrow> pool \<Rightarrow> pool" where
  "set_phase p ph s = s\<lparr>pl_phase := (pl_phase s)(p := ph)\<rparr>"

text \<open>
  A connection takes the host when \<open>lock_host\<close> returned 0 (\<open>auth_server\<close> breaks off otherwise), and
  unlocks it at the end of \<open>connection\<close>.
\<close>

definition lock_act :: "string \<Rightarrow> vtun_host \<Rightarrow> lock_act \<Rightarrow> pool \<Rightarrow> pool option" where
  "lock_act dir h act s =
     (case act of
        A_call p flt \<Rightarrow>
          (if \<not> lw_alive (pl_world s) p then None
           else (case pl_phase s p of
              Locking (Ask c k) \<Rightarrow>
                (case lock_exec flt c (pl_world s) of
                   (a, w) \<Rightarrow> Some (set_phase p (Locking (k a)) (s\<lparr>pl_world := w\<rparr>)))
            | Unlocking (Ask c k) \<Rightarrow>
                (case lock_exec flt c (pl_world s) of
                   (a, w) \<Rightarrow> Some (set_phase p (Unlocking (k a)) (s\<lparr>pl_world := w\<rparr>)))
            | _ \<Rightarrow> None))
      | A_take p \<Rightarrow>
          (case pl_phase s p of
             Locking (Ret r) \<Rightarrow> Some (set_phase p (if r < 0 then Gone else Holding) s)
           | _ \<Rightarrow> None)
      | A_leave p \<Rightarrow>
          (case pl_phase s p of
             Holding \<Rightarrow> Some (set_phase p (Unlocking (unlock_host dir h)) s)
           | Unlocking (Ret _) \<Rightarrow> Some (set_phase p Gone s)
           | _ \<Rightarrow> None)
      | A_exit p \<Rightarrow>
          Some (s\<lparr>pl_world := (pl_world s)\<lparr>lw_alive := (lw_alive (pl_world s))(p := False)\<rparr>\<rparr>))"

fun lock_sched :: "string \<Rightarrow> vtun_host \<Rightarrow> lock_act list \<Rightarrow> pool \<Rightarrow> pool option" where
  "lock_sched dir h [] s = Some s"
| "lock_sched dir h (act # acts) s =
     (case lock_act dir h act s of None \<Rightarrow> None | Some s' \<Rightarrow> lock_sched dir h acts s')"

text \<open>All processes at the start of \<open>lock_host\<close>, each with its own stack contents and \<open>errno\<close>.\<close>

definition lock_start :: "(int \<Rightarrow> string) \<Rightarrow> (int \<Rightarrow> errno) \<Rightarrow> int set \<Rightarrow> string \<Rightarrow> vtun_host
    \<Rightarrow> (string \<Rightarrow> string option) \<Rightarrow> pool" where
  "lock_start junk err P dir h files =
     \<lparr>pl_world = \<lparr>lw_files = files, lw_alive = (\<lambda>p. p \<in> P)\<rparr>,
      pl_phase = (\<lambda>p. Locking (lock_host (junk p) (err p) p dir h))\<rparr>"

definition holds_host :: "pool \<Rightarrow> int \<Rightarrow> bool" where
  "holds_host s p = (lw_alive (pl_world s) p \<and> (case pl_phase s p of Holding \<Rightarrow> True | _ \<Rightarrow> False))"

subsection \<open>What a process may do, stage by stage\<close>

text \<open>
  The stages of a process inside \<open>lock_host\<close>: its temporary file is open and empty, written, or
  linked into place. \<open>ok_prog\<close> says which calls a process may make at its stage, for all answers
  the system can give. In the \<open>strict\<close> reading it sends no signal and removes no lock file, since
  the processes \<open>P\<close> that lock files name are all alive.
\<close>

datatype stage = St_none | St_open | St_written | St_won

primrec ok_prog :: "bool \<Rightarrow> int set \<Rightarrow> int \<Rightarrow> string \<Rightarrow> int lprog \<Rightarrow> stage \<Rightarrow> bool" where
  "ok_prog strict P p f (Ret r) = (\<lambda>st. 0 \<le> r \<longrightarrow> st = St_won)"
| "ok_prog strict P p f Fault = (\<lambda>st. True)"
| "ok_prog strict P p f (Ask c k) = (\<lambda>st.
     (case c of
        Open_new t \<Rightarrow> t = lock_tmp p f \<and> st = St_none
          \<and> (\<forall>a. ok_prog strict P p f (k a) (if a_ret a < 0 then St_none else St_open))
      | Write_file t d \<Rightarrow> t = lock_tmp p f \<and> d = lock_text p \<and> st = St_open
          \<and> (\<forall>a. ok_prog strict P p f (k a) (if a_ret a = int (length d) then St_written else St_open))
      | Link t g \<Rightarrow> t = lock_tmp p f \<and> g = f \<and> st = St_written
          \<and> (\<forall>a. ok_prog strict P p f (k a) (if a_ret a < 0 then St_written else St_won))
      | Unlink t \<Rightarrow> (t = lock_tmp p f \<or> \<not> strict \<and> t = f)
          \<and> (\<forall>a. ok_prog strict P p f (k a) (if st = St_won then St_won else St_none))
      | Open_rd g \<Rightarrow> g = f
          \<and> (\<forall>a. (0 \<le> a_ret a \<longrightarrow> a_data a \<in> lock_text ` P) \<longrightarrow> ok_prog strict P p f (k a) st)
      | Read_content x n \<Rightarrow>
          (\<forall>a. a_ret a = - 1 \<or> a_ret a = int (min n (length x)) \<and> a_data a = take n x
             \<longrightarrow> ok_prog strict P p f (k a) st)
      | Kill q g \<Rightarrow> (strict \<longrightarrow> q \<in> P \<and> g = Sig_0)
          \<and> (\<forall>a. (strict \<longrightarrow> a_ret a = 0 \<or> a_errno a \<noteq> ESRCH) \<longrightarrow> ok_prog strict P p f (k a) st)
      | Close_fd \<Rightarrow> (\<forall>a. ok_prog strict P p f (k a) st)
      | Nanosleep \<Rightarrow> (\<forall>a. ok_prog strict P p f (k a) st)))"

lemma ok_create: "ok_prog strict P p f (create_lock p f) St_none"
  by (simp add: create_lock_def Let_def)

lemma ok_wait:
  "(\<And>u. ok_prog False P p f (F u) st) \<Longrightarrow> ok_prog False P p f (bind_prog (wait_gone n q) F) st"
  by (induction n) auto

lemma ok_read:
  assumes P: "\<forall>q\<in>P. pid_ok q" and e: "strict \<Longrightarrow> e \<noteq> ERANGE"
    and F: "\<And>r. (strict \<longrightarrow> r = - 1 \<or> 0 < r) \<Longrightarrow> ok_prog strict P p f (F r) St_none"
  shows "ok_prog strict P p f (bind_prog (read_lock junk e f) F) St_none"
proof -
  have rb: "to_int32 (fst (strtol (cstr (take 19 (lock_text q @ j))))) = q"
    "\<not> strtol_over (cstr (take 19 (lock_text q @ j)))" "take 20 (lock_text q) = lock_text q"
    "q \<noteq> 0" "0 < q" if "q \<in> P" for q j
    using read_back(1,2) [of q j] read_back(3) [of q] P that by (auto simp: pid_ok_def)
  show ?thesis
  proof (cases strict)
    case True
    then have f: "ok_prog True P p f (F (- 1)) St_none" "\<And>r. 0 < r \<Longrightarrow> ok_prog True P p f (F r) St_none"
      and e: "e \<noteq> ERANGE" using F e by auto
    have "ok_prog True P p f (bind_prog (read_lock junk e f) F) St_none"
      by (auto simp: read_lock_def Let_def rb e f simp del: take_append)
    with True show ?thesis by simp
  next
    case False
    then have f: "ok_prog False P p f (F r) St_none" for r using F by auto
    have "ok_prog False P p f (bind_prog (read_lock junk e f) F) St_none"
      by (simp add: read_lock_def Let_def f)
    with False show ?thesis by simp
  qed
qed

lemma ok_lock_host:
  assumes P: "\<forall>q\<in>P. pid_ok q" and "strict \<Longrightarrow> e \<noteq> ERANGE" and "strict \<Longrightarrow> deny h"
    and "vh_multi h \<noteq> VTUN_MULTI_ALLOW"
  shows "ok_prog strict P p (lock_file dir h) (lock_host junk e p dir h) St_none"
proof (cases "255 \<le> length (lock_file dir h)")
  case True
  then show ?thesis using assms(4) by (simp add: lock_host_def)
next
  case False
  let ?F = "\<lambda>pid. if pid > 0 then
          (if vh_multi h = VTUN_MULTI_KILL then
             Ask (Kill pid Sig_TERM) (\<lambda>a.
               if a_ret a < 0 \<and> a_errno a \<noteq> ESRCH then Ret (- 1)
               else bind_prog (wait_gone 10 pid) (\<lambda>_.
                 Ask (Kill pid Sig_KILL) (\<lambda>b.
                   if a_ret b = 0
                   then Ask (Unlink (lock_file dir h)) (\<lambda>_. create_lock p (lock_file dir h))
                   else create_lock p (lock_file dir h))))
           else if vh_multi h = VTUN_MULTI_DENY then Ret (- 1)
           else create_lock p (lock_file dir h))
        else create_lock p (lock_file dir h)"
  have F: "ok_prog strict P p (lock_file dir h) (?F r) St_none" for r
  proof (cases strict)
    case True
    then show ?thesis using assms(3) by (simp add: deny_def ok_create)
  next
    case False
    have "ok_prog False P p (lock_file dir h) (?F r) St_none"
      by (auto simp: ok_create intro!: ok_wait)
    with False show ?thesis by simp
  qed
  have "ok_prog strict P p (lock_file dir h) (bind_prog (read_lock junk e (lock_file dir h)) ?F) St_none"
    by (rule ok_read [OF P]) (erule assms(2), rule F)
  with False assms(4) show ?thesis by (simp add: lock_host_def)
qed

subsection \<open>The invariant\<close>

text \<open>What the files hold for a process at its stage; and the lock file names some process, whole.\<close>

definition stage_files :: "bool \<Rightarrow> lock_world \<Rightarrow> int \<Rightarrow> string \<Rightarrow> stage \<Rightarrow> bool" where
  "stage_files strict w p f st =
     ((st = St_open \<longrightarrow> lw_files w (lock_tmp p f) = Some [])
      \<and> (st = St_written \<longrightarrow> lw_files w (lock_tmp p f) = Some (lock_text p))
      \<and> (strict \<and> st = St_won \<longrightarrow> lw_files w f = Some (lock_text p)))"

definition whole_lock :: "int set \<Rightarrow> lock_world \<Rightarrow> string \<Rightarrow> bool" where
  "whole_lock P w f = (\<forall>c. lw_files w f = Some c \<longrightarrow> c \<in> lock_text ` P)"

definition ok_phase :: "bool \<Rightarrow> int set \<Rightarrow> string \<Rightarrow> vtun_host \<Rightarrow> int \<Rightarrow> lock_phase \<Rightarrow> stage \<Rightarrow> bool" where
  "ok_phase strict P dir h p ph st =
     (case ph of
        Locking pr \<Rightarrow> ok_prog strict P p (lock_file dir h) pr st
      | Holding \<Rightarrow> st = St_won
      | Unlocking u \<Rightarrow> u = unlock_host dir h \<and> st = St_won \<or> (\<exists>x. u = Ret x) \<and> st = St_none
      | Gone \<Rightarrow> True)"

definition pool_inv :: "bool \<Rightarrow> int set \<Rightarrow> string \<Rightarrow> vtun_host \<Rightarrow> (int \<Rightarrow> stage) \<Rightarrow> pool \<Rightarrow> bool" where
  "pool_inv strict P dir h st s =
     (whole_lock P (pl_world s) (lock_file dir h)
      \<and> (\<forall>p\<in>P. ok_phase strict P dir h p (pl_phase s p) (st p)
           \<and> stage_files strict (pl_world s) p (lock_file dir h) (st p))
      \<and> (strict \<longrightarrow> (\<forall>p\<in>P. lw_alive (pl_world s) p)) \<and> (\<forall>p. lw_alive (pl_world s) p \<longrightarrow> p \<in> P))"

text \<open>One call of a process, seen by itself and by the others.\<close>

lemma lock_call_step:
  assumes ok: "ok_prog strict P p f (Ask c k) st" and fl: "stage_files strict w p f st"
    and wh: "whole_lock P w f" and ex: "lock_exec flt c w = (a, w')" and p: "p \<in> P"
    and al: "strict \<longrightarrow> (\<forall>q\<in>P. lw_alive w q)"
  shows "\<exists>st'. ok_prog strict P p f (k a) st' \<and> stage_files strict w' p f st' \<and> whole_lock P w' f
    \<and> (\<forall>g. g \<noteq> f \<longrightarrow> g \<noteq> lock_tmp p f \<longrightarrow> lw_files w' g = lw_files w g)
    \<and> (strict \<longrightarrow> lw_files w f = None \<or> lw_files w' f = lw_files w f)
    \<and> (\<forall>q. lw_alive w' q \<longrightarrow> lw_alive w q) \<and> (strict \<longrightarrow> lw_alive w' = lw_alive w)"
proof (cases flt)
  case (Some e)
  then have w: "w' = w" using ex by (cases c; simp split: if_splits)
  have e: "\<forall>q s. c \<noteq> Kill q s \<Longrightarrow> a = failed e" using ex Some by (cases c) auto
  have "\<exists>st'. ok_prog strict P p f (k a) st' \<and> stage_files strict w p f st'"
  proof (cases c)
    case (Kill q s)
    then have "ok_prog strict P p f (k a) st" using ok al ex Some by (auto split: if_splits)
    then show ?thesis using fl by blast
  next
    case (Unlink t)
    then have "ok_prog strict P p f (k a) (if st = St_won then St_won else St_none)" using ok by simp
    moreover have "stage_files strict w p f (if st = St_won then St_won else St_none)"
      using fl by (simp add: stage_files_def)
    ultimately show ?thesis by blast
  next
    case (Open_new t)
    then have "ok_prog strict P p f (k (failed e)) St_none"
      using ok by (auto dest: spec [of _ "failed e"])
    then show ?thesis using e Open_new by (auto simp: stage_files_def)
  next
    case (Write_file t d)
    then have "st = St_open" "ok_prog strict P p f (k (failed e)) St_open"
      using ok by (auto dest: spec [of _ "failed e"])
    then show ?thesis using e Write_file fl by auto
  next
    case (Link t g)
    then have "st = St_written" "ok_prog strict P p f (k (failed e)) St_written"
      using ok by (auto dest: spec [of _ "failed e"])
    then show ?thesis using e Link fl by auto
  next
    case (Open_rd g)
    then have "ok_prog strict P p f (k (failed e)) st"
      using ok by (auto dest: spec [of _ "failed e"])
    then show ?thesis using e Open_rd fl by auto
  next
    case (Read_content x n)
    then have "ok_prog strict P p f (k (failed e)) st"
      using ok by (auto dest: spec [of _ "failed e"])
    then show ?thesis using e Read_content fl by auto
  qed (use ok e fl in auto)
  then show ?thesis using w wh by metis
next
  case None
  show ?thesis
  proof (cases c)
    case (Open_new t)
    then have "ok_prog strict P p f (k a) St_open" "t = lock_tmp p f" "w' = set_file t (Some []) w"
      using ok ex None by (auto dest: spec [of _ a])
    then show ?thesis using wh by (intro exI [of _ St_open]) (auto simp: stage_files_def whole_lock_def)
  next
    case (Write_file t d)
    then have t: "t = lock_tmp p f" "st = St_open" "d = lock_text p" and "w' = set_file t (map_option (\<lambda>c. c @ d) (lw_files w t)) w"
      "ok_prog strict P p f (k a) St_written" using ok ex None by (auto dest: spec [of _ a])
    then show ?thesis using wh fl by (intro exI [of _ St_written]) (auto simp: stage_files_def whole_lock_def)
  next
    case (Link t g)
    then have t: "t = lock_tmp p f" "g = f" "st = St_written"
      and k: "ok_prog strict P p f (k a) (if a_ret a < 0 then St_written else St_won)" using ok by auto
    have tmp: "lw_files w t = Some (lock_text p)" using fl t by (simp add: stage_files_def)
    show ?thesis
    proof (cases "lw_files w f")
      case (Some x)
      then have "w' = w" "a_ret a < 0" using ex None Link t by auto
      then show ?thesis using k fl wh t by auto
    next
      case 2: None
      then have "w' = set_file f (Some (lock_text p)) w" "\<not> a_ret a < 0" using ex None Link t tmp by auto
      then show ?thesis using k p 2 by (intro exI [of _ St_won]) (auto simp: stage_files_def whole_lock_def)
    qed
  next
    case (Unlink t)
    then have t: "t = lock_tmp p f \<or> \<not> strict \<and> t = f"
      and k: "ok_prog strict P p f (k a) (if st = St_won then St_won else St_none)" using ok by auto
    have w: "w' = set_file t None w" using ex None Unlink by (auto simp: set_file_id split: option.splits)
    show ?thesis using t k w fl wh
      by (intro exI [of _ "if st = St_won then St_won else St_none"]) (auto simp: stage_files_def whole_lock_def)
  next
    case (Open_rd g)
    then have "w' = w" "a_data a \<in> lock_text ` P \<or> a_ret a < 0" "g = f"
      using ok ex None wh by (auto simp: whole_lock_def split: option.splits)
    then have "ok_prog strict P p f (k a) st" using ok Open_rd by auto
    with \<open>w' = w\<close> show ?thesis using fl wh by auto
  next
    case (Read_content x n)
    then have "w' = w" "a_ret a = int (min n (length x)) \<and> a_data a = take n x" using ex None by auto
    then show ?thesis using ok fl wh Read_content by auto
  next
    case Close_fd
    then have "w' = w" using ex None by auto
    then show ?thesis using ok fl wh Close_fd by auto
  next
    case (Kill q s)
    then have k: "ok_prog strict P p f (k a) st" and "strict \<longrightarrow> s = Sig_0"
      using ok al ex None by (auto split: if_splits)
    then have "lw_files w' = lw_files w" "\<forall>q. lw_alive w' q \<longrightarrow> lw_alive w q" "strict \<longrightarrow> w' = w"
      using ex None Kill by (auto split: if_splits)
    then show ?thesis using k fl wh by (auto simp: stage_files_def whole_lock_def)
  next
    case Nanosleep
    then have "w' = w" using ex None by auto
    then show ?thesis using ok fl wh Nanosleep by auto
  qed
qed

lemma others_files:
  assumes P: "\<forall>q\<in>P. pid_ok q" and p: "p \<in> P" and q: "q \<in> P" "q \<noteq> p" and fl: "stage_files strict w q f st"
    and g: "\<forall>g. g \<noteq> f \<longrightarrow> g \<noteq> lock_tmp p f \<longrightarrow> lw_files w' g = lw_files w g"
    and f: "strict \<longrightarrow> lw_files w f = None \<or> lw_files w' f = lw_files w f"
  shows "stage_files strict w' q f st"
proof -
  have "lock_tmp q f \<noteq> lock_tmp p f" using P p q lock_tmp_inj by blast
  then have "lw_files w' (lock_tmp q f) = lw_files w (lock_tmp q f)" using g by simp
  then show ?thesis using fl f by (auto simp: stage_files_def)
qed

lemma pool_invD:
  assumes "pool_inv strict P dir h st s" and "p \<in> P"
  shows "ok_phase strict P dir h p (pl_phase s p) (st p)"
    and "stage_files strict (pl_world s) p (lock_file dir h) (st p)"
    and "whole_lock P (pl_world s) (lock_file dir h)"
    and "strict \<longrightarrow> (\<forall>q\<in>P. lw_alive (pl_world s) q)"
  using assms by (simp_all add: pool_inv_def)

lemma call_step:
  assumes inv: "pool_inv strict P dir h st s" and P: "\<forall>q\<in>P. pid_ok q"
    and al: "lw_alive (pl_world s) p" and ph: "pl_phase s p = Locking (Ask c k)"
    and ex: "lock_exec flt c (pl_world s) = (a, w)"
  shows "\<exists>st'. pool_inv strict P dir h st' (set_phase p (Locking (k a)) (s\<lparr>pl_world := w\<rparr>))"
proof -
  let ?f = "lock_file dir h"
  have p: "p \<in> P" using inv al by (auto simp: pool_inv_def)
  note d = pool_invD [OF inv p]
  have "ok_prog strict P p ?f (Ask c k) (st p)"
    using d(1) ph by (simp add: ok_phase_def del: ok_prog.simps)
  from lock_call_step [OF this d(2,3) ex p d(4)] obtain st' where
    k: "ok_prog strict P p ?f (k a) st'" "stage_files strict w p ?f st'" "whole_lock P w ?f"
    and g: "\<forall>g. g \<noteq> ?f \<longrightarrow> g \<noteq> lock_tmp p ?f \<longrightarrow> lw_files w g = lw_files (pl_world s) g"
    and f: "strict \<longrightarrow> lw_files (pl_world s) ?f = None \<or> lw_files w ?f = lw_files (pl_world s) ?f"
    and a: "\<forall>q. lw_alive w q \<longrightarrow> lw_alive (pl_world s) q" "strict \<longrightarrow> lw_alive w = lw_alive (pl_world s)"
    by blast
  have q: "ok_phase strict P dir h q (((pl_phase s)(p := Locking (k a))) q) ((st(p := st')) q)
      \<and> stage_files strict w q ?f ((st(p := st')) q)" if q: "q \<in> P" for q
  proof (cases "q = p")
    case True
    then show ?thesis using k by (simp add: ok_phase_def)
  next
    case False
    have "stage_files strict w q ?f (st q)"
      by (rule others_files [OF P p q False pool_invD(2) [OF inv q] g f])
    then show ?thesis using False pool_invD(1) [OF inv q] by simp
  qed
  have "pool_inv strict P dir h (st(p := st')) (set_phase p (Locking (k a)) (s\<lparr>pl_world := w\<rparr>))"
    unfolding pool_inv_def
  proof (intro conjI ballI allI impI)
    show "whole_lock P (pl_world (set_phase p (Locking (k a)) (s\<lparr>pl_world := w\<rparr>))) ?f"
      using k(3) by (simp add: set_phase_def)
  next
    fix r assume "r \<in> P"
    from q [OF this] show "ok_phase strict P dir h r (pl_phase (set_phase p (Locking (k a)) (s\<lparr>pl_world := w\<rparr>)) r) ((st(p := st')) r)"
      and "stage_files strict (pl_world (set_phase p (Locking (k a)) (s\<lparr>pl_world := w\<rparr>))) r ?f ((st(p := st')) r)"
      unfolding set_phase_def by simp_all
  next
    fix r assume "strict" "r \<in> P"
    then show "lw_alive (pl_world (set_phase p (Locking (k a)) (s\<lparr>pl_world := w\<rparr>))) r"
      using a(2) d(4) by (simp add: set_phase_def)
  next
    fix r assume "lw_alive (pl_world (set_phase p (Locking (k a)) (s\<lparr>pl_world := w\<rparr>))) r"
    then have "lw_alive (pl_world s) r" using a(1) by (simp add: set_phase_def)
    then show "r \<in> P" using inv unfolding pool_inv_def by blast
  qed
  then show ?thesis by blast
qed

lemma unlock_step:
  assumes inv: "pool_inv strict P dir h st s" and P: "\<forall>q\<in>P. pid_ok q"
    and al: "lw_alive (pl_world s) p" and ph: "pl_phase s p = Unlocking (Ask c k)"
    and ex: "lock_exec flt c (pl_world s) = (a, w)" and m: "vh_multi h \<noteq> VTUN_MULTI_ALLOW"
  shows "\<exists>st'. pool_inv strict P dir h st' (set_phase p (Unlocking (k a)) (s\<lparr>pl_world := w\<rparr>))"
proof -
  let ?f = "lock_file dir h"
  have p: "p \<in> P" using inv al by (auto simp: pool_inv_def)
  then have "Ask c k = unlock_host dir h" and won: "st p = St_won"
    and fl: "stage_files strict (pl_world s) p ?f (st p)"
    using pool_invD [OF inv p] ph by (auto simp: ok_phase_def)
  then have c: "c = Unlink ?f" "k a = Ret ()" using m by (auto simp: unlock_host_def split: if_splits)
  have w: "w = pl_world s \<or> w = set_file ?f None (pl_world s)"
    using ex c by (cases flt) (auto split: option.splits)
  have one: "st q \<noteq> St_won" if "strict" "q \<in> P" "q \<noteq> p" for q
  proof
    assume "st q = St_won"
    then have "lw_files (pl_world s) ?f = Some (lock_text q)" using inv that by (auto simp: pool_inv_def stage_files_def)
    then have "lock_text q = lock_text p" using fl won that by (simp add: stage_files_def)
    then show False using P p that lock_text_inj by blast
  qed
  have "stage_files strict w q ?f (st q)" if "q \<in> P" "q \<noteq> p" for q
    using inv that w one [of q] by (auto simp: pool_inv_def stage_files_def)
  then show ?thesis using inv c w
    by (intro exI [of _ "st(p := St_none)"])
      (auto simp: pool_inv_def set_phase_def ok_phase_def stage_files_def whole_lock_def)
qed

lemma pool_step:
  assumes inv: "pool_inv strict P dir h st s" and P: "\<forall>q\<in>P. pid_ok q"
    and act: "lock_act dir h act s = Some s'" and ne: "strict \<longrightarrow> (\<forall>p. act \<noteq> A_exit p)"
    and m: "vh_multi h \<noteq> VTUN_MULTI_ALLOW"
  shows "\<exists>st'. pool_inv strict P dir h st' s'"
proof (cases act)
  case (A_call p flt)
  then show ?thesis using act call_step [OF inv P] unlock_step [OF inv P _ _ _ m]
    by (auto simp: lock_act_def split: if_splits lock_phase.splits prog.splits prod.splits)
next
  case (A_take p)
  then obtain r where "pl_phase s p = Locking (Ret r)" "s' = set_phase p (if r < 0 then Gone else Holding) s"
    using act by (auto simp: lock_act_def split: lock_phase.splits prog.splits)
  then have "pool_inv strict P dir h st s'"
    using inv by (fastforce simp: pool_inv_def set_phase_def ok_phase_def)
  then show ?thesis by blast
next
  case (A_leave p)
  show ?thesis
  proof (cases "pl_phase s p")
    case Holding
    then have "s' = set_phase p (Unlocking (unlock_host dir h)) s" using act A_leave by (simp add: lock_act_def)
    then have "pool_inv strict P dir h st s'"
      using inv Holding by (fastforce simp: pool_inv_def set_phase_def ok_phase_def)
    then show ?thesis by blast
  next
    case (Unlocking u)
    then have "s' = set_phase p Gone s" using act A_leave by (auto simp: lock_act_def split: prog.splits)
    then have "pool_inv strict P dir h st s'" using inv by (auto simp: pool_inv_def set_phase_def ok_phase_def)
    then show ?thesis by blast
  qed (use act A_leave in \<open>auto simp: lock_act_def\<close>)
next
  case (A_exit p)
  then have "pool_inv strict P dir h st s'"
    using inv act ne by (auto simp: lock_act_def pool_inv_def stage_files_def whole_lock_def split: if_splits)
  then show ?thesis by blast
qed

lemma sched_inv:
  assumes "lock_sched dir h acts s = Some s'" and "pool_inv strict P dir h st s" and "\<forall>q\<in>P. pid_ok q"
    and "strict \<longrightarrow> (\<forall>p. A_exit p \<notin> set acts)" and "vh_multi h \<noteq> VTUN_MULTI_ALLOW"
  shows "\<exists>st'. pool_inv strict P dir h st' s'"
  using assms
proof (induction acts arbitrary: s st)
  case Nil
  then show ?case by auto
next
  case (Cons act acts)
  then obtain s1 where s1: "lock_act dir h act s = Some s1" "lock_sched dir h acts s1 = Some s'"
    by (auto split: option.splits)
  from pool_step [OF Cons.prems(2,3) s1(1) _ Cons.prems(5)] Cons.prems(4)
  obtain st1 where "pool_inv strict P dir h st1 s1" by auto
  with Cons.IH [OF s1(2)] Cons.prems show ?case by auto
qed

lemma start_inv:
  assumes "\<forall>q\<in>P. pid_ok q" and "strict \<Longrightarrow> \<forall>p. err p \<noteq> ERANGE" and "strict \<Longrightarrow> deny h"
    and "vh_multi h \<noteq> VTUN_MULTI_ALLOW" and "\<forall>c. files (lock_file dir h) = Some c \<longrightarrow> c \<in> lock_text ` P"
  shows "pool_inv strict P dir h (\<lambda>_. St_none) (lock_start junk err P dir h files)"
proof -
  have "ok_prog strict P p (lock_file dir h) (lock_host (junk p) (err p) p dir h) St_none" for p
    by (rule ok_lock_host [OF assms(1)]) (use assms(2-4) in auto)
  then show ?thesis using assms(5)
    by (simp add: pool_inv_def lock_start_def ok_phase_def stage_files_def whole_lock_def)
qed

lemma no_two_winners:
  assumes "pool_inv True P dir h st s" and "\<forall>q\<in>P. pid_ok q" and "holds_host s p" and "holds_host s q"
  shows "p = q"
proof -
  have "r \<in> P \<and> st r = St_won" if "holds_host s r" for r
    using assms(1) that by (auto simp: pool_inv_def holds_host_def ok_phase_def split: lock_phase.splits)
  then have pq: "p \<in> P" "st p = St_won" "q \<in> P" "st q = St_won" using assms(3,4) by auto
  then have "lw_files (pl_world s) (lock_file dir h) = Some (lock_text p)"
    "lw_files (pl_world s) (lock_file dir h) = Some (lock_text q)"
    using pool_invD(2) [OF assms(1) pq(1)] pool_invD(2) [OF assms(1) pq(3)] pq
    by (simp_all add: stage_files_def)
  then show ?thesis using lock_text_inj assms(2) pq by simp
qed

subsection \<open>Stale locks\<close>

text \<open>Two pieces of a schedule: a process finds the lock of a dead process, and it puts its own in the place of that lock.\<close>

lemma sched_append: "lock_sched dir h (xs @ ys) s = Option.bind (lock_sched dir h xs s) (lock_sched dir h ys)"
  by (induction xs arbitrary: s) (auto split: option.split)

lemma replicate_calls:
  "replicate 4 x = [x, x, x, x]" "replicate 6 x = [x, x, x, x, x, x]"
  by (simp_all add: numeral_eq_Suc)

lemma reads_stale:
  assumes "deny h" and "pid_ok d" and "e \<noteq> ERANGE" and "length (lock_file dir h) < 255"
    and "lw_files (pl_world s) (lock_file dir h) = Some (lock_text d)" and "lw_alive (pl_world s) p" and "\<not> lw_alive (pl_world s) d"
    and "pl_phase s p = Locking (lock_host junk e p dir h)"
  shows "lock_sched dir h (replicate 4 (A_call p None)) s = Some (set_phase p
    (Locking (Ask (Unlink (lock_file dir h)) (\<lambda>_. create_lock p (lock_file dir h)))) s)"
proof -
  have rb: "to_int32 (fst (strtol (cstr (take 19 (lock_text d @ j))))) = d"
    "\<not> strtol_over (cstr (take 19 (lock_text d @ j)))" "take 20 (lock_text d) = lock_text d" "d \<noteq> 0" for j
    using read_back(1,2) [of d j] read_back(3) [of d] assms(2) by (auto simp: pid_ok_def)
  have m: "vh_multi h \<noteq> VTUN_MULTI_ALLOW" using assms(1) by (simp add: deny_def)
  have len: "(min 20 (length (lock_text d)) = 0) = False" using lock_text_nonempty [of d] by simp
  show ?thesis
    using assms(3-8) m
    by (simp add: len replicate_calls lock_act_def lock_host_def read_lock_def set_phase_def Let_def rb
        del: take_append) 
qed

lemma takes_place:
  assumes "pl_phase s p = Locking (Ask (Unlink f) (\<lambda>_. create_lock p f))" and "lw_alive (pl_world s) p"
    and "length (lock_tmp p f) < 255"
  shows "\<exists>w. lock_sched dir h (replicate 6 (A_call p None) @ [A_take p]) s = Some (s\<lparr>pl_world := w, pl_phase := (pl_phase s)(p := Holding)\<rparr>)
     \<and> lw_alive w = lw_alive (pl_world s)"
  using assms
  by (cases "lw_files (pl_world s) f"; intro exI [of _ "(pl_world s)\<lparr>lw_files := (lw_files (pl_world s))(f \<mapsto> lock_text p, lock_tmp p f := None)\<rparr>"])
    (simp_all add: replicate_calls lock_act_def create_lock_def set_phase_def set_file_def Let_def)

text \<open>Two processes find the lock before either has replaced it.\<close>

definition stale_race :: "int \<Rightarrow> int \<Rightarrow> lock_act list" where
  "stale_race p q = replicate 4 (A_call p None) @ replicate 4 (A_call q None)
     @ (replicate 6 (A_call p None) @ [A_take p]) @ (replicate 6 (A_call q None) @ [A_take q])"

subsection \<open>Properties\<close>

text \<open>
  C5. A host that denies a second connection is held by one process at a time, however the calls of
  the processes interleave and whichever of them fail, as long as no process ends while others are
  at the lock, a lock file that is there at the beginning names one of these living processes, and none of them comes to the lock
  with \<open>ERANGE\<close> left in \<open>errno\<close> (which \<open>read_lock\<close> takes for a broken lock file). Two
  processes that come to the lock of a dead one can both win.
\<close>

theorem lock_exclusive:
  assumes "deny h" and "\<forall>p\<in>P. pid_ok p" and "\<forall>p. err p \<noteq> ERANGE"
    and "\<forall>c. files (lock_file dir h) = Some c \<longrightarrow> c \<in> lock_text ` P"
    and "lock_sched dir h acts (lock_start junk err P dir h files) = Some s"
    and "\<forall>p. A_exit p \<notin> set acts" and "holds_host s p" and "holds_host s q"
  shows "p = q"
proof -
  have m: "vh_multi h \<noteq> VTUN_MULTI_ALLOW" using assms(1) by (simp add: deny_def)
  have "pool_inv True P dir h (\<lambda>_. St_none) (lock_start junk err P dir h files)"
    by (rule start_inv) (use assms m in auto)
  from sched_inv [OF assms(5) this assms(2) _ m] assms(6)
  obtain st where "pool_inv True P dir h st s" by auto
  from no_two_winners [OF this assms(2,7,8)] show ?thesis .
qed

text \<open>
  C19. A reader never finds a lock file half written: whatever the processes do, kill or die, with
  any of the modes, the file is absent or it is the complete line of one of the processes, since
  it only ever appears by \<open>link\<close>.
\<close>

theorem lock_file_whole:
  assumes "vh_multi h \<noteq> VTUN_MULTI_ALLOW" and "\<forall>p\<in>P. pid_ok p"
    and "\<forall>c. files (lock_file dir h) = Some c \<longrightarrow> c \<in> lock_text ` P"
    and "lock_sched dir h acts (lock_start junk err P dir h files) = Some s"
    and "lw_files (pl_world s) (lock_file dir h) = Some c"
  shows "\<exists>p\<in>P. c = lock_text p"
proof -
  have "pool_inv False P dir h (\<lambda>_. St_none) (lock_start junk err P dir h files)"
    by (rule start_inv) (use assms in auto)
  from sched_inv [OF assms(4) this assms(2) _ assms(1)]
  obtain st where "pool_inv False P dir h st s" by auto
  then show ?thesis using assms(5) by (auto simp: pool_inv_def whole_lock_def)
qed

definition ex_lock_start :: pool where
  "ex_lock_start = lock_start (\<lambda>_. []) (\<lambda>_. ENOENT) {1, 2, 3} ''/lock'' ex_deny_host (\<lambda>_. None)"

definition ex_race :: "lock_act list" where
  "ex_race = replicate 6 (A_call 1 None) @ [A_take 1]
     @ replicate 3 (A_call 3 None)
     @ [A_leave 1, A_call 1 None, A_leave 1, A_exit 1]
     @ replicate 6 (A_call 2 None) @ [A_take 2]
     @ replicate 7 (A_call 3 None) @ [A_take 3]"

text \<open>
  C36. The lock is not exclusive where a process has died with the host locked: any two processes that come to the
  stale lock can both end up holding a host that denies a second connection, with no call failing and nobody ending. Both
  find the owner dead; one removes the lock file and makes its own, which the other then removes as stale.
\<close>

theorem stale_lock_race:
  assumes "deny h" and "pid_ok d" and "p \<noteq> q" and "p \<in> P" and "q \<in> P" and "d \<notin> P"
    and "err p \<noteq> ERANGE" and "err q \<noteq> ERANGE"
    and "length (lock_file dir h) < 255" and "length (lock_tmp p (lock_file dir h)) < 255" and "length (lock_tmp q (lock_file dir h)) < 255"
    and "files (lock_file dir h) = Some (lock_text d)"
  shows "\<exists>s. lock_sched dir h (stale_race p q) (lock_start junk err P dir h files) = Some s \<and> holds_host s p \<and> holds_host s q"
proof -
  let ?f = "lock_file dir h"
  let ?at = "Locking (Ask (Unlink ?f) (\<lambda>_. create_lock (p :: int) ?f))"
  let ?s0 = "lock_start junk err P dir h files"
  let ?s1 = "set_phase p (Locking (Ask (Unlink ?f) (\<lambda>_. create_lock p ?f))) ?s0"
  let ?s2 = "set_phase q (Locking (Ask (Unlink ?f) (\<lambda>_. create_lock q ?f))) ?s1"
  have 1: "lock_sched dir h (replicate 4 (A_call p None)) ?s0 = Some ?s1"
    by (rule reads_stale [OF assms(1,2,7,9)]) (use assms in \<open>simp_all add: lock_start_def\<close>)
  have 2: "lock_sched dir h (replicate 4 (A_call q None)) ?s1 = Some ?s2"
    by (rule reads_stale [OF assms(1,2,8,9)]) (use assms in \<open>simp_all add: lock_start_def set_phase_def\<close>)
  obtain w3 where 3: "lock_sched dir h (replicate 6 (A_call p None) @ [A_take p]) ?s2
      = Some (?s2\<lparr>pl_world := w3, pl_phase := (pl_phase ?s2)(p := Holding)\<rparr>)" "lw_alive w3 = (\<lambda>p. p \<in> P)"
    using takes_place [of ?s2 p ?f dir h] assms(3,4,10) by (auto simp: lock_start_def set_phase_def)
  let ?s3 = "?s2\<lparr>pl_world := w3, pl_phase := (pl_phase ?s2)(p := Holding)\<rparr>"
  obtain w4 where 4: "lock_sched dir h (replicate 6 (A_call q None) @ [A_take q]) ?s3
      = Some (?s3\<lparr>pl_world := w4, pl_phase := (pl_phase ?s3)(q := Holding)\<rparr>)" "lw_alive w4 = (\<lambda>p. p \<in> P)"
    using takes_place [of ?s3 q ?f dir h] assms(3,5,11) 3(2) by (auto simp: set_phase_def)
  have "lock_sched dir h (stale_race p q) ?s0 = Some (?s3\<lparr>pl_world := w4, pl_phase := (pl_phase ?s3)(q := Holding)\<rparr>)"
    unfolding stale_race_def
    by (simp only: sched_append [where xs = "replicate 4 (A_call p None)"] sched_append [where xs = "replicate 4 (A_call q None)"]
        sched_append [where xs = "replicate 6 (A_call p None) @ [A_take p]"] 1 2 3(1) 4(1) Option.bind.simps)
  then show ?thesis using 4(2) assms(3-5) by (simp add: holds_host_def)
qed
subsection \<open>The properties at work\<close>

definition ex_two :: "lock_act list" where
  "ex_two = [A_call 1 None, A_call 2 None, A_call 1 None, A_call 2 None, A_call 2 (Some ENOENT), A_call 2 None,
     A_call 2 None, A_call 1 None, A_call 1 None, A_call 1 None, A_call 1 None, A_take 1, A_take 2]"

lemma ex_two_runs:
  "case lock_sched ''/lock'' ex_deny_host ex_two ex_lock_start of
     None \<Rightarrow> False | Some s \<Rightarrow> holds_host s 1 \<and> \<not> holds_host s 2"
  by code_simp

lemma lock_exclusive_witness:
  "\<exists>s. lock_sched ''/lock'' ex_deny_host ex_two ex_lock_start = Some s \<and> holds_host s 1
    \<and> (\<forall>q. holds_host s q \<longrightarrow> 1 = q)"
proof -
  obtain s where s: "lock_sched ''/lock'' ex_deny_host ex_two ex_lock_start = Some s" "holds_host s 1"
    using ex_two_runs by (auto split: option.splits)
  have "1 = q" if "holds_host s q" for q
    by (rule lock_exclusive [OF _ _ _ _ s(1) [unfolded ex_lock_start_def] _ s(2) that])
      (simp_all add: deny_def ex_deny_host_def pid_ok_def ex_two_def)
  with s show ?thesis by blast
qed

lemma stale_lock_race_witness:
  "\<exists>s. lock_sched ''/lock'' ex_deny_host (stale_race 1 2)
      (lock_start (\<lambda>_. []) (\<lambda>_. ENOENT) {1, 2} ''/lock'' ex_deny_host [lock_file ''/lock'' ex_deny_host \<mapsto> lock_text 9]) = Some s
    \<and> holds_host s 1 \<and> holds_host s 2"
proof (rule stale_lock_race [where d = 9])
  have "length (lock_tmp p (lock_file ''/lock'' ex_deny_host)) < 255" if "pid_ok p" for p
    using show_int_length [OF that] by (simp add: lock_tmp_def lock_file_def ex_deny_host_def)
  then show "length (lock_tmp 1 (lock_file ''/lock'' ex_deny_host)) < 255" "length (lock_tmp 2 (lock_file ''/lock'' ex_deny_host)) < 255"
    by (simp_all add: pid_ok_def)
qed (simp_all add: deny_def ex_deny_host_def pid_ok_def lock_file_def)

lemma race_file:
  "case lock_sched ''/lock'' ex_deny_host ex_race ex_lock_start of
     None \<Rightarrow> False | Some s \<Rightarrow> lw_files (pl_world s) (lock_file ''/lock'' ex_deny_host) = Some (lock_text 3)"
  by code_simp

lemma lock_file_whole_witness:
  "\<exists>s c. lock_sched ''/lock'' ex_deny_host ex_race ex_lock_start = Some s
    \<and> lw_files (pl_world s) (lock_file ''/lock'' ex_deny_host) = Some c \<and> (\<exists>p\<in>{1, 2, 3}. c = lock_text p)"
proof -
  obtain s where s: "lock_sched ''/lock'' ex_deny_host ex_race ex_lock_start = Some s"
    "lw_files (pl_world s) (lock_file ''/lock'' ex_deny_host) = Some (lock_text 3)"
    using race_file by (auto split: option.splits)
  have "\<exists>p\<in>{1, 2, 3}. lock_text 3 = lock_text p"
    by (rule lock_file_whole [OF _ _ _ s(1) [unfolded ex_lock_start_def] s(2)])
      (simp_all add: ex_deny_host_def pid_ok_def)
  with s show ?thesis by blast
qed

end
