(* ===== verification/LibIO.thy ===== *)
theory LibIO
  imports CBase
begin

section \<open>Signal-safe exact I/O (\<open>lib.h\<close>, \<open>lib.c\<close>)\<close>

text \<open>
  \<open>read_n\<close>, \<open>write_n\<close>, \<open>readn_t\<close> and \<open>print_p\<close>, over an explicit environment. A file
  descriptor is the list of what its coming system calls meet: data that has arrived (a chunk, of
  which one \<open>read\<close> takes at most what it asks for; the empty chunk is end of file), an errno, or a
  terminating signal whose handler runs \<open>io_cancel\<close> and makes the call fail with \<open>EINTR\<close>. A call
  that finds the list empty blocks for ever: the result is \<^const>\<open>None\<close>.
  The flag \<open>__io_canceled\<close> is a boolean passed along.
\<close>

datatype 'b rd_ev = RdData "'b list" | RdErr errno | RdSig

datatype wr_ev = WrOk nat | WrErr errno | WrSig

type_synonym 'b rd_res = "int \<times> 'b list \<times> bool \<times> 'b rd_ev list"

subsection \<open>Reading exactly \<open>len\<close> bytes\<close>

text \<open>The loop of \<open>read_n\<close>; the third argument holds the bytes stored so far (\<open>t\<close> is its length).\<close>

fun read_n_loop :: "bool \<Rightarrow> nat \<Rightarrow> 'b list \<Rightarrow> 'b rd_ev list \<Rightarrow> 'b rd_res option" where
  "read_n_loop canc len acc es =
     (if canc \<or> len = 0 then Some (int (length acc), acc, canc, es)
      else (case es of
              [] \<Rightarrow> None
            | RdErr e # es' \<Rightarrow>
                (if soft_errno e then read_n_loop canc len acc es'
                 else Some (- 1, acc, canc, es'))
            | RdSig # es' \<Rightarrow> read_n_loop True len acc es'
            | RdData bs # es' \<Rightarrow>
                (if bs = [] then Some (0, acc, canc, es')
                 else read_n_loop canc (len - length (take len bs)) (acc @ take len bs)
                        (if length bs \<le> len then es' else RdData (drop len bs) # es'))))"

declare read_n_loop.simps [simp del, vt_run]

lemma read_n_loop_eqs:
  "read_n_loop True len acc es = Some (int (length acc), acc, True, es)"
  "read_n_loop canc 0 acc es = Some (int (length acc), acc, canc, es)"
  "len \<noteq> 0 \<Longrightarrow> read_n_loop False len acc [] = None"
  "len \<noteq> 0 \<Longrightarrow> read_n_loop False len acc (RdErr e # es) =
     (if soft_errno e then read_n_loop False len acc es else Some (- 1, acc, False, es))"
  "len \<noteq> 0 \<Longrightarrow> read_n_loop False len acc (RdSig # es) = Some (int (length acc), acc, True, es)"
  "len \<noteq> 0 \<Longrightarrow> read_n_loop False len acc (RdData bs # es) =
     (if bs = [] then Some (0, acc, False, es)
      else read_n_loop False (len - length (take len bs)) (acc @ take len bs)
             (if length bs \<le> len then es else RdData (drop len bs) # es))"
  by (simp_all add: read_n_loop.simps [of True len acc es] read_n_loop.simps [of canc 0 acc es]
      read_n_loop.simps [of False len acc "[]"] read_n_loop.simps [of False len acc "RdErr e # es"]
      read_n_loop.simps [of False len acc "RdSig # es"]
      read_n_loop.simps [of False len acc "RdData bs # es"])

definition read_n :: "bool \<Rightarrow> nat \<Rightarrow> 'b rd_ev list \<Rightarrow> 'b rd_res option" where
  "read_n canc len es = read_n_loop canc len [] es"

text \<open>\<open>readn_t\<close>: \<open>select\<close> first; a timeout or an error there gives -1.\<close>

definition readn_t :: "int \<Rightarrow> bool \<Rightarrow> nat \<Rightarrow> 'b rd_ev list \<Rightarrow> 'b rd_res option" where
  "readn_t sel canc count es = (if sel \<le> 0 then Some (- 1, [], canc, es) else read_n canc count es)"

subsection \<open>Writing exactly \<open>len\<close> bytes\<close>

text \<open>Result: the return value, the bytes that went out, the flag, the rest of the environment.\<close>

fun write_n_loop :: "bool \<Rightarrow> 'b list \<Rightarrow> 'b list \<Rightarrow> wr_ev list
    \<Rightarrow> (int \<times> 'b list \<times> bool \<times> wr_ev list) option" where
  "write_n_loop canc todo sent es =
     (if canc \<or> todo = [] then Some (int (length sent), sent, canc, es)
      else (case es of
              [] \<Rightarrow> None
            | WrErr e # es' \<Rightarrow>
                (if soft_errno e then write_n_loop canc todo sent es'
                 else Some (- 1, sent, canc, es'))
            | WrSig # es' \<Rightarrow> write_n_loop True todo sent es'
            | WrOk k # es' \<Rightarrow>
                (if k = 0 then Some (0, sent, canc, es')
                 else write_n_loop canc (drop k todo) (sent @ take k todo) es')))"

declare write_n_loop.simps [simp del, vt_run]

lemma write_n_loop_eqs:
  "write_n_loop True todo sent es = Some (int (length sent), sent, True, es)"
  "write_n_loop canc [] sent es = Some (int (length sent), sent, canc, es)"
  "todo \<noteq> [] \<Longrightarrow> write_n_loop False todo sent [] = None"
  "todo \<noteq> [] \<Longrightarrow> write_n_loop False todo sent (WrErr e # es) =
     (if soft_errno e then write_n_loop False todo sent es else Some (- 1, sent, False, es))"
  "todo \<noteq> [] \<Longrightarrow> write_n_loop False todo sent (WrSig # es) = Some (int (length sent), sent, True, es)"
  "todo \<noteq> [] \<Longrightarrow> write_n_loop False todo sent (WrOk k # es) =
     (if k = 0 then Some (0, sent, False, es)
      else write_n_loop False (drop k todo) (sent @ take k todo) es)"
  by (simp_all add: write_n_loop.simps [of True todo sent es] write_n_loop.simps [of canc "[]" sent es]
      write_n_loop.simps [of False todo sent "[]"] write_n_loop.simps [of False todo sent "WrErr e # es"]
      write_n_loop.simps [of False todo sent "WrSig # es"]
      write_n_loop.simps [of False todo sent "WrOk k # es"])

definition write_n :: "bool \<Rightarrow> 'b list \<Rightarrow> wr_ev list \<Rightarrow> (int \<times> 'b list \<times> bool \<times> wr_ev list) option" where
  "write_n canc buf es = write_n_loop canc buf [] es"

subsection \<open>Padded messages\<close>

definition VTUN_MESG_SIZE :: nat where
  [simp]: "VTUN_MESG_SIZE = 50"

text \<open>
  The buffer \<open>print_p\<close> writes: zeroed, the text cut by \<open>vsnprintf\<close> to 48 characters and a NUL
  (its size argument is \<open>sizeof(buf)-1\<close>), always 50 bytes.
\<close>

definition print_p_buf :: "string \<Rightarrow> char list" where
  "print_p_buf s =
     (let t = take (VTUN_MESG_SIZE - 2) s in t @ replicate (VTUN_MESG_SIZE - length t) NUL)"

definition print_p :: "bool \<Rightarrow> string \<Rightarrow> wr_ev list \<Rightarrow> (int \<times> char list \<times> bool \<times> wr_ev list) option" where
  "print_p canc s es = write_n canc (print_p_buf s) es"

lemma length_print_p_buf [simp]: "length (print_p_buf s) = 50"
  by (simp add: print_p_buf_def Let_def)

lemma cstr_print_p_buf: "nul_free s \<Longrightarrow> cstr (print_p_buf s) = take 48 s"
proof -
  assume "nul_free s"
  then have n: "nul_free (take 48 s)" by (rule nul_free_take)
  have "50 - length (take 48 s) = Suc (49 - length (take 48 s))" by simp
  then have "print_p_buf s = take 48 s @ NUL # replicate (49 - length (take 48 s)) NUL"
    unfolding print_p_buf_def Let_def VTUN_MESG_SIZE_def by simp
  with n show ?thesis by (simp only: cstr_append_nul)
qed

subsection \<open>What the environment delivers\<close>

text \<open>The bytes a reader gets before end of file, a hard error or a terminating signal.\<close>

fun rd_stream :: "'b rd_ev list \<Rightarrow> 'b list" where
  "rd_stream [] = []"
| "rd_stream (RdData bs # es) = (if bs = [] then [] else bs @ rd_stream es)"
| "rd_stream (RdErr e # es) = (if soft_errno e then rd_stream es else [])"
| "rd_stream (RdSig # es) = []"

text \<open>No end of file, no hard error, no terminating signal: only data and retries.\<close>

fun rd_clean :: "'b rd_ev list \<Rightarrow> bool" where
  "rd_clean [] = True"
| "rd_clean (RdData bs # es) = (bs \<noteq> [] \<and> rd_clean es)"
| "rd_clean (RdErr e # es) = (soft_errno e \<and> rd_clean es)"
| "rd_clean (RdSig # es) = False"

lemma rd_stream_append: "rd_clean es \<Longrightarrow> rd_stream (es @ es') = rd_stream es @ rd_stream es'"
  by (induction es rule: rd_clean.induct) auto

lemma rd_clean_append: "rd_clean (es @ es') = (rd_clean es \<and> rd_clean es')"
  by (induction es rule: rd_clean.induct) auto

text \<open>
  The main fact of \<open>read_n\<close>: as long as the stream holds the bytes asked for, the call returns
  exactly them, however they were cut into chunks and however often a call was retried.
\<close>

lemma read_n_loop_enough:
  assumes "len \<le> length (rd_stream es)"
  shows "\<exists>es'. read_n_loop False len acc es
           = Some (int (length acc + len), acc @ take len (rd_stream es), False, es')
         \<and> rd_stream es' = drop len (rd_stream es) \<and> (rd_clean es \<longrightarrow> rd_clean es')"
  using assms
proof (induction es arbitrary: len acc)
  case Nil
  then show ?case by (simp add: read_n_loop_eqs)
next
  case (Cons e es)
  show ?case
  proof (cases "len = 0")
    case True
    then show ?thesis by (simp add: read_n_loop_eqs)
  next
    case pos: False
    show ?thesis
    proof (cases e)
      case (RdErr x)
      with pos Cons show ?thesis by (auto simp: read_n_loop_eqs split: if_splits)
    next
      case RdSig
      with pos Cons show ?thesis by simp
    next
      case (RdData bs)
      with pos Cons.prems have ne: "bs \<noteq> []" by (auto split: if_splits)
      show ?thesis
      proof (cases "length bs \<le> len")
        case True
        with Cons.prems RdData ne have "len - length bs \<le> length (rd_stream es)" by simp
        from Cons.IH [OF this, of "acc @ bs"] True RdData ne pos show ?thesis
          by (auto simp: read_n_loop_eqs)
      next
        case False
        with RdData ne pos show ?thesis by (auto simp: read_n_loop_eqs)
      qed
    qed
  qed
qed

lemma read_n_enough:
  assumes "len \<le> length (rd_stream es)"
  obtains es' where "read_n False len es = Some (int len, take len (rd_stream es), False, es')"
    and "rd_stream es' = drop len (rd_stream es)" and "rd_clean es \<longrightarrow> rd_clean es'"
  using read_n_loop_enough [OF assms, of "[]"] unfolding read_n_def by auto

text \<open>
  In every case the value returned is the number of bytes stored, 0 at end of file or -1 at a
  hard error; a short positive count needs a cancellation.
\<close>

lemma read_n_loop_ret:
  "read_n_loop canc len acc es = Some (r, bs, canc', es') \<Longrightarrow>
     (r = int (length bs) \<and> (length bs = length acc + len \<or> canc') \<or> r = 0 \<or> r = - 1)
     \<and> length bs \<le> length acc + len"
proof (induction es arbitrary: canc len acc)
  case Nil
  then show ?case by (cases canc; cases len) (auto simp: read_n_loop_eqs)
next
  case (Cons e es)
  show ?case
  proof (cases "canc \<or> len = 0")
    case True
    with Cons.prems show ?thesis by (cases canc) (auto simp: read_n_loop_eqs)
  next
    case go: False
    show ?thesis
    proof (cases e)
      case (RdErr x)
      with go Cons show ?thesis by (auto simp: read_n_loop_eqs split: if_splits)
    next
      case RdSig
      with go Cons.prems show ?thesis by (auto simp: read_n_loop_eqs)
    next
      case (RdData bs')
      show ?thesis
      proof (cases "bs' = [] \<or> len < length bs'")
        case True
        with go RdData Cons.prems show ?thesis
          by (auto simp: read_n_loop_eqs split: if_splits)
      next
        case False
        with go RdData Cons.prems
        have "read_n_loop False (len - length bs') (acc @ bs') es = Some (r, bs, canc', es')"
          by (simp add: read_n_loop_eqs)
        from Cons.IH [OF this] False show ?thesis by auto
      qed
    qed
  qed
qed

lemma read_n_ret:
  assumes "read_n canc len es = Some (r, bs, canc', es')"
  shows "r = int (length bs) \<and> (length bs = len \<or> canc') \<or> r = 0 \<or> r = - 1"
    and "length bs \<le> len" and "r \<le> int len"
  using read_n_loop_ret [OF assms [unfolded read_n_def]] by auto

text \<open>Once cancelled, \<open>read_n\<close> and \<open>write_n\<close> return 0 at once and touch nothing.\<close>

lemma read_n_cancelled [simp]: "read_n True len es = Some (0, [], True, es)"
  by (simp add: read_n_def read_n_loop.simps)

lemma write_n_cancelled [simp]: "write_n True bs es = Some (0, [], True, es)"
  by (simp add: write_n_def write_n_loop.simps)

subsection \<open>\<open>write_n\<close>\<close>

text \<open>What went out is always a prefix of the buffer; a result other than 0, -1 is its length.\<close>

lemma write_n_loop_prefix:
  "write_n_loop canc todo sent es = Some (r, out, canc', es') \<Longrightarrow>
     (\<exists>k. out = sent @ take k todo)
     \<and> (r = int (length out) \<and> (out = sent @ todo \<or> canc') \<or> r = 0 \<or> r = - 1)"
proof (induction es arbitrary: canc todo sent)
  case Nil
  then show ?case by (cases canc; cases todo) (auto simp: write_n_loop_eqs)
next
  case (Cons e es)
  show ?case
  proof (cases "canc \<or> todo = []")
    case True
    with Cons.prems show ?thesis
      by (cases canc) (auto simp: write_n_loop_eqs intro: exI [of _ 0])
  next
    case go: False
    show ?thesis
    proof (cases e)
      case (WrErr x)
      with go Cons show ?thesis
        by (auto simp: write_n_loop_eqs split: if_splits intro: exI [of _ 0])
    next
      case WrSig
      with go Cons.prems show ?thesis by (auto simp: write_n_loop_eqs intro: exI [of _ 0])
    next
      case (WrOk k)
      show ?thesis
      proof (cases "k = 0")
        case True
        with go WrOk Cons.prems show ?thesis
          by (auto simp: write_n_loop_eqs intro: exI [of _ 0])
      next
        case False
        with go WrOk Cons.prems
        have "write_n_loop False (drop k todo) (sent @ take k todo) es = Some (r, out, canc', es')"
          by (simp add: write_n_loop_eqs)
        from Cons.IH [OF this] obtain j
          where j: "out = (sent @ take k todo) @ take j (drop k todo)"
          and r: "r = int (length out) \<and> (out = (sent @ take k todo) @ drop k todo \<or> canc')
            \<or> r = 0 \<or> r = - 1" by blast
        from j have "out = sent @ take (k + j) todo" by (simp add: take_add)
        with r show ?thesis by auto
      qed
    qed
  qed
qed

lemma write_n_prefix:
  assumes "write_n canc buf es = Some (r, out, canc', es')"
  shows "\<exists>k. out = take k buf"
    and "r = int (length out) \<and> (out = buf \<or> canc') \<or> r = 0 \<or> r = - 1"
  using write_n_loop_prefix [OF assms [unfolded write_n_def]] by auto

text \<open>A kernel that keeps accepting bytes gets the whole buffer, in order.\<close>

fun wr_accepts :: "wr_ev list \<Rightarrow> nat" where
  "wr_accepts [] = 0"
| "wr_accepts (WrOk k # es) = (if k = 0 then 0 else k + wr_accepts es)"
| "wr_accepts (WrErr e # es) = (if soft_errno e then wr_accepts es else 0)"
| "wr_accepts (WrSig # es) = 0"

lemma write_n_loop_all:
  assumes "length todo \<le> wr_accepts es"
  shows "\<exists>es'. write_n_loop False todo sent es
           = Some (int (length (sent @ todo)), sent @ todo, False, es')"
  using assms
proof (induction es arbitrary: todo sent)
  case Nil
  then show ?case by (simp add: write_n_loop_eqs)
next
  case (Cons e es)
  show ?case
  proof (cases "todo = []")
    case True
    then show ?thesis by (simp add: write_n_loop_eqs)
  next
    case False
    show ?thesis
    proof (cases e)
      case (WrErr x)
      with False Cons show ?thesis by (auto simp: write_n_loop_eqs split: if_splits)
    next
      case WrSig
      with False Cons show ?thesis by simp
    next
      case (WrOk k)
      with False Cons.prems have "k \<noteq> 0" "length (drop k todo) \<le> wr_accepts es"
        by (auto split: if_splits)
      with False WrOk Cons.IH [of "drop k todo" "sent @ take k todo"] show ?thesis
        by (auto simp: write_n_loop_eqs simp flip: of_nat_add length_append)
    qed
  qed
qed

lemma write_n_all:
  assumes "length buf \<le> wr_accepts es"
  obtains es' where "write_n False buf es = Some (int (length buf), buf, False, es')"
  using write_n_loop_all [OF assms, of "[]"] by (auto simp: write_n_def)

end
