(* ===== verification/SysCall.thy ===== *)
theory SysCall
  imports Lock LibIO
begin

section \<open>The system calls of the daemon\<close>

text \<open>
  What \<open>lib.c\<close>, \<open>netlib.c\<close>, the device drivers, \<open>tunnel.c\<close>, \<open>client.c\<close> and \<open>server.c\<close> ask of the
  system, what they get back, and what becomes of the descriptors of the process. \<open>write_n\<close> and
  \<open>readn_t\<close> are single calls here: their answer holds the events that their loops meet, which the
  functions of \<open>LibIO\<close> turn into a result. In the same way the dialogue of the authentication is
  one call, whose answer holds the messages that arrive.
\<close>

datatype sock_type = Stream | Datagram

datatype sock_opt = Reuse_addr | Keep_alive | No_delay

text \<open>An Internet address: \<open>s_addr\<close> in the order of the network, the port as a number.\<close>

record sockaddr =
  s_addr :: "32 word"
  s_port :: "16 word"

text \<open>The \<open>ioctl\<close> requests, with what they take.\<close>

datatype request =
    SIOCGIFADDR string
  | TUNSETIFF bool string
  | OTUNSETIFF bool string
  | TUNSLMODE
  | TUNSIFHEAD
  | TUNNEWPPA int
  | I_PUSH string
  | IF_UNITSEL int
  | I_PLINK int
  | I_LINK int
  | I_PUNLINK int
  | SIOCSIFMUXID string int
  | SIOCGIFFLAGS string
  | SIOCGIFMUXID string

text \<open>The signals that the daemon sets an action for: it ignores them or runs the function of the given name.\<close>

datatype signal = SIGHUP | SIGINT | SIGQUIT | SIGPIPE | SIGCHLD | SIGTERM | SIGUSR1

datatype disposition = Ignore | Run string

datatype sys_call =
    Socket sock_type
  | Set_option int sock_opt
  | Bind int sockaddr
  | Listen int int
  | Accept int
  | Get_sock_name int
  | Get_peer_name int
  | Connect int sockaddr
  | Get_flags int
  | Set_flags int "int option"
  | Wait_writable int "int option"
  | Socket_error int
  | Get_host_by_name string
  | Write_n int "byte list"
  | Readn_t int nat int
  | Dialogue int
  | Ioctl int request
  | Open_file string
  | Get_pt
  | Grant_pt int
  | Unlock_pt int
  | Pts_name int
  | Access_file string
  | Socket_pair
  | Close int
  | Dup int
  | Fork
  | Wait_pid int
  | Sleep int
  | Execv string "string list"
  | Set_title string
  | Init_title string
  | Signals
  | Sigaction signal disposition
  | Get_pid
  | Set_sid
  | Change_dir string
  | Create_file string
  | Write_text int string
  | Open_log int
  | Close_log
  | On_lock lock_call

text \<open>
  \<open>Signals\<close> is a look at a variable that the handler of \<open>SIGTERM\<close> sets: the answer is 0 when no such
  signal has come since the variable was last assigned. \<open>Set_flags s None\<close> sets \<open>O_NONBLOCK\<close> alone. \<open>Create_file\<close> opens a file for writing and empties it.
  \<open>Open_log\<close> connects to the log of the given facility at once and answers with the descriptor of the connection, or
  with -1 when there is no log; \<open>Close_log\<close> answers with the descriptor it closes, or -1. An answer is the value returned, \<open>errno\<close> when the call
  fails, and what the call stores.
\<close>

record sys_ans =
  sr_ret :: int
  sr_errno :: errno
  sr_addr :: sockaddr
  sr_name :: string
  sr_fds :: "int \<times> int"
  sr_wait :: int
  sr_reads :: "byte rd_ev list"
  sr_writes :: "wr_ev list"
  sr_msgs :: "char list list"

text \<open>How a function ends: it returns, the process ends, or a call in it never returns.\<close>

datatype 'r ended = Returned 'r | Exited int | Hangs

type_synonym 'r sys_prog = "(sys_call, sys_ans, 'r) prog"

definition ended_then :: "'r ended \<Rightarrow> ('r \<Rightarrow> 's ended sys_prog) \<Rightarrow> 's ended sys_prog" where
  "ended_then e f = (case e of Returned r \<Rightarrow> f r | Exited n \<Rightarrow> Ret (Exited n) | Hangs \<Rightarrow> Ret Hangs)"

definition and_go :: "'r ended sys_prog \<Rightarrow> ('r \<Rightarrow> 's ended sys_prog) \<Rightarrow> 's ended sys_prog" where
  "and_go p f = bind_prog p (\<lambda>e. ended_then e f)"

lemma ended_then_simps [simp]:
  "ended_then (Returned r) f = f r" "ended_then (Exited n) f = Ret (Exited n)" "ended_then Hangs f = Ret Hangs"
  by (simp_all add: ended_then_def)

lemma and_go_simps [simp]:
  "and_go (Ret e) f = ended_then e f"
  "and_go Fault f = Fault"
  "and_go (Ask q k) f = Ask q (\<lambda>a. and_go (k a) f)"
  by (simp_all add: and_go_def)

text \<open>A postcondition for the case that the function returns.\<close>

definition on_return :: "('r \<Rightarrow> 'w \<Rightarrow> bool) \<Rightarrow> 'r ended \<Rightarrow> 'w \<Rightarrow> bool" where
  "on_return Q e w = (case e of Returned r \<Rightarrow> Q r w | _ \<Rightarrow> True)"

lemma on_return_simps [simp]:
  "on_return Q (Returned r) w = Q r w" "on_return Q (Exited n) w" "on_return Q Hangs w"
  by (simp_all add: on_return_def)

lemma wp_and_go:
  "wp step p w (on_return (\<lambda>r w'. wp step (f r) w' (on_return Q))) \<Longrightarrow> wp step (and_go p f) w (on_return Q)"
  unfolding and_go_def wp_bind by (erule wp_mono) (auto simp: on_return_def split: ended.splits)

lemma wlp_and_go:
  "wlp step p w (on_return (\<lambda>r w'. wlp step (f r) w' (on_return Q))) \<Longrightarrow> wlp step (and_go p f) w (on_return Q)"
  unfolding and_go_def wlp_bind by (erule wlp_mono) (auto simp: on_return_def split: ended.splits)

lemma on_return_mono: "on_return Q e w \<Longrightarrow> (\<And>r. Q r w \<Longrightarrow> R r w) \<Longrightarrow> on_return R e w"
  by (cases e) auto

text \<open>A row of calls of \<open>sigaction\<close>, whose results the code ignores.\<close>

fun set_signals :: "(signal \<times> disposition) list \<Rightarrow> 'r sys_prog \<Rightarrow> 'r sys_prog" where
  "set_signals [] p = p"
| "set_signals ((g, d) # gs) p = Ask (Sigaction g d) (\<lambda>_. set_signals gs p)"

subsection \<open>Exact input and output on a descriptor\<close>

text \<open>The flag of \<open>io_cancel\<close> is clear: \<open>io_init\<close> clears it, and only the linker's handlers set it.\<close>

definition sys_write_n :: "int \<Rightarrow> byte list \<Rightarrow> int ended sys_prog" where
  "sys_write_n fd bs = Ask (Write_n fd bs) (\<lambda>a.
     case write_n False bs (sr_writes a) of None \<Rightarrow> Ret Hangs | Some (r, _) \<Rightarrow> Ret (Returned r))"

definition sys_readn_t :: "int \<Rightarrow> nat \<Rightarrow> int \<Rightarrow> (int \<times> byte list) ended sys_prog" where
  "sys_readn_t fd n t = Ask (Readn_t fd n t) (\<lambda>a.
     case readn_t (sr_wait a) False n (sr_reads a) of
       None \<Rightarrow> Ret Hangs
     | Some (r, bs, _) \<Rightarrow> Ret (Returned (r, bs)))"

subsection \<open>The calls of the lock files\<close>

definition on_lock :: "(lock_call, ans, 'r) prog \<Rightarrow> 'r sys_prog" where
  "on_lock p = embed On_lock (\<lambda>a. \<lparr>a_ret = sr_ret a, a_errno = sr_errno a, a_data = sr_name a\<rparr>) p"

subsection \<open>The kernel\<close>

text \<open>
  The open descriptors of the process, what it has written to and read from each, and where each datagram socket
  is connected to. A call that opens answers with a descriptor that is not open, or with -1;
  names of interfaces and terminals are short.
\<close>

record kernel =
  k_open :: "int set"
  k_sent :: "int \<Rightarrow> byte list"
  k_got :: "int \<Rightarrow> byte list"
  k_peer :: "int \<Rightarrow> sockaddr option"

definition opens :: "int \<Rightarrow> kernel \<Rightarrow> kernel option" where
  "opens r w =
     (if 0 \<le> r \<and> r \<notin> k_open w
      then Some (w\<lparr>k_open := insert r (k_open w), k_sent := (k_sent w)(r := []),
             k_got := (k_got w)(r := []), k_peer := (k_peer w)(r := None)\<rparr>)
      else if r = - 1 then Some w else None)"

fun kstep :: "kernel \<Rightarrow> sys_call \<Rightarrow> sys_ans \<Rightarrow> kernel option" where
  "kstep w (Socket t) a = opens (sr_ret a) w"
| "kstep w (Accept fd) a = opens (sr_ret a) w"
| "kstep w (Open_file n) a = opens (sr_ret a) w"
| "kstep w (Dup fd) a = opens (sr_ret a) w"
| "kstep w Get_pt a = opens (sr_ret a) w"
| "kstep w (Create_file n) a = opens (sr_ret a) w"
| "kstep w (Open_log f) a = opens (sr_ret a) w"
| "kstep w Close_log a = (if - 1 \<le> sr_ret a then Some (w\<lparr>k_open := k_open w - {sr_ret a}\<rparr>) else None)"
| "kstep w Socket_pair a =
     (if sr_ret a = 0 then
        (if fst (sr_fds a) \<noteq> snd (sr_fds a) \<and> 0 \<le> fst (sr_fds a) \<and> 0 \<le> snd (sr_fds a)
         then Option.bind (opens (fst (sr_fds a)) w) (opens (snd (sr_fds a))) else None)
      else if sr_ret a = - 1 then Some w else None)"
| "kstep w (Ioctl fd (TUNSETIFF t n)) a = (if - 1 \<le> sr_ret a \<and> length (sr_name a) < 16 then Some w else None)"
| "kstep w (Ioctl fd (OTUNSETIFF t n)) a = (if - 1 \<le> sr_ret a \<and> length (sr_name a) < 16 then Some w else None)"
| "kstep w (Pts_name fd) a = (if - 1 \<le> sr_ret a \<and> length (sr_name a) < 20 then Some w else None)"
| "kstep w (Close fd) a = (if - 1 \<le> sr_ret a then Some (w\<lparr>k_open := k_open w - {fd}\<rparr>) else None)"
| "kstep w (Connect fd s) a =
     (if sr_ret a = 0 then Some (w\<lparr>k_peer := (k_peer w)(fd := Some s)\<rparr>)
      else if sr_ret a = - 1 then Some w else None)"
| "kstep w (Write_n fd bs) a =
     Some (case write_n False bs (sr_writes a) of
             None \<Rightarrow> w
           | Some (_, sent, _) \<Rightarrow> w\<lparr>k_sent := (k_sent w)(fd := k_sent w fd @ sent)\<rparr>)"
| "kstep w (Readn_t fd n t) a =
     Some (case readn_t (sr_wait a) False n (sr_reads a) of
             None \<Rightarrow> w
           | Some (_, bs, _) \<Rightarrow> w\<lparr>k_got := (k_got w)(fd := k_got w fd @ bs)\<rparr>)"
| "kstep w q a = (if - 1 \<le> sr_ret a then Some w else None)"

lemma wp_set_signals:
  "wp kstep p w Q \<Longrightarrow> wp kstep (set_signals gs p) w Q" "wlp kstep p w Q \<Longrightarrow> wlp kstep (set_signals gs p) w Q"
  by (induction gs p rule: set_signals.induct) (simp_all split: if_splits)

lemma opens_open: "opens r w = Some w' \<Longrightarrow> r \<noteq> - 1 \<Longrightarrow> 0 \<le> r \<and> r \<notin> k_open w \<and> k_open w' = insert r (k_open w)"
  by (auto simp: opens_def split: if_splits)

lemma opens_fails [simp]: "opens (- 1) w = Some w"
  by (simp add: opens_def)

lemma opens_bytes:
  "opens r w = Some w' \<Longrightarrow> fd \<in> k_open w \<Longrightarrow> k_sent w' fd = k_sent w fd \<and> k_got w' fd = k_got w fd"
  by (auto simp: opens_def split: if_splits)

lemma wp_sys_write_n:
  assumes "\<And>r k. Q r (w\<lparr>k_sent := (k_sent w)(fd := k_sent w fd @ take k bs)\<rparr>)"
  shows "wp kstep (sys_write_n fd bs) w (on_return Q)"
proof -
  have "\<exists>k. sent = take k bs" if "write_n False bs es = Some (r, sent, c, es')" for es r sent c es'
    using write_n_prefix(1) [OF that] .
  then show ?thesis using assms by (fastforce simp: sys_write_n_def split: option.split)
qed

lemma wp_sys_readn_t:
  assumes "\<And>r bs. length bs \<le> n \<Longrightarrow> Q (r, bs) (w\<lparr>k_got := (k_got w)(fd := k_got w fd @ bs)\<rparr>)"
  shows "wp kstep (sys_readn_t fd n t) w (on_return Q)"
proof -
  have len: "length bs \<le> n" if "readn_t sel False n es = Some (r, bs, c, es')" for sel es r bs c es'
    using that read_n_ret(2) by (fastforce simp: readn_t_def split: if_splits)
  show ?thesis unfolding sys_readn_t_def by (auto split: option.split intro: assms dest: len)
qed

text \<open>An answer that holds a return value only.\<close>

definition sys_ret :: "int \<Rightarrow> sys_ans" where
  "sys_ret r = \<lparr>sr_ret = r, sr_errno = EOTHER, sr_addr = \<lparr>s_addr = 0, s_port = 0\<rparr>, sr_name = [], sr_fds = (r, r),
     sr_wait = 0, sr_reads = [], sr_writes = [], sr_msgs = []\<rparr>"

lemma sys_ret_simps [simp]:
  "sr_ret (sys_ret r) = r" "sr_reads (sys_ret r) = []" "sr_writes (sys_ret r) = []" "sr_msgs (sys_ret r) = []"
  "sr_name (sys_ret r) = []"
  by (simp_all add: sys_ret_def)

end
