(* ===== verification/DevDriver.thy ===== *)
theory DevDriver
  imports SysCall
begin

section \<open>Device drivers (\<open>generic/\<close>, \<open>linux/\<close>, \<open>freebsd/\<close>, \<open>openbsd/\<close>, \<open>svr4/\<close>)\<close>

text \<open>
  How the local end of a tunnel is opened and closed on each system. The argument of an open
  function is the buffer for the name of the device, 20 bytes in \<open>tunnel\<close>; the new name is part of
  the result. Paths are built in buffers of 14 bytes: a longer one is \<^const>\<open>Fault\<close>. A build has the
  drivers of one system; \<open>driver\<close> is the interface they share.
\<close>

type_synonym dev_open = "string \<Rightarrow> (int \<times> string) sys_prog"

type_synonym dev_close = "int \<Rightarrow> string \<Rightarrow> int sys_prog"

definition VTUN_DEV_LEN :: nat where [simp]: "VTUN_DEV_LEN = 20"

text \<open>\<open>sprintf(tunname, "/dev/%s", dev)\<close> with \<open>char tunname[14]\<close>, and \<open>open\<close>.\<close>

definition open_named :: dev_open where
  "open_named dev =
     (if 14 \<le> length (''/dev/'' @ dev) then Fault
      else Ask (Open_file (''/dev/'' @ dev)) (\<lambda>a. Ret (sr_ret a, dev)))"

subsection \<open>Generic and BSD drivers\<close>

text \<open>The search for a free device, \<open>/dev/tun0\<close> to \<open>/dev/tun254\<close>; descriptor 0 does not count.\<close>

primrec dev_scan :: "string \<Rightarrow> nat list \<Rightarrow> (int \<times> string) sys_prog" where
  "dev_scan pre [] = Ret (- 1, [])"
| "dev_scan pre (i # is) =
     Ask (Open_file (''/dev/'' @ pre @ show_int (int i))) (\<lambda>a.
       if sr_ret a > 0 then Ret (sr_ret a, pre @ show_int (int i)) else dev_scan pre is)"

definition generic_open :: "string \<Rightarrow> dev_open" where
  "generic_open pre dev = (if dev \<noteq> [] then open_named dev else dev_scan pre [0..<255])"

definition generic_tun_open :: dev_open where "generic_tun_open = generic_open ''tun''"
definition generic_tap_open :: dev_open where "generic_tap_open = generic_open ''tap''"

definition dev_close :: dev_close where
  "dev_close fd dev = Ask (Close fd) (\<lambda>a. Ret (sr_ret a))"

text \<open>
  The BSD drivers return the result of the last \<open>open\<close>, which is 0 when the last device of the search
  got descriptor 0; FreeBSD then sets the modes of the device.
\<close>

primrec bsd_scan :: "nat list \<Rightarrow> int \<Rightarrow> (int \<times> string) sys_prog" where
  "bsd_scan [] fd = Ret (fd, [])"
| "bsd_scan (i # is) fd =
     Ask (Open_file (''/dev/tun'' @ show_int (int i))) (\<lambda>a.
       if sr_ret a > 0 then Ret (sr_ret a, ''tun'' @ show_int (int i)) else bsd_scan is (sr_ret a))"

definition openbsd_tun_open :: dev_open where
  "openbsd_tun_open dev = (if dev \<noteq> [] then open_named dev else bsd_scan [0..<255] (- 1))"

definition freebsd_tun_open :: dev_open where
  "freebsd_tun_open dev =
     bind_prog (if dev \<noteq> [] then open_named dev else bsd_scan [0..<255] (- 1)) (\<lambda>(fd, name).
       if fd > - 1 then Ask (Ioctl fd TUNSLMODE) (\<lambda>_. Ask (Ioctl fd TUNSIFHEAD) (\<lambda>_. Ret (fd, name)))
       else Ret (fd, name))"

subsection \<open>Linux\<close>

text \<open>The old interface: the search stops at the first missing device after \<open>/dev/tun0\<close>.\<close>

primrec linux_scan :: "string \<Rightarrow> nat list \<Rightarrow> (int \<times> string) sys_prog" where
  "linux_scan pre [] = Ret (- 1, [])"
| "linux_scan pre (i # is) =
     Ask (Open_file (''/dev/'' @ pre @ show_int (int i))) (\<lambda>a.
       if sr_ret a > 0 then Ret (sr_ret a, pre @ show_int (int i))
       else if sr_errno a \<noteq> ENOENT then linux_scan pre is
       else if i \<noteq> 0 then Ret (- 1, [])
       else linux_scan pre is)"

definition tun_open_common0 :: "bool \<Rightarrow> dev_open" where
  "tun_open_common0 istun dev =
     (if dev \<noteq> [] then open_named dev
      else linux_scan (if istun then ''tun'' else ''tap'') [0..<255])"

definition tun_open_common :: "bool \<Rightarrow> dev_open" where
  "tun_open_common istun dev =
     Ask (Open_file ''/dev/net/tun'') (\<lambda>a.
       if sr_ret a < 0 then tun_open_common0 istun dev
       else (let fd = sr_ret a;
                 named = (\<lambda>n. if VTUN_DEV_LEN \<le> length n then Fault else Ret (fd, n));
                 failed = Ask (Close fd) (\<lambda>_. Ret (- 1, dev))
             in Ask (Ioctl fd (TUNSETIFF istun dev)) (\<lambda>b.
                  if sr_ret b < 0 then
                    (if sr_errno b = EBADFD
                     then Ask (Ioctl fd (OTUNSETIFF istun dev)) (\<lambda>c.
                       if sr_ret c < 0 then failed else named (sr_name c))
                     else failed)
                  else named (sr_name b))))"

definition linux_tun_open :: dev_open where "linux_tun_open = tun_open_common True"
definition linux_tap_open :: dev_open where "linux_tap_open = tun_open_common False"

subsection \<open>System V\<close>

text \<open>The unit number in the name of a device, \<open>atoi\<close> from its first digit on; -1 without a name.\<close>

definition svr4_ppa :: "string \<Rightarrow> int" where
  "svr4_ppa dev =
     (if dev = [] then - 1 else to_int32 (fst (strtol (dropWhile (\<lambda>c. \<not> is_digit c) dev))))"

text \<open>
  What \<open>tun_open\<close> and \<open>tap_open\<close> share: a new unit, and its stream below IP. The result are the
  descriptors of the unit and of the stream, the number of the unit and the multiplexor id. On an
  error no descriptor is closed.
\<close>

definition svr4_attach :: "string \<Rightarrow> string \<Rightarrow> int \<Rightarrow> (int \<Rightarrow> request) \<Rightarrow> (int \<times> int \<times> int \<times> int) option sys_prog" where
  "svr4_attach path dev ip link =
     Ask (Open_file path) (\<lambda>a. if sr_ret a < 0 then Ret None else
     Ask (Ioctl (sr_ret a) (TUNNEWPPA (svr4_ppa dev))) (\<lambda>b. if sr_ret b < 0 then Ret None else
     Ask (Open_file path) (\<lambda>c. if sr_ret c < 0 then Ret None else
     Ask (Ioctl (sr_ret c) (I_PUSH ''ip'')) (\<lambda>d. if sr_ret d < 0 then Ret None else
     Ask (Ioctl (sr_ret c) (IF_UNITSEL (sr_ret b))) (\<lambda>e. if sr_ret e < 0 then Ret None else
     Ask (Ioctl ip (link (sr_ret c))) (\<lambda>m. if sr_ret m < 0 then Ret None else
       Ret (Some (sr_ret a, sr_ret c, sr_ret b, sr_ret m))))))))"

text \<open>The argument and the last component of the result are the static variable \<open>ip_fd\<close>.\<close>

definition svr4_tun_open :: "string \<Rightarrow> int \<Rightarrow> ((int \<times> string) \<times> int) sys_prog" where
  "svr4_tun_open dev ip_fd =
     Ask (Open_file ''/dev/udp'') (\<lambda>u.
       let ip = sr_ret u in
       if ip < 0 then Ret ((- 1, dev), ip)
       else bind_prog (svr4_attach ''/dev/tun'' dev ip I_PLINK) (\<lambda>r.
         case r of
           None \<Rightarrow> Ret ((- 1, dev), ip)
         | Some (fd, if_fd, ppa, muxid) \<Rightarrow>
             Ask (Close if_fd) (\<lambda>_.
               let name = ''tun'' @ show_int ppa in
               Ask (Ioctl ip (SIOCSIFMUXID name muxid)) (\<lambda>s.
                 if sr_ret s < 0 then Ask (Ioctl ip (I_PUNLINK muxid)) (\<lambda>_. Ret ((- 1, name), ip))
                 else Ret ((fd, name), ip)))))"

definition svr4_tun_close :: "int \<Rightarrow> string \<Rightarrow> int \<Rightarrow> int sys_prog" where
  "svr4_tun_close fd dev ip_fd =
     Ask (Ioctl ip_fd (SIOCGIFFLAGS dev)) (\<lambda>a. if sr_ret a < 0 then Ret 0 else
     Ask (Ioctl ip_fd (SIOCGIFMUXID dev)) (\<lambda>b. if sr_ret b < 0 then Ret 0 else
     Ask (Ioctl ip_fd (I_PUNLINK (sr_ret b))) (\<lambda>c. if sr_ret c < 0 then Ret 0 else
     Ask (Close ip_fd) (\<lambda>_. Ask (Close fd) (\<lambda>_. Ret 0)))))"

definition svr4_tap_open :: "string \<Rightarrow> int \<Rightarrow> ((int \<times> string) \<times> int) sys_prog" where
  "svr4_tap_open dev ip_fd =
     bind_prog (if ip_fd \<noteq> 0 then Ask (Close ip_fd) (\<lambda>_. Ret ()) else Ret ()) (\<lambda>_.
     Ask (Open_file ''/dev/ip'') (\<lambda>u.
       let ip = sr_ret u in
       if ip < 0 then Ret ((- 1, dev), ip)
       else bind_prog (svr4_attach ''/dev/tap'' dev ip I_LINK) (\<lambda>r.
         case r of
           None \<Rightarrow> Ret ((- 1, dev), ip)
         | Some (fd, if_fd, ppa, muxid) \<Rightarrow> Ret ((fd, ''tap'' @ show_int ppa), ip))))"

subsection \<open>Terminals and pipes\<close>

text \<open>\<open>pty_open\<close>, with and without \<open>getpt\<close> in the C library; and \<open>pipe_open\<close>.\<close>

definition pty_open_getpt :: "(int \<times> string) sys_prog" where
  "pty_open_getpt =
     Ask Get_pt (\<lambda>a. if sr_ret a < 0 then Ret (- 1, []) else
     Ask (Grant_pt (sr_ret a)) (\<lambda>b. if sr_ret b \<noteq> 0 then Ret (- 1, []) else
     Ask (Unlock_pt (sr_ret a)) (\<lambda>c. if sr_ret c \<noteq> 0 then Ret (- 1, []) else
     Ask (Pts_name (sr_ret a)) (\<lambda>d. if sr_ret d < 0 then Ret (- 1, []) else
       if VTUN_DEV_LEN \<le> length (sr_name d) then Fault else Ret (sr_ret a, sr_name d)))))"

primrec pty_scan :: "(char \<times> char) list \<Rightarrow> (int \<times> string) sys_prog" where
  "pty_scan [] = Ret (- 1, [])"
| "pty_scan (x # xs) =
     Ask (Open_file (''/dev/pty'' @ [fst x, snd x])) (\<lambda>a.
       if sr_ret a < 0 then pty_scan xs
       else Ask (Access_file (''/dev/tty'' @ [fst x, snd x])) (\<lambda>b.
         if sr_ret b < 0 then Ask (Close (sr_ret a)) (\<lambda>_. pty_scan xs)
         else Ret (sr_ret a, ''/dev/tty'' @ [fst x, snd x])))"

definition pty_open_search :: "(int \<times> string) sys_prog" where
  "pty_open_search = pty_scan (List.product ''pqrstuvwxyz'' ''0123456789abcdefghijklmnopqrstuv'')"

definition pipe_open :: "(int \<times> int \<times> int) sys_prog" where
  "pipe_open = Ask Socket_pair (\<lambda>a. if sr_ret a < 0 then Ret (- 1, - 1, - 1) else Ret (0, sr_fds a))"

subsection \<open>The contract of a driver\<close>

text \<open>What an open function leaves: nothing, or one more descriptor, which it returns.\<close>

definition opened :: "kernel \<Rightarrow> int \<Rightarrow> kernel \<Rightarrow> bool" where
  "opened w r w' =
     (if r < 0 then k_open w' = k_open w else r \<notin> k_open w \<and> k_open w' = insert r (k_open w))"

definition dev_post :: "kernel \<Rightarrow> int \<times> string \<Rightarrow> kernel \<Rightarrow> bool" where
  "dev_post w x w' = (opened w (fst x) w' \<and> length (snd x) < VTUN_DEV_LEN)"

text \<open>A terminal may be left behind when it fails, but not more than that.\<close>

definition pty_post :: "int set \<Rightarrow> int \<times> string \<Rightarrow> kernel \<Rightarrow> bool" where
  "pty_post open0 x w' =
     (if fst x < 0 then k_open w' = open0 \<or> (\<exists>s. s \<notin> open0 \<and> k_open w' = insert s open0)
      else fst x \<notin> open0 \<and> k_open w' = insert (fst x) open0)"

locale tun_driver =
  fixes dopen :: dev_open and dclose :: dev_close
  assumes open_fds: "0 \<in> k_open w \<Longrightarrow> length dev \<le> 8
      \<Longrightarrow> wp kstep (dopen dev) w (dev_post w)"
    and close_fds: "wp kstep (dclose fd n) w (\<lambda>_ w'. k_open w' = k_open w - {fd})"
begin

lemma open_close:
  assumes "0 \<in> k_open w" and "length dev \<le> 8"
  shows "wp kstep (bind_prog (dopen dev) (\<lambda>(r, n). if r < 0 then Ret r else dclose r n)) w
    (\<lambda>_ w'. k_open w' = k_open w)"
  unfolding wp_bind
proof (rule wp_mono [OF open_fds [OF assms]], clarify)
  fix r n w' assume "dev_post w (r, n) w'"
  then have o: "opened w r w'" by (simp add: dev_post_def)
  show "wp kstep (if r < 0 then Ret r else dclose r n) w' (\<lambda>_ w'. k_open w' = k_open w)"
  proof (cases "r < 0")
    case False
    then show ?thesis using wp_mono [OF close_fds [of r n w']] o by (auto simp: opened_def)
  qed (use o in \<open>simp add: opened_def\<close>)
qed

end

lemma opens_opened: "opens r w = Some w' \<Longrightarrow> opened w r w'"
  by (auto simp: opens_def opened_def split: if_splits)

lemma opened_fails: "k_open w' = k_open w \<Longrightarrow> opened w (- 1) w'"
  by (simp add: opened_def)

subsection \<open>The drivers keep it\<close>

lemma dev_postI: "opens r w = Some w' \<Longrightarrow> length n < VTUN_DEV_LEN \<Longrightarrow> dev_post w (r, n) w'"
  by (simp add: dev_post_def opens_opened)

lemma dev_post_fails: "k_open w' = k_open w \<Longrightarrow> length n < VTUN_DEV_LEN \<Longrightarrow> dev_post w (- 1, n) w'"
  by (simp add: dev_post_def opened_fails)

lemma wp_open_named: "length dev \<le> 8 \<Longrightarrow> wp kstep (open_named dev) w (dev_post w)"
  by (auto simp: open_named_def intro!: dev_postI)

lemma short_unit: "length pre = 3 \<Longrightarrow> i < 255 \<Longrightarrow> length (pre @ show_int (int i)) < VTUN_DEV_LEN"
  using length_show_nat_le [of i 2] by (simp add: show_int_def)

text \<open>Where descriptor 0 is open, what the scans take for a failure is one.\<close>

lemma opens_nonpos: "0 \<in> k_open w \<Longrightarrow> opens r w = Some w' \<Longrightarrow> \<not> 0 < r \<Longrightarrow> w' = w \<and> r = - 1"
  by (cases "r = 0") (auto simp: opens_def split: if_splits)

lemma wp_dev_scan:
  "0 \<in> k_open w \<Longrightarrow> length pre = 3 \<Longrightarrow> \<forall>i \<in> set is. i < 255 \<Longrightarrow> wp kstep (dev_scan pre is) w (dev_post w)"
  by (induction "is") (auto intro!: dev_post_fails dev_postI short_unit dest: opens_nonpos)

lemma wp_linux_scan:
  "0 \<in> k_open w \<Longrightarrow> length pre = 3 \<Longrightarrow> \<forall>i \<in> set is. i < 255 \<Longrightarrow> wp kstep (linux_scan pre is) w (dev_post w)"
proof (induction "is")
  case (Cons i "is")
  have "length (pre @ show_int (int i)) < VTUN_DEV_LEN" by (rule short_unit) (use Cons in simp_all)
  then show ?case using Cons opens_nonpos [OF Cons.prems(1)] by (fastforce intro: dev_postI)
qed (simp add: dev_post_fails)

lemma wp_bsd_scan:
  "0 \<in> k_open w \<Longrightarrow> \<forall>i \<in> set is. i < 255 \<Longrightarrow> wp kstep (bsd_scan is (- 1)) w (dev_post w)"
proof (induction "is")
  case (Cons i "is")
  have "length (''tun'' @ show_int (int i)) < VTUN_DEV_LEN" by (rule short_unit) (use Cons in simp_all)
  then show ?case using Cons opens_nonpos [OF Cons.prems(1)] by (fastforce intro: dev_postI)
qed (simp add: dev_post_fails)

lemma wp_pty_getpt: "wp kstep pty_open_getpt w (pty_post (k_open w))"
  by (auto simp: pty_open_getpt_def pty_post_def opens_def split: if_splits)

lemma pty_found: "opens r w = Some w' \<Longrightarrow> \<not> r < 0 \<Longrightarrow> k_open w = open0 \<Longrightarrow> pty_post open0 (r, n) w'"
  by (auto simp: pty_post_def opens_def split: if_splits)

lemma pty_skipped: "opens r w = Some w' \<Longrightarrow> \<not> r < 0 \<Longrightarrow> k_open w' - {r} = k_open w"
  "opens r w = Some w' \<Longrightarrow> r < 0 \<Longrightarrow> k_open w' = k_open w"
  by (auto simp: opens_def split: if_splits)

lemma wp_pty_scan: "k_open w = open0 \<Longrightarrow> wp kstep (pty_scan xs) w (pty_post open0)"
proof (induction xs arbitrary: w)
  case (Cons x xs)
  then show ?case by (auto intro!: Cons.IH intro: pty_found simp: pty_skipped split: if_splits)
qed (simp add: pty_post_def)

lemma wp_pty_search: "wp kstep pty_open_search w (pty_post (k_open w))"
  unfolding pty_open_search_def by (rule wp_pty_scan) (rule refl)

lemma wp_dev_close: "wp kstep (dev_close fd n) w (\<lambda>_ w'. k_open w' = k_open w - {fd})"
  by (simp add: dev_close_def)

lemma wp_common0: "0 \<in> k_open w \<Longrightarrow> length dev \<le> 8 \<Longrightarrow> wp kstep (tun_open_common0 t dev) w (dev_post w)"
  by (auto simp: tun_open_common0_def intro!: wp_open_named wp_linux_scan)

lemma wp_common:
  assumes "0 \<in> k_open w" and "length dev \<le> 8"
  shows "wp kstep (tun_open_common t dev) w (dev_post w)"
proof -
  have "wp kstep (tun_open_common0 t dev) w (dev_post w)" by (rule wp_common0 [OF assms])
  moreover have "sr_ret a \<noteq> - 1 \<and> k_open w' - {sr_ret a} = k_open w" if "opens (sr_ret a) w = Some w'" "\<not> sr_ret a < 0" for a w'
    using that by (auto dest: opens_open)
  ultimately show ?thesis using assms(2)
    by (auto simp: tun_open_common_def Let_def opens_def split: if_splits intro!: dev_postI dev_post_fails)
qed

interpretation generic_tun: tun_driver generic_tun_open dev_close
  by unfold_locales (auto simp: generic_tun_open_def generic_open_def wp_open_named wp_dev_close intro!: wp_dev_scan)

interpretation generic_tap: tun_driver generic_tap_open dev_close
  by unfold_locales (auto simp: generic_tap_open_def generic_open_def wp_open_named wp_dev_close intro!: wp_dev_scan)

interpretation openbsd_tun: tun_driver openbsd_tun_open dev_close
  by unfold_locales (auto simp: openbsd_tun_open_def wp_open_named wp_dev_close intro!: wp_bsd_scan)

interpretation linux_tun: tun_driver linux_tun_open dev_close
  by unfold_locales (auto simp: linux_tun_open_def wp_dev_close intro: wp_common)

interpretation linux_tap: tun_driver linux_tap_open dev_close
  by unfold_locales (auto simp: linux_tap_open_def wp_dev_close intro: wp_common)

interpretation freebsd_tun: tun_driver freebsd_tun_open dev_close
proof unfold_locales
  fix w :: kernel and dev :: string assume a: "0 \<in> k_open w" "length dev \<le> 8"
  have o: "wp kstep (if dev \<noteq> [] then open_named dev else bsd_scan [0..<255] (- 1)) w (dev_post w)"
    using a by (auto intro: wp_open_named wp_bsd_scan)
  show "wp kstep (freebsd_tun_open dev) w (dev_post w)" unfolding freebsd_tun_open_def wp_bind
    by (rule wp_mono [OF o]) (auto split: if_splits)
qed (rule wp_dev_close)

subsection \<open>Properties\<close>

text \<open>
  C34. On Linux, for a device name of at most 8 characters, \<open>tun_open\<close> neither fails to return nor leaves
  a buffer, whatever the kernel answers: it gives a new descriptor with a name that fits the
  buffer of \<open>tunnel\<close>, or -1 with every descriptor it opened closed again.
\<close>

theorem linux_tun_opened:
  assumes "0 \<in> k_open w" and "length dev \<le> 8" and "replay kstep (linux_tun_open dev) as w = Some (x, w')"
  shows "\<exists>r n. x = Some (r, n) \<and> opened w r w' \<and> length n < VTUN_DEV_LEN"
  using wp_replay [OF linux_tun.open_fds [OF assms(1,2)] assms(3)] by (auto simp: dev_post_def)

text \<open>
  A device name of 9 characters or more overruns the path buffer of the old Linux interface, which is
  the fallback when \<open>/dev/net/tun\<close> does not open; \<open>tunnel\<close> passes names of up to 19 characters.
\<close>

theorem tun_name_overflow:
  assumes "8 < length dev"
  shows "replay kstep (linux_tun_open dev) [sys_ret (- 1)] w = Some (None, w)"
  using assms by (auto simp: linux_tun_open_def tun_open_common_def tun_open_common0_def open_named_def)

text \<open>
  On System V, \<open>tap_open\<close> leaves its second descriptor of the device open although nothing refers to
  it any more, and \<open>tun_open\<close> leaves its descriptors open when a step of the set-up fails.
\<close>

theorem svr4_leaks:
  assumes "0 \<le> ip" and "0 \<le> fd" and "0 \<le> if_fd" and "distinct [ip, fd, if_fd]" and "{ip, fd, if_fd} \<inter> k_open w = {}"
    and "0 \<le> ppa"
  shows "(\<exists>w'. replay kstep (svr4_tap_open dev 0) (map sys_ret [ip, fd, ppa, if_fd, 0, 0, 0]) w
      = Some (Some ((fd, ''tap'' @ show_int ppa), ip), w') \<and> k_open w' = {ip, fd, if_fd} \<union> k_open w)
    \<and> (\<exists>w'. replay kstep (svr4_tun_open dev n) (map sys_ret [ip, fd, - 1]) w = Some (Some ((- 1, dev), ip), w')
      \<and> k_open w' = {ip, fd} \<union> k_open w)"
  using assms by (auto simp: svr4_tap_open_def svr4_tun_open_def svr4_attach_def opens_def Let_def)

subsection \<open>Examples\<close>

definition ex_kernel :: kernel where
  "ex_kernel = \<lparr>k_open = {0, 1, 2, 3}, k_sent = (\<lambda>_. []), k_got = (\<lambda>_. []), k_peer = (\<lambda>_. None)\<rparr>"

theorem linux_tun_opened_witness:
  "\<exists>w'. replay kstep (linux_tun_open []) [sys_ret 4, (sys_ret 0)\<lparr>sr_name := ''tun0''\<rparr>] ex_kernel = Some (Some (4, ''tun0''), w')
    \<and> opened ex_kernel 4 w'"
proof -
  have "\<exists>w'. replay kstep (linux_tun_open []) [sys_ret 4, (sys_ret 0)\<lparr>sr_name := ''tun0''\<rparr>] ex_kernel = Some (Some (4, ''tun0''), w')"
    by (simp add: linux_tun_open_def tun_open_common_def opens_def ex_kernel_def Let_def)
  then obtain w' where r: "replay kstep (linux_tun_open []) [sys_ret 4, (sys_ret 0)\<lparr>sr_name := ''tun0''\<rparr>] ex_kernel
    = Some (Some (4, ''tun0''), w')" ..
  from linux_tun_opened [OF _ _ r] r show ?thesis by (auto simp: ex_kernel_def)
qed

theorem tun_name_overflow_witness:
  "replay kstep (linux_tun_open ''tunnel-to-b'') [sys_ret (- 1)] ex_kernel = Some (None, ex_kernel)"
  by (rule tun_name_overflow) simp

theorem svr4_leaks_witness:
  "\<exists>w'. replay kstep (svr4_tap_open ''tap7'' 0) (map sys_ret [4, 5, 7, 6, 0, 0, 0]) ex_kernel
      = Some (Some ((5, ''tap'' @ show_int 7), 4), w') \<and> k_open w' = {4, 5, 6} \<union> k_open ex_kernel"
  using svr4_leaks [of 4 5 6 ex_kernel 7 "''tap7''"] by (simp add: ex_kernel_def)

end
