(* ===== verification/NetLib.thy ===== *)
theory NetLib
  imports DevDriver VtunHost
begin

section \<open>Network helpers (\<open>netlib.c\<close>)\<close>

text \<open>
  The functions of \<open>netlib.c\<close> as programs of system calls: connecting with a timeout, the addresses
  of the two ends, and the UDP session that replaces the TCP connection. \<open>strdup\<close> succeeds.
\<close>

subsection \<open>Text and bytes of an address\<close>

definition inet_ntoa :: "32 word \<Rightarrow> string" where
  "inet_ntoa a =
     (let byte = (\<lambda>n. show_int (uint (drop_bit n a AND 255)))
      in byte 24 @ ''.'' @ byte 16 @ ''.'' @ byte 8 @ ''.'' @ byte 0)"

text \<open>The bytes of \<open>sin_port\<close> in memory, in network order.\<close>

definition port_bytes :: "16 word \<Rightarrow> byte list" where
  "port_bytes p = [ucast (drop_bit 8 p), ucast p]"

definition bytes_port :: "byte list \<Rightarrow> 16 word" where
  "bytes_port bs = push_bit 8 (ucast (bs ! 0)) OR ucast (bs ! 1)"

lemma port_bytes_inverse [simp]: "bytes_port (port_bytes p) = p"
  by (rule bit_word_eqI) (auto simp: bytes_port_def port_bytes_def bit_simps)

lemma length_port_bytes [simp]: "length (port_bytes p) = 2"
  by (simp add: port_bytes_def)

subsection \<open>Connecting with a timeout\<close>

text \<open>\<open>getsockopt\<close> stores the error of the socket into \<open>errno\<close>, 0 when there is none.\<close>

definition connect_t :: "int \<Rightarrow> sockaddr \<Rightarrow> int \<Rightarrow> int sys_prog" where
  "connect_t s svr timeout =
     Ask (Get_flags s) (\<lambda>f. Ask (Set_flags s None) (\<lambda>a.
       if sr_ret a < 0 then Ret (- 1)
       else Ask (Connect s svr) (\<lambda>c.
         if sr_ret c < 0 \<and> sr_errno c \<noteq> EINPROGRESS then Ret (- 1)
         else Ask (Wait_writable s (if timeout \<noteq> 0 then Some timeout else None)) (\<lambda>w.
           let restore = (\<lambda>failed. Ask (Set_flags s (Some (sr_ret f))) (\<lambda>r.
                  Ret (if failed \<or> sr_ret r < 0 then - 1 else 0)))
           in if sr_ret w > 0 then Ask (Socket_error s) (\<lambda>e. restore (sr_ret e \<noteq> 0)) else restore True))))"

subsection \<open>Addresses\<close>

text \<open>\<open>getifaddr\<close> returns an \<open>unsigned long\<close>; -1 stands for a failure.\<close>

definition getifaddr :: "string \<Rightarrow> 64 word sys_prog" where
  "getifaddr ifname =
     Ask (Socket Datagram) (\<lambda>a.
       if sr_ret a = - 1 then Ret (- 1)
       else Ask (Ioctl (sr_ret a) (SIOCGIFADDR (take 15 ifname))) (\<lambda>b.
         Ask (Close (sr_ret a)) (\<lambda>_.
           Ret (if sr_ret b < 0 then - 1 else ucast (s_addr (sr_addr b))))))"

definition no_addr :: sockaddr where
  "no_addr = \<lparr>s_addr = 0, s_port = 0\<rparr>"

text \<open>
  \<open>generic_addr\<close>: the address is what \<open>getifaddr\<close> returned, cut to 32 bits, and a failure is told by
  0. A missing name is a NULL pointer for \<open>strncpy\<close> and the resolver.
\<close>

definition generic_addr :: "vtun_addr \<Rightarrow> (int \<times> sockaddr) sys_prog" where
  "generic_addr vaddr =
     (let finish = (\<lambda>a. Ret (0, no_addr\<lparr>s_addr := a,
                s_port := (if ad_port vaddr \<noteq> 0 then word_of_int (ad_port vaddr) else 0)\<rparr>))
      in if ad_type vaddr = VTUN_ADDR_IFACE then
           (case ad_name vaddr of
              None \<Rightarrow> Fault
            | Some n \<Rightarrow> bind_prog (getifaddr n) (\<lambda>r.
                let a = (ucast r :: 32 word) in if a = 0 then Ret (- 1, no_addr) else finish a))
         else if ad_type vaddr = VTUN_ADDR_NAME then
           (case ad_name vaddr of
              None \<Rightarrow> Fault
            | Some n \<Rightarrow> Ask (Get_host_by_name n) (\<lambda>r.
                if sr_ret r < 0 then Ret (- 1, no_addr) else finish (s_addr (sr_addr r))))
         else finish 0)"

definition local_addr :: "sockaddr \<Rightarrow> vtun_host \<Rightarrow> bool \<Rightarrow> (int \<times> sockaddr \<times> vtun_host) sys_prog" where
  "local_addr addr host con =
     (let set_laddr = (\<lambda>a. host\<lparr>vh_sopt := (vh_sopt host)\<lparr>so_laddr := Some (inet_ntoa (s_addr a))\<rparr>\<rparr>)
      in if con then
           Ask (Get_sock_name (rmt_fd host)) (\<lambda>r.
             if sr_ret r < 0 then Ret (- 1, addr, host) else Ret (0, sr_addr r, set_laddr (sr_addr r)))
         else bind_prog (generic_addr (src_addr host)) (\<lambda>(r, a).
           if r < 0 then Ret (- 1, a, host) else Ret (0, a, set_laddr a)))"

definition server_addr :: "int \<Rightarrow> string \<Rightarrow> vtun_host \<Rightarrow> (int \<times> sockaddr \<times> vtun_host) sys_prog" where
  "server_addr port svr_name host =
     (let addr = no_addr\<lparr>s_port := word_of_int port\<rparr>
      in Ask (Get_host_by_name svr_name) (\<lambda>r.
           if sr_ret r < 0 then Ret (- 1, addr, host)
           else (let a = s_addr (sr_addr r)
                 in Ret (0, addr\<lparr>s_addr := a\<rparr>,
                      host\<lparr>vh_sopt := (vh_sopt host)\<lparr>so_raddr := Some (inet_ntoa a), so_rport := port\<rparr>\<rparr>))))"

subsection \<open>The UDP session\<close>

text \<open>
  \<open>udp_session\<close>: \<open>junk\<close> is what the address on the stack holds when \<open>local_addr\<close> fails, which the code
  does not look at; \<open>conn\<close> is \<open>is_rmt_fd_connected\<close>. What \<open>readn_t\<close> does not store of the port is
  the port of the own socket, which the variable still holds.
\<close>

definition udp_meet :: "int \<Rightarrow> 16 word \<Rightarrow> vtun_host \<Rightarrow> bool \<Rightarrow> (int \<times> vtun_host \<times> bool) ended sys_prog" where
  "udp_meet s own host conn =
     and_go (sys_readn_t (rmt_fd host) 2 (vh_timeout host)) (\<lambda>(r, bs).
       if r < 0 then Ret (Returned (- 1, host, conn)) else
       (let port = bytes_port (bs @ drop (length bs) (port_bytes own)) in
        Ask (Get_peer_name (rmt_fd host)) (\<lambda>p. if sr_ret p \<noteq> 0 then Ret (Returned (- 1, host, conn)) else
        (let h = host\<lparr>vh_sopt := (vh_sopt host)\<lparr>so_rport := uint port\<rparr>\<rparr>;
             replace = (\<lambda>c. Ask (Close (rmt_fd h)) (\<lambda>_. Ret (Returned (s, h\<lparr>rmt_fd := s\<rparr>, c))))
         in if has_flag host VTUN_NAT_HACK_MASK then replace False
            else Ask (Connect s ((sr_addr p)\<lparr>s_port := port\<rparr>)) (\<lambda>c.
              if sr_ret c \<noteq> 0 then Ret (Returned (- 1, host, conn)) else replace True)))))"

definition udp_setup :: "sockaddr \<Rightarrow> int \<Rightarrow> vtun_host \<Rightarrow> bool \<Rightarrow> (int \<times> vtun_host \<times> bool) ended sys_prog" where
  "udp_setup junk s host conn =
     Ask (Set_option s Reuse_addr) (\<lambda>_.
     bind_prog (local_addr junk host True) (\<lambda>(_, saddr, h1).
     Ask (Bind s saddr) (\<lambda>b. if sr_ret b \<noteq> 0 then Ret (Returned (- 1, h1, conn)) else
     Ask (Get_sock_name s) (\<lambda>n. if sr_ret n \<noteq> 0 then Ret (Returned (- 1, h1, conn)) else
     (let own = s_port (sr_addr n) in
      and_go (sys_write_n (rmt_fd h1) (port_bytes own)) (\<lambda>w.
      if w < 0 then Ret (Returned (- 1, h1, conn))
      else udp_meet s own (h1\<lparr>vh_sopt := (vh_sopt h1)\<lparr>so_lport := uint own\<rparr>\<rparr>) conn))))))"

definition udp_session :: "sockaddr \<Rightarrow> vtun_host \<Rightarrow> bool \<Rightarrow> (int \<times> vtun_host \<times> bool) ended sys_prog" where
  "udp_session junk host conn =
     Ask (Socket Datagram) (\<lambda>a.
       if sr_ret a = - 1 then Ret (Returned (- 1, host, conn)) else udp_setup junk (sr_ret a) host conn)"

subsection \<open>What they do to the descriptors\<close>

lemma wp_getifaddr: "wp kstep (getifaddr n) w (\<lambda>r w'. k_open w' = k_open w
    \<and> (\<forall>fd \<in> k_open w. k_sent w' fd = k_sent w fd \<and> k_got w' fd = k_got w fd))"
  by (auto simp: getifaddr_def dest: opens_open opens_bytes split: if_splits)

lemma wp_connect_t: "wp kstep (connect_t s a t) w (\<lambda>r w'. k_open w' = k_open w \<and> k_sent w' = k_sent w \<and> k_got w' = k_got w)"
  by (auto simp: connect_t_def Let_def split: if_splits)

text \<open>What the session leaves when it fails, and when it succeeds.\<close>

definition udp_failed :: "kernel \<Rightarrow> int \<Rightarrow> vtun_host \<Rightarrow> vtun_host \<Rightarrow> kernel \<Rightarrow> bool" where
  "udp_failed w s h h' w' = (rmt_fd h' = rmt_fd h \<and> s \<notin> k_open w \<and> k_open w' = insert s (k_open w))"

definition udp_ready :: "kernel \<Rightarrow> vtun_host \<Rightarrow> int \<Rightarrow> vtun_host \<Rightarrow> kernel \<Rightarrow> bool" where
  "udp_ready w h r h' w' =
     (r \<notin> k_open w \<and> k_open w' = insert r (k_open w) - {rmt_fd h} \<and> rmt_fd h' = r
      \<and> (\<exists>own port k bs. so_lport (vh_sopt h') = uint own \<and> so_rport (vh_sopt h') = uint port
           \<and> k_sent w' (rmt_fd h) = k_sent w (rmt_fd h) @ take k (port_bytes own)
           \<and> k_got w' (rmt_fd h) = k_got w (rmt_fd h) @ bs
           \<and> port = bytes_port (bs @ drop (length bs) (port_bytes own))
           \<and> (\<not> has_flag h VTUN_NAT_HACK_MASK \<longrightarrow> (\<exists>a. k_peer w' r = Some a \<and> s_port a = port))))"

lemma has_flag_sopt [simp]: "has_flag (h\<lparr>vh_sopt := x\<rparr>) f = has_flag h f" "has_flag (h\<lparr>rmt_fd := n\<rparr>) f = has_flag h f"
  by (simp_all add: has_flag_def)

definition udp_met :: "kernel \<Rightarrow> int \<Rightarrow> 16 word \<Rightarrow> vtun_host \<Rightarrow> int \<Rightarrow> vtun_host \<Rightarrow> kernel \<Rightarrow> bool" where
  "udp_met w s own h r h' w' =
     (if r = - 1 then rmt_fd h' = rmt_fd h \<and> k_open w' = k_open w
      else r = s \<and> k_open w' = k_open w - {rmt_fd h} \<and> rmt_fd h' = s \<and> k_sent w' = k_sent w
        \<and> (\<exists>port bs. so_lport (vh_sopt h') = uint own \<and> so_rport (vh_sopt h') = uint port
            \<and> k_got w' (rmt_fd h) = k_got w (rmt_fd h) @ bs
            \<and> port = bytes_port (bs @ drop (length bs) (port_bytes own))
            \<and> (\<not> has_flag h VTUN_NAT_HACK_MASK \<longrightarrow> (\<exists>a. k_peer w' s = Some a \<and> s_port a = port))))"

lemma wp_udp_meet:
  assumes "rmt_fd h \<in> k_open w" and "0 \<le> s" and "s \<noteq> rmt_fd h" and "so_lport (vh_sopt h) = uint own"
  shows "wp kstep (udp_meet s own h c) w (on_return (\<lambda>(r, h', c') w'. udp_met w s own h r h' w'))"
  unfolding udp_meet_def
  by (intro wp_and_go wp_sys_readn_t) (use assms in \<open>auto simp: Let_def udp_met_def split: if_splits\<close>)

lemma udp_met_ready:
  assumes "opens s w = Some w1" and "s \<noteq> - 1" and "rmt_fd h \<in> k_open w"
    and h1: "rmt_fd h1 = rmt_fd h" "vh_flags h1 = vh_flags h"
    and w2: "w2 = w1\<lparr>k_sent := (k_sent w1)(rmt_fd h := k_sent w1 (rmt_fd h) @ take k (port_bytes own))\<rparr>"
    and m: "udp_met w2 s own h1 r h' w'"
  shows "if r = - 1 then udp_failed w s h h' w' else r = s \<and> udp_ready w h r h' w'"
proof (cases "r = - 1")
  case True
  then show ?thesis using m opens_open [OF assms(1,2)] h1 w2 by (auto simp: udp_met_def udp_failed_def)
next
  case False
  note op = opens_open [OF assms(1,2)] and ob = opens_bytes [OF assms(1,3)]
  have fl: "has_flag h1 VTUN_NAT_HACK_MASK = has_flag h VTUN_NAT_HACK_MASK" using h1 by (simp add: has_flag_def)
  have st: "k_sent w' (rmt_fd h) = k_sent w (rmt_fd h) @ take k (port_bytes own)" "k_got w2 (rmt_fd h) = k_got w (rmt_fd h)"
    using m False ob w2 by (auto simp: udp_met_def)
  have "r = s \<and> k_open w' = insert r (k_open w) - {rmt_fd h} \<and> rmt_fd h' = r"
    using m False op h1 w2 by (auto simp: udp_met_def)
  moreover obtain port bs where "so_lport (vh_sopt h') = uint own" "so_rport (vh_sopt h') = uint port"
    "k_got w' (rmt_fd h) = k_got w (rmt_fd h) @ bs" "port = bytes_port (bs @ drop (length bs) (port_bytes own))"
    "\<not> has_flag h VTUN_NAT_HACK_MASK \<longrightarrow> (\<exists>a. k_peer w' s = Some a \<and> s_port a = port)"
    using m False h1 st(2) unfolding udp_met_def fl by auto
  ultimately have "r = s" "udp_ready w h r h' w'" using False op st(1) unfolding udp_ready_def by auto
  then show ?thesis using False by (simp only: if_False simp_thms)
qed

definition udp_tried :: "kernel \<Rightarrow> int \<Rightarrow> vtun_host \<Rightarrow> int \<times> vtun_host \<times> bool \<Rightarrow> kernel \<Rightarrow> bool" where
  "udp_tried w s h x w' =
     (case x of (r, h', c') \<Rightarrow> if r = - 1 then udp_failed w s h h' w' else r = s \<and> udp_ready w h r h' w')"

lemma wp_udp_setup:
  assumes o: "opens s w = Some w1" "s \<noteq> - 1" and "rmt_fd h \<in> k_open w"
  shows "wp kstep (udp_setup junk s h c) w1 (on_return (udp_tried w s h))"
proof -
  note op = opens_open [OF o]
  have failed: "udp_tried w s h (- 1, h', c') w'" if "rmt_fd h' = rmt_fd h" "k_open w' = k_open w1" for h' c' w'
    using op that by (simp add: udp_tried_def udp_failed_def)
  have tail: "wp kstep (and_go (sys_write_n (rmt_fd h) (port_bytes own)) (\<lambda>x.
      if x < 0 then Ret (Returned (- 1, h1, c)) else udp_meet s own h2 c)) w1 (on_return (udp_tried w s h))"
    if h1: "rmt_fd h1 = rmt_fd h" and h2: "rmt_fd h2 = rmt_fd h" "vh_flags h2 = vh_flags h" "so_lport (vh_sopt h2) = uint own"
    for h1 h2 own
  proof (intro wp_and_go wp_sys_write_n)
    fix r k
    let ?w = "w1\<lparr>k_sent := (k_sent w1)(rmt_fd h := k_sent w1 (rmt_fd h) @ take k (port_bytes own))\<rparr>"
    have "wp kstep (udp_meet s own h2 c) ?w (on_return (udp_tried w s h))"
    proof (rule wp_mono [OF wp_udp_meet [of h2 ?w s own c]])
      show "on_return (udp_tried w s h) e w'" if "on_return (\<lambda>(r, h', c') w'. udp_met ?w s own h2 r h' w') e w'" for e w'
        using that by (rule on_return_mono) (use udp_met_ready [OF o assms(3) h2(1,2) refl] in \<open>auto simp: udp_tried_def\<close>)
    qed (use op h2 assms(3) in auto)
    then show "wp kstep (if r < 0 then Ret (Returned (- 1, h1, c)) else udp_meet s own h2 c) ?w (on_return (udp_tried w s h))"
      using failed h1 by simp
  qed
  show ?thesis by (auto simp: udp_setup_def local_addr_def Let_def intro: failed intro!: tail)
qed

text \<open>The same for the whole function, with the socket left open.\<close>

definition udp_post :: "kernel \<Rightarrow> vtun_host \<Rightarrow> int \<times> vtun_host \<times> bool \<Rightarrow> kernel \<Rightarrow> bool" where
  "udp_post w h x w' =
     ((case x of (r, h', c') \<Rightarrow> r = - 1 \<and> rmt_fd h' = rmt_fd h \<and> k_open w' = k_open w) \<or> (\<exists>s. udp_tried w s h x w'))"

lemma wp_udp_session:
  assumes "rmt_fd h \<in> k_open w"
  shows "wp kstep (udp_session junk h c) w (on_return (udp_post w h))"
proof -
  have "wp kstep (udp_setup junk s h c) w1 (on_return (udp_post w h))" if o: "opens s w = Some w1" "s \<noteq> - 1" for s w1
    using wp_udp_setup [OF o assms]
    by (rule wp_mono) (erule on_return_mono, auto simp: udp_post_def)
  then show ?thesis by (auto simp: udp_session_def udp_post_def)
qed

subsection \<open>Properties\<close>


lemma udp_session_ready:
  assumes "rmt_fd h \<in> k_open w" and "replay kstep (udp_session junk h c) as w = Some (Some (Returned (r, h', c')), w')"
    and "r \<noteq> - 1"
  shows "udp_ready w h r h' w'"
  using wp_replay [OF wp_udp_session [OF assms(1)] assms(2)] assms(3) by (auto simp: udp_post_def udp_tried_def)

text \<open>
  C33. When the two ends of a TCP connection set up a UDP session, and each gets the two bytes that the other
  has written, they agree on the ports: the remote port of each is the local port of the other, and
  that is the port its socket is connected to.
\<close>

theorem udp_ports_agree:
  assumes "rmt_fd h1 \<in> k_open w1" and "rmt_fd h2 \<in> k_open w2"
    and "replay kstep (udp_session j1 h1 c1) as1 w1 = Some (Some (Returned (r1, h1', c1')), w1')" and "r1 \<noteq> - 1"
    and "replay kstep (udp_session j2 h2 c2) as2 w2 = Some (Some (Returned (r2, h2', c2')), w2')" and "r2 \<noteq> - 1"
    and "k_sent w1' (rmt_fd h1) = k_sent w1 (rmt_fd h1) @ p1" and "k_got w2' (rmt_fd h2) = k_got w2 (rmt_fd h2) @ p1"
    and "k_sent w2' (rmt_fd h2) = k_sent w2 (rmt_fd h2) @ p2" and "k_got w1' (rmt_fd h1) = k_got w1 (rmt_fd h1) @ p2"
    and "length p1 = 2" and "length p2 = 2"
  shows "so_rport (vh_sopt h1') = so_lport (vh_sopt h2') \<and> so_rport (vh_sopt h2') = so_lport (vh_sopt h1')
    \<and> (\<not> has_flag h1 VTUN_NAT_HACK_MASK \<longrightarrow> (\<exists>a. k_peer w1' r1 = Some a \<and> uint (s_port a) = so_lport (vh_sopt h2')))
    \<and> (\<not> has_flag h2 VTUN_NAT_HACK_MASK \<longrightarrow> (\<exists>a. k_peer w2' r2 = Some a \<and> uint (s_port a) = so_lport (vh_sopt h1')))"
proof -
  have full: "p = port_bytes own" if "p = take k (port_bytes own)" "length p = 2" for p k own
    using that by (metis length_port_bytes length_take min.absorb_iff2 min.commute take_all_iff)
  obtain own1 k1 b1 where 1: "so_lport (vh_sopt h1') = uint own1" "p1 = take k1 (port_bytes own1)" "p2 = b1"
    "so_rport (vh_sopt h1') = uint (bytes_port (b1 @ drop (length b1) (port_bytes own1)))"
    "\<not> has_flag h1 VTUN_NAT_HACK_MASK \<longrightarrow> (\<exists>a. k_peer w1' r1 = Some a \<and> s_port a = bytes_port (b1 @ drop (length b1) (port_bytes own1)))"
    using udp_session_ready [OF assms(1,3,4)] assms(7,10) unfolding udp_ready_def by auto
  obtain own2 k2 b2 where 2: "so_lport (vh_sopt h2') = uint own2" "p2 = take k2 (port_bytes own2)" "p1 = b2"
    "so_rport (vh_sopt h2') = uint (bytes_port (b2 @ drop (length b2) (port_bytes own2)))"
    "\<not> has_flag h2 VTUN_NAT_HACK_MASK \<longrightarrow> (\<exists>a. k_peer w2' r2 = Some a \<and> s_port a = bytes_port (b2 @ drop (length b2) (port_bytes own2)))"
    using udp_session_ready [OF assms(2,5,6)] assms(8,9) unfolding udp_ready_def by auto
  have "p1 = port_bytes own1" "p2 = port_bytes own2" using full 1(2) 2(2) assms(11,12) by blast+
  then show ?thesis using 1 2 assms(11,12) by auto
qed

text \<open>
  A peer that closes the connection instead of sending its port is not noticed: \<open>readn_t\<close> returns 0,
  which is not an error for \<open>udp_session\<close>, and the socket is connected to the peer's address with the own port.
\<close>

theorem udp_session_own_port:
  assumes "rmt_fd h \<in> k_open w" and "replay kstep (udp_session junk h c) as w = Some (Some (Returned (r, h', c')), w')"
    and "r \<noteq> - 1" and "k_got w' (rmt_fd h) = k_got w (rmt_fd h)"
  shows "so_rport (vh_sopt h') = so_lport (vh_sopt h')"
proof -
  obtain own bs where s: "so_lport (vh_sopt h') = uint own"
    "so_rport (vh_sopt h') = uint (bytes_port (bs @ drop (length bs) (port_bytes own)))"
    and bs: "k_got w' (rmt_fd h) = k_got w (rmt_fd h) @ bs"
    using udp_session_ready [OF assms(1-3)] unfolding udp_ready_def by blast
  from bs have "bs = []" using assms(4) by simp
  then show ?thesis using s by simp
qed

text \<open>
  An interface without an address is not an error for \<open>generic_addr\<close>: \<open>getifaddr\<close> fails with -1, the test
  is for 0, and the address becomes 255.255.255.255, whether the socket or the request fails.
\<close>

theorem iface_failure_taken:
  assumes "ad_type v = VTUN_ADDR_IFACE" and "ad_name v = Some n" and "0 \<le> s" and "s \<notin> k_open w"
  shows "\<exists>a w1 w2. inet_ntoa (s_addr a) = ''255.255.255.255''
    \<and> replay kstep (generic_addr v) [sys_ret (- 1)] w = Some (Some (0, a), w1)
    \<and> replay kstep (generic_addr v) [sys_ret s, sys_ret (- 1), sys_ret 0] w = Some (Some (0, a), w2)"
proof -
  have "show_int 255 = ''255''" by (simp add: show_int_def vt_run)
  then have "inet_ntoa (- 1) = ''255.255.255.255''" by (simp add: inet_ntoa_def mask_eq_exp_minus_1)
  moreover have "(ucast (- 1 :: 64 word) :: 32 word) = - 1" by (rule bit_word_eqI) (simp add: bit_simps)
  moreover have "s \<noteq> - 1" using assms(3) by simp
  ultimately show ?thesis using assms by (simp add: generic_addr_def getifaddr_def opens_def Let_def no_addr_def)
qed

subsection \<open>Examples\<close>

definition ex_udp_host :: vtun_host where
  "ex_udp_host = default_host\<lparr>rmt_fd := 3, vh_flags := VTUN_TUN OR VTUN_UDP\<rparr>"

text \<open>A session whose peer sends the bytes \<open>bs\<close> and then closes.\<close>

definition ex_udp_answers :: "16 word \<Rightarrow> byte list \<Rightarrow> sys_ans list" where
  "ex_udp_answers own bs =
     [sys_ret 4, sys_ret 0, sys_ret 0, sys_ret 0, (sys_ret 0)\<lparr>sr_addr := \<lparr>s_addr = 0, s_port = own\<rparr>\<rparr>,
      (sys_ret 0)\<lparr>sr_writes := [WrOk 2]\<rparr>, (sys_ret 0)\<lparr>sr_wait := 1, sr_reads := [RdData bs, RdData []]\<rparr>,
      sys_ret 0, sys_ret 0, sys_ret 0]"

lemma ex_udp_run:
  assumes "bs = [] \<or> bs = port_bytes p"
  shows "\<exists>h' w'. replay kstep (udp_session no_addr ex_udp_host True) (ex_udp_answers own bs) ex_kernel
      = Some (Some (Returned (4, h', True)), w')
    \<and> k_sent w' 3 = port_bytes own \<and> k_got w' 3 = bs"
proof -
  have f: "has_flag ex_udp_host VTUN_NAT_HACK_MASK = False" by (simp add: ex_udp_host_def has_flag_def default_host_def zero_host_def)
  have w: "write_n False (port_bytes own) [WrOk 2] = Some (2, port_bytes own, False, [])"
    by (simp add: write_n_def write_n_loop_eqs port_bytes_def)
  have r: "\<exists>n es. n \<ge> 0 \<and> readn_t 1 False 2 [RdData bs, RdData []] = Some (n, bs, False, es)"
    using assms by (auto simp: readn_t_def read_n_def read_n_loop_eqs port_bytes_def)
  have fd: "rmt_fd ex_udp_host = 3" by (simp add: ex_udp_host_def)
  from r obtain n es where "n \<ge> 0" "readn_t 1 False 2 [RdData bs, RdData []] = Some (n, bs, False, es)" by blast
  then show ?thesis using f w
    by (simp add: udp_session_def udp_setup_def udp_meet_def local_addr_def sys_write_n_def sys_readn_t_def ex_udp_answers_def
        ex_kernel_def opens_def fd Let_def)
qed

lemma ex_udp_fd: "rmt_fd ex_udp_host = 3" "rmt_fd ex_udp_host \<in> k_open ex_kernel" "k_sent ex_kernel 3 = []"
    "k_got ex_kernel 3 = []" "\<not> has_flag ex_udp_host VTUN_NAT_HACK_MASK"
  by (simp_all add: ex_udp_host_def ex_kernel_def has_flag_def default_host_def zero_host_def)


theorem udp_ports_agree_witness:
  "\<exists>h1 w1 h2 w2. replay kstep (udp_session no_addr ex_udp_host True) (ex_udp_answers 5000 (port_bytes 6000)) ex_kernel
      = Some (Some (Returned (4, h1, True)), w1)
    \<and> replay kstep (udp_session no_addr ex_udp_host True) (ex_udp_answers 6000 (port_bytes 5000)) ex_kernel
      = Some (Some (Returned (4, h2, True)), w2)
    \<and> so_rport (vh_sopt h1) = so_lport (vh_sopt h2) \<and> so_rport (vh_sopt h2) = so_lport (vh_sopt h1)"
proof -
  obtain h1 w1 where 1: "replay kstep (udp_session no_addr ex_udp_host True) (ex_udp_answers 5000 (port_bytes 6000)) ex_kernel
      = Some (Some (Returned (4, h1, True)), w1)" "k_sent w1 3 = port_bytes 5000" "k_got w1 3 = port_bytes 6000"
    using ex_udp_run [of "port_bytes 6000" 6000 5000] by blast
  obtain h2 w2 where 2: "replay kstep (udp_session no_addr ex_udp_host True) (ex_udp_answers 6000 (port_bytes 5000)) ex_kernel
      = Some (Some (Returned (4, h2, True)), w2)" "k_sent w2 3 = port_bytes 6000" "k_got w2 3 = port_bytes 5000"
    using ex_udp_run [of "port_bytes 5000" 5000 6000] by blast
  have "so_rport (vh_sopt h1) = so_lport (vh_sopt h2) \<and> so_rport (vh_sopt h2) = so_lport (vh_sopt h1)"
    using udp_ports_agree [OF ex_udp_fd(2) ex_udp_fd(2) 1(1) _ 2(1), of "port_bytes 5000" "port_bytes 6000"] 1 2 ex_udp_fd
    by simp
  with 1(1) 2(1) show ?thesis by blast
qed

theorem udp_session_own_port_witness:
  "\<exists>h' w'. replay kstep (udp_session no_addr ex_udp_host True) (ex_udp_answers 5000 []) ex_kernel
     = Some (Some (Returned (4, h', True)), w') \<and> so_rport (vh_sopt h') = so_lport (vh_sopt h')"
proof -
  obtain h' w' where r: "replay kstep (udp_session no_addr ex_udp_host True) (ex_udp_answers 5000 []) ex_kernel
     = Some (Some (Returned (4, h', True)), w')" "k_got w' 3 = []" using ex_udp_run [of "[]" 0 5000] by blast
  from udp_session_own_port [OF ex_udp_fd(2) r(1)] r(2) ex_udp_fd have "so_rport (vh_sopt h') = so_lport (vh_sopt h')" by simp
  with r(1) show ?thesis by blast
qed

theorem iface_failure_taken_witness:
  "\<exists>a w1. inet_ntoa (s_addr a) = ''255.255.255.255'' \<and> replay kstep
     (generic_addr (zero_addr\<lparr>ad_type := VTUN_ADDR_IFACE, ad_name := Some ''eth7''\<rparr>)) [sys_ret (- 1)] ex_kernel
     = Some (Some (0, a), w1)"
  using iface_failure_taken [of "zero_addr\<lparr>ad_type := VTUN_ADDR_IFACE, ad_name := Some ''eth7''\<rparr>" "''eth7''" 4 ex_kernel]
  by (auto simp: ex_kernel_def)

end
