(* ===== verification/Command.thy ===== *)
theory Command
  imports SysCall
begin

section \<open>Commands of a session (\<open>lib.c\<close>)\<close>

text \<open>
  When a tunnel comes up or goes down the daemon runs commands: \<open>subst_opt\<close> replaces the options in
  their arguments, \<open>split_args\<close> cuts them into an argument vector in place, and \<open>run_cmd\<close> forks and
  executes. Buffers are lists of characters as long as the memory they stand for; an access
  outside is undefined, \<^const>\<open>None\<close>.
\<close>

subsection \<open>Substitution of options\<close>

text \<open>\<open>str[i]\<close>: a character, the terminating NUL, or nothing that may be read.\<close>

definition char_at :: "string \<Rightarrow> nat \<Rightarrow> char option" where
  "char_at s i = (if i < length s then Some (s ! i) else if i = length s then Some NUL else None)"

text \<open>
  The value of a supported option: \<^const>\<open>None\<close> for an unsupported letter, a NULL pointer inside, or a
  number, whose text must fit \<open>buf[10]\<close>.
\<close>

datatype optval = Unsupported | Null | Text string | Overrun

definition port_text :: "int \<Rightarrow> optval" where
  "port_text n = (if length (show_int n) < 10 then Text (show_int n) else Overrun)"

definition str_val :: "string option \<Rightarrow> optval" where
  "str_val s = (case s of None \<Rightarrow> Null | Some v \<Rightarrow> Text v)"

definition opt_value :: "vtun_sopt \<Rightarrow> char \<Rightarrow> optval" where
  "opt_value opt c =
     (if c = CHR ''%'' \<or> c = CHR ''d'' then str_val (so_dev opt)
      else if c = CHR ''A'' then str_val (so_laddr opt)
      else if c = CHR ''P'' then port_text (so_lport opt)
      else if c = CHR ''a'' then str_val (so_raddr opt)
      else if c = CHR ''p'' then port_text (so_rport opt)
      else if c = CHR ''h'' then str_val (so_host opt)
      else Unsupported)"

text \<open>\<open>nstr[np] = c\<close>, and \<open>memcpy(nstr + np, s, n)\<close>.\<close>

definition put :: "nat \<Rightarrow> string \<Rightarrow> char list \<Rightarrow> char list option" where
  "put i s b = (if i + length s \<le> length b then Some (take i b @ s @ drop (i + length s) b) else None)"

text \<open>
  The loop of \<open>subst_opt\<close>. The result is the string returned: the new one, or \<open>str\<close> itself when
  memory runs out. After a backslash the code looks at \<open>nstr[sp]\<close>, which nothing has written yet,
  where \<open>str[sp]\<close> was meant.
\<close>

function subst_loop :: "(char list \<Rightarrow> nat \<Rightarrow> char list option) \<Rightarrow> vtun_sopt \<Rightarrow> string \<Rightarrow> nat \<Rightarrow> nat \<Rightarrow> char list
    \<Rightarrow> string option" where
  "subst_loop realloc opt str sp np nstr =
     (case char_at str sp of
        None \<Rightarrow> None
      | Some c \<Rightarrow>
          (if sp = length str \<or> c = NUL then map_option cstr (put np [NUL] nstr)
           else if c = CHR ''%'' then
             (case char_at str (sp + 1) of
                None \<Rightarrow> None
              | Some o' \<Rightarrow>
                  (case opt_value opt o' of
                     Unsupported \<Rightarrow> subst_loop realloc opt str (sp + 1) np nstr
                   | Null \<Rightarrow> subst_loop realloc opt str (sp + 2) np nstr
                   | Overrun \<Rightarrow> None
                   | Text v \<Rightarrow>
                       (case realloc nstr (length nstr + length v - 2) of
                          None \<Rightarrow> Some str
                        | Some b \<Rightarrow>
                            (case put np v b of
                               None \<Rightarrow> None
                             | Some b' \<Rightarrow> subst_loop realloc opt str (sp + 2) (np + length v) b'))))
           else if c = CHR 0x5C then
             (case put np [c] nstr of
                None \<Rightarrow> None
              | Some b \<Rightarrow>
                  if length b \<le> sp + 1 then None
                  else if b ! (sp + 1) = NUL then subst_loop realloc opt str (sp + 1) (np + 1) b
                  else (case char_at str (sp + 1) of
                          None \<Rightarrow> None
                        | Some d \<Rightarrow>
                            (case put (np + 1) [d] b of
                               None \<Rightarrow> None
                             | Some b' \<Rightarrow> subst_loop realloc opt str (sp + 2) (np + 2) b')))
           else (case put np [c] nstr of
                   None \<Rightarrow> None
                 | Some b \<Rightarrow> subst_loop realloc opt str (sp + 1) (np + 1) b)))"
  by pat_completeness auto

termination
  by (relation "measure (\<lambda>(r, q, str, sp, np, b). Suc (length str) - sp)") (auto simp: char_at_def split: if_splits)

definition subst_opt :: "(nat \<Rightarrow> char list option) \<Rightarrow> (char list \<Rightarrow> nat \<Rightarrow> char list option)
    \<Rightarrow> string option \<Rightarrow> vtun_sopt \<Rightarrow> string option option" where
  "subst_opt malloc realloc str opt =
     (case str of
        None \<Rightarrow> Some None
      | Some s \<Rightarrow>
          (case malloc (length s + 1) of
             None \<Rightarrow> Some (Some s)
           | Some b \<Rightarrow> map_option Some (subst_loop realloc opt s 0 0 b)))"

declare subst_loop.simps [simp del]

text \<open>What substitution means, where no character is escaped.\<close>

fun expand :: "vtun_sopt \<Rightarrow> string \<Rightarrow> string" where
  "expand opt [] = []"
| "expand opt [c] = (if c = CHR ''%'' then [] else [c])"
| "expand opt (c # d # s) =
     (if c = CHR ''%'' then
        (case opt_value opt d of
           Unsupported \<Rightarrow> expand opt (d # s)
         | Text v \<Rightarrow> v @ expand opt s
         | _ \<Rightarrow> expand opt s)
      else c # expand opt (d # s))"

definition opts_ok :: "vtun_sopt \<Rightarrow> bool" where
  "opts_ok opt = (\<forall>c. opt_value opt c \<noteq> Overrun \<and> (\<forall>v. opt_value opt c = Text v \<longrightarrow> nul_free v))"

definition cmem_ok :: "(nat \<Rightarrow> char list option) \<Rightarrow> (char list \<Rightarrow> nat \<Rightarrow> char list option) \<Rightarrow> bool" where
  "cmem_ok malloc realloc = ((\<forall>n. \<exists>b. malloc n = Some b \<and> length b = n)
     \<and> (\<forall>b n. \<exists>b'. realloc b n = Some b' \<and> length b' = n \<and> take (min n (length b)) b' = take (min n (length b)) b))"

lemma put_fits: "i + length s \<le> length b \<Longrightarrow> put i s b = Some (take i b @ s @ drop (i + length s) b)"
  by (simp add: put_def)

lemma opt_value_NUL [simp]: "opt_value opt NUL = Unsupported"
  by (simp add: opt_value_def NUL_def)

lemma drop_step: "sp < length str \<Longrightarrow> drop sp str = str ! sp # drop (Suc sp) str"
  by (rule Cons_nth_drop_Suc [symmetric])

lemma nul_free_nth: "nul_free s \<Longrightarrow> i < length s \<Longrightarrow> s ! i \<noteq> NUL"
  unfolding nul_free_def by (metis nth_mem)

text \<open>One turn of the loop, case by case.\<close>

lemma subst_turn:
  assumes "sp < length str" and "nul_free str"
  shows "str ! sp \<noteq> CHR ''%'' \<Longrightarrow> str ! sp \<noteq> CHR 0x5C \<Longrightarrow> subst_loop realloc opt str sp np b
      = (case put np [str ! sp] b of None \<Rightarrow> None | Some b' \<Rightarrow> subst_loop realloc opt str (sp + 1) (np + 1) b')"
    and "str ! sp = CHR ''%'' \<Longrightarrow> length str = Suc sp \<Longrightarrow>
      subst_loop realloc opt str sp np b = subst_loop realloc opt str (Suc sp) np b"
    and "str ! sp = CHR ''%'' \<Longrightarrow> Suc sp < length str \<Longrightarrow> subst_loop realloc opt str sp np b
      = (case opt_value opt (str ! Suc sp) of
           Unsupported \<Rightarrow> subst_loop realloc opt str (sp + 1) np b
         | Null \<Rightarrow> subst_loop realloc opt str (sp + 2) np b
         | Overrun \<Rightarrow> None
         | Text v \<Rightarrow> (case realloc b (length b + length v - 2) of None \<Rightarrow> Some str
             | Some b1 \<Rightarrow> (case put np v b1 of None \<Rightarrow> None
                 | Some b2 \<Rightarrow> subst_loop realloc opt str (sp + 2) (np + length v) b2)))"
  using assms nul_free_nth [of str sp]
  by (simp_all add: subst_loop.simps [of realloc opt str sp] char_at_def split: optval.split)

lemma take_put: "i \<le> length b \<Longrightarrow> put i s b = Some b' \<Longrightarrow> take (i + length s) b' = take i b @ s \<and> length b' = length b"
  by (auto simp: put_def split: if_splits)

text \<open>Room in the new string: after \<open>realloc\<close> for a substitution, and after a substitution.\<close>

lemma subst_room:
  assumes "cmem_ok malloc realloc" and "np + n + 3 \<le> length b"
  obtains b1 b2 where "realloc b (length b + length v - 2) = Some b1" and "put np v b1 = Some b2"
    and "take (np + length v) b2 = take np b @ v" and "np + length v + n + 1 \<le> length b2"
proof -
  let ?n = "length b + length v - 2"
  obtain b1 where r: "realloc b ?n = Some b1" "length b1 = ?n" "take (min ?n (length b)) b1 = take (min ?n (length b)) b"
    using assms(1) unfolding cmem_ok_def by blast
  have le: "np + length v \<le> length b1" "np \<le> min ?n (length b)" using r(2) assms(2) by auto
  then have "take np b1 = take np b" using arg_cong [OF r(3), of "take np"] by (simp add: min_absorb1)
  then show thesis using r le assms(2) that [OF r(1)] by (auto simp: put_fits)
qed

lemma subst_loop_expand:
  assumes "cmem_ok malloc realloc" and "opts_ok opt" and nf: "nul_free str" and "CHR 0x5C \<notin> set str"
    and "sp \<le> length str" and "np + (length str - sp) + 1 \<le> length b" and "nul_free (take np b)"
  shows "subst_loop realloc opt str sp np b = Some (take np b @ expand opt (drop sp str))"
  using assms(5-7)
proof (induction "length str - sp" arbitrary: sp np b rule: less_induct)
  case less
  show ?case
  proof (cases "sp < length str")
    case False
    have "cstr (take np b @ NUL # drop (Suc np) b) = take np b"
      by (rule cstr_append_nul [OF less.prems(3)])
    then show ?thesis using False less.prems by (simp add: subst_loop.simps char_at_def put_fits)
  next
    case sp: True
    note turn = subst_turn [OF sp nf, of realloc opt np b] and ds = drop_step [OF sp]
    have nb: "str ! sp \<noteq> CHR 0x5C" using assms(4) sp nth_mem by metis
    consider (char) "str ! sp \<noteq> CHR ''%''" | (last) "str ! sp = CHR ''%''" "length str = Suc sp"
      | (opt) "str ! sp = CHR ''%''" "Suc sp < length str" using sp by linarith
    then show ?thesis
    proof cases
      case char
      obtain b' where b': "put np [str ! sp] b = Some b'" using less.prems(2) sp by (auto simp: put_def)
      from take_put [OF _ this] less.prems(2) have "take (np + 1) b' = take np b @ [str ! sp]" "length b' = length b" by auto
      then have "subst_loop realloc opt str (sp + 1) (np + 1) b' = Some (take np b @ str ! sp # expand opt (drop (sp + 1) str))"
        using less.hyps [of "sp + 1" "np + 1" b'] less.prems sp nul_free_nth [OF nf sp] by simp
      moreover have "expand opt (drop sp str) = str ! sp # expand opt (drop (sp + 1) str)"
        using char ds by (cases "drop (Suc sp) str") auto
      ultimately show ?thesis using turn(1) char nb b' by simp
    next
      case last
      then show ?thesis using less.hyps [of "Suc sp" np b] less.prems turn(2) ds by simp
    next
      case opt
      have dd: "drop sp str = CHR ''%'' # str ! Suc sp # drop (sp + 2) str" using ds drop_step [OF opt(2)] opt(1) by simp
      show ?thesis
      proof (cases "opt_value opt (str ! Suc sp)")
        case (Text v)
        have "np + (length str - (sp + 2)) + 3 \<le> length b" using less.prems(2) opt(2) by simp
        from subst_room [OF assms(1) this] obtain b1 b2 where b: "realloc b (length b + length v - 2) = Some b1"
          "put np v b1 = Some b2" "take (np + length v) b2 = take np b @ v"
          "np + length v + (length str - (sp + 2)) + 1 \<le> length b2" by blast
        have "nul_free v" using assms(2) Text by (simp add: opts_ok_def)
        then show ?thesis using less.hyps [of "sp + 2" "np + length v" b2] less.prems b turn(3) opt Text dd by simp
      next
        case Unsupported
        then show ?thesis using less.hyps [of "sp + 1" np b] less.prems turn(3) opt dd drop_step [OF opt(2)] by simp
      next
        case Null
        then show ?thesis using less.hyps [of "sp + 2" np b] less.prems turn(3) opt dd by simp
      qed (use assms(2) in \<open>simp add: opts_ok_def\<close>)
    qed
  qed
qed

lemma subst_expands:
  assumes "cmem_ok malloc realloc" and "opts_ok opt" and "nul_free str" and "CHR 0x5C \<notin> set str"
  shows "subst_opt malloc realloc (Some str) opt = Some (Some (expand opt str))"
proof -
  obtain b where b: "malloc (length str + 1) = Some b" "length b = length str + 1"
    using assms(1) unfolding cmem_ok_def by blast
  then show ?thesis using subst_loop_expand [OF assms, of 0 0 b] by (simp add: subst_opt_def)
qed

text \<open>
  \<open>subst_opt\<close> puts the values of the options in place of \<open>%d\<close>, \<open>%A\<close> and the others, drops the percent
  sign of an option it does not know, and never writes outside the string it grows, for every
  argument string without a backslash.
\<close>

theorem subst_opt_expands:
  assumes "cmem_ok malloc realloc" and "opts_ok opt" and "nul_free str" and "CHR 0x5C \<notin> set str"
  shows "subst_opt malloc realloc (Some str) opt = Some (Some (expand opt str))"
  by (rule subst_expands [OF assms])

text \<open>
  An argument string that ends in a backslash makes \<open>subst_opt\<close> read behind its end, unless the
  fresh memory it got happens to hold a NUL there: it tests \<open>nstr[sp]\<close> instead of \<open>str[sp]\<close>.
\<close>

theorem subst_opt_backslash_overrun:
  assumes "malloc (length s + 2) = Some b" and "length b = length s + 2" and "b ! Suc (length s) \<noteq> NUL"
    and "nul_free s" and "CHR 0x5C \<notin> set s" and "CHR ''%'' \<notin> set s"
  shows "subst_opt malloc realloc (Some (s @ [CHR 0x5C])) opt = None"
proof -
  let ?str = "s @ [CHR 0x5C]"
  have nf: "nul_free ?str" using assms(4) by (simp add: NUL_def)
  have over: "subst_loop realloc opt ?str (length s + 2) n c = None" for n c
    by (simp add: subst_loop.simps char_at_def)
  have last: "subst_loop realloc opt ?str (length s) (length s) c = None"
    if "length c = length s + 2" "c ! Suc (length s) \<noteq> NUL" for c
    using that over
    by (simp add: subst_loop.simps [of realloc opt ?str "length s"] char_at_def put_def NUL_def nth_append)
  have "subst_loop realloc opt ?str i i c = None"
    if "i \<le> length s" "length c = length s + 2" "c ! Suc (length s) \<noteq> NUL" for i c
    using that
  proof (induction "length s - i" arbitrary: i c)
    case 0
    then show ?case using last by simp
  next
    case (Suc n)
    then have i: "i < length s" by simp
    have "s ! i \<in> set s" using i by simp
    then have "s ! i \<noteq> CHR ''%''" "s ! i \<noteq> CHR 0x5C" using assms(5,6) by metis+
    then have "?str ! i \<noteq> CHR ''%''" "?str ! i \<noteq> CHR 0x5C" "?str ! i = s ! i"
      using i by (simp_all add: nth_append)
    moreover have "put i [s ! i] c = Some (take i c @ s ! i # drop (Suc i) c)"
      using i Suc.prems(2) by (simp add: put_def)
    moreover have "subst_loop realloc opt ?str (Suc i) (Suc i) (take i c @ s ! i # drop (Suc i) c) = None"
      using Suc i by (intro Suc.hyps(1)) (auto simp: nth_append min_def)
    ultimately show ?case using subst_turn(1) [OF _ nf, of i realloc opt i c] i by simp
  qed
  from this [of 0 b] show ?thesis using assms(1-3) by (simp add: subst_opt_def)
qed

subsection \<open>Splitting into arguments\<close>

text \<open>
  The state of \<open>split_args\<close>: the buffer (the string and its NUL), the read position, the pointers of
  the arguments that are complete, the pointer of the current one, and the mode: 0 between
  arguments, 1 in one, 2 in one and in quotes. \<open>shift_arg\<close> is the \<open>memmove\<close> that pushes the current
  argument over a quote or a backslash. \<open>cap\<close> is the number of slots of \<open>argv\<close>.
\<close>

definition shift_arg :: "nat \<Rightarrow> nat \<Rightarrow> char list \<Rightarrow> char list" where
  "shift_arg cur pos b =
     (if cur \<le> pos then take (Suc cur) b @ take (pos - cur) (drop cur b) @ drop (Suc pos) b else b)"

lemma length_shift [simp]: "pos < length b \<Longrightarrow> length (shift_arg cur pos b) = length b"
  by (auto simp: shift_arg_def)

function split_loop :: "nat \<Rightarrow> char list \<Rightarrow> nat \<Rightarrow> nat list \<Rightarrow> nat \<Rightarrow> nat \<Rightarrow> (char list \<times> nat list) option" where
  "split_loop cap b pos av cur mode =
     (if length b \<le> pos then None
      else if b ! pos = NUL then
        (let argv = (if mode = 0 then av else av @ [cur])
         in if length argv < cap then Some (b, argv) else None)
      else if b ! pos = CHR '' '' then
        (if mode = 1 then split_loop cap (b[pos := NUL]) (pos + 1) (av @ [cur]) cur 0
         else split_loop cap b (pos + 1) av cur mode)
      else if b ! pos = CHR 0x27 then
        (if mode = 0 then (if length av < cap then split_loop cap b (pos + 1) av (pos + 1) 2 else None)
         else split_loop cap (shift_arg cur pos b) (pos + 1) av (cur + 1) (if mode = 1 then 2 else 1))
      else if b ! pos = CHR 0x5C then
        (let b1 = (if mode = 0 then b else shift_arg cur pos b);
             cur1 = (if mode = 0 then cur else cur + 1)
         in if length b1 \<le> pos + 1 then None
            else if b1 ! (pos + 1) = NUL then split_loop cap b1 (pos + 1) av cur1 mode
            else if mode = 0 then
              (if length av < cap then split_loop cap b1 (pos + 2) av (pos + 1) 1 else None)
            else split_loop cap b1 (pos + 2) av cur1 mode)
      else if mode = 0 then (if length av < cap then split_loop cap b (pos + 1) av pos 1 else None)
      else split_loop cap b (pos + 1) av cur mode)"
  by pat_completeness auto

termination
  by (relation "measure (\<lambda>(cap, b, pos, av, cur, mode). length b - pos)") (auto simp: Let_def)

declare split_loop.simps [simp del]

definition split_args :: "nat \<Rightarrow> string option \<Rightarrow> (char list \<times> nat list) option" where
  "split_args cap str =
     (case str of
        None \<Rightarrow> if 0 < cap then Some ([], []) else None
      | Some s \<Rightarrow> split_loop cap (s @ [NUL]) 0 [] 0 0)"

text \<open>The strings an argument vector points to.\<close>

definition arg_strings :: "char list \<Rightarrow> nat list \<Rightarrow> string list" where
  "arg_strings b av = map (\<lambda>p. cstr (drop p b)) av"

text \<open>
  The words of a command line: blanks separate them, quotes group, a backslash takes the next
  character as it is. The first argument is the mode, the second what the word has so far.
\<close>

fun words :: "nat \<Rightarrow> string \<Rightarrow> string \<Rightarrow> string list" where
  "words m cur [] = (if m = 0 then [] else [cur])"
| "words m cur (c # s) =
     (if c = CHR '' '' then
        (if m = 1 then cur # words 0 [] s else words m (if m = 0 then [] else cur @ [c]) s)
      else if c = CHR 0x27 then words (if m = 0 then 2 else 3 - m) cur s
      else if c = CHR 0x5C then
        (case s of
           [] \<Rightarrow> if m = 0 then [] else [cur]
         | d # r \<Rightarrow> words (if m = 0 then 1 else m) (cur @ [d]) r)
      else words (if m = 0 then 1 else m) (cur @ [c]) s)"

text \<open>
  The state of the loop before what is still to read: in front, the arguments that are complete,
  each with its NUL; then the current one.
\<close>

definition args_in :: "char list \<Rightarrow> nat list \<Rightarrow> string list \<Rightarrow> bool" where
  "args_in pre av ws = list_all2 (\<lambda>p w. nul_free w \<and> (\<exists>y. drop p pre = w @ NUL # y)) av ws"

lemma drop_append_Cons: "drop p pre = w @ c # y \<Longrightarrow> drop p (pre @ z) = w @ c # y @ z"
proof -
  assume a: "drop p pre = w @ c # y"
  then have "p \<le> length pre" by (metis drop_eq_Nil append_is_Nil_conv list.distinct(1) nat_le_linear)
  then show ?thesis using a by simp
qed

lemma args_in_append:
  assumes "args_in pre av ws"
  shows "args_in (pre @ z) av ws"
  using assms unfolding args_in_def
proof (rule list_all2_mono)
  fix p w
  assume "nul_free w \<and> (\<exists>y. drop p pre = w @ NUL # y)"
  then show "nul_free w \<and> (\<exists>y. drop p (pre @ z) = w @ NUL # y)" using drop_append_Cons by metis
qed

lemma args_in_snoc:
  assumes "args_in pre av ws" and "nul_free w"
  shows "args_in (pre @ w @ NUL # z) (av @ [length pre]) (ws @ [w])"
proof -
  have "args_in (pre @ w @ NUL # z) av ws" by (rule args_in_append [OF assms(1)])
  moreover have "args_in (pre @ w @ NUL # z) [length pre] [w]" using assms(2) by (simp add: args_in_def)
  ultimately show ?thesis unfolding args_in_def by (rule list_all2_appendI)
qed

lemma args_in_strings: "args_in b av ws \<Longrightarrow> arg_strings b av = ws"
  unfolding args_in_def arg_strings_def
  by (induction av ws rule: list_all2_induct) (auto simp: cstr_append_nul)

text \<open>The shift keeps what is in front of the current argument and drops the character behind it.\<close>

lemma shift_arg_at:
  "shift_arg (length pre) (length pre + length w) (pre @ w @ c # z) = (pre @ [hd (w @ [c])]) @ w @ z"
  by (cases w) (simp_all add: shift_arg_def)

lemma nth_at: "n = length pre + length w \<Longrightarrow> (pre @ w @ c # z) ! n = c"
  by (simp add: nth_append)

text \<open>The loop, run to its end, gives the arguments \<open>res\<close>, or leaves \<open>argv\<close> when there are too many.\<close>

definition splits_to :: "nat \<Rightarrow> (char list \<times> nat list) option \<Rightarrow> string list \<Rightarrow> bool" where
  "splits_to cap r res =
     (if length res < cap then \<exists>b av. r = Some (b, av) \<and> arg_strings b av = res else r = None)"

lemma args_in_length: "args_in pre av ws \<Longrightarrow> length av = length ws"
  by (simp add: args_in_def list_all2_lengthD)

declare words.simps(2) [simp del]

lemma split_loop_end:
  assumes "args_in pre av ws" and "nul_free w"
    and "m = 0 \<and> w = [] \<or> (m = 1 \<or> m = 2) \<and> cur = length pre \<and> length av < cap"
  shows "splits_to cap (split_loop cap (pre @ w @ [NUL]) (length pre + length w) av cur m) (ws @ words m w [])"
proof -
  note len = args_in_length [OF assms(1)]
  have "split_loop cap (pre @ w @ [NUL]) (length pre + length w) av cur m
      = (let argv = (if m = 0 then av else av @ [cur]) in if length argv < cap then Some (pre @ w @ [NUL], argv) else None)"
    by (simp add: split_loop.simps [of cap "pre @ w @ [NUL]"] nth_at)
  moreover have "arg_strings (pre @ w @ [NUL]) (av @ [length pre]) = ws @ [w]"
    by (rule args_in_strings, rule args_in_snoc) (use assms in auto)
  moreover have "arg_strings (pre @ w @ [NUL]) av = ws"
    by (rule args_in_strings, rule args_in_append) (use assms in auto)
  ultimately show ?thesis using assms(3) len by (auto simp: splits_to_def Let_def)
qed

lemma split_loop_words:
  assumes "args_in pre av ws" and "nul_free w" and "nul_free s"
    and "m = 0 \<and> w = [] \<or> (m = 1 \<or> m = 2) \<and> cur = length pre \<and> length av < cap"
  shows "splits_to cap (split_loop cap (pre @ w @ s @ [NUL]) (length pre + length w) av cur m) (ws @ words m w s)"
  using assms
proof (induction m w s arbitrary: pre av ws cur rule: words.induct)
  case (1 m w)
  then show ?case using split_loop_end by simp
next
  case (2 m w c s)
  let ?b = "pre @ w @ c # s @ [NUL]" and ?pos = "length pre + length w"
  note turn = split_loop.simps [of cap ?b ?pos av cur m] and wd = words.simps(2) [of m w c s]
    and len = args_in_length [OF "2.prems"(1)]
  have c: "c \<noteq> NUL" "nul_free s" using "2.prems"(3) by (auto simp: nul_free_def)
  have ap: "args_in (pre @ z) av ws" for z by (rule args_in_append [OF "2.prems"(1)])
  have full: "splits_to cap None (ws @ xs)" if "\<not> length av < cap" for xs using that len by (simp add: splits_to_def)
  consider (blank) "c = CHR '' ''" | (quote) "c = CHR 0x27" | (esc) "c = CHR 0x5C"
    | (other) "c \<noteq> CHR '' ''" "c \<noteq> CHR 0x27" "c \<noteq> CHR 0x5C" by blast
  then show ?case
  proof cases
    case blank
    consider "m = 0" "w = []" | "m = 1" | "m = 2" using "2.prems"(4) by blast
    then show ?thesis
    proof cases
      case 1
      then show ?thesis using "2.IH"(2) [of "pre @ [c]" av ws cur] ap c blank turn wd by (simp add: nth_at)
    next
      case 2
      have "args_in (pre @ w @ [NUL]) (av @ [length pre]) (ws @ [w])"
        by (rule args_in_snoc) (use "2.prems" in auto)
      then show ?thesis using "2.IH"(1) [of "pre @ w @ [NUL]" "av @ [length pre]" "ws @ [w]" cur] 2 "2.prems"(4) c blank turn wd
        by (simp add: nth_at list_update_append)
    next
      case 3
      then show ?thesis using "2.IH"(2) [of pre av ws cur] "2.prems" c blank turn wd by (simp add: nth_at)
    qed
  next
    case quote
    show ?thesis
    proof (cases "m = 0")
      case True
      then show ?thesis using "2.IH"(3) [of "pre @ [c]" av ws "Suc (length pre)"] ap c quote turn wd "2.prems"(4) full
        by (auto simp: nth_at)
    next
      case False
      define x where "x = hd (w @ [c])"
      have "shift_arg (length pre) ?pos ?b = (pre @ [x]) @ w @ s @ [NUL]" unfolding x_def by (rule shift_arg_at)
      then show ?thesis using "2.IH"(3) [of "pre @ [x]" av ws "Suc (length pre)"] False ap c quote turn wd "2.prems"(2,4)
        by (auto simp: nth_at)
    qed
  next
    case esc
    show ?thesis
    proof (cases "m = 0")
      case m0: True
      show ?thesis
      proof (cases s)
        case Nil
        then show ?thesis using split_loop_end [OF ap [of "[c]"], of "[]" 0 cur cap] m0 c esc turn wd "2.prems"(4)
          by (auto simp: nth_at nth_append NUL_def)
      next
        case (Cons d r)
        then show ?thesis using "2.IH"(4) [of d r "pre @ [c]" av ws "Suc (length pre)"] m0 ap c esc turn wd "2.prems"(4) full
          by (auto simp: nth_at nth_append NUL_def)
      qed
    next
      case m1: False
      define x where "x = hd (w @ [c])"
      have sh: "shift_arg (length pre) ?pos ?b = (pre @ [x]) @ w @ s @ [NUL]" unfolding x_def by (rule shift_arg_at)
      show ?thesis
      proof (cases s)
        case Nil
        then show ?thesis using split_loop_end [OF ap [of "[x]"], of w m "Suc (length pre)" cap] m1 sh c esc turn wd "2.prems"(2,4)
          by (auto simp: nth_at nth_append NUL_def)
      next
        case (Cons d r)
        then show ?thesis using "2.IH"(4) [of d r "pre @ [x]" av ws "Suc (length pre)"] m1 sh ap c esc turn wd "2.prems"(2,4)
          by (auto simp: nth_at nth_append NUL_def)
      qed
    qed
  next
    case other
    show ?thesis
    proof (cases "m = 0")
      case True
      then show ?thesis using "2.IH"(5) [of pre av ws "length pre"] c other turn wd "2.prems" full
        by (auto simp: nth_at)
    next
      case False
      then show ?thesis using "2.IH"(5) [of pre av ws "length pre"] c other turn wd "2.prems"
        by (auto simp: nth_at)
    qed
  qed
qed

lemma split_words:
  assumes "nul_free str"
  shows "if length (words 0 [] str) < cap
    then \<exists>b av. split_args cap (Some str) = Some (b, av) \<and> arg_strings b av = words 0 [] str
    else split_args cap (Some str) = None"
  using split_loop_words [of "[]" "[]" "[]" "[]" str 0 0 cap] assms
  by (simp add: split_args_def splits_to_def args_in_def)

text \<open>
  C17. \<open>split_args\<close>, which works in place with one pass over the string, gives the words of the command
  line: blanks separate, quotes group, a backslash protects. It writes behind \<open>argv\<close> as soon as
  there are no fewer words than slots.
\<close>

theorem split_args_words:
  assumes "nul_free str"
  shows "if length (words 0 [] str) < cap
    then \<exists>b av. split_args cap (Some str) = Some (b, av) \<and> arg_strings b av = words 0 [] str
    else split_args cap (Some str) = None"
  by (rule split_words [OF assms])

theorem split_args_words_witness:
  "\<exists>b av. split_args 50 (Some ''a 'b c' d'') = Some (b, av) \<and> arg_strings b av = [''a'', ''b c'', ''d'']"
proof -
  have w: "words 0 [] ''a 'b c' d'' = [''a'', ''b c'', ''d'']" by (simp add: words.simps(2))
  show ?thesis using split_args_words [of "''a 'b c' d''" 50] unfolding w by (simp add: nul_free_def NUL_def)
qed

subsection \<open>Running a command\<close>

definition VTUN_CMD_WAIT :: int where [simp]: "VTUN_CMD_WAIT = 0x01"
definition VTUN_CMD_DELAY :: int where [simp]: "VTUN_CMD_DELAY = 0x02"
definition VTUN_DELAY_SEC :: int where [simp]: "VTUN_DELAY_SEC = 10"

text \<open>
  \<open>run_cmd\<close>. The parent waits and sleeps as the flags of the command say; the child executes, and ends
  with 1 when \<open>execv\<close> returns. \<open>argv\<close> has 50 slots, the first one taken by the name of the program.
\<close>

definition run_cmd :: "(nat \<Rightarrow> char list option) \<Rightarrow> (char list \<Rightarrow> nat \<Rightarrow> char list option)
    \<Rightarrow> vtun_cmd \<Rightarrow> vtun_sopt \<Rightarrow> int ended sys_prog" where
  "run_cmd malloc realloc cmd opt =
     Ask Fork (\<lambda>a.
       if sr_ret a = - 1 then Ret (Returned 0)
       else if sr_ret a \<noteq> 0 then
         (let delay = (if cmd_flags cmd AND VTUN_CMD_DELAY \<noteq> 0
                       then Ask (Sleep VTUN_DELAY_SEC) (\<lambda>_. Ret (Returned 0)) else Ret (Returned 0))
          in if cmd_flags cmd AND VTUN_CMD_WAIT \<noteq> 0 then Ask (Wait_pid (sr_ret a)) (\<lambda>_. delay) else delay)
       else
         (case subst_opt malloc realloc (args cmd) opt of
            None \<Rightarrow> Fault
          | Some as \<Rightarrow>
              (case prog cmd of
                 None \<Rightarrow> Ask (Execv ''/bin/sh'' ([''sh'', ''-c''] @ (case as of None \<Rightarrow> [] | Some s \<Rightarrow> [s])))
                           (\<lambda>_. Ret (Exited 1))
               | Some p \<Rightarrow>
                   (case split_args 49 as of
                      None \<Rightarrow> Fault
                    | Some (b, av) \<Rightarrow> Ask (Execv p (p # arg_strings b av)) (\<lambda>_. Ret (Exited 1))))))"

text \<open>The list of commands, \<open>llist_trav(&host->up, run_cmd, &host->sopt)\<close>: no command returns non-zero.\<close>

fun run_cmds :: "(nat \<Rightarrow> char list option) \<Rightarrow> (char list \<Rightarrow> nat \<Rightarrow> char list option)
    \<Rightarrow> vtun_cmd list \<Rightarrow> vtun_sopt \<Rightarrow> unit ended sys_prog" where
  "run_cmds malloc realloc [] opt = Ret (Returned ())"
| "run_cmds malloc realloc (c # cs) opt =
     and_go (run_cmd malloc realloc c opt) (\<lambda>r.
       if r \<noteq> 0 then Ret (Returned ()) else run_cmds malloc realloc cs opt)"

lemma expand_nul_free: "opts_ok opt \<Longrightarrow> nul_free s \<Longrightarrow> nul_free (expand opt s)"
proof (induction opt s rule: expand.induct)
  case (3 opt c d s)
  have "nul_free v" if "opt_value opt d = Text v" for v using "3.prems"(1) that by (simp add: opts_ok_def)
  then show ?case using 3 by (simp split: optval.split)
qed auto

text \<open>
  C26. The child of \<open>run_cmd\<close> executes the program with the words of its expanded argument string, when
  there are fewer than 49 of them; with more, it writes behind its array of 50 pointers before it
  gets to \<open>execv\<close>. This is for arguments without a backslash, on which \<open>subst_opt\<close> differs from the manual, and while memory
  does not run out.
\<close>

theorem run_cmd_executes:
  assumes "cmem_ok malloc realloc" and "opts_ok opt"
    and "prog cmd = Some p" and "args cmd = Some s" and "nul_free s" and "CHR 0x5C \<notin> set s"
  shows "\<exists>k. run_cmd malloc realloc cmd opt = Ask Fork k \<and> (\<forall>a. sr_ret a = 0 \<longrightarrow>
    k a = (let ws = words 0 [] (expand opt s)
           in if length ws < 49 then Ask (Execv p (p # ws)) (\<lambda>_. Ret (Exited 1)) else Fault))"
proof -
  have e: "subst_opt malloc realloc (args cmd) opt = Some (Some (expand opt s))"
    using subst_expands [OF assms(1,2,5,6)] assms(4) by simp
  have n: "nul_free (expand opt s)" by (rule expand_nul_free [OF assms(2,5)])
  show ?thesis using split_words [OF n, of 49] assms(3)
    by (auto simp: run_cmd_def e Let_def split: if_splits option.splits)
qed

subsection \<open>Examples\<close>

definition ex_malloc :: "nat \<Rightarrow> char list option" where
  "ex_malloc n = Some (replicate n (CHR ''x''))"

definition ex_realloc :: "char list \<Rightarrow> nat \<Rightarrow> char list option" where
  "ex_realloc b n = Some (take n b @ replicate (n - length b) (CHR ''x''))"

definition ex_sopt :: vtun_sopt where
  "ex_sopt = zero_sopt\<lparr>so_dev := Some ''tun0'', so_rport := 5000\<rparr>"

definition ex_cmd :: vtun_cmd where
  "ex_cmd = \<lparr>prog = Some ''/sbin/ip'', args = Some ''link set %d up'', cmd_flags = 0\<rparr>"

lemma ex_mem_ok: "cmem_ok ex_malloc ex_realloc"
  by (auto simp: cmem_ok_def ex_malloc_def ex_realloc_def min_def)

definition opt_fine :: "optval \<Rightarrow> bool" where
  "opt_fine x = (case x of Overrun \<Rightarrow> False | Text v \<Rightarrow> nul_free v | _ \<Rightarrow> True)"

lemma opts_okI:
  assumes "opt_fine (str_val (so_dev opt))" "opt_fine (str_val (so_laddr opt))" "opt_fine (str_val (so_raddr opt))"
    "opt_fine (str_val (so_host opt))" "opt_fine (port_text (so_lport opt))" "opt_fine (port_text (so_rport opt))"
  shows "opts_ok opt"
proof -
  have "opt_value opt c \<in> {str_val (so_dev opt), str_val (so_laddr opt), str_val (so_raddr opt), str_val (so_host opt),
      port_text (so_lport opt), port_text (so_rport opt), Unsupported}" for c
    unfolding opt_value_def by simp
  moreover have "opt_fine Unsupported" by (simp add: opt_fine_def)
  ultimately have "opt_fine (opt_value opt c)" for c using assms by (metis empty_iff insert_iff)
  moreover have "x \<noteq> Overrun \<and> (\<forall>v. x = Text v \<longrightarrow> nul_free v)" if "opt_fine x" for x
    using that by (cases x) (simp_all add: opt_fine_def)
  ultimately have "opt_value opt c \<noteq> Overrun \<and> (\<forall>v. opt_value opt c = Text v \<longrightarrow> nul_free v)" for c by blast
  then show ?thesis by (simp add: opts_ok_def)
qed

lemma ex_opts_ok: "opts_ok ex_sopt"
proof (rule opts_okI)
  have n: "show_int 5000 = ''5000''" "show_int 0 = ''0''" by (simp_all add: show_int_def vt_run)
  show "opt_fine (port_text (so_lport ex_sopt))" "opt_fine (port_text (so_rport ex_sopt))"
    by (simp_all add: ex_sopt_def zero_sopt_def port_text_def opt_fine_def n nul_free_def NUL_def)
qed (simp_all add: ex_sopt_def zero_sopt_def str_val_def opt_fine_def nul_free_def NUL_def)

theorem subst_opt_expands_witness:
  "subst_opt ex_malloc ex_realloc (Some ''set %d up%'') ex_sopt = Some (Some ''set tun0 up'')"
  using subst_opt_expands [OF ex_mem_ok ex_opts_ok, of "''set %d up%''"]
  by (simp add: nul_free_def NUL_def opt_value_def ex_sopt_def zero_sopt_def str_val_def)

theorem subst_opt_backslash_overrun_witness:
  "subst_opt ex_malloc ex_realloc (Some ([CHR ''a''] @ [CHR 0x5C])) ex_sopt = None"
  by (rule subst_opt_backslash_overrun [where b = "replicate 3 (CHR ''x'')"])
    (simp_all add: ex_malloc_def nul_free_def NUL_def numeral_3_eq_3)

theorem run_cmd_executes_witness:
  "\<exists>k. run_cmd ex_malloc ex_realloc ex_cmd ex_sopt = Ask Fork k \<and>
    k (sys_ret 0) = Ask (Execv ''/sbin/ip'' [''/sbin/ip'', ''link'', ''set'', ''tun0'', ''up'']) (\<lambda>_. Ret (Exited 1))"
proof -
  have ret: "sr_ret (sys_ret 0) = 0" by (simp add: sys_ret_def)
  have "expand ex_sopt ''link set %d up'' = ''link set tun0 up''"
    by (simp add: opt_value_def ex_sopt_def zero_sopt_def str_val_def)
  moreover have "words 0 [] ''link set tun0 up'' = [''link'', ''set'', ''tun0'', ''up'']" by (simp add: words.simps(2))
  ultimately show ?thesis using run_cmd_executes [OF ex_mem_ok ex_opts_ok, of ex_cmd "''/sbin/ip''" "''link set %d up''"] ret
    by (auto simp: ex_cmd_def nul_free_def NUL_def simp del: expand.simps)
qed

subsection \<open>The options of the last session\<close>

definition free_sopt :: "vtun_sopt \<Rightarrow> vtun_sopt" where
  "free_sopt opt = opt\<lparr>so_dev := None, so_laddr := None, so_raddr := None\<rparr>"

subsection \<open>The log\<close>

text \<open>
  A call of \<open>vtun_syslog\<close> with the text that its format makes, and the calls that the handlers of
  signals make before it returns. \<open>in_syslog\<close> is the static variable; the result is what \<open>syslog\<close> gets. A call that
  finds the variable set does nothing, so \<open>syslog\<close>, which is not reentrant, is never entered twice. The buffer has 255 characters,
  of which \<open>vsnprintf\<close> gets 254.
\<close>

datatype log_call = Log int string "log_call list"

fun vtun_syslog :: "bool \<Rightarrow> log_call \<Rightarrow> (int \<times> string) list" where
  "vtun_syslog in_syslog (Log priority txt handlers) =
     (let inner = concat (map (vtun_syslog True) handlers)
      in if in_syslog then inner else inner @ [(priority, take 253 txt)])"

lemma handlers_not_logged: "vtun_syslog True c = []"
proof (induction c)
  case (Log p t hs)
  then show ?case by (induction hs) simp_all
qed

lemma log_once: "vtun_syslog False (Log p t hs) = [(p, take 253 t)]"
  by (simp add: handlers_not_logged [THEN map_cong [OF refl]])

subsection \<open>The title of the process\<close>

text \<open>
  \<open>init_title\<close>: \<open>argv\<close> and \<open>envp\<close> are lists of strings with their addresses; the space for the title
  are the strings that follow each other from \<open>argv[0]\<close>. The result is \<open>title_start\<close> behind the name, and
  \<open>title_size\<close>. The space is a list of characters in \<open>set_title\<close>; \<open>ttl\<close> is what \<open>vsprintf\<close>
  puts into \<open>buf[255]\<close>.
\<close>

definition extend :: "nat \<Rightarrow> (nat \<times> string) list \<Rightarrow> nat" where
  "extend e ss = fold (\<lambda>(a, s) e. if e = a then a + length s + 1 else e) ss e"

definition init_title :: "(nat \<times> string) list \<Rightarrow> (nat \<times> string) list \<Rightarrow> string \<Rightarrow> (nat \<times> int) option" where
  "init_title argv envp name =
     (case argv of
        [] \<Rightarrow> None
      | (a0, s0) # rest \<Rightarrow>
          (let title_end = extend (extend (a0 + length s0 + 1) rest) envp
           in if length name < title_end - a0
              then Some (a0 + length name, int title_end - int (a0 + length name)) else None))"

definition set_title :: "string \<Rightarrow> char list \<Rightarrow> char list option" where
  "set_title ttl area =
     (if 255 \<le> length ttl then None
      else (let buf = (if length area = 0 then ttl else take (length area - 1) ttl)
            in if length buf + 1 \<le> length area
               then Some (buf @ replicate (length area - length buf) NUL) else None))"

definition owns :: "(nat \<times> string) list \<Rightarrow> nat \<Rightarrow> bool" where
  "owns ss x = (\<exists>(a, s) \<in> set ss. a \<le> x \<and> x \<le> a + length s)"

lemma extend_owns: "e \<le> extend e ss \<and> (\<forall>x. e \<le> x \<and> x < extend e ss \<longrightarrow> owns ss x)"
proof (induction ss arbitrary: e)
  case (Cons p ss)
  obtain a s where p: "p = (a, s)" by force
  have own: "owns (p # ss) x = (a \<le> x \<and> x \<le> a + length s \<or> owns ss x)" for x by (simp add: owns_def p)
  show ?case
  proof (cases "e = a")
    case True
    then have "extend e (p # ss) = extend (a + length s + 1) ss" by (simp add: extend_def p)
    moreover have "owns (p # ss) x" if "a \<le> x" "x < extend (a + length s + 1) ss" for x
      using Cons [of "a + length s + 1"] that own by (cases "x \<le> a + length s") auto
    ultimately show ?thesis using Cons [of "a + length s + 1"] True by auto
  next
    case False
    then have "extend e (p # ss) = extend e ss" by (simp add: extend_def p)
    then show ?thesis using Cons [of e] own by auto
  qed
qed (auto simp: extend_def)

lemma owns_append: "owns (xs @ ys) x = (owns xs x \<or> owns ys x)"
  by (auto simp: owns_def)

text \<open>
  C31. The space \<open>init_title\<close> finds for the title is made of the argument and environment strings alone,
  and holds at least one byte; \<open>set_title\<close> then keeps within it: a title that is too long is cut, one of 255
  characters or more overruns the local buffer instead.
\<close>

theorem title_fits:
  assumes "init_title argv envp name = Some (start, n)"
  shows "0 < n \<and> (\<forall>x. int start \<le> int x \<and> int x < int start + n \<longrightarrow> owns (argv @ envp) x)
    \<and> (\<forall>ttl area. nul_free ttl \<and> int (length area) = n \<longrightarrow>
         (if length ttl < 255
          then \<exists>area'. set_title ttl area = Some area' \<and> length area' = length area
                 \<and> cstr area' = take (length area - 1) ttl
          else set_title ttl area = None))"
proof (intro conjI allI impI)
  obtain a0 s0 rest where a: "argv = (a0, s0) # rest" using assms by (cases argv) (auto simp: init_title_def)
  define m where "m = extend (Suc (a0 + length s0)) rest"
  let ?e = "extend m envp"
  have i: "length name < ?e - a0" "start = a0 + length name" "n = int ?e - int start"
    using assms by (auto simp: init_title_def a m_def [symmetric] Let_def split: if_splits)
  note e = extend_owns [of "Suc (a0 + length s0)" rest, folded m_def] extend_owns [of m envp]
  show "0 < n" using i by linarith
  then have n: "0 < n" .
  fix x assume x: "int start \<le> int x \<and> int x < int start + n"
  then have "a0 \<le> x" "x < ?e" using i by auto
  then show "owns (argv @ envp) x" using e unfolding owns_append a
    by (cases "x < a0 + length s0 + 1"; cases "x < m") (auto simp: owns_def)
next
  fix ttl area :: "char list" assume t: "nul_free ttl \<and> int (length area) = n"
  have "0 < n" using assms by (auto simp: init_title_def Let_def split: list.splits if_splits)
  then obtain k where k: "length area = Suc k" using t by (cases "length area") auto
  show "if length ttl < 255 then \<exists>area'. set_title ttl area = Some area' \<and> length area' = length area
      \<and> cstr area' = take (length area - 1) ttl else set_title ttl area = None"
  proof (cases "length ttl < 255")
    case True
    let ?b = "take k ttl" and ?r = "replicate (Suc k - length (take k ttl)) NUL"
    have r: "?r = NUL # replicate (k - length ?b) NUL" by (simp add: Suc_diff_le min_def)
    have "nul_free ?b" using t by (auto simp: nul_free_def dest: in_set_takeD)
    then have "cstr (?b @ ?r) = ?b" unfolding r by (rule cstr_append_nul)
    then show ?thesis using True k by (auto simp: set_title_def Let_def)
  qed (simp add: set_title_def)
qed

theorem title_fits_witness:
  "init_title [(100, ''vtund''), (106, ''-s'')] [(109, ''PATH=/bin'')] ''vtund[s]: '' = Some (110, 9)
    \<and> set_title ''waiting for connections'' (replicate 9 (CHR ''x'')) = Some (''waiting '' @ [NUL])"
proof -
  have i: "init_title [(100, ''vtund''), (106, ''-s'')] [(109, ''PATH=/bin'')] ''vtund[s]: '' = Some (110, 9)"
    by (simp add: init_title_def extend_def)
  show ?thesis using title_fits [OF i] i by (simp add: set_title_def numeral_eq_Suc)
qed

end
