(* ===== verification/TunnelSetup.thy ===== *)
theory TunnelSetup
  imports NetLib Command
begin

section \<open>Setting up a session (\<open>tunnel.c\<close>)\<close>

text \<open>
  \<open>tunnel\<close> opens the local device, chooses the protocol, runs the commands of the host and hands the two
  descriptors to the linker. The drivers of the build are a record of functions, and the linker is
  the argument \<open>link\<close>: it takes the host and \<open>is_rmt_fd_connected\<close>, and returns the end of the session
  with both. \<open>conn\<close> is \<open>is_rmt_fd_connected\<close>.
\<close>

record driver =
  dr_tun_open :: dev_open
  dr_tun_close :: dev_close
  dr_tap_open :: dev_open
  dr_tap_close :: dev_close
  dr_pty_open :: "(int \<times> string) sys_prog"

type_synonym linker = "vtun_host \<Rightarrow> bool \<Rightarrow> (int \<times> vtun_host \<times> bool) ended sys_prog"

definition keepif :: "vtun_host \<Rightarrow> bool" where
  "keepif host = (vh_persist host = VTUN_PERSIST_KEEPIF)"

definition dev_type :: "vtun_host \<Rightarrow> flags" where
  "dev_type host = vh_flags host AND VTUN_TYPE_MASK"

subsection \<open>The device\<close>

text \<open>The descriptors \<open>fd[0]\<close> and \<open>fd[1]\<close> and the name of the device; \<^const>\<open>None\<close> when it does not open.\<close>

definition open_device :: "driver \<Rightarrow> vtun_host \<Rightarrow> string \<Rightarrow> (int \<times> int \<times> string) option sys_prog" where
  "open_device D host dev =
     (let one = (\<lambda>p. bind_prog p (\<lambda>(fd, name). Ret (if fd < 0 then None else Some (fd, - 1, name))))
      in if dev_type host = VTUN_TTY then one (dr_pty_open D)
         else if dev_type host = VTUN_PIPE then
           bind_prog pipe_open (\<lambda>(r, fd0, fd1). Ret (if r < 0 then None else Some (fd0, fd1, dev)))
         else if dev_type host = VTUN_ETHER then one (dr_tap_open D dev)
         else if dev_type host = VTUN_TUN then one (dr_tun_open D dev)
         else Ret (Some (- 1, - 1, dev)))"

text \<open>The child that runs the up commands first makes the device its standard input and output.\<close>

definition std_fds :: "int \<Rightarrow> int \<Rightarrow> unit ended sys_prog" where
  "std_fds fd0 fd1 =
     Ask (Open_file ''/dev/null'') (\<lambda>n. Ask (Close fd0) (\<lambda>_.
     Ask (Close 0) (\<lambda>_. Ask (Dup fd1) (\<lambda>_. Ask (Close 1) (\<lambda>_. Ask (Dup fd1) (\<lambda>_. Ask (Close fd1) (\<lambda>_.
     Ask (Close 2) (\<lambda>_. Ask (Dup (sr_ret n)) (\<lambda>_. Ask (Close (sr_ret n)) (\<lambda>_. Ret (Returned ())))))))))))"

definition child_fds :: "vtun_host \<Rightarrow> int \<Rightarrow> int \<Rightarrow> string \<Rightarrow> unit ended sys_prog" where
  "child_fds host fd0 fd1 dev =
     (if dev_type host = VTUN_TTY then
        Ask (Open_file dev) (\<lambda>a. if sr_ret a < 0 then Ret (Exited 0) else std_fds fd0 (sr_ret a))
      else if dev_type host = VTUN_PIPE then std_fds fd0 fd1
      else Ret (Returned ()))"

subsection \<open>The session\<close>

text \<open>The protocol; \<^const>\<open>None\<close> inside when the UDP session fails.\<close>

definition set_protocol :: "sockaddr \<Rightarrow> vtun_host \<Rightarrow> bool \<Rightarrow> (bool \<times> vtun_host \<times> bool) ended sys_prog" where
  "set_protocol junk host conn =
     (if vh_flags host AND VTUN_PROT_MASK = VTUN_TCP then
        Ask (Set_option (rmt_fd host) Keep_alive) (\<lambda>_. Ask (Set_option (rmt_fd host) No_delay) (\<lambda>_.
          Ret (Returned (True, host, conn))))
      else if vh_flags host AND VTUN_PROT_MASK = VTUN_UDP then
        and_go (udp_session junk host conn) (\<lambda>(r, h, c). Ret (Returned (r \<noteq> - 1, h, c)))
      else Ret (Returned (True, host, conn)))"

text \<open>What follows the linker: the down commands, and the end of the device and of the connection.\<close>

definition end_session :: "driver \<Rightarrow> (nat \<Rightarrow> char list option) \<Rightarrow> (char list \<Rightarrow> nat \<Rightarrow> char list option)
    \<Rightarrow> int \<Rightarrow> int \<Rightarrow> string \<Rightarrow> int \<times> vtun_host \<times> bool \<Rightarrow> (int \<times> vtun_host \<times> bool) ended sys_prog" where
  "end_session D malloc realloc fd0 fd1 dev x =
     (case x of (opt, h, c) \<Rightarrow>
        Ask (Set_title (vh_host h @ '' running down commands'')) (\<lambda>_.
        and_go (run_cmds malloc realloc (vh_down h) (vh_sopt h)) (\<lambda>_.
        bind_prog
          (if keepif h then Ret ()
           else Ask (Set_title (vh_host h @ '' closing'')) (\<lambda>_.
             bind_prog (if dev_type h = VTUN_TUN then dr_tun_close D fd0 dev
                        else if dev_type h = VTUN_ETHER then dr_tap_close D fd0 dev else Ret 0) (\<lambda>_.
             Ask (Close (loc_fd h)) (\<lambda>_. Ret ())))) (\<lambda>_.
        Ask (Close (rmt_fd h)) (\<lambda>_. Ask (Close fd1) (\<lambda>_. Ret (Returned (opt, h, c))))))))"

text \<open>What the parent does once the child is running.\<close>

definition run_session :: "driver \<Rightarrow> (nat \<Rightarrow> char list option) \<Rightarrow> (char list \<Rightarrow> nat \<Rightarrow> char list option) \<Rightarrow> linker
    \<Rightarrow> int \<Rightarrow> int \<Rightarrow> string \<Rightarrow> vtun_host \<Rightarrow> bool \<Rightarrow> (int \<times> vtun_host \<times> bool) ended sys_prog" where
  "run_session D malloc realloc link fd0 fd1 dev host conn =
     bind_prog (if dev_type host = VTUN_PIPE then Ask (Close fd1) (\<lambda>_. Ret ()) else Ret ()) (\<lambda>_.
     bind_prog
       (let titled = (\<lambda>t. Ask (Set_title (vh_host host @ t)) (\<lambda>_. Ret ()))
        in if dev_type host = VTUN_TTY then titled '' tty''
           else if dev_type host = VTUN_PIPE then titled '' pipe''
           else if dev_type host = VTUN_ETHER then titled ('' ether '' @ dev)
           else if dev_type host = VTUN_TUN then titled ('' tun '' @ dev) else Ret ()) (\<lambda>_.
     and_go (link host conn) (end_session D malloc realloc fd0 fd1 dev)))"

definition start_session :: "driver \<Rightarrow> (nat \<Rightarrow> char list option) \<Rightarrow> (char list \<Rightarrow> nat \<Rightarrow> char list option) \<Rightarrow> linker
    \<Rightarrow> sockaddr \<Rightarrow> bool \<Rightarrow> int \<Rightarrow> int \<Rightarrow> string \<Rightarrow> vtun_host \<Rightarrow> bool \<Rightarrow> (int \<times> vtun_host \<times> bool) ended sys_prog" where
  "start_session D malloc realloc link junk already fd0 fd1 dev host conn =
     and_go (set_protocol junk host conn) (\<lambda>(ok, h, c).
       if \<not> ok then
         Ask (Close fd1) (\<lambda>_.
           if keepif h then Ret (Returned (0, h, c))
           else Ask (Close fd0) (\<lambda>_. Ret (Returned (0, h, c))))
       else Ask Fork (\<lambda>p.
         if sr_ret p = - 1 then
           bind_prog (if keepif h then Ret () else Ask (Close fd0) (\<lambda>_. Ret ())) (\<lambda>_.
           Ask (Close fd1) (\<lambda>_. Ret (Returned (0, h, c))))
         else if sr_ret p = 0 then
           and_go (if already then Ret (Returned ()) else child_fds h fd0 fd1 dev) (\<lambda>_.
           Ask (Set_title (vh_host h @ '' running up commands'')) (\<lambda>_.
           and_go (run_cmds malloc realloc (vh_up h) (vh_sopt h)) (\<lambda>_. Ret (Exited 0))))
         else run_session D malloc realloc link fd0 fd1 dev h c))"

definition tunnel :: "driver \<Rightarrow> (nat \<Rightarrow> char list option) \<Rightarrow> (char list \<Rightarrow> nat \<Rightarrow> char list option) \<Rightarrow> linker
    \<Rightarrow> sockaddr \<Rightarrow> vtun_host \<Rightarrow> bool \<Rightarrow> (int \<times> vtun_host \<times> bool) ended sys_prog" where
  "tunnel D malloc realloc link junk host conn =
     (let already = (keepif host \<and> loc_fd host \<ge> 0);
          dev0 = (case vh_dev host of None \<Rightarrow> [] | Some d \<Rightarrow> take (VTUN_DEV_LEN - 1) d)
      in bind_prog (if already then Ret (Some (- 1, - 1, dev0)) else open_device D host dev0) (\<lambda>d.
         case d of
           None \<Rightarrow> Ret (Returned (- 1, host, conn))
         | Some (fd0, fd1, dev) \<Rightarrow>
             (let h0 = (if already then host else host\<lparr>loc_fd := fd0\<rparr>)
              in start_session D malloc realloc link junk already fd0 fd1 dev
                   (h0\<lparr>vh_sopt := (vh_sopt h0)\<lparr>so_dev := Some dev\<rparr>\<rparr>) conn)))"

subsection \<open>What a session leaves unchanged of the host\<close>

text \<open>The UDP session changes the options for commands and the remote descriptor, nothing else.\<close>

definition same_host :: "vtun_host \<Rightarrow> vtun_host \<Rightarrow> bool" where
  "same_host h h' = (h'\<lparr>vh_sopt := vh_sopt h, rmt_fd := rmt_fd h\<rparr> = h)"

lemma same_hostD:
  assumes "same_host h h'"
  shows "loc_fd h' = loc_fd h" and "vh_persist h' = vh_persist h" and "vh_flags h' = vh_flags h" and "vh_down h' = vh_down h"
    and "vh_dev h' = vh_dev h" and "vh_host h' = vh_host h" and "vh_multi h' = vh_multi h"
  using arg_cong [OF assms [unfolded same_host_def], of loc_fd] arg_cong [OF assms [unfolded same_host_def], of vh_persist]
    arg_cong [OF assms [unfolded same_host_def], of vh_flags] arg_cong [OF assms [unfolded same_host_def], of vh_down]
    arg_cong [OF assms [unfolded same_host_def], of vh_dev] arg_cong [OF assms [unfolded same_host_def], of vh_host]
    arg_cong [OF assms [unfolded same_host_def], of vh_multi]
  by simp_all

lemma wlp_conj: "wlp step p w Q \<Longrightarrow> wlp step p w R \<Longrightarrow> wlp step p w (\<lambda>r w'. Q r w' \<and> R r w')"
  by (induction p arbitrary: w) auto

lemma wlp_udp_host: "wlp kstep (udp_session junk h c) w (on_return (\<lambda>(r, h', c') w'. same_host h h'))"
proof -
  have meet: "wlp kstep (udp_meet s own h1 c) w (on_return (\<lambda>(r, h', c') w'. same_host h h'))"
    if "same_host h h1" for s own h1 w
    unfolding udp_meet_def
    by (intro wlp_and_go wp_wlp [OF wp_sys_readn_t]) (use that in \<open>auto simp: Let_def same_host_def\<close>)
  have tail: "wlp kstep (and_go (sys_write_n fd bs) (\<lambda>x. if x < 0 then Ret (Returned (- 1, h1, c)) else udp_meet s own h2 c)) w
      (on_return (\<lambda>(r, h', c') w'. same_host h h'))" if "same_host h h1" "same_host h h2" for fd bs s own h1 h2 w
    by (intro wlp_and_go wp_wlp [OF wp_sys_write_n]) (use that in \<open>auto intro: meet\<close>)
  have "same_host h h" "same_host h (h\<lparr>vh_sopt := x\<rparr>)" "same_host h (h\<lparr>vh_sopt := y, vh_sopt := x\<rparr>)" for x y
    by (simp_all add: same_host_def)
  then show ?thesis
    by (auto simp: udp_session_def udp_setup_def local_addr_def Let_def intro!: tail)
qed

subsection \<open>The descriptors of a session\<close>

lemma wlp_run_cmd: "wlp kstep (run_cmd malloc realloc c opt) w (on_return (\<lambda>r w'. k_open w' = k_open w))"
  by (auto simp: run_cmd_def Let_def split: option.split prod.split)

lemma wlp_run_cmds: "wlp kstep (run_cmds malloc realloc cs opt) w (on_return (\<lambda>r w'. k_open w' = k_open w))"
proof (induction cs arbitrary: w)
  case (Cons c cs)
  have "wlp kstep (if r \<noteq> 0 then Ret (Returned ()) else run_cmds malloc realloc cs opt) w1
      (on_return (\<lambda>r w'. k_open w' = k_open w))" if "k_open w1 = k_open w" for r w1
    using Cons [of w1] that by simp
  then show ?case unfolding run_cmds.simps
    by (intro wlp_and_go wlp_mono [OF wlp_run_cmd]) (erule on_return_mono, blast)
qed simp

text \<open>
  What the linker keeps of the host: its descriptors, flags and device; it may only end the persistence.
\<close>

definition link_ok :: "linker \<Rightarrow> bool" where
  "link_ok link = (\<forall>h c w. wlp kstep (link h c) w (on_return (\<lambda>(r, h', c') w'.
     k_open w' = k_open w \<and> rmt_fd h' = rmt_fd h \<and> loc_fd h' = loc_fd h \<and> vh_flags h' = vh_flags h
     \<and> vh_dev h' = vh_dev h \<and> (vh_persist h' = vh_persist h \<or> vh_persist h' = 0))))"

text \<open>The protocol: nothing changes for TCP; for UDP at most one socket is lost, or it replaces the connection.\<close>

definition protocol_fds :: "kernel \<Rightarrow> vtun_host \<Rightarrow> bool \<times> vtun_host \<times> bool \<Rightarrow> kernel \<Rightarrow> bool" where
  "protocol_fds w h x w' =
     (case x of (ok, h', c) \<Rightarrow> same_host h h' \<and>
        (k_open w' = k_open w \<and> rmt_fd h' = rmt_fd h
         \<or> vh_flags h AND VTUN_PROT_MASK \<noteq> VTUN_TCP \<and> (\<exists>s. s \<notin> k_open w \<and>
             (if ok then k_open w' = insert s (k_open w) - {rmt_fd h} \<and> rmt_fd h' = s
              else k_open w' = insert s (k_open w) \<and> rmt_fd h' = rmt_fd h))))"

lemma wlp_set_protocol:
  assumes "rmt_fd h \<in> k_open w"
  shows "wlp kstep (set_protocol junk h c) w (on_return (protocol_fds w h))"
proof -
  have "wlp kstep (udp_session junk h c) w (\<lambda>e w'. on_return (udp_post w h) e w' \<and> on_return (\<lambda>(r, h', c') w'. same_host h h') e w')"
    by (intro wlp_conj wp_wlp [OF wp_udp_session [OF assms]] wlp_udp_host)
  then have "wlp kstep (udp_session junk h c) w (on_return (\<lambda>x w'. udp_post w h x w' \<and> same_host h (fst (snd x))))"
    by (rule wlp_mono) (auto simp: on_return_def split: ended.splits prod.splits)
  then have u: "vh_flags h AND VTUN_PROT_MASK \<noteq> VTUN_TCP \<Longrightarrow>
      wlp kstep (and_go (udp_session junk h c) (\<lambda>(r, h, c). Ret (Returned (r \<noteq> - 1, h, c)))) w (on_return (protocol_fds w h))"
    by (intro wlp_and_go) (erule wlp_mono, erule on_return_mono,
      auto simp: udp_post_def udp_tried_def protocol_fds_def udp_failed_def udp_ready_def split: if_splits)
  have "same_host h h" by (simp add: same_host_def)
  then show ?thesis unfolding set_protocol_def using u by (auto simp: protocol_fds_def)
qed

text \<open>
  The descriptors after a session of \<open>h\<close> that began with \<open>open0\<close>: nothing is left open but what was open
  before, the interface of a persistent host, and \<open>lost\<close>; nothing was closed but \<open>ends\<close>; and the
  connection is closed when the linker has ended by a signal. What is lost is at most one new
  descriptor, and nothing with TCP and a device other than a terminal. An interface that was kept from an
  earlier session stays the local descriptor, and is closed when the persistence ends.
\<close>

definition has_kept :: "vtun_host \<Rightarrow> bool" where
  "has_kept h = (keepif h \<and> 0 \<le> loc_fd h)"

definition settled :: "vtun_host \<Rightarrow> int set \<Rightarrow> int set \<Rightarrow> int \<times> vtun_host \<times> bool \<Rightarrow> kernel \<Rightarrow> bool" where
  "settled h open0 ends x w' =
     (case x of (r, h', c') \<Rightarrow>
        (0 < r \<longrightarrow> rmt_fd h \<notin> k_open w') \<and> open0 - ends \<subseteq> k_open w'
        \<and> vh_dev h' = vh_dev h \<and> (loc_fd h' = loc_fd h \<or> loc_fd h' \<notin> open0)
        \<and> (has_kept h \<longrightarrow> loc_fd h' = loc_fd h \<and> (keepif h' \<or> loc_fd h \<notin> k_open w')) \<and>
        (\<exists>lost. (\<exists>s. lost \<subseteq> {s} \<and> s \<notin> open0) \<and> (vh_flags h AND VTUN_PROT_MASK = VTUN_TCP \<and> dev_type h \<noteq> VTUN_TTY \<longrightarrow> lost = {})
           \<and> k_open w' \<subseteq> open0 \<union> lost \<union> (if keepif h' then {loc_fd h'} else {})))"

text \<open>After a session that reached the linker.\<close>

definition ran :: "kernel \<Rightarrow> vtun_host \<Rightarrow> int \<Rightarrow> int \<Rightarrow> int \<times> vtun_host \<times> bool \<Rightarrow> kernel \<Rightarrow> bool" where
  "ran w h fd0 fd1 x w' =
     (case x of (r, h', c') \<Rightarrow> loc_fd h' = loc_fd h \<and> vh_dev h' = vh_dev h \<and> (keepif h' \<longrightarrow> keepif h)
        \<and> k_open w' \<subseteq> k_open w - {rmt_fd h, fd1} - (if keepif h' then {} else {loc_fd h})
        \<and> k_open w - {rmt_fd h, fd1, fd0} - (if keepif h' then {} else {loc_fd h}) \<subseteq> k_open w')"

lemma wlp_title: "wlp kstep p w Q \<Longrightarrow> wlp kstep (Ask (Set_title t) (\<lambda>_. p)) w Q"
  by simp

locale drivers = tun: tun_driver "dr_tun_open D" "dr_tun_close D" + tap: tun_driver "dr_tap_open D" "dr_tap_close D"
  for D :: driver +
  assumes pty_fds: "wp kstep (dr_pty_open D) w (pty_post (k_open w))"
begin

lemma end_session_fds:
  assumes "k_open w1 \<subseteq> k_open w" and "k_open w - {fd1} \<subseteq> k_open w1" and "rmt_fd h1 = rmt_fd h"
    and "loc_fd h1 = loc_fd h" and "vh_dev h1 = vh_dev h" and "keepif h1 \<longrightarrow> keepif h"
  shows "wlp kstep (end_session D malloc realloc fd0 fd1 dev (r, h1, c1)) w1 (on_return (ran w h fd0 fd1))"
proof -
  have fin: "wlp kstep (bind_prog (if keepif h1 then Ret ()
        else Ask (Set_title t) (\<lambda>_. bind_prog (if dev_type h1 = VTUN_TUN then dr_tun_close D fd0 dev
             else if dev_type h1 = VTUN_ETHER then dr_tap_close D fd0 dev else Ret 0) (\<lambda>_.
          Ask (Close (loc_fd h1)) (\<lambda>_. Ret ())))) (\<lambda>_.
      Ask (Close (rmt_fd h1)) (\<lambda>_. Ask (Close fd1) (\<lambda>_. Ret (Returned (r, h1, c1)))))) w2 (on_return (ran w h fd0 fd1))"
    if "k_open w2 = k_open w1" for t w2
  proof (cases "keepif h1")
    case False
    then show ?thesis using that assms
      by (auto simp: ran_def intro!: wlp_mono [OF wp_wlp [OF tun.close_fds]] wlp_mono [OF wp_wlp [OF tap.close_fds]])
  qed (use that assms in \<open>auto simp: ran_def\<close>)
  have cmds: "wlp kstep (and_go (run_cmds malloc realloc (vh_down h1) (vh_sopt h1)) (\<lambda>_. p)) w1 (on_return (ran w h fd0 fd1))"
    if "\<And>w2. k_open w2 = k_open w1 \<Longrightarrow> wlp kstep p w2 (on_return (ran w h fd0 fd1))" for p
    by (intro wlp_and_go wlp_mono [OF wlp_run_cmds]) (erule on_return_mono, erule that)
  show ?thesis unfolding end_session_def prod.case by (rule wlp_title, rule cmds, rule fin)
qed

lemma run_session_fds:
  assumes "link_ok link"
  shows "wlp kstep (run_session D malloc realloc link fd0 fd1 dev h c) w (on_return (ran w h fd0 fd1))"
proof -
  have link: "wlp kstep (and_go (link h c) (end_session D malloc realloc fd0 fd1 dev)) w1 (on_return (ran w h fd0 fd1))"
    if "k_open w1 = k_open w \<or> k_open w1 = k_open w - {fd1}" for w1
  proof (intro wlp_and_go wlp_mono [OF assms [unfolded link_ok_def, rule_format]], erule on_return_mono, clarify)
    fix r and h1 :: vtun_host and c1 and w2 :: kernel
    assume a: "k_open w2 = k_open w1" "rmt_fd h1 = rmt_fd h" "loc_fd h1 = loc_fd h" "vh_dev h1 = vh_dev h"
      "vh_persist h1 = vh_persist h \<or> vh_persist h1 = 0"
    show "wlp kstep (end_session D malloc realloc fd0 fd1 dev (r, h1, c1)) w2 (on_return (ran w h fd0 fd1))"
    proof (rule end_session_fds)
      show "k_open w2 \<subseteq> k_open w" "k_open w - {fd1} \<subseteq> k_open w2" using a(1) that by auto
      show "keepif h1 \<longrightarrow> keepif h" using a(5) by (auto simp: keepif_def)
    qed (rule a)+
  qed
  have pipe: "wlp kstep (if dev_type h = VTUN_PIPE then Ask (Close fd1) (\<lambda>_. Ret ()) else Ret ()) w
      (\<lambda>_ w'. k_open w' = k_open w \<or> k_open w' = k_open w - {fd1})" by simp
  have titles: "wlp kstep (let titled = (\<lambda>t. Ask (Set_title (vh_host h @ t)) (\<lambda>_. Ret ()))
        in if dev_type h = VTUN_TTY then titled '' tty''
           else if dev_type h = VTUN_PIPE then titled '' pipe''
           else if dev_type h = VTUN_ETHER then titled ('' ether '' @ dev)
           else if dev_type h = VTUN_TUN then titled ('' tun '' @ dev) else Ret ()) w1 (\<lambda>_ w'. w' = w1)" for w1
    by (simp add: Let_def)
  show ?thesis unfolding run_session_def wlp_bind
    by (rule wlp_mono [OF pipe], rule wlp_mono [OF titles]) (simp only: link)
qed

end

text \<open>
  From the protocol to the end. \<open>fresh\<close> says what the device has got: the descriptors on top of \<open>open0\<close>.
\<close>

definition fresh :: "int set \<Rightarrow> bool \<Rightarrow> int \<Rightarrow> int \<Rightarrow> vtun_host \<Rightarrow> kernel \<Rightarrow> bool" where
  "fresh open0 already fd0 fd1 h w =
     ((if already then keepif h \<and> fd0 = - 1 \<and> fd1 = - 1 else fd0 = loc_fd h) \<and> rmt_fd h \<in> open0
      \<and> {fd0, fd1} \<inter> open0 = {} \<and> open0 \<subseteq> k_open w \<and> k_open w \<subseteq> open0 \<union> {fd0, fd1} \<and> - 1 \<notin> k_open w)"

lemma settledI:
  assumes "0 < r \<longrightarrow> rmt_fd h \<notin> k_open w'" and "open0 - ends \<subseteq> k_open w'" and "lost \<subseteq> {s}" and "s \<notin> open0"
    and "vh_flags h AND VTUN_PROT_MASK = VTUN_TCP \<and> dev_type h \<noteq> VTUN_TTY \<longrightarrow> lost = {}"
    and "k_open w' \<subseteq> open0 \<union> lost \<union> (if keepif h' then {loc_fd h'} else {})"
    and "vh_dev h' = vh_dev h" and "loc_fd h' = loc_fd h \<or> loc_fd h' \<notin> open0"
    and "has_kept h \<longrightarrow> loc_fd h' = loc_fd h \<and> (keepif h' \<or> loc_fd h \<notin> k_open w')"
  shows "settled h open0 ends (r, h', c) w'"
  using assms unfolding settled_def prod.case by blast

lemma settled_stop:
  assumes "fresh open0 already fd0 fd1 h w" and "protocol_fds w h (ok, h', c) w1"
    and "k_open w2 = k_open w1 - {fd1} - (if keepif h' then {} else {fd0})"
  shows "settled h open0 {rmt_fd h, loc_fd h} (0, h', c) w2"
proof -
  have s: "loc_fd h' = loc_fd h" "keepif h' = keepif h" "vh_dev h' = vh_dev h"
    using assms(2) same_hostD [of h h'] by (auto simp: protocol_fds_def keepif_def)
  consider "k_open w1 = k_open w" | s where "vh_flags h AND VTUN_PROT_MASK \<noteq> VTUN_TCP" "s \<notin> k_open w"
      "k_open w1 = insert s (k_open w) \<or> k_open w1 = insert s (k_open w) - {rmt_fd h}"
    using assms(2) unfolding protocol_fds_def by (auto split: if_splits)
  then show ?thesis
  proof cases
    case 1
    show ?thesis
    proof (rule settledI [where lost = "{}" and s = "- 1"])
      show "open0 - {rmt_fd h, loc_fd h} \<subseteq> k_open w2" "k_open w2 \<subseteq> open0 \<union> {} \<union> (if keepif h' then {loc_fd h'} else {})"
        using 1 assms(1,3) s by (auto simp: fresh_def split: if_splits)
    qed (use assms(1) s in \<open>auto simp: fresh_def has_kept_def\<close>)
  next
    case 2
    show ?thesis
    proof (rule settledI [where lost = "{s}" and s = s])
      show "open0 - {rmt_fd h, loc_fd h} \<subseteq> k_open w2" "k_open w2 \<subseteq> open0 \<union> {s} \<union> (if keepif h' then {loc_fd h'} else {})"
        using 2 assms(1,3) s by (auto simp: fresh_def split: if_splits)
    qed (use 2 assms(1) s in \<open>auto simp: fresh_def has_kept_def\<close>)
  qed
qed

lemma settled_ran:
  assumes "fresh open0 already fd0 fd1 h w" and "protocol_fds w h (True, h1, c1) w1" and "ran w1 h1 fd0 fd1 x w2"
  shows "settled h open0 {rmt_fd h, loc_fd h} x w2"
proof -
  obtain r h' c where x: "x = (r, h', c)" by (cases x) auto
  have s: "loc_fd h1 = loc_fd h" "keepif h1 = keepif h" "vh_dev h1 = vh_dev h"
    using assms(2) same_hostD [of h h1] by (auto simp: protocol_fds_def keepif_def)
  have e: "loc_fd h' = loc_fd h" "keepif h' \<longrightarrow> keepif h" "vh_dev h' = vh_dev h"
    and up: "k_open w2 \<subseteq> k_open w1 - {rmt_fd h1, fd1} - (if keepif h' then {} else {loc_fd h})"
    and low: "k_open w1 - {rmt_fd h1, fd1, fd0} - (if keepif h' then {} else {loc_fd h}) \<subseteq> k_open w2"
    using assms(3) s by (auto simp: ran_def x)
  consider "k_open w1 = k_open w" "rmt_fd h1 = rmt_fd h" | "rmt_fd h1 \<notin> k_open w"
      "k_open w1 = insert (rmt_fd h1) (k_open w) - {rmt_fd h}"
    using assms(2) unfolding protocol_fds_def by auto
  then show ?thesis unfolding x
  proof cases
    case 1
    show "settled h open0 {rmt_fd h, loc_fd h} (r, h', c) w2"
    proof (rule settledI [where lost = "{}" and s = "- 1"])
      show "k_open w2 \<subseteq> open0 \<union> {} \<union> (if keepif h' then {loc_fd h'} else {})"
        using up assms(1) e(1) 1 by (auto simp: fresh_def split: if_splits)
      show "open0 - {rmt_fd h, loc_fd h} \<subseteq> k_open w2" using low assms(1) 1 by (auto simp: fresh_def split: if_splits)
    qed (use up assms(1) 1 e in \<open>auto simp: fresh_def has_kept_def\<close>)
  next
    case 2
    show "settled h open0 {rmt_fd h, loc_fd h} (r, h', c) w2"
    proof (rule settledI [where lost = "{}" and s = "- 1"])
      show "k_open w2 \<subseteq> open0 \<union> {} \<union> (if keepif h' then {loc_fd h'} else {})"
        using up assms(1) e(1) 2 by (auto simp: fresh_def split: if_splits)
      show "open0 - {rmt_fd h, loc_fd h} \<subseteq> k_open w2" using low assms(1) 2 by (auto simp: fresh_def split: if_splits)
    qed (use up assms(1) 2 e in \<open>auto simp: fresh_def has_kept_def\<close>)
  qed
qed

lemma wlp_true: "wlp step p w (\<lambda>_ _. True)"
  by (induction p arbitrary: w) auto

lemma wlp_child: "(\<And>x w'. wlp kstep (f x) w' (on_return Q)) \<Longrightarrow> wlp kstep (and_go p f) w (on_return Q)"
  by (intro wlp_and_go wlp_mono [OF wlp_true]) (simp add: on_return_def split: ended.splits)

context drivers
begin

lemma start_session_fds:
  assumes "link_ok link" and f: "fresh open0 already fd0 fd1 h w"
  shows "wlp kstep (start_session D malloc realloc link junk already fd0 fd1 dev h c) w
    (on_return (settled h open0 {rmt_fd h, loc_fd h}))" (is "wlp _ _ _ (on_return ?Q)")
proof -
  have stop: "wlp kstep (bind_prog (if keepif h1 then Ret () else Ask (Close fd0) (\<lambda>_. Ret ())) (\<lambda>_.
        Ask (Close fd1) (\<lambda>_. Ret (Returned (0, h1, c1))))) w1 (on_return ?Q)"
    "wlp kstep (Ask (Close fd1) (\<lambda>_. if keepif h1 then Ret (Returned (0, h1, c1))
        else Ask (Close fd0) (\<lambda>_. Ret (Returned (0, h1, c1))))) w1 (on_return ?Q)"
    if "protocol_fds w h (ok, h1, c1) w1" for ok h1 c1 w1
  proof -
    have "?Q (0, h1, c1) w2" if "k_open w2 = k_open w1 - {fd1} - (if keepif h1 then {} else {fd0})" for w2
      by (rule settled_stop [OF f \<open>protocol_fds w h (ok, h1, c1) w1\<close> that])
    then have q: "?Q (0, h1, c1) (w1\<lparr>k_open := k_open w1 - {fd1}\<rparr>)" if "keepif h1" using that by simp
    have q2: "?Q (0, h1, c1) (w1\<lparr>k_open := k_open w1 - {fd1} - {fd0}\<rparr>)" if "\<not> keepif h1"
      by (rule settled_stop [OF f \<open>protocol_fds w h (ok, h1, c1) w1\<close>]) (use that in simp)
    have c: "k_open w1 - {fd0} - {fd1} = k_open w1 - {fd1} - {fd0}" by blast
    show "wlp kstep (bind_prog (if keepif h1 then Ret () else Ask (Close fd0) (\<lambda>_. Ret ())) (\<lambda>_.
        Ask (Close fd1) (\<lambda>_. Ret (Returned (0, h1, c1))))) w1 (on_return ?Q)"
      using q q2 by (cases "keepif h1") (simp_all add: c)
    show "wlp kstep (Ask (Close fd1) (\<lambda>_. if keepif h1 then Ret (Returned (0, h1, c1))
        else Ask (Close fd0) (\<lambda>_. Ret (Returned (0, h1, c1))))) w1 (on_return ?Q)"
      using q q2 by (cases "keepif h1") simp_all
  qed
  have child: "wlp kstep (and_go p (\<lambda>_. Ask (Set_title t) (\<lambda>_. and_go q (\<lambda>_. Ret (Exited 0))))) w1 (on_return ?Q)"
    for p t and q :: "unit ended sys_prog" and w1
    by (intro wlp_child wlp_title) simp
  have run: "wlp kstep (run_session D malloc realloc link fd0 fd1 dev h1 c1) w1 (on_return ?Q)"
    if "protocol_fds w h (True, h1, c1) w1" for h1 c1 w1
    by (rule wlp_mono [OF run_session_fds [OF assms(1)]]) (erule on_return_mono, rule settled_ran [OF f that])
  have "rmt_fd h \<in> k_open w" using f by (auto simp: fresh_def)
  from wlp_set_protocol [OF this]
  have prot: "wlp kstep (set_protocol junk h c) w (on_return (protocol_fds w h))" .
  show ?thesis unfolding start_session_def
  proof (intro wlp_and_go wlp_mono [OF prot], erule on_return_mono, clarify)
    fix ok c1 and h1 :: vtun_host and w1 :: kernel assume p: "protocol_fds w h (ok, h1, c1) w1"
    show "wlp kstep (if \<not> ok then
         Ask (Close fd1) (\<lambda>_.
           if keepif h1 then Ret (Returned (0, h1, c1))
           else Ask (Close fd0) (\<lambda>_. Ret (Returned (0, h1, c1))))
       else Ask Fork (\<lambda>p.
         if sr_ret p = - 1 then
           bind_prog (if keepif h1 then Ret () else Ask (Close fd0) (\<lambda>_. Ret ())) (\<lambda>_.
           Ask (Close fd1) (\<lambda>_. Ret (Returned (0, h1, c1))))
         else if sr_ret p = 0 then
           and_go (if already then Ret (Returned ()) else child_fds h1 fd0 fd1 dev) (\<lambda>_.
           Ask (Set_title (vh_host h1 @ '' running up commands'')) (\<lambda>_.
           and_go (run_cmds malloc realloc (vh_up h1) (vh_sopt h1)) (\<lambda>_. Ret (Exited 0))))
         else run_session D malloc realloc link fd0 fd1 dev h1 c1)) w1 (on_return ?Q)"
    proof (cases ok)
      case True
      then have "protocol_fds w h (True, h1, c1) w1" using p by simp
      note r = run [OF this] and st = stop(1) [OF this]
      have fork: "wlp kstep (Ask Fork (\<lambda>p. if sr_ret p = - 1 then A else if sr_ret p = 0 then B else C)) w1 (on_return ?Q)"
        if "wlp kstep A w1 (on_return ?Q)" "wlp kstep B w1 (on_return ?Q)" "wlp kstep C w1 (on_return ?Q)" for A B C
        using that by simp
      show ?thesis using True by (simp only: not_True_eq_False if_False) (rule fork [OF st child r])
    qed (use stop(2) [OF p] in simp)
  qed
qed

lemma open_device_fds:
  assumes "0 \<in> k_open w" and "length dev \<le> 8" and "- 1 \<notin> k_open w"
  shows "wp kstep (open_device D h dev) w (\<lambda>d w'. case d of
      None \<Rightarrow> k_open w' = k_open w \<or> dev_type h = VTUN_TTY \<and> (\<exists>s. s \<notin> k_open w \<and> k_open w' = insert s (k_open w))
    | Some (fd0, fd1, n) \<Rightarrow> {fd0, fd1} \<inter> k_open w = {} \<and> k_open w \<subseteq> k_open w'
        \<and> k_open w' \<subseteq> k_open w \<union> {fd0, fd1} \<and> - 1 \<notin> k_open w')" (is "wp _ _ _ ?Q")
proof -
  have one: "wp kstep (bind_prog p (\<lambda>(fd, name). Ret (if fd < 0 then None else Some (fd, - 1, name)))) w ?Q"
    if "wp kstep p w (dev_post w)" for p :: "(int \<times> string) sys_prog"
    unfolding wp_bind
    by (rule wp_mono [OF that]) (use assms(3) in \<open>auto simp: dev_post_def opened_def split: prod.splits if_splits\<close>)
  have pipe: "wp kstep (bind_prog pipe_open (\<lambda>(r, fd0, fd1). Ret (if r < 0 then None else Some (fd0, fd1, dev)))) w ?Q"
    using assms(3) by (auto simp: pipe_open_def opens_def bind_eq_Some_conv split: if_splits prod.splits)
  note o = one [OF tun.open_fds [OF assms(1,2)]] one [OF tap.open_fds [OF assms(1,2)]]
  have pty: "dev_type h = VTUN_TTY \<Longrightarrow>
      wp kstep (bind_prog (dr_pty_open D) (\<lambda>(fd, name). Ret (if fd < 0 then None else Some (fd, - 1, name)))) w ?Q"
    unfolding wp_bind
    by (rule wp_mono [OF pty_fds]) (use assms(3) in \<open>auto simp: pty_post_def split: prod.splits if_splits\<close>)
  show ?thesis unfolding open_device_def using o pipe pty assms(3) by (auto simp: Let_def)
qed

lemma tunnel_settles:
  assumes "link_ok link" and "0 \<in> k_open w" and "- 1 \<notin> k_open w" and "rmt_fd h \<in> k_open w"
    and "case vh_dev h of None \<Rightarrow> True | Some d \<Rightarrow> length d \<le> 8"
  shows "wlp kstep (tunnel D malloc realloc link junk h c) w (on_return (settled h (k_open w) {rmt_fd h, loc_fd h}))"
proof -
  let ?dev = "case vh_dev h of None \<Rightarrow> [] | Some d \<Rightarrow> take (VTUN_DEV_LEN - 1) d"
  have len: "length ?dev \<le> 8" using assms(5) by (auto split: option.splits)
  have same: "settled h (k_open w) {rmt_fd h, loc_fd h} x w'"
    if "settled h1 (k_open w) {rmt_fd h1, loc_fd h1} x w'" "rmt_fd h1 = rmt_fd h" "vh_flags h1 = vh_flags h" "vh_dev h1 = vh_dev h"
      "if has_kept h then has_kept h1 \<and> loc_fd h1 = loc_fd h else loc_fd h1 = loc_fd h \<or> loc_fd h1 \<notin> k_open w" for h1 x w'
    using that unfolding settled_def dev_type_def by (auto split: if_splits)
  have start: "wlp kstep (start_session D malloc realloc link junk already fd0 fd1 dev h1 c) w1
      (on_return (settled h (k_open w) {rmt_fd h, loc_fd h}))"
    if "fresh (k_open w) already fd0 fd1 h1 w1" "rmt_fd h1 = rmt_fd h" "vh_flags h1 = vh_flags h" "vh_dev h1 = vh_dev h"
      "if has_kept h then has_kept h1 \<and> loc_fd h1 = loc_fd h else loc_fd h1 = loc_fd h \<or> loc_fd h1 \<notin> k_open w" for already fd0 fd1 dev h1 w1
    by (rule wlp_mono [OF start_session_fds [OF assms(1) that(1)]]) (erule on_return_mono, erule same [OF _ that(2-5)])
  show ?thesis
  proof (cases "keepif h \<and> loc_fd h \<ge> 0")
    case True
    then show ?thesis using assms(3,4) unfolding tunnel_def
      by (auto simp: Let_def fresh_def keepif_def has_kept_def intro!: start)
  next
    case False
    have stop: "settled h (k_open w) {rmt_fd h, loc_fd h} (- 1, h, c) w1" if "k_open w1 = k_open w" for w1
      by (rule settledI [where lost = "{}" and s = "- 1"]) (use that assms(3) False in \<open>auto simp: has_kept_def\<close>)
    have lost: "settled h (k_open w) {rmt_fd h, loc_fd h} (- 1, h, c) w1"
      if "dev_type h = VTUN_TTY" "s \<notin> k_open w" "k_open w1 = insert s (k_open w)" for w1 s
      by (rule settledI [where lost = "{s}" and s = s]) (use that assms(3) False in \<open>auto simp: has_kept_def\<close>)
    have go: "wlp kstep (start_session D malloc realloc link junk False fd0 fd1 n
        (h\<lparr>loc_fd := fd0, vh_sopt := x\<rparr>) c) w1 (on_return (settled h (k_open w) {rmt_fd h, loc_fd h}))"
      if "{fd0, fd1} \<inter> k_open w = {} \<and> k_open w \<subseteq> k_open w1 \<and> k_open w1 \<subseteq> k_open w \<union> {fd0, fd1} \<and> - 1 \<notin> k_open w1"
      for fd0 fd1 n w1 x
      by (rule start) (use that assms(4) False in \<open>auto simp: fresh_def has_kept_def\<close>)
    have eq: "tunnel D malloc realloc link junk h c = bind_prog (open_device D h ?dev) (\<lambda>d. case d of
          None \<Rightarrow> Ret (Returned (- 1, h, c))
        | Some (fd0, fd1, n) \<Rightarrow> start_session D malloc realloc link junk False fd0 fd1 n
            (h\<lparr>loc_fd := fd0, vh_sopt := (vh_sopt h)\<lparr>so_dev := Some n\<rparr>\<rparr>) c)"
      using False unfolding tunnel_def Let_def by (simp only: if_False simp_thms) simp
    show ?thesis unfolding eq wlp_bind
    proof (rule wlp_mono [OF wp_wlp [OF open_device_fds [OF assms(2) len assms(3)]]])
      fix d :: "(int \<times> int \<times> string) option" and w1 :: kernel
      assume d: "case d of None \<Rightarrow> k_open w1 = k_open w
            \<or> dev_type h = VTUN_TTY \<and> (\<exists>s. s \<notin> k_open w \<and> k_open w1 = insert s (k_open w))
        | Some (fd0, fd1, n) \<Rightarrow> {fd0, fd1} \<inter> k_open w = {} \<and> k_open w \<subseteq> k_open w1
            \<and> k_open w1 \<subseteq> k_open w \<union> {fd0, fd1} \<and> - 1 \<notin> k_open w1"
      show "wlp kstep (case d of
          None \<Rightarrow> Ret (Returned (- 1, h, c))
        | Some (fd0, fd1, n) \<Rightarrow> start_session D malloc realloc link junk False fd0 fd1 n
            (h\<lparr>loc_fd := fd0, vh_sopt := (vh_sopt h)\<lparr>so_dev := Some n\<rparr>\<rparr>) c) w1
        (on_return (settled h (k_open w) {rmt_fd h, loc_fd h}))"
      proof (cases d)
        case None
        then show ?thesis using d stop lost by auto
      next
        case (Some x)
        then show ?thesis using d go by (cases x) simp
      qed
    qed
  qed
qed

end

subsection \<open>The builds\<close>

definition linux_driver :: driver where
  "linux_driver = \<lparr>dr_tun_open = linux_tun_open, dr_tun_close = dev_close, dr_tap_open = linux_tap_open,
     dr_tap_close = dev_close, dr_pty_open = pty_open_getpt\<rparr>"

definition generic_driver :: driver where
  "generic_driver = \<lparr>dr_tun_open = generic_tun_open, dr_tun_close = dev_close, dr_tap_open = generic_tap_open,
     dr_tap_close = dev_close, dr_pty_open = pty_open_search\<rparr>"

definition freebsd_driver :: driver where
  "freebsd_driver = generic_driver\<lparr>dr_tun_open := freebsd_tun_open\<rparr>"

definition openbsd_driver :: driver where
  "openbsd_driver = generic_driver\<lparr>dr_tun_open := openbsd_tun_open\<rparr>"

interpretation linux: drivers linux_driver
  by (intro drivers.intro drivers_axioms.intro)
    (simp_all add: linux_driver_def linux_tun.tun_driver_axioms linux_tap.tun_driver_axioms wp_pty_getpt)

interpretation generic: drivers generic_driver
  by (intro drivers.intro drivers_axioms.intro)
    (simp_all add: generic_driver_def generic_tun.tun_driver_axioms generic_tap.tun_driver_axioms wp_pty_search)

interpretation freebsd: drivers freebsd_driver
  by (intro drivers.intro drivers_axioms.intro)
    (simp_all add: wp_pty_search freebsd_driver_def generic_driver_def freebsd_tun.tun_driver_axioms generic_tap.tun_driver_axioms)

interpretation openbsd: drivers openbsd_driver
  by (intro drivers.intro drivers_axioms.intro)
    (simp_all add: wp_pty_search openbsd_driver_def generic_driver_def openbsd_tun.tun_driver_axioms generic_tap.tun_driver_axioms)

lemma builds_settle:
  assumes "D \<in> {linux_driver, generic_driver, freebsd_driver, openbsd_driver}" and "link_ok link"
    and "0 \<in> k_open w" and "- 1 \<notin> k_open w" and "rmt_fd h \<in> k_open w"
    and "case vh_dev h of None \<Rightarrow> True | Some d \<Rightarrow> length d \<le> 8"
  shows "wlp kstep (tunnel D malloc realloc link junk h c) w (on_return (settled h (k_open w) {rmt_fd h, loc_fd h}))"
  using assms(1) linux.tunnel_settles [OF assms(2-6)] generic.tunnel_settles [OF assms(2-6)]
    freebsd.tunnel_settles [OF assms(2-6)] openbsd.tunnel_settles [OF assms(2-6)] by blast

subsection \<open>Properties\<close>

text \<open>
  C8. A session settles its descriptors, on every system but System V and whatever the kernel answers:
  when \<open>tunnel\<close> returns, everything that was open before is open, but for the connection and the
  interface it began with; nothing else is open but the interface of a persistent host and, with
  UDP or a terminal only, one lost descriptor; and the connection is closed when a signal has
  ended the linker.
\<close>

theorem tunnel_descriptors:
  assumes "D \<in> {linux_driver, generic_driver, freebsd_driver, openbsd_driver}" and "link_ok link"
    and "0 \<in> k_open w" and "- 1 \<notin> k_open w" and "rmt_fd h \<in> k_open w"
    and "case vh_dev h of None \<Rightarrow> True | Some d \<Rightarrow> length d \<le> 8"
    and "replay kstep (tunnel D malloc realloc link junk h c) as w = Some (Some (Returned x), w')"
  shows "settled h (k_open w) {rmt_fd h, loc_fd h} x w'"
proof -
  from wlp_replay [OF builds_settle [OF assms(1-6)] assms(7)] show ?thesis by simp
qed

text \<open>
  A host that keeps its interface loses the name of it: when a later session finds the interface open,
  \<open>tunnel\<close> sets the name for the commands from the configuration again, and where that leaves the
  choice to the system, \<open>%d\<close> expands to nothing.
\<close>

theorem kept_interface_name_lost:
  assumes "keepif h" and "0 \<le> loc_fd h" and "vh_dev h = None" and "vh_flags h AND VTUN_PROT_MASK = VTUN_TCP"
    and "\<And>h c. link h c = Ret (Returned (r, h, c))"
    and "replay kstep (tunnel D malloc realloc link junk h c) as w = Some (Some (Returned (r', h', c')), w')"
  shows "opt_value (vh_sopt h') (CHR ''d'') = Text []"
proof -
  let ?h = "h\<lparr>vh_sopt := (vh_sopt h)\<lparr>so_dev := Some []\<rparr>\<rparr>"
  let ?Q = "on_return (\<lambda>(r', h', c'). \<lambda>w'. opt_value (vh_sopt h') (CHR ''d'') = Text [])"
  have o: "opt_value (vh_sopt ?h) (CHR ''d'') = Text []" by (simp add: opt_value_def str_val_def)
  have k: "keepif ?h" using assms(1) by (simp add: keepif_def)
  have cmds: "wlp kstep (and_go (run_cmds malloc realloc cs opt) (\<lambda>_. p)) w1 ?Q" if "\<And>w2. wlp kstep p w2 ?Q" for p cs opt w1
    by (intro wlp_child) (rule that)
  have "wlp kstep (end_session D malloc realloc (- 1) (- 1) [] (r, ?h, c)) w1 ?Q" for w1
    unfolding end_session_def prod.case by (rule wlp_title, rule cmds) (use k o in simp)
  then have run: "wlp kstep (run_session D malloc realloc link (- 1) (- 1) [] ?h c) w1 ?Q" for w1
    using assms(5) by (auto simp: run_session_def Let_def)
  have child: "wlp kstep (and_go q (\<lambda>_. Ret (Exited 0))) w1 ?Q" for q :: "unit ended sys_prog" and w1
    by (intro wlp_child) simp
  have "wlp kstep (start_session D malloc realloc link junk True (- 1) (- 1) [] ?h c) w ?Q"
    using assms(4) run child k o by (auto simp: start_session_def set_protocol_def)
  then have "wlp kstep (tunnel D malloc realloc link junk h c) w ?Q"
    using assms(1-3) by (simp add: tunnel_def Let_def)
  from wlp_replay [OF this assms(6)] show ?thesis by simp
qed

subsection \<open>Examples\<close>

definition ex_keep_host :: vtun_host where
  "ex_keep_host = default_host\<lparr>vh_flags := VTUN_TUN OR VTUN_TCP, vh_persist := 2, rmt_fd := 3, loc_fd := 2\<rparr>"

definition ex_new_host :: vtun_host where
  "ex_new_host = default_host\<lparr>vh_flags := VTUN_TUN OR VTUN_TCP, rmt_fd := 3\<rparr>"

definition ex_link :: linker where
  "ex_link h c = Ret (Returned (1, h, c))"

lemma ex_link_ok: "link_ok ex_link"
  by (simp add: link_ok_def ex_link_def)

definition ex_answers :: "sys_ans list" where
  "ex_answers = [sys_ret 4, (sys_ret 0)\<lparr>sr_name := ''tun0''\<rparr>, sys_ret 0, sys_ret 0, sys_ret 77, sys_ret 0, sys_ret 0,
     sys_ret 0, sys_ret 0, sys_ret 0, sys_ret 0, sys_ret 0]"

lemma ex_tunnel_run:
  "\<exists>h' w'. replay kstep (tunnel linux_driver ex_malloc ex_realloc ex_link no_addr ex_new_host True) ex_answers ex_kernel
    = Some (Some (Returned (1, h', True)), w')"
  by (simp add: ex_answers_def tunnel_def start_session_def run_session_def end_session_def open_device_def set_protocol_def
      linux_driver_def linux_tun_open_def tun_open_common_def dev_close_def ex_link_def ex_new_host_def dev_type_def keepif_def
      default_host_def zero_host_def ex_kernel_def opens_def Let_def)

lemma ex_kept_run:
  "\<exists>h' w'. replay kstep (tunnel linux_driver ex_malloc ex_realloc ex_link no_addr ex_keep_host True)
      [sys_ret 0, sys_ret 0, sys_ret 77, sys_ret 0, sys_ret 0, sys_ret 0, sys_ret 0] ex_kernel
    = Some (Some (Returned (1, h', True)), w')"
  by (simp add: tunnel_def start_session_def run_session_def end_session_def set_protocol_def
      ex_link_def ex_keep_host_def dev_type_def keepif_def default_host_def zero_host_def ex_kernel_def Let_def)

theorem tunnel_descriptors_witness:
  "\<exists>h' w'. replay kstep (tunnel linux_driver ex_malloc ex_realloc ex_link no_addr ex_new_host True) ex_answers ex_kernel
      = Some (Some (Returned (1, h', True)), w')
    \<and> settled ex_new_host {0, 1, 2, 3} {3, - 1} (1, h', True) w'"
proof -
  obtain h' w' where r: "replay kstep (tunnel linux_driver ex_malloc ex_realloc ex_link no_addr ex_new_host True) ex_answers
      ex_kernel = Some (Some (Returned (1, h', True)), w')" using ex_tunnel_run by blast
  have "settled ex_new_host (k_open ex_kernel) {rmt_fd ex_new_host, loc_fd ex_new_host} (1, h', True) w'"
    by (rule tunnel_descriptors [OF _ ex_link_ok _ _ _ _ r])
      (simp_all add: ex_kernel_def ex_new_host_def dev_type_def default_host_def zero_host_def)
  with r show ?thesis by (auto simp: ex_kernel_def ex_new_host_def default_host_def)
qed

theorem kept_interface_name_lost_witness:
  "\<exists>h' w'. replay kstep (tunnel linux_driver ex_malloc ex_realloc ex_link no_addr ex_keep_host True)
      [sys_ret 0, sys_ret 0, sys_ret 77, sys_ret 0, sys_ret 0, sys_ret 0, sys_ret 0] ex_kernel
      = Some (Some (Returned (1, h', True)), w')
    \<and> opt_value (vh_sopt h') (CHR ''d'') = Text []"
proof -
  obtain h' w' where r: "replay kstep (tunnel linux_driver ex_malloc ex_realloc ex_link no_addr ex_keep_host True)
      [sys_ret 0, sys_ret 0, sys_ret 77, sys_ret 0, sys_ret 0, sys_ret 0, sys_ret 0] ex_kernel
      = Some (Some (Returned (1, h', True)), w')" using ex_kept_run by blast
  have "opt_value (vh_sopt h') (CHR ''d'') = Text []"
    by (rule kept_interface_name_lost [OF _ _ _ _ _ r, where r = 1])
      (simp_all add: ex_link_def ex_keep_host_def keepif_def default_host_def zero_host_def)
  with r show ?thesis by blast
qed

end
