(* ===== verification/LinkMods.thy ===== *)
theory LinkMods
  imports VtunHost
begin

section \<open>The module stack of the linker (\<open>linkfd.c\<close>, \<open>linkfd.h\<close>)\<close>

text \<open>
  The modules between the local device and the network (compressors, encryptors, shaper) are
  static \<open>struct lfd_mod\<close> values, chained into a doubly linked list by their own \<open>next\<close> and
  \<open>prev\<close> members. A module is named by an \<open>lfd_id\<close>; its static variables are one cell of the
  store \<open>lfd_id \<Rightarrow> 'v\<close>, and its functions act on that cell only.

  A frame is given by its length and the memory at its pointer, up to the end of the block it is
  allocated in: a function may look at or write behind the frame, but not behind the block. A
  function without a defined result (such an access, a NULL dereference, a walk that never ends)
  yields \<^const>\<open>None\<close>.
\<close>

datatype lfd_id = Lfd_zlib | Lfd_lzo | Lfd_encrypt | Lfd_legacy_encrypt | Lfd_shaper

type_synonym 'v coder = "int \<Rightarrow> byte list \<Rightarrow> 'v \<Rightarrow> (int \<times> byte list \<times> 'v) option"

record 'v lfd_mod =
  m_alloc :: "(vtun_host \<Rightarrow> 'v \<Rightarrow> (int \<times> 'v) option) option"
  m_encode :: "'v coder option"
  m_avail_encode :: "('v \<Rightarrow> int \<times> 'v) option"
  m_decode :: "'v coder option"
  m_avail_decode :: "('v \<Rightarrow> int \<times> 'v) option"
  m_free :: "('v \<Rightarrow> int \<times> 'v) option"

type_synonym 'v mods = "lfd_id \<Rightarrow> 'v lfd_mod"
type_synonym 'v cells = "lfd_id \<Rightarrow> 'v"

subsection \<open>Frame buffers\<close>

text \<open>
  \<open>lfd_alloc\<close> and \<open>lfd_realloc\<close> keep 128 bytes in front of the pointer they hand out;
  \<open>lfd_alloc\<close> also adds 64 bytes behind the size asked for, \<open>lfd_realloc\<close> does not. The
  argument is what \<open>malloc\<close> or \<open>realloc\<close> returned: NULL, or a block (of the length the code
  asks for, see \<open>lfd_alloc_size\<close>); the result is the memory from the pointer on. The bytes in
  front of a pointer are written before they are read, so zeros stand for them.
\<close>

definition LINKFD_FRAME_RESERV :: nat where [simp]: "LINKFD_FRAME_RESERV = 128"
definition LINKFD_FRAME_APPEND :: nat where [simp]: "LINKFD_FRAME_APPEND = 64"

definition lfd_alloc_size :: "nat \<Rightarrow> nat" where
  "lfd_alloc_size n = n + (LINKFD_FRAME_RESERV + LINKFD_FRAME_APPEND)"

definition lfd_alloc :: "(nat \<Rightarrow> byte list option) \<Rightarrow> nat \<Rightarrow> byte list option" where
  "lfd_alloc malloc n =
     map_option (drop LINKFD_FRAME_RESERV) (malloc (lfd_alloc_size n))"

definition lfd_realloc :: "(byte list \<Rightarrow> nat \<Rightarrow> byte list option) \<Rightarrow> byte list \<Rightarrow> nat \<Rightarrow> byte list option" where
  "lfd_realloc realloc buf n =
     map_option (drop LINKFD_FRAME_RESERV)
       (realloc (replicate LINKFD_FRAME_RESERV 0 @ buf) (n + LINKFD_FRAME_RESERV))"

text \<open>What the C library guarantees of the two calls.\<close>

definition malloc_ok :: "(nat \<Rightarrow> byte list option) \<Rightarrow> bool" where
  "malloc_ok malloc = (\<forall>n b. malloc n = Some b \<longrightarrow> length b = n)"

definition realloc_ok :: "(byte list \<Rightarrow> nat \<Rightarrow> byte list option) \<Rightarrow> bool" where
  "realloc_ok realloc = (\<forall>o' n b. realloc o' n = Some b \<longrightarrow>
     length b = n \<and> take (length o') b = take n o')"

lemma lfd_alloc_length:
  "malloc_ok malloc \<Longrightarrow> lfd_alloc malloc n = Some b \<Longrightarrow> length b = n + LINKFD_FRAME_APPEND"
  by (auto simp: lfd_alloc_def malloc_ok_def lfd_alloc_size_def)

lemma lfd_realloc_length:
  "realloc_ok realloc \<Longrightarrow> lfd_realloc realloc buf n = Some b \<Longrightarrow> length b = n"
  by (auto simp: lfd_realloc_def realloc_ok_def)

subsection \<open>The list of modules\<close>

record mod_list =
  md_head :: "lfd_id option"
  md_tail :: "lfd_id option"
  md_next :: "lfd_id \<Rightarrow> lfd_id option"
  md_prev :: "lfd_id \<Rightarrow> lfd_id option"

definition no_mods :: mod_list where
  "no_mods = \<lparr>md_head = None, md_tail = None, md_next = (\<lambda>_. None), md_prev = (\<lambda>_. None)\<rparr>"

definition lfd_add_mod :: "lfd_id \<Rightarrow> mod_list \<Rightarrow> mod_list option" where
  "lfd_add_mod m l =
     (if md_head l = None then
        Some (l\<lparr>md_head := Some m, md_tail := Some m,
                md_next := (md_next l)(m := None), md_prev := (md_prev l)(m := None)\<rparr>)
      else (case md_tail l of
              None \<Rightarrow> None
            | Some t \<Rightarrow>
                Some (l\<lparr>md_tail := Some m,
                        md_next := (md_next l)(t := Some m, m := None),
                        md_prev := (md_prev l)(m := Some t)\<rparr>)))"

text \<open>The chain of links from a pointer, and the lists a pair of links represents.\<close>

fun chain :: "(lfd_id \<Rightarrow> lfd_id option) \<Rightarrow> lfd_id option \<Rightarrow> lfd_id list \<Rightarrow> bool" where
  "chain nx p [] = (p = None)"
| "chain nx p (m # ms) = (p = Some m \<and> chain nx (nx m) ms)"

definition mods_repr :: "mod_list \<Rightarrow> lfd_id list \<Rightarrow> bool" where
  "mods_repr l ms = (distinct ms \<and> chain (md_next l) (md_head l) ms
     \<and> chain (md_prev l) (md_tail l) (rev ms))"

subsection \<open>Walks over the list\<close>

partial_function (option) alloc_from ::
    "'v mods \<Rightarrow> (lfd_id \<Rightarrow> lfd_id option) \<Rightarrow> vtun_host \<Rightarrow> lfd_id option \<Rightarrow> 'v cells
      \<Rightarrow> (int \<times> 'v cells) option" where
  "alloc_from ops nx h cur s =
     (case cur of
        None \<Rightarrow> Some (0, s)
      | Some m \<Rightarrow>
          (case m_alloc (ops m) of
             None \<Rightarrow> alloc_from ops nx h (nx m) s
           | Some f \<Rightarrow>
               (case f h (s m) of
                  None \<Rightarrow> None
                | Some r \<Rightarrow>
                    (let s' = s(m := snd r)
                     in if fst r \<noteq> 0 then Some (1, s') else alloc_from ops nx h (nx m) s'))))"

definition lfd_alloc_mod :: "'v mods \<Rightarrow> mod_list \<Rightarrow> vtun_host \<Rightarrow> 'v cells \<Rightarrow> (int \<times> 'v cells) option" where
  "lfd_alloc_mod ops l h s = alloc_from ops (md_next l) h (md_head l) s"

partial_function (option) free_from ::
    "'v mods \<Rightarrow> (lfd_id \<Rightarrow> lfd_id option) \<Rightarrow> lfd_id option \<Rightarrow> 'v cells
      \<Rightarrow> (int \<times> 'v cells) option" where
  "free_from ops nx cur s =
     (case cur of
        None \<Rightarrow> Some (0, s)
      | Some m \<Rightarrow>
          (case m_free (ops m) of
             None \<Rightarrow> free_from ops nx (nx m) s
           | Some f \<Rightarrow>
               (let r = f (s m); s' = s(m := snd r)
                in if fst r \<noteq> 0 then Some (1, s') else free_from ops nx (nx m) s')))"

definition lfd_free_mod :: "'v mods \<Rightarrow> mod_list \<Rightarrow> 'v cells \<Rightarrow> (int \<times> mod_list \<times> 'v cells) option" where
  "lfd_free_mod ops l s =
     map_option (\<lambda>(r, s'). (r, if r \<noteq> 0 then l else l\<lparr>md_head := None, md_tail := None\<rparr>, s'))
       (free_from ops (md_next l) (md_head l) s)"

text \<open>One walk serves both directions: \<open>sel\<close> picks the encoder or the decoder of a module.\<close>

partial_function (option) run_from ::
    "(lfd_id \<Rightarrow> 'v coder option) \<Rightarrow> (lfd_id \<Rightarrow> lfd_id option) \<Rightarrow> lfd_id option \<Rightarrow> int \<Rightarrow> byte list
      \<Rightarrow> 'v cells \<Rightarrow> (int \<times> byte list \<times> 'v cells) option" where
  "run_from sel nx cur len buf s =
     (case cur of
        None \<Rightarrow> Some (len, buf, s)
      | Some m \<Rightarrow>
          (if len > 0 then
             (case sel m of
                None \<Rightarrow> run_from sel nx (nx m) len buf s
              | Some f \<Rightarrow>
                  (case f len buf (s m) of
                     None \<Rightarrow> None
                   | Some r \<Rightarrow>
                       run_from sel nx (nx m) (fst r) (fst (snd r)) (s(m := snd (snd r)))))
           else Some (len, buf, s)))"

definition lfd_run_down :: "'v mods \<Rightarrow> mod_list \<Rightarrow> int \<Rightarrow> byte list \<Rightarrow> 'v cells
    \<Rightarrow> (int \<times> byte list \<times> 'v cells) option" where
  "lfd_run_down ops l len buf s = run_from (m_encode \<circ> ops) (md_next l) (md_head l) len buf s"

definition lfd_run_up :: "'v mods \<Rightarrow> mod_list \<Rightarrow> int \<Rightarrow> byte list \<Rightarrow> 'v cells
    \<Rightarrow> (int \<times> byte list \<times> 'v cells) option" where
  "lfd_run_up ops l len buf s = run_from (m_decode \<circ> ops) (md_prev l) (md_tail l) len buf s"

partial_function (option) check_from ::
    "(lfd_id \<Rightarrow> ('v \<Rightarrow> int \<times> 'v) option) \<Rightarrow> (lfd_id \<Rightarrow> lfd_id option) \<Rightarrow> lfd_id option \<Rightarrow> int
      \<Rightarrow> 'v cells \<Rightarrow> (int \<times> 'v cells) option" where
  "check_from sel nx cur err s =
     (case cur of
        None \<Rightarrow> Some (err, s)
      | Some m \<Rightarrow>
          (if err > 0 then
             (case sel m of
                None \<Rightarrow> check_from sel nx (nx m) err s
              | Some f \<Rightarrow>
                  (let r = f (s m) in check_from sel nx (nx m) (fst r) (s(m := snd r))))
           else Some (err, s)))"

definition lfd_check_down :: "'v mods \<Rightarrow> mod_list \<Rightarrow> 'v cells \<Rightarrow> (int \<times> 'v cells) option" where
  "lfd_check_down ops l s = check_from (m_avail_encode \<circ> ops) (md_next l) (md_head l) 1 s"

definition lfd_check_up :: "'v mods \<Rightarrow> mod_list \<Rightarrow> 'v cells \<Rightarrow> (int \<times> 'v cells) option" where
  "lfd_check_up ops l s = check_from (m_avail_decode \<circ> ops) (md_prev l) (md_tail l) 1 s"

subsection \<open>The same walks over a plain list\<close>

fun alloc_list :: "'v mods \<Rightarrow> vtun_host \<Rightarrow> lfd_id list \<Rightarrow> 'v cells \<Rightarrow> (int \<times> 'v cells) option" where
  "alloc_list ops h [] s = Some (0, s)"
| "alloc_list ops h (m # ms) s =
     (case m_alloc (ops m) of
        None \<Rightarrow> alloc_list ops h ms s
      | Some f \<Rightarrow>
          (case f h (s m) of
             None \<Rightarrow> None
           | Some r \<Rightarrow> (let s' = s(m := snd r)
                        in if fst r \<noteq> 0 then Some (1, s') else alloc_list ops h ms s')))"

fun free_list :: "'v mods \<Rightarrow> lfd_id list \<Rightarrow> 'v cells \<Rightarrow> int \<times> 'v cells" where
  "free_list ops [] s = (0, s)"
| "free_list ops (m # ms) s =
     (case m_free (ops m) of
        None \<Rightarrow> free_list ops ms s
      | Some f \<Rightarrow> (let r = f (s m); s' = s(m := snd r)
                   in if fst r \<noteq> 0 then (1, s') else free_list ops ms s'))"

fun run_list :: "(lfd_id \<Rightarrow> 'v coder option) \<Rightarrow> lfd_id list \<Rightarrow> int \<Rightarrow> byte list \<Rightarrow> 'v cells
    \<Rightarrow> (int \<times> byte list \<times> 'v cells) option" where
  "run_list sel [] len buf s = Some (len, buf, s)"
| "run_list sel (m # ms) len buf s =
     (if len > 0 then
        (case sel m of
           None \<Rightarrow> run_list sel ms len buf s
         | Some f \<Rightarrow>
             (case f len buf (s m) of
                None \<Rightarrow> None
              | Some (len', buf', v) \<Rightarrow> run_list sel ms len' buf' (s(m := v))))
      else Some (len, buf, s))"

fun check_list :: "(lfd_id \<Rightarrow> ('v \<Rightarrow> int \<times> 'v) option) \<Rightarrow> lfd_id list \<Rightarrow> int \<Rightarrow> 'v cells
    \<Rightarrow> int \<times> 'v cells" where
  "check_list sel [] err s = (err, s)"
| "check_list sel (m # ms) err s =
     (if err > 0 then
        (case sel m of
           None \<Rightarrow> check_list sel ms err s
         | Some f \<Rightarrow> check_list sel ms (fst (f (s m))) (s(m := snd (f (s m)))))
      else (err, s))"

lemma alloc_from_list: "chain nx p ms \<Longrightarrow> alloc_from ops nx h p s = alloc_list ops h ms s"
  by (induction ms arbitrary: p s)
    (subst alloc_from.simps; simp add: Let_def split: option.splits)+

lemma free_from_list: "chain nx p ms \<Longrightarrow> free_from ops nx p s = Some (free_list ops ms s)"
  by (induction ms arbitrary: p s)
    (subst free_from.simps; simp add: Let_def split: option.splits)+

lemma run_from_list: "chain nx p ms \<Longrightarrow> run_from sel nx p len buf s = run_list sel ms len buf s"
  by (induction ms arbitrary: p len buf s)
    (subst run_from.simps; simp split: option.splits prod.splits)+

lemma check_from_list:
  "chain nx p ms \<Longrightarrow> check_from sel nx p err s = Some (check_list sel ms err s)"
  by (induction ms arbitrary: p err s)
    (subst check_from.simps; simp add: Let_def split: option.splits)+


subsection \<open>Building the list\<close>

lemma chain_update: "m \<notin> set ms \<Longrightarrow> chain (nx(m := x)) p ms = chain nx p ms"
  by (induction ms arbitrary: p) auto

lemma chain_extend:
  assumes "distinct (ms @ [t])" and "m \<notin> set (ms @ [t])" and "chain nx p (ms @ [t])"
  shows "chain (nx(t := Some m, m := None)) p ((ms @ [t]) @ [m])"
  using assms
proof (induction ms arbitrary: p)
  case (Cons a ms)
  then have "a \<noteq> t" "a \<noteq> m" by auto
  with Cons show ?case by auto
qed auto

lemma chain_end: "chain nx p ms \<Longrightarrow> (p = None) = (ms = [])"
  by (cases ms) auto

lemma no_mods_repr: "mods_repr no_mods []"
  by (simp add: mods_repr_def no_mods_def)

lemma lfd_add_mod_repr:
  assumes r: "mods_repr l ms" and m: "m \<notin> set ms"
  shows "\<exists>l'. lfd_add_mod m l = Some l' \<and> mods_repr l' (ms @ [m])"
proof (cases ms rule: rev_cases)
  case Nil
  with r have "md_head l = None" by (simp add: mods_repr_def)
  with Nil show ?thesis by (simp add: lfd_add_mod_def mods_repr_def)
next
  case (snoc as t)
  from r have h: "md_head l \<noteq> None" using snoc chain_end [of "md_next l" "md_head l" ms]
    by (simp add: mods_repr_def)
  from r snoc have t: "md_tail l = Some t" and p: "chain (md_prev l) (Some t) (rev ms)"
    by (simp_all add: mods_repr_def)
  let ?nx = "(md_next l)(t := Some m, m := None)" and ?pv = "(md_prev l)(m := Some t)"
  have "chain ?nx (md_head l) (ms @ [m])"
    using chain_extend [of as t m "md_next l" "md_head l"] r m by (simp add: mods_repr_def snoc)
  moreover have "chain ?pv (Some t) (rev ms)" using chain_update [of m "rev ms"] m p by simp
  moreover from h t have "lfd_add_mod m l
      = Some (l\<lparr>md_tail := Some m, md_next := ?nx, md_prev := ?pv\<rparr>)"
    by (auto simp: lfd_add_mod_def)
  ultimately show ?thesis using r m by (simp add: mods_repr_def)
qed

lemma lfd_run_down_list:
  "mods_repr l ms \<Longrightarrow> lfd_run_down ops l len buf s = run_list (m_encode \<circ> ops) ms len buf s"
  by (simp add: lfd_run_down_def mods_repr_def run_from_list)

lemma lfd_run_up_list:
  "mods_repr l ms \<Longrightarrow> lfd_run_up ops l len buf s = run_list (m_decode \<circ> ops) (rev ms) len buf s"
  by (simp add: lfd_run_up_def mods_repr_def run_from_list)

lemma lfd_check_down_list:
  "mods_repr l ms \<Longrightarrow> lfd_check_down ops l s = Some (check_list (m_avail_encode \<circ> ops) ms 1 s)"
  by (simp add: lfd_check_down_def mods_repr_def check_from_list)

lemma lfd_check_up_list:
  "mods_repr l ms \<Longrightarrow> lfd_check_up ops l s = Some (check_list (m_avail_decode \<circ> ops) (rev ms) 1 s)"
  by (simp add: lfd_check_up_def mods_repr_def check_from_list)

lemma lfd_alloc_mod_list:
  "mods_repr l ms \<Longrightarrow> lfd_alloc_mod ops l h s = alloc_list ops h ms s"
  by (simp add: lfd_alloc_mod_def mods_repr_def alloc_from_list)

lemma lfd_free_mod_list:
  "mods_repr l ms \<Longrightarrow> \<exists>r l' s'. lfd_free_mod ops l s = Some (r, l', s')
     \<and> free_list ops ms s = (r, s') \<and> (r = 0 \<longrightarrow> mods_repr l' []) \<and> (r \<noteq> 0 \<longrightarrow> l' = l)"
  by (cases "free_list ops ms s")
    (simp add: lfd_free_mod_def mods_repr_def free_from_list [of _ _ ms])

text \<open>A module entered twice becomes its own predecessor: the walk up never ends.\<close>

lemma run_from_cycle:
  assumes "nx m = Some m" and pos: "\<And>len buf v len' buf' v'. f len buf v = Some (len', buf', v') \<Longrightarrow> len' > 0"
    and f: "sel m = Some f" and "len > 0"
  shows "run_from sel nx (Some m) len buf s = None"
proof -
  have "cur = Some m \<Longrightarrow> len > 0 \<Longrightarrow> nx m = Some m \<Longrightarrow> sel m = Some f \<Longrightarrow> False"
    if "run_from sel nx cur len buf s = Some y" for sel nx cur len buf s y
    using that
  proof (induction rule: run_from.raw_induct [rotated 1, consumes 1, case_names 1])
    case (1 run sel nx cur len buf s y)
    then obtain r where r: "f len buf (s m) = Some r"
      and y: "run sel nx (Some m) (fst r) (fst (snd r)) (s(m := snd (snd r))) = Some y"
      by (auto split: option.splits)
    have "fst r > 0" using pos [of len buf "s m"] r by (cases r) auto
    from 1(1) [OF y refl this] 1 show False by simp
  qed
  with assms show ?thesis by fastforce
qed

lemma lfd_add_mod_twice:
  "lfd_add_mod m no_mods = Some l \<Longrightarrow> lfd_add_mod m l = Some l'
    \<Longrightarrow> md_tail l' = Some m \<and> md_prev l' m = Some m"
  by (auto simp: lfd_add_mod_def no_mods_def)

subsection \<open>What a module promises its stack\<close>

text \<open>
  A pair of modules, one at each end, is in step (\<open>sync v w\<close>) if what the sender's module in
  state \<open>v\<close> encodes next, the receiver's in state \<open>w\<close> decodes. \<open>carries\<close> says so for one frame:
  the encoder succeeds, makes the frame at most \<open>g\<close> bytes longer and leaves 16 bytes of slack
  behind it; from any memory that holds the encoded frame, the decoder gives the frame back; and
  both ends are in step again.
\<close>

definition code :: "'v coder option \<Rightarrow> 'v coder" where
  "code f len buf v = (case f of None \<Rightarrow> Some (len, buf, v) | Some g \<Rightarrow> g len buf v)"

definition carries :: "('v \<Rightarrow> 'v \<Rightarrow> bool) \<Rightarrow> 'v coder \<Rightarrow> 'v coder \<Rightarrow> int \<Rightarrow> int \<Rightarrow> byte list \<Rightarrow> 'v \<Rightarrow> 'v \<Rightarrow> bool" where
  "carries sync enc dec g len buf v w =
     (\<exists>len' buf' v'. enc len buf v = Some (len', buf', v')
        \<and> 0 < len' \<and> len' \<le> len + g \<and> len' + 16 \<le> int (length buf')
        \<and> (\<forall>got. take (nat len') got = take (nat len') buf' \<longrightarrow>
             (\<exists>ret w'. dec len' got w = Some (len, ret, w')
                \<and> take (nat len) ret = take (nat len) buf \<and> sync v' w')))"

fun fits :: "(lfd_id \<Rightarrow> int) \<Rightarrow> (lfd_id \<Rightarrow> int) \<Rightarrow> lfd_id list \<Rightarrow> int \<Rightarrow> bool" where
  "fits cap grow [] n = True"
| "fits cap grow (m # ms) n = (n \<le> cap m \<and> fits cap grow ms (n + grow m))"

lemma fits_mono: "fits cap grow ms n \<Longrightarrow> k \<le> n \<Longrightarrow> fits cap grow ms k"
proof (induction ms arbitrary: n k)
  case (Cons m ms)
  then have "fits cap grow ms (k + grow m)" using Cons.IH [of "n + grow m" "k + grow m"] by simp
  with Cons.prems show ?case by simp
qed simp

lemma run_list_single: "len > 0 \<Longrightarrow> run_list sel [m] len buf s
    = map_option (\<lambda>(l, b, v). (l, b, s(m := v))) (code (sel m) len buf (s m))"
  by (auto simp: code_def split: option.splits)

lemma run_list_cons: "len > 0 \<Longrightarrow> run_list sel (m # ms) len buf s
    = (case code (sel m) len buf (s m) of None \<Rightarrow> None
       | Some (l, b, v) \<Rightarrow> run_list sel ms l b (s(m := v)))"
  by (auto simp: code_def split: option.splits)

lemma run_list_stop: "len \<le> 0 \<Longrightarrow> run_list sel ms len buf s = Some (len, buf, s)"
  by (cases ms) auto

lemma run_list_append: "run_list sel (xs @ ys) len buf s
    = (case run_list sel xs len buf s of None \<Rightarrow> None
       | Some (l, b, s') \<Rightarrow> run_list sel ys l b s')"
  by (induction xs arbitrary: len buf s) (auto simp: run_list_stop split: option.splits)

lemma run_list_frame: "run_list sel ms len buf s = Some (l, b, s') \<Longrightarrow> m \<notin> set ms \<Longrightarrow> s' m = s m"
  by (induction ms arbitrary: len buf s) (auto split: if_splits option.splits)

locale lfd_stack =
  fixes ops :: "'v mods"
    and sync :: "lfd_id \<Rightarrow> 'v \<Rightarrow> 'v \<Rightarrow> bool"
    and cap grow :: "lfd_id \<Rightarrow> int"
  assumes carry: "sync m v w \<Longrightarrow> 0 < len \<Longrightarrow> len \<le> cap m \<Longrightarrow> len + 16 \<le> int (length buf) \<Longrightarrow>
      carries (sync m) (code (m_encode (ops m))) (code (m_decode (ops m))) (grow m) len buf v w"
begin

lemma down_up:
  assumes "distinct ms" and "\<forall>m\<in>set ms. sync m (s m) (r m)"
    and "fits cap grow ms len" and "0 < len" and "len + 16 \<le> int (length buf)"
  shows "\<exists>len' buf' s'. run_list (m_encode \<circ> ops) ms len buf s = Some (len', buf', s')
      \<and> 0 < len' \<and> len' \<le> len + sum_list (map grow ms) \<and> len' + 16 \<le> int (length buf')
      \<and> (\<forall>got. take (nat len') got = take (nat len') buf' \<longrightarrow>
           (\<exists>ret r'. run_list (m_decode \<circ> ops) (rev ms) len' got r = Some (len, ret, r')
              \<and> take (nat len) ret = take (nat len) buf \<and> (\<forall>m\<in>set ms. sync m (s' m) (r' m))))"
  using assms
proof (induction ms arbitrary: len buf s)
  case Nil
  then show ?case by auto
next
  case (Cons m ms)
  let ?e = "code (m_encode (ops m))" and ?d = "code (m_decode (ops m))"
  from Cons.prems have sy: "sync m (s m) (r m)" and c: "len \<le> cap m"
    and ft: "fits cap grow ms (len + grow m)" and m: "m \<notin> set ms" by auto
  from carry [OF sy Cons.prems(4) c Cons.prems(5)]
  obtain l1 b1 v1 where e: "?e len buf (s m) = Some (l1, b1, v1)"
    and l1: "0 < l1" "l1 \<le> len + grow m" "l1 + 16 \<le> int (length b1)"
    and d: "\<And>got. take (nat l1) got = take (nat l1) b1 \<Longrightarrow>
        \<exists>ret w'. ?d l1 got (r m) = Some (len, ret, w')
          \<and> take (nat len) ret = take (nat len) buf \<and> sync m v1 w'"
    unfolding carries_def by blast
  let ?s1 = "s(m := v1)"
  have "distinct ms" "\<forall>a\<in>set ms. sync a (?s1 a) (r a)" "fits cap grow ms l1"
    using Cons.prems m fits_mono [OF ft l1(2)] by auto
  from Cons.IH [OF this l1(1,3)] obtain len' buf' s' where
    run: "run_list (m_encode \<circ> ops) ms l1 b1 ?s1 = Some (len', buf', s')"
    and len': "0 < len'" "len' \<le> l1 + sum_list (map grow ms)" "len' + 16 \<le> int (length buf')"
    and up: "\<And>got. take (nat len') got = take (nat len') buf' \<Longrightarrow>
        \<exists>ret r'. run_list (m_decode \<circ> ops) (rev ms) len' got r = Some (l1, ret, r')
          \<and> take (nat l1) ret = take (nat l1) b1 \<and> (\<forall>m\<in>set ms. sync m (s' m) (r' m))"
    by blast
  have "run_list (m_encode \<circ> ops) (m # ms) len buf s = Some (len', buf', s')"
    using run_list_cons [OF Cons.prems(4), of "m_encode \<circ> ops" m ms buf s] e run by simp
  moreover have "\<exists>ret r'. run_list (m_decode \<circ> ops) (rev (m # ms)) len' got r = Some (len, ret, r')
      \<and> take (nat len) ret = take (nat len) buf \<and> (\<forall>a\<in>set (m # ms). sync a (s' a) (r' a))"
    if g: "take (nat len') got = take (nat len') buf'" for got
  proof -
    from up [OF g] obtain b2 r2 where
      r2: "run_list (m_decode \<circ> ops) (rev ms) len' got r = Some (l1, b2, r2)"
      and b2: "take (nat l1) b2 = take (nat l1) b1" and sy2: "\<forall>a\<in>set ms. sync a (s' a) (r2 a)" by blast
    have "r2 m = r m" "s' m = v1"
      using run_list_frame [OF r2, of m] run_list_frame [OF run, of m] m by auto
    with d [OF b2] obtain ret w' where d2: "?d l1 b2 (r2 m) = Some (len, ret, w')"
      and ret: "take (nat len) ret = take (nat len) buf" and sm: "sync m (s' m) w'" by auto
    have "run_list (m_decode \<circ> ops) (rev (m # ms)) len' got r = Some (len, ret, r2(m := w'))"
      using run_list_single [OF l1(1), of "m_decode \<circ> ops" m b2 r2] d2 r2
      by (simp add: run_list_append)
    with ret sm sy2 m show ?thesis by (intro exI [of _ ret] exI [of _ "r2(m := w')"]) auto
  qed
  moreover have "len' \<le> len + sum_list (map grow (m # ms))" using len'(2) l1(2) by simp
  ultimately show ?case using len'(1,3) by blast
qed

end

end
