(* ===== verification/LfdLegacy.thy ===== *)
theory LfdLegacy
  imports LinkMods
begin

section \<open>The legacy encryptor (\<open>lfd_legacy_encrypt.c\<close>)\<close>

text \<open>
  Blowfish in ECB mode with the padding in front: the first block carries the pad length, zeros
  and the first bytes of the frame. The key schedule that \<open>BF_set_key\<close> makes of the MD5 sum of the
  password is a pair of functions on 8-byte blocks, kept in the module's state beside the output
  buffer; how a password becomes one is the parameter \<open>bf_key\<close> of \<open>alloc_legacy_encrypt\<close>.
\<close>

type_synonym block_fun = "byte list \<Rightarrow> byte list"

record legacy =
  lg_key_enc :: block_fun
  lg_key_dec :: block_fun
  lg_enc_buf :: "byte list"

text \<open>The macro is \<open>VTUN_FRAME_SIZE + 16\<close>.\<close>

definition LEGACY_BUF_SIZE :: nat where [simp]: "LEGACY_BUF_SIZE = VTUN_FRAME_SIZE + 16"

definition alloc_legacy_encrypt :: "(nat \<Rightarrow> byte list option) \<Rightarrow> (string \<Rightarrow> block_fun \<times> block_fun)
    \<Rightarrow> vtun_host \<Rightarrow> legacy \<Rightarrow> (int \<times> legacy) option" where
  "alloc_legacy_encrypt malloc bf_key h st =
     (case lfd_alloc malloc LEGACY_BUF_SIZE of
        None \<Rightarrow> Some (- 1, st)
      | Some b \<Rightarrow>
          (case vh_passwd h of
             None \<Rightarrow> None
           | Some pw \<Rightarrow>
               Some (0, st\<lparr>lg_enc_buf := b, lg_key_enc := fst (bf_key pw),
                          lg_key_dec := snd (bf_key pw)\<rparr>)))"

definition free_legacy_encrypt :: "legacy \<Rightarrow> int \<times> legacy" where
  "free_legacy_encrypt st = (0, st\<lparr>lg_enc_buf := []\<rparr>)"

text \<open>\<open>n\<close> blocks of \<open>bs\<close> under a block function, one after the other.\<close>

fun ecb_blocks :: "block_fun \<Rightarrow> nat \<Rightarrow> byte list \<Rightarrow> byte list" where
  "ecb_blocks f 0 bs = []"
| "ecb_blocks f (Suc n) bs = f (take 8 bs) @ ecb_blocks f n (drop 8 bs)"

definition legacy_pad :: "int \<Rightarrow> int" where
  "legacy_pad len = ((NOT len) AND 0x07) + 1"

definition legacy_encrypt_buf :: "legacy coder" where
  "legacy_encrypt_buf len buf st =
     (let pad = legacy_pad len; p = nat (8 - pad);
          first = (word_of_int pad # replicate (nat pad - 1) 0) @ take p buf;
          rest = len - int p;
          cipher = ecb_blocks (lg_key_enc st) 1 first
                     @ ecb_blocks (lg_key_enc st) (nat rest div 8) (drop p buf)
      in if int (length buf) < len \<or> int (length (lg_enc_buf st)) < rest + 8 then None
         else (let mem = cipher @ drop (length cipher) (lg_enc_buf st)
               in Some (rest + 8, mem, st\<lparr>lg_enc_buf := mem\<rparr>)))"

definition legacy_decrypt_buf :: "legacy coder" where
  "legacy_decrypt_buf len buf st =
     (let n = (nat len + 7) div 8;
          mem = ecb_blocks (lg_key_dec st) n buf @ drop (8 * n) buf
      in if length buf < 8 * n \<or> mem = [] then None
         else (let p = sint (hd mem)
               in if p < 1 \<or> 8 < p then Some (0, mem, st)
                  else Some (len - p, drop (nat p) mem, st)))"

subsection \<open>What the encryptor does to a frame\<close>

definition bf_pair :: "block_fun \<Rightarrow> block_fun \<Rightarrow> bool" where
  "bf_pair E D = (\<forall>b. length b = 8 \<longrightarrow> length (E b) = 8 \<and> length (D b) = 8 \<and> D (E b) = b \<and> E (D b) = b)"

lemma legacy_pad_mod: "0 \<le> len \<Longrightarrow> legacy_pad len = 8 - len mod 8"
proof -
  have "(NOT len) AND 7 = (- len - 1) mod 8"
    using take_bit_eq_mask [of 3 "NOT len"]
    by (simp add: take_bit_eq_mod not_int_def mask_eq_exp_minus_1)
  moreover assume "0 \<le> len"
  ultimately show ?thesis unfolding legacy_pad_def by presburger
qed

lemma length_ecb_blocks:
  "bf_pair E D \<Longrightarrow> 8 * n \<le> length bs \<Longrightarrow> length (ecb_blocks E n bs) = 8 * n
    \<and> length (ecb_blocks D n bs) = 8 * n"
  by (induction n arbitrary: bs) (auto simp: bf_pair_def)

lemma ecb_blocks_inverse:
  "bf_pair E D \<Longrightarrow> 8 * n \<le> length bs \<Longrightarrow> ecb_blocks D n (ecb_blocks E n bs @ t) = take (8 * n) bs"
proof (induction n arbitrary: bs)
  case (Suc n)
  have "length (take 8 bs) = 8" using Suc.prems by simp
  with Suc.prems(1) have e: "length (E (take 8 bs)) = 8" "D (E (take 8 bs)) = take 8 bs"
    by (auto simp: bf_pair_def)
  have "take (8 * Suc n) bs = take 8 bs @ take (8 * n) (drop 8 bs)"
    by (simp flip: take_add)
  with e Suc.IH [of "drop 8 bs"] Suc.prems show ?case by simp
qed simp

lemma ecb_blocks_take: "8 * n \<le> k \<Longrightarrow> ecb_blocks f n (take k bs) = ecb_blocks f n bs"
  by (induction n arbitrary: bs k) (auto simp: drop_take)

lemma ecb_blocks_add: "ecb_blocks f (n + m) bs = ecb_blocks f n bs @ ecb_blocks f m (drop (8 * n) bs)"
  by (induction n arbitrary: bs) (auto simp: add.commute)

text \<open>Both ends in step: the keys fit and the sender's buffer is the one \<open>lfd_alloc\<close> gave it.\<close>

definition legacy_sync :: "legacy \<Rightarrow> legacy \<Rightarrow> bool" where
  "legacy_sync v w = (bf_pair (lg_key_enc v) (lg_key_dec w)
     \<and> LEGACY_BUF_SIZE + LINKFD_FRAME_APPEND \<le> length (lg_enc_buf v))"

text \<open>The plain text of the first block of a frame of \<open>n\<close> bytes.\<close>

definition legacy_first :: "nat \<Rightarrow> byte list \<Rightarrow> byte list" where
  "legacy_first n buf =
     (word_of_nat (8 - n mod 8) # replicate (7 - n mod 8) 0) @ take (n mod 8) buf"

lemma length_legacy_first: "n \<le> length buf \<Longrightarrow> length (legacy_first n buf) = 8"
proof -
  have "n mod 8 < 8" by simp
  moreover assume "n \<le> length buf"
  moreover have "n mod 8 \<le> n" by simp
  ultimately show ?thesis unfolding legacy_first_def by (simp del: mod_less_eq_dividend)
qed

text \<open>The plain text of the whole message, and how a frame reads from it.\<close>

definition legacy_plain :: "nat \<Rightarrow> byte list \<Rightarrow> byte list" where
  "legacy_plain n buf = legacy_first n buf @ take (8 * (n div 8)) (drop (n mod 8) buf)"

lemma legacy_plain_facts:
  assumes "n \<le> length buf"
  shows "length (legacy_plain n buf) = 8 * Suc (n div 8)"
    and "hd (legacy_plain n buf) = word_of_nat (8 - n mod 8)"
    and "drop (8 - n mod 8) (legacy_plain n buf) = take n buf"
proof -
  have n: "n mod 8 + 8 * (n div 8) = n" by simp
  then have le: "8 * (n div 8) \<le> length buf - n mod 8" using assms by linarith
  show "length (legacy_plain n buf) = 8 * Suc (n div 8)"
    using length_legacy_first [OF assms] le by (simp add: legacy_plain_def)
  show "hd (legacy_plain n buf) = word_of_nat (8 - n mod 8)"
    by (simp add: legacy_plain_def legacy_first_def)
  have "drop (8 - n mod 8) (legacy_first n buf) = take (n mod 8) buf"
  proof -
    have "8 - n mod 8 = Suc (7 - n mod 8)" by (simp add: Suc_diff_le less_Suc_eq_le [symmetric])
    then show ?thesis by (simp add: legacy_first_def)
  qed
  moreover have "8 - n mod 8 \<le> length (legacy_first n buf)" using length_legacy_first [OF assms] by simp
  ultimately show "drop (8 - n mod 8) (legacy_plain n buf) = take n buf"
    using take_add [of "n mod 8" "8 * (n div 8)" buf] n by (simp add: legacy_plain_def)
qed

lemma legacy_encrypt_run:
  assumes k: "bf_pair (lg_key_enc v) D" and n: "n \<le> length buf"
    and room: "n + 8 \<le> length (lg_enc_buf v)"
  shows "\<exists>t. legacy_encrypt_buf (int n) buf v
      = Some (8 * int (Suc (n div 8)),
          ecb_blocks (lg_key_enc v) (Suc (n div 8)) (legacy_plain n buf) @ t,
          v\<lparr>lg_enc_buf := ecb_blocks (lg_key_enc v) (Suc (n div 8)) (legacy_plain n buf) @ t\<rparr>)
      \<and> length t + 8 * Suc (n div 8) = length (lg_enc_buf v)"
proof -
  define p where "p = n mod 8"
  define q where "q = n div 8"
  let ?E = "lg_key_enc v"
  let ?c = "ecb_blocks ?E (Suc q) (legacy_plain n buf)"
  let ?t = "drop (8 * Suc q) (lg_enc_buf v)"
  have n_eq: "n = q * 8 + p" and p: "p < 8" by (simp_all add: p_def q_def)
  have pad: "legacy_pad (int n) = 8 - int p" by (simp add: legacy_pad_mod p_def zmod_int)
  have w: "(word_of_int (8 - int p) :: byte) = word_of_nat (8 - p)"
    using p by (simp add: of_nat_diff)
  have first: "(word_of_int (8 - int p) # replicate (nat (8 - int p) - 1) 0) @ take p buf = legacy_first n buf"
    using p w by (simp add: legacy_first_def p_def [symmetric] nat_diff_distrib)
  have c: "?c = ecb_blocks ?E 1 (legacy_first n buf) @ ecb_blocks ?E q (drop p buf)"
    using length_legacy_first [OF n] ecb_blocks_take [of q "8 * q" ?E "drop p buf"]
    by (simp add: legacy_plain_def p_def q_def)
  have lc: "length ?c = 8 * Suc q"
    using length_ecb_blocks [OF k, of "Suc q" "legacy_plain n buf"] legacy_plain_facts(1) [OF n]
    by (simp add: q_def)
  have e1: "nat (8 - (8 - int p)) = p" by simp
  have e2: "nat (int n - int p) div 8 = q" "int n - int p + 8 = 8 * int (Suc q)" using n_eq by simp_all
  have e3: "(int (length buf) < int n \<or> int (length (lg_enc_buf v)) < 8 * int (Suc q)) = False"
    using n room n_eq by simp
  have "legacy_encrypt_buf (int n) buf v = Some (8 * int (Suc q), ?c @ ?t, v\<lparr>lg_enc_buf := ?c @ ?t\<rparr>)"
    unfolding legacy_encrypt_buf_def Let_def pad e1 first e2 e3 if_False
    by (simp only: c [symmetric] lc)
  moreover have "length ?t + 8 * Suc q = length (lg_enc_buf v)" using room n_eq by simp
  ultimately show ?thesis unfolding q_def by blast
qed

lemma legacy_decrypt_run:
  assumes k: "bf_pair E (lg_key_dec w)" and n: "n \<le> length buf"
    and got: "take (8 * Suc (n div 8)) got = ecb_blocks E (Suc (n div 8)) (legacy_plain n buf)"
  shows "\<exists>ret. legacy_decrypt_buf (8 * int (Suc (n div 8))) got w = Some (int n, ret, w)
      \<and> take n ret = take n buf"
proof -
  let ?q = "Suc (n div 8)"
  let ?c = "ecb_blocks E ?q (legacy_plain n buf)"
  have l: "length (legacy_plain n buf) = 8 * ?q" using legacy_plain_facts(1) [OF n] .
  have lc: "length ?c = 8 * ?q" using length_ecb_blocks [OF k, of ?q "legacy_plain n buf"] l by simp
  have g: "got = ?c @ drop (8 * ?q) got" using got append_take_drop_id [of "8 * ?q" got] by metis
  then have lg: "8 * ?q \<le> length got" using lc by (metis le_add1 length_append)
  let ?mem = "ecb_blocks (lg_key_dec w) ?q got @ drop (8 * ?q) got"
  have mem: "?mem = legacy_plain n buf @ drop (8 * ?q) got"
  proof -
    have "ecb_blocks (lg_key_dec w) ?q got = legacy_plain n buf"
      using ecb_blocks_inverse [OF k, of ?q "legacy_plain n buf" "drop (8 * ?q) got"] l
      by (subst g) (simp del: ecb_blocks.simps)
    then show ?thesis by (simp only:)
  qed
  have hd: "hd ?mem = word_of_nat (8 - n mod 8)"
    unfolding mem using legacy_plain_facts(1,2) [OF n] by (cases "legacy_plain n buf") auto
  have "8 - n mod 8 \<le> 8" "1 \<le> 8 - n mod 8" by (simp_all add: Suc_le_eq)
  then have s: "sint (hd ?mem) = int (8 - n mod 8)"
    unfolding hd by (intro sint_small_byte) simp
  have nb: "(nat (8 * int ?q) + 7) div 8 = ?q" by simp
  have ne: "(length got < 8 * ?q \<or> ?mem = []) = False"
    using lg l unfolding mem by (auto simp del: ecb_blocks.simps)
  have rng: "(sint (hd ?mem) < 1 \<or> 8 < sint (hd ?mem)) = False"
    unfolding s using \<open>1 \<le> 8 - n mod 8\<close> by simp
  have "8 * int ?q - int (8 - n mod 8) = int n" by (simp add: of_nat_diff) presburger
  then have "legacy_decrypt_buf (8 * int ?q) got w = Some (int n, drop (8 - n mod 8) ?mem, w)"
    unfolding legacy_decrypt_buf_def Let_def nb ne if_False rng by (simp only: s nat_int)
  moreover have "take n (drop (8 - n mod 8) ?mem) = take n buf"
    using legacy_plain_facts(3) [OF n] l n unfolding mem by simp
  ultimately show ?thesis by blast
qed

lemma legacy_carries:
  assumes "legacy_sync v w" and "0 < len" and "len \<le> 2104" and "len + 16 \<le> int (length buf)"
  shows "carries legacy_sync legacy_encrypt_buf legacy_decrypt_buf 8 len buf v w"
proof -
  define n where "n = nat len"
  have len: "len = int n" and n: "n \<le> length buf" "n \<le> 2104" using assms by (auto simp: n_def)
  let ?q = "Suc (n div 8)"
  let ?c = "ecb_blocks (lg_key_enc v) ?q (legacy_plain n buf)"
  from assms(1) have k: "bf_pair (lg_key_enc v) (lg_key_dec w)"
    and room: "2128 \<le> length (lg_enc_buf v)" by (simp_all add: legacy_sync_def)
  obtain t where e: "legacy_encrypt_buf (int n) buf v = Some (8 * int ?q, ?c @ t, v\<lparr>lg_enc_buf := ?c @ t\<rparr>)"
    and t: "length t + 8 * ?q = length (lg_enc_buf v)"
    using legacy_encrypt_run [OF k n(1)] room n(2) by (auto simp del: ecb_blocks.simps of_nat_Suc)
  have lc: "length ?c = 8 * ?q"
    using length_ecb_blocks [OF k, of ?q "legacy_plain n buf"] legacy_plain_facts(1) [OF n(1)] by simp
  have q: "8 * ?q \<le> n + 8" by simp
  let ?v = "v\<lparr>lg_enc_buf := ?c @ t\<rparr>"
  have t16: "n + 24 \<le> length ?c + length t" using lc t room n(2) by linarith
  have sync: "legacy_sync ?v w" using k t lc room unfolding legacy_sync_def by simp
  have "\<exists>ret w'. legacy_decrypt_buf (8 * int ?q) got w = Some (int n, ret, w')
      \<and> take (nat (int n)) ret = take (nat (int n)) buf \<and> legacy_sync ?v w'"
    if "take (nat (8 * int ?q)) got = take (nat (8 * int ?q)) (?c @ t)" for got
  proof -
    from that lc have "take (8 * ?q) got = ?c"
      by (simp del: ecb_blocks.simps of_nat_Suc add: nat_mult_distrib)
    from legacy_decrypt_run [OF k n(1) this] sync show ?thesis by auto
  qed
  moreover have "0 < 8 * int ?q" "8 * int ?q \<le> int n + 8" "8 * int ?q + 16 \<le> int (length (?c @ t))"
    using q t16 by (simp_all del: ecb_blocks.simps)
  ultimately show ?thesis unfolding carries_def len e by blast
qed

subsection \<open>Properties\<close>

text \<open>
  C30. Encryption with the legacy module is undone by the peer's module, whatever lies behind the
  frame in either buffer, and both ends stay in step for the next frame.
\<close>

theorem legacy_roundtrip:
  assumes "legacy_sync v w" and "0 < len" and "len \<le> 2104" and "len + 16 \<le> int (length buf)"
  shows "\<exists>len' mem v'. legacy_encrypt_buf len buf v = Some (len', mem, v') \<and> len' \<le> len + 8
    \<and> (\<forall>junk. \<exists>ret w'. legacy_decrypt_buf len' (take (nat len') mem @ junk) w = Some (len, ret, w')
         \<and> take (nat len) ret = take (nat len) buf \<and> legacy_sync v' w')"
proof -
  from legacy_carries [OF assms] obtain len' mem v' where
    e: "legacy_encrypt_buf len buf v = Some (len', mem, v')" "len' \<le> len + 8" "0 < len'"
      "len' + 16 \<le> int (length mem)"
    and d: "\<And>got. take (nat len') got = take (nat len') mem \<Longrightarrow>
        \<exists>ret w'. legacy_decrypt_buf len' got w = Some (len, ret, w')
          \<and> take (nat len) ret = take (nat len) buf \<and> legacy_sync v' w'"
    unfolding carries_def by blast
  have "\<exists>ret w'. legacy_decrypt_buf len' (take (nat len') mem @ junk) w = Some (len, ret, w')
      \<and> take (nat len) ret = take (nat len) buf \<and> legacy_sync v' w'" for junk
    using e(3,4) by (intro d) simp
  with e(1,2) show ?thesis by blast
qed

lemma legacy_roundtrip_witness:
  "\<exists>len' mem v'. legacy_encrypt_buf 3 (replicate 40 7)
       \<lparr>lg_key_enc = rev, lg_key_dec = rev, lg_enc_buf = replicate 2128 0\<rparr> = Some (len', mem, v') \<and> len' \<le> 3 + 8
    \<and> (\<forall>junk. \<exists>ret w'. legacy_decrypt_buf len' (take (nat len') mem @ junk)
         \<lparr>lg_key_enc = rev, lg_key_dec = rev, lg_enc_buf = []\<rparr> = Some (3, ret, w')
         \<and> take (nat 3) ret = take (nat 3) (replicate 40 7) \<and> legacy_sync v' w')"
  by (rule legacy_roundtrip) (simp_all add: legacy_sync_def bf_pair_def)

text \<open>
  A frame shorter than one block makes the legacy decryptor report a negative length: the pad
  it finds in the stale bytes behind the frame may be longer than the frame itself. The linker
  then leaves the session (for -1) or passes the negative length on to the device.
\<close>

theorem legacy_short_frame:
  assumes "0 < len" and "len < p" and "p \<le> 8" and "8 \<le> length buf"
    and "hd (lg_key_dec st (take 8 buf)) = word_of_int p" and "lg_key_dec st (take 8 buf) \<noteq> []"
  shows "\<exists>ret. legacy_decrypt_buf len buf st = Some (len - p, ret, st) \<and> len - p < 0"
proof -
  have n: "(nat len + 7) div 8 = 1" using assms(1-3) by linarith
  have "sint (word_of_int p :: byte) = p" using sint_small_byte [of "nat p"] assms(1-3) by simp
  then show ?thesis using assms n unfolding legacy_decrypt_buf_def Let_def by simp
qed

lemma legacy_short_frame_witness:
  "\<exists>ret. legacy_decrypt_buf 3 [6, 1, 2, 3, 4, 5, 6, 7, 0]
      \<lparr>lg_key_enc = id, lg_key_dec = id, lg_enc_buf = []\<rparr>
    = Some (3 - 6, ret, \<lparr>lg_key_enc = id, lg_key_dec = id, lg_enc_buf = []\<rparr>) \<and> (3 - 6 :: int) < 0"
  by (rule legacy_short_frame) simp_all

end
