(* ===== verification/LfdShaper.thy ===== *)
theory LfdShaper
  imports LinkMods
begin

section \<open>The traffic shaper (\<open>lfd_shaper.c\<close>)\<close>

text \<open>
  The shaper counts the bytes going down and refuses input while their rate is above the limit.
  Its counters are 64-bit unsigned words. The clock \<open>gettimeofday\<close> reads is the field
  \<open>sh_clock\<close> of the state, which only the environment advances.
\<close>

record timeval =
  tv_sec :: int
  tv_usec :: int

record shaper =
  sh_bytes :: "64 word"
  max_speed :: "64 word"
  curr_time :: timeval
  last_time :: timeval
  sh_clock :: timeval

text \<open>
  \<open>max_speed = host->spd_out / 8 * 1024\<close> is computed in \<open>int\<close>; an overflow there is undefined.
\<close>

definition shaper_init :: "vtun_host \<Rightarrow> shaper \<Rightarrow> (int \<times> shaper) option" where
  "shaper_init h st =
     (let s = (if spd_out h < 0 then - (- spd_out h div 8) else spd_out h div 8) * 1024
      in if s < - (2 ^ 31) \<or> 2 ^ 31 \<le> s then None
         else Some (0, st\<lparr>max_speed := word_of_int s + 400, sh_bytes := 0\<rparr>))"

definition shaper_counter :: "shaper coder" where
  "shaper_counter len buf st = Some (len, buf, st\<lparr>sh_bytes := sh_bytes st + word_of_int len\<rparr>)"

definition tv2ms :: "timeval \<Rightarrow> 64 word" where
  "tv2ms tv =
     (let us = (if tv_usec tv < 0 then - (- tv_usec tv div 1000) else tv_usec tv div 1000);
          ms = word_of_int (tv_sec tv * 1000 + us)
      in if ms \<noteq> 0 then ms else 1)"

definition timersub :: "timeval \<Rightarrow> timeval \<Rightarrow> timeval" where
  "timersub a b =
     (let s = tv_sec a - tv_sec b; u = tv_usec a - tv_usec b
      in if u < 0 then \<lparr>tv_sec = s - 1, tv_usec = u + 1000000\<rparr> else \<lparr>tv_sec = s, tv_usec = u\<rparr>)"

definition shaper_avail :: "shaper \<Rightarrow> int \<times> shaper" where
  "shaper_avail st0 =
     (let st = st0\<lparr>curr_time := sh_clock st0\<rparr>;
          tv = timersub (curr_time st) (last_time st);
          speed = sh_bytes st * 1000 div tv2ms tv
      in if speed > max_speed st then (0, st)
         else if tv_sec (curr_time st) > tv_sec (last_time st)
           then (1, st\<lparr>last_time := curr_time st, sh_bytes := 0\<rparr>)
         else (1, st))"

subsection \<open>Elapsed time\<close>

definition tv_ok :: "timeval \<Rightarrow> bool" where
  "tv_ok t = (0 \<le> tv_sec t \<and> tv_sec t < 2 ^ 50 \<and> 0 \<le> tv_usec t \<and> tv_usec t < 1000000)"

definition tv_us :: "timeval \<Rightarrow> int" where
  "tv_us t = tv_sec t * 1000000 + tv_usec t"

text \<open>The elapsed milliseconds, rounded down, but never 0.\<close>

definition elapsed_ms :: "timeval \<Rightarrow> timeval \<Rightarrow> int" where
  "elapsed_ms a b = max 1 ((tv_us a - tv_us b) div 1000)"

lemma uint_word64: "0 \<le> i \<Longrightarrow> i < 2 ^ 64 \<Longrightarrow> uint (word_of_int i :: 64 word) = i"
  by (simp add: uint_word_of_int_eq take_bit_int_eq_self_iff)

lemma tv2ms_timersub:
  assumes "tv_ok a" and "tv_ok b" and "tv_us b \<le> tv_us a"
  shows "uint (tv2ms (timersub a b)) = elapsed_ms a b"
proof -
  let ?d = "timersub a b"
  have u: "0 \<le> tv_usec ?d" "tv_usec ?d < 1000000"
    and d: "tv_us ?d = tv_us a - tv_us b"
    using assms by (auto simp: timersub_def Let_def tv_ok_def tv_us_def)
  have s: "0 \<le> tv_sec ?d" "tv_sec ?d < 2 ^ 50"
    using assms by (auto simp: timersub_def Let_def tv_ok_def tv_us_def)
  let ?m = "tv_sec ?d * 1000 + tv_usec ?d div 1000"
  have m: "(tv_us a - tv_us b) div 1000 = ?m"
  proof -
    have "(x * 1000000 + y) div 1000 = x * 1000 + y div 1000" for x y :: int
      using div_mult_self1 [of 1000 y "x * 1000"] by (simp add: algebra_simps)
    then show ?thesis using d by (metis tv_us_def)
  qed
  have "tv_usec ?d div 1000 < 1000" "0 \<le> tv_usec ?d div 1000" using u by auto
  with s have r: "0 \<le> ?m" "?m < 2 ^ 64" by auto
  have "uint (word_of_int ?m :: 64 word) = ?m" using r by (rule uint_word64)
  moreover from this have "(word_of_int ?m :: 64 word) = 0 \<longleftrightarrow> ?m = 0" by (metis uint_0_eq unsigned_0 word_of_int_0)
  ultimately show ?thesis using u r unfolding tv2ms_def Let_def elapsed_ms_def m by auto
qed

subsection \<open>Properties\<close>

lemma div_less_iff_mult:
  fixes a m n :: int
  assumes "0 < m"
  shows "a div m < n \<longleftrightarrow> a < n * m"
proof
  assume "a div m < n"
  then have "(a div m) * m \<le> (n - 1) * m" using assms by (intro mult_right_mono) auto
  moreover have "a mod m < m" using assms by simp
  ultimately show "a < n * m" using div_mult_mod_eq [of a m]
    by (simp only: left_diff_distrib)
next
  assume *: "a < n * m"
  show "a div m < n"
  proof (rule ccontr)
    assume "\<not> a div m < n"
    then have "n * m \<le> (a div m) * m" using assms by (intro mult_right_mono) auto
    moreover have "0 \<le> a mod m" using assms by simp
    ultimately show False using * div_mult_mod_eq [of a m] by linarith
  qed
qed

text \<open>The decision of \<open>shaper_avail\<close> in terms of numbers.\<close>

lemma shaper_avail_accepts:
  assumes "tv_ok (sh_clock st)" and "tv_ok (last_time st)" and "tv_us (last_time st) \<le> tv_us (sh_clock st)"
    and "uint (sh_bytes st) * 1000 < 2 ^ 64"
  shows "fst (shaper_avail st) = 1 \<longleftrightarrow>
    uint (sh_bytes st) * 1000 < (uint (max_speed st) + 1) * elapsed_ms (sh_clock st) (last_time st)"
proof -
  let ?ms = "elapsed_ms (sh_clock st) (last_time st)"
  let ?speed = "sh_bytes st * 1000 div tv2ms (timersub (sh_clock st) (last_time st))"
  have pos: "0 < ?ms" by (simp add: elapsed_ms_def)
  have "uint (sh_bytes st * 1000) = uint (sh_bytes st) * 1000"
    using assms(4) by (simp add: uint_word_ariths)
  then have sp: "uint ?speed = uint (sh_bytes st) * 1000 div ?ms"
    using tv2ms_timersub [OF assms(1-3)] by (simp add: uint_div)
  have "fst (shaper_avail st) = 1 \<longleftrightarrow> \<not> max_speed st < ?speed"
    by (simp add: shaper_avail_def Let_def)
  also have "\<dots> \<longleftrightarrow> uint (sh_bytes st) * 1000 div ?ms \<le> uint (max_speed st)"
    unfolding word_less_def sp by auto
  also have "\<dots> \<longleftrightarrow> uint (sh_bytes st) * 1000 < (uint (max_speed st) + 1) * ?ms"
    using div_less_iff_mult [OF pos, of "uint (sh_bytes st) * 1000" "uint (max_speed st) + 1"]
    by (simp only: zle_add1_eq_le)
  finally show ?thesis .
qed

text \<open>The frames that went down since the counter was last 0, one after the other.\<close>

fun count_frames :: "int list \<Rightarrow> shaper \<Rightarrow> shaper option" where
  "count_frames [] st = Some st"
| "count_frames (l # ls) st =
     (case shaper_counter l [] st of None \<Rightarrow> None | Some (_, _, st') \<Rightarrow> count_frames ls st')"

lemma count_frames_sum:
  "count_frames ls st = Some (st\<lparr>sh_bytes := sh_bytes st + word_of_int (sum_list ls)\<rparr>)"
  by (induction ls arbitrary: st) (simp_all add: shaper_counter_def add.assoc)

text \<open>
  C20. What the shaper lets through stays under the limit: it accepts input exactly as long as the
  lengths of the frames counted since the last reset, per elapsed millisecond, are at most the
  configured speed. When it accepts in a second after the one the counting started in, it starts again
  there with a counter of 0; when it refuses, or in the same second, the count goes on. The clocks are
  valid and do not run backwards, and the count times 1000 fits 64 bits.
\<close>

theorem shaper_rate_limit:
  assumes "shaper_init h st0 = Some (0, st1)" and "0 \<le> spd_out h"
    and "count_frames ls (st1\<lparr>last_time := t0\<rparr>) = Some st2" and "st = st2\<lparr>sh_clock := t\<rparr>"
    and "tv_ok t" and "tv_ok t0" and "tv_us t0 \<le> tv_us t"
    and "0 \<le> sum_list ls" and "sum_list ls * 1000 < 2 ^ 64"
  shows "shaper_avail st =
     (if sum_list ls * 1000 < (spd_out h div 8 * 1024 + 401) * elapsed_ms t t0 then
        (1, if tv_sec t > tv_sec t0 then st\<lparr>curr_time := t, last_time := t, sh_bytes := 0\<rparr>
            else st\<lparr>curr_time := t\<rparr>)
      else (0, st\<lparr>curr_time := t\<rparr>))"
proof -
  have b0: "sh_bytes st1 = 0" using assms(1) by (auto simp: shaper_init_def Let_def split: if_splits)
  have st: "last_time st = t0" "sh_clock st = t" "max_speed st = max_speed st1"
    "sh_bytes st = word_of_int (sum_list ls)"
    using assms(3,4) b0 by (auto simp: count_frames_sum)
  have "uint (sh_bytes st) = sum_list ls" using st(4) uint_word64 [OF assms(8)] assms(9) by simp
  moreover have "max_speed st = word_of_int (spd_out h div 8 * 1024 + 400)" "spd_out h div 8 * 1024 < 2 ^ 31"
    using assms(1,2) st(3) by (auto simp: shaper_init_def Let_def split: if_splits)
  moreover have "0 \<le> spd_out h div 8" using assms(2) by simp
  ultimately have "fst (shaper_avail st) = 1
      \<longleftrightarrow> sum_list ls * 1000 < (spd_out h div 8 * 1024 + 401) * elapsed_ms t t0"
    using shaper_avail_accepts [of st] st assms(5-7,9) uint_word64 [of "spd_out h div 8 * 1024 + 400"]
    by (simp add: add.commute)
  moreover have "shaper_avail st =
     (if fst (shaper_avail st) = 1 then
        (1, if tv_sec t > tv_sec t0 then st\<lparr>curr_time := t, last_time := t, sh_bytes := 0\<rparr> else st\<lparr>curr_time := t\<rparr>)
      else (0, st\<lparr>curr_time := t\<rparr>))"
    using st by (simp add: shaper_avail_def Let_def)
  ultimately show ?thesis by simp
qed

lemma shaper_rate_limit_witness:
  "\<exists>st st'. shaper_init (default_host\<lparr>spd_out := 16\<rparr>)
        \<lparr>sh_bytes = 9, max_speed = 0, curr_time = \<lparr>tv_sec = 0, tv_usec = 0\<rparr>,
          last_time = \<lparr>tv_sec = 0, tv_usec = 0\<rparr>, sh_clock = \<lparr>tv_sec = 0, tv_usec = 0\<rparr>\<rparr> = Some (0, st)
    \<and> count_frames [1500, 1000] (st\<lparr>last_time := \<lparr>tv_sec = 10, tv_usec = 0\<rparr>\<rparr>) = Some st'
    \<and> sh_bytes st' = 2500
    \<and> shaper_avail (st'\<lparr>sh_clock := \<lparr>tv_sec = 11, tv_usec = 500000\<rparr>\<rparr>)
      = (1, st'\<lparr>sh_clock := \<lparr>tv_sec = 11, tv_usec = 500000\<rparr>, curr_time := \<lparr>tv_sec = 11, tv_usec = 500000\<rparr>,
           last_time := \<lparr>tv_sec = 11, tv_usec = 500000\<rparr>, sh_bytes := 0\<rparr>)"
proof -
  let ?h = "default_host\<lparr>spd_out := 16\<rparr>"
  let ?z = "\<lparr>tv_sec = 0, tv_usec = 0\<rparr>"
  let ?st0 = "\<lparr>sh_bytes = 9, max_speed = 0, curr_time = ?z, last_time = ?z, sh_clock = ?z\<rparr>"
  let ?st1 = "?st0\<lparr>max_speed := 2448, sh_bytes := 0\<rparr>"
  have i: "shaper_init ?h ?st0 = Some (0, ?st1)" by (simp add: shaper_init_def)
  let ?st2 = "?st1\<lparr>last_time := \<lparr>tv_sec = 10, tv_usec = 0\<rparr>, sh_bytes := 2500\<rparr>"
  have c: "count_frames [1500, 1000] (?st1\<lparr>last_time := \<lparr>tv_sec = 10, tv_usec = 0\<rparr>\<rparr>) = Some ?st2"
    by (simp add: shaper_counter_def)
  have "elapsed_ms \<lparr>tv_sec = 11, tv_usec = 500000\<rparr> \<lparr>tv_sec = 10, tv_usec = 0\<rparr> = 1500"
    by (simp add: elapsed_ms_def tv_us_def)
  with shaper_rate_limit [OF i _ c refl, of "\<lparr>tv_sec = 11, tv_usec = 500000\<rparr>"] i c show ?thesis
    by (intro exI [of _ ?st1] exI [of _ ?st2]) (simp add: tv_ok_def tv_us_def)
qed

text \<open>
  The shaper never refuses for good: once the counted bytes are spread over enough time, the
  next question is answered with yes, whatever was counted before.
\<close>

theorem shaper_reopens:
  assumes "tv_ok (last_time st)" and "uint (sh_bytes st) * 1000 < 2 ^ 64" and "tv_ok t"
    and "tv_us (last_time st) + uint (sh_bytes st) * 1000000 + 1000 \<le> tv_us t"
  shows "fst (shaper_avail (st\<lparr>sh_clock := t\<rparr>)) = 1"
proof -
  let ?ms = "elapsed_ms t (last_time st)"
  have "uint (sh_bytes st) * 1000 \<le> (tv_us t - tv_us (last_time st) - 1000) div 1000"
    using assms(4) by linarith
  then have ms: "uint (sh_bytes st) * 1000 < ?ms" unfolding elapsed_ms_def by linarith
  have "1 * ?ms \<le> (uint (max_speed st) + 1) * ?ms"
    by (intro mult_right_mono) (simp_all add: elapsed_ms_def)
  with ms have lt: "uint (sh_bytes st) * 1000 < (uint (max_speed st) + 1) * ?ms" by linarith
  have "tv_us (last_time st) \<le> tv_us t" using assms(4) uint_ge_0 [of "sh_bytes st"] by linarith
  with lt shaper_avail_accepts [of "st\<lparr>sh_clock := t\<rparr>"] assms(1-3) show ?thesis by simp
qed

lemma shaper_reopens_witness:
  "fst (shaper_avail (\<lparr>sh_bytes = 5000, max_speed = 400, curr_time = \<lparr>tv_sec = 0, tv_usec = 0\<rparr>,
     last_time = \<lparr>tv_sec = 10, tv_usec = 0\<rparr>, sh_clock = \<lparr>tv_sec = 10, tv_usec = 0\<rparr>\<rparr>
     \<lparr>sh_clock := \<lparr>tv_sec = 5011, tv_usec = 0\<rparr>\<rparr>)) = 1"
  by (rule shaper_reopens) (simp_all add: tv_ok_def tv_us_def)

end
