(* ===== verification/LfdCompress.thy ===== *)
theory LfdCompress
  imports LinkMods
begin

section \<open>The compressors (\<open>lfd_zlib.c\<close>, \<open>lfd_lzo.c\<close>)\<close>

text \<open>
  The streams of zlib and the compressors of LZO are not part of this program: a library record
  holds them as parameters. A call of \<open>deflate\<close> or \<open>inflate\<close> gets the stream, the input at hand
  and the space for output; it yields the error code, the number of bytes it consumed, the bytes
  it produced and the stream. What zlib and LZO document of these functions appears as named
  predicates (\<open>z_stream\<close>, \<open>lzo_pair\<close>) in the lemmas.
\<close>

type_synonym 'z z_fun = "'z \<Rightarrow> byte list \<Rightarrow> nat \<Rightarrow> int \<times> nat \<times> byte list \<times> 'z"

record 'z zlib_lib =
  deflateInit :: "int \<Rightarrow> int \<times> 'z"
  inflateInit :: "int \<times> 'z"
  deflate :: "'z z_fun"
  inflate :: "'z z_fun"

record 'z zlib =
  zd :: 'z
  zi :: 'z
  zbuf :: "byte list"
  zbuf_size :: nat

definition Z_OK :: int where [simp]: "Z_OK = 0"

subsection \<open>zlib\<close>

definition zlib_alloc :: "(nat \<Rightarrow> byte list option) \<Rightarrow> 'z zlib_lib \<Rightarrow> vtun_host \<Rightarrow> 'z zlib
    \<Rightarrow> (int \<times> 'z zlib) option" where
  "zlib_alloc malloc lib h st =
     (let lev = (if zlevel h \<noteq> 0 then zlevel h else 1);
          d = deflateInit lib lev; st1 = st\<lparr>zd := snd d\<rparr>
      in if fst d \<noteq> Z_OK then Some (1, st1)
         else (let i = inflateInit lib; st2 = st1\<lparr>zi := snd i\<rparr>
               in if fst i \<noteq> Z_OK then Some (1, st2)
                  else (case lfd_alloc malloc (zbuf_size st) of
                          None \<Rightarrow> Some (1, st2\<lparr>zbuf := []\<rparr>)
                        | Some b \<Rightarrow> Some (0, st2\<lparr>zbuf := b\<rparr>))))"

definition zlib_free :: "'z zlib \<Rightarrow> int \<times> 'z zlib" where
  "zlib_free st = (0, st\<lparr>zbuf := []\<rparr>)"

text \<open>Output lands in memory; writing past the block has no defined result.\<close>

definition write_at :: "nat \<Rightarrow> byte list \<Rightarrow> byte list \<Rightarrow> byte list option" where
  "write_at off out mem =
     (if length mem < off + length out then None
      else Some (take off mem @ out @ drop (off + length out) mem))"

text \<open>
  \<open>expand_zbuf\<close>: the output goes on at the old end of the buffer, with \<open>len\<close> bytes of room. The
  result is the memory, the output offset and the new size; NULL leaves \<open>zbuf\<close> NULL.
\<close>

definition expand_zbuf :: "(byte list \<Rightarrow> nat \<Rightarrow> byte list option) \<Rightarrow> byte list \<Rightarrow> nat \<Rightarrow> nat
    \<Rightarrow> (byte list \<times> nat \<times> nat) option" where
  "expand_zbuf realloc buf sz len =
     map_option (\<lambda>b. (b, sz, sz + len)) (lfd_realloc realloc buf (sz + len))"

text \<open>
  The loop of \<open>zlib_comp\<close> and \<open>zlib_decomp\<close>, which differ in the function they call only. It
  ends when the input is used up, on an error, or when the buffer cannot grow.
\<close>

partial_function (option) z_pump ::
    "'z z_fun \<Rightarrow> (byte list \<Rightarrow> nat \<Rightarrow> byte list option) \<Rightarrow> 'z \<Rightarrow> byte list \<Rightarrow> nat \<Rightarrow> nat \<Rightarrow> nat
      \<Rightarrow> byte list \<Rightarrow> nat \<Rightarrow> (int \<times> 'z \<times> byte list \<times> nat) option" where
  "z_pump f realloc z inp next_out avail_out olen buf sz =
     (let r = f z inp avail_out; err = fst r; k = fst (snd r); out = fst (snd (snd r));
          z' = snd (snd (snd r))
      in case write_at next_out out buf of
           None \<Rightarrow> None
         | Some buf' \<Rightarrow>
             (if err \<noteq> Z_OK then Some (- 1, z', buf', sz)
              else if k = length inp then Some (int (olen + length out), z', buf', sz)
              else (case expand_zbuf realloc buf' sz 100 of
                      None \<Rightarrow> Some (- 1, z', [], sz)
                    | Some e \<Rightarrow>
                        z_pump f realloc z' (drop k inp) (fst (snd e)) 100 (olen + length out)
                          (fst e) (snd (snd e)))))"

definition zlib_comp :: "(byte list \<Rightarrow> nat \<Rightarrow> byte list option) \<Rightarrow> 'z zlib_lib \<Rightarrow> 'z zlib coder" where
  "zlib_comp realloc lib len buf st =
     (if int (length buf) < len then None
      else map_option (\<lambda>(r, z, b, sz).
             (r, if r = - 1 then buf else b, st\<lparr>zd := z, zbuf := b, zbuf_size := sz\<rparr>))
        (z_pump (deflate lib) realloc (zd st) (take (nat len) buf) 0 (zbuf_size st) 0
          (zbuf st) (zbuf_size st)))"

definition zlib_decomp :: "(byte list \<Rightarrow> nat \<Rightarrow> byte list option) \<Rightarrow> 'z zlib_lib \<Rightarrow> 'z zlib coder" where
  "zlib_decomp realloc lib len buf st =
     (if int (length buf) < len then None
      else map_option (\<lambda>(r, z, b, sz).
             (r, if r = - 1 then buf else b, st\<lparr>zi := z, zbuf := b, zbuf_size := sz\<rparr>))
        (z_pump (inflate lib) realloc (zi st) (take (nat len) buf) 0 (zbuf_size st) 0
          (zbuf st) (zbuf_size st)))"

subsection \<open>LZO\<close>

type_synonym lzo_fun = "byte list \<Rightarrow> int \<times> byte list"

record lzo_lib =
  lzo_init :: int
  lzo1x_999_compress :: lzo_fun
  lzo1x_1_15_compress :: lzo_fun
  lzo1x_decompress :: lzo_fun
  lzo_malloc :: bool

record lzo =
  lz_compress :: lzo_fun
  lz_buf :: "byte list"

definition lzo_buf_size :: nat where
  "lzo_buf_size = VTUN_FRAME_SIZE * VTUN_FRAME_SIZE div 64 + 16 + 3"

definition alloc_lzo :: "(nat \<Rightarrow> byte list option) \<Rightarrow> lzo_lib \<Rightarrow> vtun_host \<Rightarrow> lzo \<Rightarrow> (int \<times> lzo) option" where
  "alloc_lzo malloc lib h st =
     (let lev = (if zlevel h \<noteq> 0 then zlevel h else 1);
          st1 = st\<lparr>lz_compress := if lev = 9 then lzo1x_999_compress lib else lzo1x_1_15_compress lib\<rparr>
      in if lzo_init lib \<noteq> 0 then Some (1, st1)
         else (case lfd_alloc malloc lzo_buf_size of
                 None \<Rightarrow> Some (1, st1\<lparr>lz_buf := []\<rparr>)
               | Some b \<Rightarrow>
                   if lzo_malloc lib then Some (0, st1\<lparr>lz_buf := b\<rparr>)
                   else Some (1, st1\<lparr>lz_buf := b\<rparr>)))"

definition free_lzo :: "lzo \<Rightarrow> int \<times> lzo" where
  "free_lzo st = (0, st\<lparr>lz_buf := []\<rparr>)"

text \<open>The LZO functions get no bound for their output: it must fit the buffer by itself.\<close>

definition lzo_run :: "lzo_fun \<Rightarrow> lzo coder" where
  "lzo_run f len buf st =
     (if int (length buf) < len then None
      else (let r = f (take (nat len) buf)
            in case write_at 0 (snd r) (lz_buf st) of
                 None \<Rightarrow> None
               | Some b \<Rightarrow>
                   if fst r \<noteq> 0 then Some (- 1, buf, st\<lparr>lz_buf := b\<rparr>)
                   else Some (int (length (snd r)), b, st\<lparr>lz_buf := b\<rparr>)))"

definition comp_lzo :: "lzo coder" where
  "comp_lzo len buf st = lzo_run (lz_compress st) len buf st"

definition decomp_lzo :: "lzo_lib \<Rightarrow> lzo coder" where
  "decomp_lzo lib len buf st = lzo_run (lzo1x_decompress lib) len buf st"

subsection \<open>What the libraries promise\<close>

text \<open>
  Two zlib streams in step (\<open>R\<close>): given room for the input and 200 bytes more, one \<open>deflate\<close> with
  \<open>Z_SYNC_FLUSH\<close> uses up a frame of at most \<open>VTUN_FRAME_SIZE\<close> bytes and makes it at most 32 bytes longer
  (\<open>compressBound\<close> of 2048 bytes is 2061, the marker of the flush has five more), and one \<open>inflate\<close> of
  the result, given room for more than the frame, gives the frame back.
\<close>

definition z_stream :: "'z zlib_lib \<Rightarrow> ('z \<Rightarrow> 'z \<Rightarrow> bool) \<Rightarrow> bool" where
  "z_stream lib R = (\<forall>d i inp room. R d i \<longrightarrow> inp \<noteq> [] \<longrightarrow> length inp \<le> VTUN_FRAME_SIZE
     \<longrightarrow> length inp + 200 \<le> room \<longrightarrow>
     (\<exists>out d'. deflate lib d inp room = (Z_OK, length inp, out, d')
        \<and> out \<noteq> [] \<and> length out \<le> length inp + 32
        \<and> (\<forall>room'. length inp < room' \<longrightarrow>
             (\<exists>i'. inflate lib i out room' = (Z_OK, length out, inp, i') \<and> R d' i'))))"

definition zlib_sync :: "'z zlib_lib \<Rightarrow> ('z \<Rightarrow> 'z \<Rightarrow> bool) \<Rightarrow> 'z zlib \<Rightarrow> 'z zlib \<Rightarrow> bool" where
  "zlib_sync lib R v w = (z_stream lib R \<and> R (zd v) (zi w)
     \<and> 2248 \<le> zbuf_size v \<and> 2264 \<le> length (zbuf v) \<and> zbuf_size v \<le> length (zbuf v)
     \<and> 2248 \<le> zbuf_size w \<and> zbuf_size w \<le> length (zbuf w))"

lemma z_pump_once:
  assumes "f z inp avail = (Z_OK, length inp, out, z')" and "length out \<le> length buf"
  shows "z_pump f realloc z inp 0 avail 0 buf sz
    = Some (int (length out), z', out @ drop (length out) buf, sz)"
  using assms by (subst z_pump.simps) (simp add: write_at_def)

lemma zlib_carries:
  assumes s: "zlib_sync lib R v w" and len: "0 < len" "len \<le> 2048" "len + 16 \<le> int (length buf)"
  shows "carries (zlib_sync lib R) (zlib_comp realloc lib) (zlib_decomp realloc lib) 32 len buf v w"
proof -
  define inp where "inp = take (nat len) buf"
  have li: "length inp = nat len" using len by (simp add: inp_def)
  then have "inp \<noteq> []" "length inp \<le> VTUN_FRAME_SIZE" "length inp + 200 \<le> zbuf_size v"
    using s len by (auto simp: zlib_sync_def)
  with s obtain out d' where d: "deflate lib (zd v) inp (zbuf_size v) = (Z_OK, length inp, out, d')"
    and out: "out \<noteq> []" "length out \<le> length inp + 32"
    and i: "\<And>room'. length inp < room' \<Longrightarrow>
        \<exists>i'. inflate lib (zi w) out room' = (Z_OK, length out, inp, i') \<and> R d' i'"
    unfolding zlib_sync_def z_stream_def by blast
  have lo: "length out \<le> 2080" using out(2) li len by simp
  let ?mem = "out @ drop (length out) (zbuf v)"
  let ?v = "v\<lparr>zd := d', zbuf := ?mem, zbuf_size := zbuf_size v\<rparr>"
  have lv: "length ?mem = length (zbuf v)" "2264 \<le> length (zbuf v)"
    using s lo by (auto simp: zlib_sync_def)
  have e: "zlib_comp realloc lib len buf v = Some (int (length out), ?mem, ?v)"
    using z_pump_once [of "deflate lib" "zd v" inp "zbuf_size v" out d' "zbuf v" realloc "zbuf_size v"]
      d lo lv(2) len unfolding zlib_comp_def inp_def by simp
  have "\<exists>ret w'. zlib_decomp realloc lib (int (length out)) got w = Some (len, ret, w')
      \<and> take (nat len) ret = take (nat len) buf \<and> zlib_sync lib R ?v w'"
    if "take (nat (int (length out))) got = take (nat (int (length out))) ?mem" for got
  proof -
    from that have g: "take (length out) got = out" by simp
    then have lg: "length out \<le> length got" by (metis length_take min.cobounded1)
    have "length inp < zbuf_size w" using s li len by (auto simp: zlib_sync_def)
    from i [OF this] obtain i' where i': "inflate lib (zi w) out (zbuf_size w) = (Z_OK, length out, inp, i')"
      and R: "R d' i'" by blast
    let ?w = "w\<lparr>zi := i', zbuf := inp @ drop (length inp) (zbuf w), zbuf_size := zbuf_size w\<rparr>"
    have lw: "length inp \<le> length (zbuf w)" using s li len by (auto simp: zlib_sync_def)
    have "zlib_decomp realloc lib (int (length out)) got w
        = Some (int (length inp), inp @ drop (length inp) (zbuf w), ?w)"
      using z_pump_once [of "inflate lib" "zi w" out "zbuf_size w" inp i' "zbuf w" realloc "zbuf_size w"]
        i' lw lg unfolding zlib_decomp_def by (simp add: g)
    moreover have "zlib_sync lib R ?v ?w" using s R lv lw by (auto simp: zlib_sync_def)
    ultimately show ?thesis using li len by (auto simp: inp_def)
  qed
  moreover have "0 < int (length out)" "int (length out) \<le> len + 32" using out li len by simp_all
  moreover have "int (length out) + 16 \<le> int (length ?mem)" using lo lv by linarith
  ultimately show ?thesis unfolding carries_def e by blast
qed

text \<open>LZO: the documented worst case of the output, and decompression undoes compression.\<close>

definition lzo_pair :: "lzo_fun \<Rightarrow> lzo_fun \<Rightarrow> bool" where
  "lzo_pair c d = (\<forall>inp. inp \<noteq> [] \<longrightarrow> (\<exists>out. c inp = (0, out) \<and> out \<noteq> []
     \<and> length out \<le> length inp + length inp div 16 + 64 + 3 \<and> d out = (0, inp)))"

definition lzo_sync :: "lzo_lib \<Rightarrow> lzo \<Rightarrow> lzo \<Rightarrow> bool" where
  "lzo_sync lib v w = (lzo_pair (lz_compress v) (lzo1x_decompress lib)
     \<and> lzo_buf_size \<le> length (lz_buf v) \<and> lzo_buf_size \<le> length (lz_buf w))"

lemma lzo_carries:
  assumes s: "lzo_sync lib v w" and len: "0 < len" "len \<le> 2048" "len + 16 \<le> int (length buf)"
  shows "carries (lzo_sync lib) comp_lzo (decomp_lzo lib) 195 len buf v w"
proof -
  define inp where "inp = take (nat len) buf"
  have li: "length inp = nat len" using len by (simp add: inp_def)
  then have "inp \<noteq> []" using len by auto
  with s obtain out where c: "lz_compress v inp = (0, out)" and ne: "out \<noteq> []"
    and lo: "length out \<le> length inp + length inp div 16 + 64 + 3"
    and d: "lzo1x_decompress lib out = (0, inp)"
    unfolding lzo_sync_def lzo_pair_def by blast
  have lo': "length out \<le> nat len + 195" using lo li len by linarith
  have lb: "65555 \<le> length (lz_buf v)" "65555 \<le> length (lz_buf w)"
    using s by (simp_all add: lzo_sync_def lzo_buf_size_def)
  let ?mem = "out @ drop (length out) (lz_buf v)"
  let ?v = "v\<lparr>lz_buf := ?mem\<rparr>"
  have e: "comp_lzo len buf v = Some (int (length out), ?mem, ?v)"
    using c lb lo' len by (simp add: comp_lzo_def lzo_run_def write_at_def Let_def inp_def)
  have "\<exists>ret w'. decomp_lzo lib (int (length out)) got w = Some (len, ret, w')
      \<and> take (nat len) ret = take (nat len) buf \<and> lzo_sync lib ?v w'"
    if "take (nat (int (length out))) got = take (nat (int (length out))) ?mem" for got
  proof -
    from that have g: "take (length out) got = out" by simp
    then have lg: "length out \<le> length got" by (metis length_take min.cobounded1)
    let ?w = "w\<lparr>lz_buf := inp @ drop (length inp) (lz_buf w)\<rparr>"
    have "decomp_lzo lib (int (length out)) got w
        = Some (int (length inp), inp @ drop (length inp) (lz_buf w), ?w)"
      using d lb lg li len by (simp add: decomp_lzo_def lzo_run_def write_at_def Let_def g)
    moreover have "lzo_sync lib ?v ?w"
      using s lb li len lo' by (auto simp: lzo_sync_def lzo_buf_size_def)
    ultimately show ?thesis using li len by (auto simp: inp_def)
  qed
  moreover have "0 < int (length out)" "int (length out) \<le> len + 195" using ne lo' len by auto
  moreover have "int (length out) + 16 \<le> int (length ?mem)" using lb lo' len by auto
  ultimately show ?thesis unfolding carries_def e by blast
qed

subsection \<open>Properties\<close>

text \<open>
  What zlib documents of a call with input and room: it reads and writes only what it is given; it
  stops when the input is used up or the room is full; and success means that there was progress, of
  the input or of the output. What a stream still puts out for an input is bounded (\<open>deflateBound\<close>
  gives a bound for \<open>deflate\<close>; \<open>inflate\<close> yields at most 1032 bytes for one), and what a call puts out
  is part of that: \<open>left\<close> is such a bound.
\<close>

definition z_documented :: "'z z_fun \<Rightarrow> ('z \<Rightarrow> byte list \<Rightarrow> nat) \<Rightarrow> bool" where
  "z_documented f left = (\<forall>z inp room err k out z'. inp \<noteq> [] \<longrightarrow> 0 < room \<longrightarrow> f z inp room = (err, k, out, z') \<longrightarrow>
     length out \<le> room \<and> k \<le> length inp
     \<and> (err = Z_OK \<longrightarrow> (0 < k \<or> out \<noteq> []) \<and> (k < length inp \<longrightarrow> length out = room)
          \<and> left z' (drop k inp) + length out \<le> left z inp))"

text \<open>
  Calls one after the other, with the given rooms: all output in a row, the input that is left, and the
  stream. \<^const>\<open>None\<close> when a call reports an error.
\<close>

fun z_calls :: "'z z_fun \<Rightarrow> 'z \<Rightarrow> byte list \<Rightarrow> nat list \<Rightarrow> (byte list \<times> byte list \<times> 'z) option" where
  "z_calls f z inp [] = Some ([], inp, z)"
| "z_calls f z inp (n # ns) =
     (case f z inp n of
        (err, k, out, z') \<Rightarrow>
          if err \<noteq> Z_OK then None
          else map_option (\<lambda>(out', rest, z2). (out @ out', rest, z2)) (z_calls f z' (drop k inp) ns))"

lemma write_at_end:
  assumes "off + length out \<le> length mem"
  shows "\<exists>b. write_at off out mem = Some b \<and> length b = length mem
    \<and> take (off + length out) b = take off mem @ out"
  using assms by (simp add: write_at_def)

lemma lfd_realloc_keeps:
  assumes "realloc_ok realloc" and "lfd_realloc realloc b n = Some c" and "m \<le> n" and "m \<le> length b"
  shows "take m c = take m b"
proof -
  from assms(2) obtain d where d: "realloc (replicate 128 0 @ b) (n + 128) = Some d" "c = drop 128 d"
    by (auto simp: lfd_realloc_def)
  with assms(1) have "take (128 + length b) d = take (n + 128) (replicate 128 0 @ b)"
    by (fastforce simp: realloc_ok_def)
  then have "take (128 + m) (take (128 + length b) d) = take (128 + m) (take (n + 128) (replicate 128 0 @ b))" by simp
  then have "take (128 + m) d = take (128 + m) (replicate 128 0 @ b)" using assms(3,4) by (simp add: min_def)
  then have "drop 128 (take (128 + m) d) = take m b" by simp
  then show ?thesis using d(2) by (simp add: drop_take)
qed

text \<open>One loop of the invariant: the output so far lies at the start of the buffer, and the room behind it.\<close>

lemma z_pump_result:
  assumes f: "z_documented f left" and re: "realloc_ok realloc"
  shows "inp \<noteq> [] \<Longrightarrow> 0 < room \<Longrightarrow> off + room \<le> length buf \<Longrightarrow>
    \<exists>r z' b sz'. z_pump f realloc z inp off room off buf (off + room) = Some (r, z', b, sz')
      \<and> sz' \<le> max (off + room) (off + left z inp + 100)
      \<and> (r \<noteq> - 1 \<longrightarrow> (\<exists>n out. z_calls f z inp (room # replicate n 100) = Some (out, [], z')
           \<and> sz' = off + room + 100 * n \<and> r = int (off + length out) \<and> length out \<le> left z inp
           \<and> take (nat r) b = take off buf @ out))"
proof (induction "left z inp" arbitrary: z inp off room buf rule: less_induct)
  case less
  obtain err k out z' where r: "f z inp room = (err, k, out, z')" by (metis prod_cases4)
  from f less.prems(1,2) r have o: "length out \<le> room" and k: "k \<le> length inp"
    and ok: "err = Z_OK \<Longrightarrow> (k < length inp \<longrightarrow> length out = room) \<and> left z' (drop k inp) + length out \<le> left z inp"
    unfolding z_documented_def by blast+
  have "off + length out \<le> length buf" using o less.prems by simp
  then obtain b where w: "write_at off out buf = Some b" "length b = length buf"
    "take (off + length out) b = take off buf @ out" using write_at_end by blast
  consider (err) "err \<noteq> Z_OK" | (all) "err = Z_OK" "k = length inp" | (more) "err = Z_OK" "k < length inp"
    using k by fastforce
  then show ?case
  proof cases
    case err
    then show ?thesis using r w by (subst z_pump.simps) (simp add: Let_def)
  next
    case all
    then have "z_calls f z inp (room # replicate 0 100) = Some (out, [], z')" using r by simp
    moreover have "length out \<le> left z inp" using ok all by simp
    moreover have "nat (int off + int (length out)) = off + length out" by simp
    moreover have "z_pump f realloc z inp off room off buf (off + room)
        = Some (int (off + length out), z', b, off + room)"
      using all r w by (subst z_pump.simps) (simp add: Let_def)
    ultimately show ?thesis using w(3)
      by (intro exI [of _ "int (off + length out)"] exI [of _ z'] exI [of _ b] exI [of _ "off + room"] conjI impI
          exI [of _ 0] exI [of _ out]) simp_all
  next
    case more
    then have len: "length out = room" "left z' (drop k inp) + room \<le> left z inp" using ok by auto
    show ?thesis
    proof (cases "lfd_realloc realloc b (off + room + 100)")
      case None
      then show ?thesis using more r w by (subst z_pump.simps) (simp add: Let_def expand_zbuf_def)
    next
      case (Some c)
      have c: "length c = off + room + 100" by (rule lfd_realloc_length [OF re Some])
      have "take (off + room) c = take (off + room) b"
        by (rule lfd_realloc_keeps [OF re Some]) (use w(2) less.prems in simp_all)
      then have tc: "take (off + room) c = take off buf @ out" using w(3) len by simp
      have e: "z_pump f realloc z inp off room off buf (off + room)
          = z_pump f realloc z' (drop k inp) (off + room) 100 (off + room) c (off + room + 100)"
        using more r w(1) len(1) Some by (subst z_pump.simps) (simp add: Let_def expand_zbuf_def)
      have "left z' (drop k inp) < left z inp" using len less.prems(2) by linarith
      moreover have "drop k inp \<noteq> []" using more by simp
      ultimately have "\<exists>r z2 b sz'. z_pump f realloc z' (drop k inp) (off + room) 100 (off + room) c (off + room + 100)
            = Some (r, z2, b, sz')
          \<and> sz' \<le> max (off + room + 100) (off + room + left z' (drop k inp) + 100)
          \<and> (r \<noteq> - 1 \<longrightarrow> (\<exists>n out'. z_calls f z' (drop k inp) (100 # replicate n 100) = Some (out', [], z2)
               \<and> sz' = off + room + 100 + 100 * n \<and> r = int (off + room + length out')
               \<and> length out' \<le> left z' (drop k inp)
               \<and> take (nat r) b = take (off + room) c @ out'))"
        using less.hyps [of z' "drop k inp" 100 "off + room" c] c by auto
      then obtain x z2 b2 sz' where i:
        "z_pump f realloc z' (drop k inp) (off + room) 100 (off + room) c (off + room + 100) = Some (x, z2, b2, sz')"
        "sz' \<le> max (off + room + 100) (off + room + left z' (drop k inp) + 100)"
        "x \<noteq> - 1 \<longrightarrow> (\<exists>n out'. z_calls f z' (drop k inp) (100 # replicate n 100) = Some (out', [], z2)
               \<and> sz' = off + room + 100 + 100 * n \<and> x = int (off + room + length out')
               \<and> length out' \<le> left z' (drop k inp)
               \<and> take (nat x) b2 = take (off + room) c @ out')" by blast
      have "sz' \<le> max (off + room) (off + left z inp + 100)" using i(2) len(2) by linarith
      moreover have "\<exists>n out2. z_calls f z inp (room # replicate n 100) = Some (out2, [], z2)
           \<and> sz' = off + room + 100 * n \<and> x = int (off + length out2) \<and> length out2 \<le> left z inp
           \<and> take (nat x) b2 = take off buf @ out2" if "x \<noteq> - 1"
      proof -
        from i(3) that obtain n out' where n: "z_calls f z' (drop k inp) (100 # replicate n 100) = Some (out', [], z2)"
          "sz' = off + room + 100 + 100 * n" "x = int (off + room + length out')"
          "length out' \<le> left z' (drop k inp)" "take (nat x) b2 = take (off + room) c @ out'" by blast
        have "z_calls f z inp (room # replicate (Suc n) 100) = Some (out @ out', [], z2)" using r more n(1) by simp
        then show ?thesis using n(2-) len tc
          by (intro exI [of _ "Suc n"] exI [of _ "out @ out'"]) simp
      qed
      moreover have "z_pump f realloc z inp off room off buf (off + room) = Some (x, z2, b2, sz')" using e i(1) by simp
      ultimately show ?thesis
        by (intro exI [of _ x] exI [of _ z2] exI [of _ b2] exI [of _ sz'])
          (intro conjI impI; assumption?; blast)
    qed
  qed
qed

text \<open>
  C27. The loop of the compressor and of the decompressor comes to an end and writes inside its buffer, for
  every function that keeps to what zlib documents and whatever the data: it fails, or the input has been
  used up in calls one after the other, the output of which lies without a gap at the start of the buffer.
  The buffer grows by 100 bytes for each call after the first, and never beyond 100 bytes more than the
  output needs.
\<close>

theorem zlib_loop_returns:
  assumes "z_documented f left" and "realloc_ok realloc" and "inp \<noteq> []" and "0 < sz" and "sz \<le> length buf"
  shows "\<exists>r z' b sz'. z_pump f realloc z inp 0 sz 0 buf sz = Some (r, z', b, sz')
    \<and> sz' \<le> max sz (left z inp + 100)
    \<and> (r \<noteq> - 1 \<longrightarrow> (\<exists>n out. z_calls f z inp (sz # replicate n 100) = Some (out, [], z')
         \<and> sz' = sz + 100 * n \<and> r = int (length out) \<and> length out \<le> left z inp \<and> take (nat r) b = out))"
  using z_pump_result [OF assms(1,2), of inp sz 0 buf z] assms(3-) by simp

text \<open>A stream that copies its input, with three bytes of it and room for two.\<close>

definition ex_copy :: "nat z_fun" where
  "ex_copy z inp room = (Z_OK, min room (length inp), take room inp, Suc z)"

lemma zlib_loop_returns_witness:
  "\<exists>b n out. z_pump ex_copy (\<lambda>b n. Some (take n b @ replicate (n - length b) 0)) 0 [7, 8, 9] 0 2 0 [0, 0] 2
      = Some (3, 2, b, 102)
    \<and> z_calls ex_copy 0 [7, 8, 9] (2 # replicate n 100) = Some (out, [], 2)
    \<and> 102 = 2 + 100 * n \<and> 3 = length out \<and> take 3 b = out"
proof -
  let ?re = "\<lambda>b n. Some (take n b @ replicate (n - length b) (0 :: byte))"
  have d: "z_documented ex_copy (\<lambda>z inp. length inp)"
    by (auto simp: z_documented_def ex_copy_def min_def)
  have re: "realloc_ok ?re"
    by (auto simp: realloc_ok_def min_def)
  have "\<exists>b. z_pump ex_copy ?re 1 [9] 2 100 2 ([7, 8] @ replicate 100 0) 102 = Some (3, 2, b, 102)"
    by (subst z_pump.simps) (simp add: ex_copy_def write_at_def Let_def)
  moreover have "z_pump ex_copy ?re 0 [7, 8, 9] 0 2 0 [0, 0] 2
      = z_pump ex_copy ?re 1 [9] 2 100 2 ([7, 8] @ replicate 100 0) 102"
    by (subst z_pump.simps) (simp add: ex_copy_def write_at_def Let_def expand_zbuf_def lfd_realloc_def numeral_2_eq_2)
  ultimately show ?thesis
    using zlib_loop_returns [OF d re, of "[7, 8, 9]" 2 "[0, 0]" 0] by auto
qed

end
