(* ===== verification/LfdEncrypt.thy ===== *)
theory LfdEncrypt
  imports LinkMods
begin

section \<open>The encryptor (\<open>lfd_encrypt.c\<close>)\<close>

text \<open>
  Block ciphers of OpenSSL in ECB, CBC, CFB and OFB mode. The chained modes start with an
  in-band handshake: the first frame of a direction carries an initialisation vector, encrypted
  in ECB mode on a side band (\<open>CIPHER_INIT\<close>), all later ones a sequence block (\<open>CIPHER_SEQUENCE\<close>).
  A decoder that finds neither is out of sync and asks the peer to start over
  (\<open>CIPHER_REQ_INIT\<close>, the block \<open>rsyn\<close>).

  OpenSSL is a parameter: how contexts are made from algorithm, mode, key length, key and vector,
  the update function on contexts, and MD5. A context is \<^const>\<open>None\<close> before it is initialised
  and after \<open>EVP_CIPHER_CTX_cleanup\<close>; using it then has no defined result. Random bytes come from
  the stream \<open>e_rand\<close>, the time from \<open>e_now\<close>. The host is little endian, and \<open>lw\<close> is its
  \<open>sizeof(unsigned long)\<close>, 4 or 8.
\<close>

datatype cstate = CIPHER_INIT | CIPHER_CODE | CIPHER_SEQUENCE | CIPHER_REQ_INIT

datatype alg = AES_256 | AES_128 | BLOWFISH
datatype cmode = ECB | CBC | CFB | OFB

record 'c evp_lib =
  evp_enc_init :: "alg \<Rightarrow> cmode \<Rightarrow> nat option \<Rightarrow> byte list \<Rightarrow> byte list \<Rightarrow> 'c"
  evp_dec_init :: "alg \<Rightarrow> cmode \<Rightarrow> nat option \<Rightarrow> byte list \<Rightarrow> byte list \<Rightarrow> 'c"
  evp_update :: "'c \<Rightarrow> byte list \<Rightarrow> byte list \<times> 'c"
  md5 :: "string \<Rightarrow> byte list"

record 'c encst =
  send_a_packet :: bool
  enc_buf :: "byte list"
  dec_buf :: "byte list"
  gibberish :: int
  gib_time_start :: int
  cipher_enc_state :: cstate
  cipher_dec_state :: cstate
  e_cipher :: int
  blocksize :: nat
  keysize :: nat
  enc_init_first_time :: bool
  dec_init_first_time :: bool
  sequence_num :: "64 word"
  pkey :: "byte list"
  ctx_enc :: "'c option"
  ctx_dec :: "'c option"
  ctx_enc_ecb :: "'c option"
  ctx_dec_ecb :: "'c option"
  e_rand :: "nat \<Rightarrow> byte"
  e_now :: int

definition ENC_BUF_SIZE :: nat where [simp]: "ENC_BUF_SIZE = VTUN_FRAME_SIZE + 128"
definition MAX_GIBBERISH :: int where [simp]: "MAX_GIBBERISH = 10"
definition MIN_GIBBERISH :: int where [simp]: "MIN_GIBBERISH = 1"
definition MAX_GIBBERISH_TIME :: int where [simp]: "MAX_GIBBERISH_TIME = 2"

definition RAND_bytes :: "nat \<Rightarrow> 'c encst \<Rightarrow> byte list \<times> 'c encst" where
  "RAND_bytes n st = (map (e_rand st) [0..<n], st\<lparr>e_rand := \<lambda>i. e_rand st (i + n)\<rparr>)"

subsection \<open>Keys and setup\<close>

text \<open>\<open>prep_key\<close>: the second component is NULL for a size it does not know.\<close>

definition prep_key :: "bool \<Rightarrow> (string \<Rightarrow> byte list) \<Rightarrow> nat \<Rightarrow> string \<Rightarrow> int \<times> byte list option" where
  "prep_key mem_ok hash n pw =
     (if \<not> mem_ok then (- 1, None)
      else if n = 32 then
        (let half = length pw div 2 in (0, Some (hash (take half pw) @ hash (drop half pw))))
      else if n = 16 then (0, Some (hash pw))
      else (- 1, None))"

text \<open>The switch of \<open>alloc_encrypt\<close>: block size, key size, \<open>var_key\<close>, \<open>sb_init\<close>, algorithm.\<close>

definition cipher_params :: "int \<Rightarrow> nat \<times> nat \<times> bool \<times> bool \<times> alg" where
  "cipher_params c =
     (if c = 16 \<or> c = 15 \<or> c = 14 then (16, 32, False, True, AES_256)
      else if c = 13 then (16, 32, False, False, AES_256)
      else if c = 12 \<or> c = 11 \<or> c = 10 then (16, 16, False, True, AES_128)
      else if c = 9 then (16, 16, False, False, AES_128)
      else if c = 8 \<or> c = 7 \<or> c = 6 then (8, 32, True, True, BLOWFISH)
      else if c = 5 then (8, 32, True, False, BLOWFISH)
      else if c = 4 \<or> c = 3 \<or> c = 2 then (8, 16, True, True, BLOWFISH)
      else (8, 16, True, False, BLOWFISH))"

definition alloc_encrypt :: "(nat \<Rightarrow> byte list option) \<Rightarrow> bool \<Rightarrow> 'c evp_lib \<Rightarrow> vtun_host \<Rightarrow> 'c encst
    \<Rightarrow> (int \<times> 'c encst) option" where
  "alloc_encrypt malloc mem_ok lib h st0 =
     (let st1 = st0\<lparr>enc_init_first_time := True, dec_init_first_time := True\<rparr> in
      case lfd_alloc malloc ENC_BUF_SIZE of
        None \<Rightarrow> Some (- 1, st1\<lparr>enc_buf := []\<rparr>)
      | Some eb \<Rightarrow>
      (case lfd_alloc malloc ENC_BUF_SIZE of
        None \<Rightarrow> Some (- 1, st1\<lparr>enc_buf := eb, dec_buf := []\<rparr>)
      | Some db \<Rightarrow>
      (case vh_passwd h of
        None \<Rightarrow> None
      | Some pw \<Rightarrow>
        (let (r, st2) = RAND_bytes 4 (st1\<lparr>enc_buf := eb, dec_buf := db\<rparr>);
             (bs, ks, var_key, sb_init, alg) = cipher_params (cipher h);
             low = (\<Sum>i<4. push_bit (8 * i) (ucast (r ! i) :: 64 word));
             st3 = st2\<lparr>sequence_num := (sequence_num st2 AND NOT (mask 32)) OR low,
                       gibberish := 0, gib_time_start := 0, e_cipher := cipher h,
                       blocksize := bs, keysize := ks\<rparr>;
             (err, key) = prep_key mem_ok (md5 lib) ks pw
         in case key of
              None \<Rightarrow> Some (- 1, st3)
            | Some k \<Rightarrow>
              (let kl = (if var_key then Some ks else None);
                   e = Some (evp_enc_init lib alg ECB kl k []);
                   d = Some (evp_dec_init lib alg ECB kl k []);
                   st4 = st3\<lparr>pkey := k\<rparr>
               in if err \<noteq> 0 then Some (- 1, st4)
                  else if sb_init then
                    Some (0, st4\<lparr>ctx_enc_ecb := e, ctx_dec_ecb := d,
                       cipher_enc_state := CIPHER_INIT, cipher_dec_state := CIPHER_INIT\<rparr>)
                  else
                    Some (0, st4\<lparr>ctx_enc := e, ctx_dec := d,
                       cipher_enc_state := CIPHER_CODE, cipher_dec_state := CIPHER_CODE\<rparr>))))))"

definition free_encrypt :: "'c encst \<Rightarrow> int \<times> 'c encst" where
  "free_encrypt st = (0, st\<lparr>pkey := [], enc_buf := [], dec_buf := [], ctx_enc := None,
     ctx_dec := None, ctx_enc_ecb := None, ctx_dec_ecb := None\<rparr>)"

text \<open>The switch that \<open>cipher_enc_init\<close> and \<open>cipher_dec_init\<close> share: the chained modes only.\<close>

definition chained_cipher :: "int \<Rightarrow> (alg \<times> cmode \<times> bool) option" where
  "chained_cipher c =
     (if c = 16 then Some (AES_256, OFB, False) else if c = 15 then Some (AES_256, CFB, False)
      else if c = 14 then Some (AES_256, CBC, False)
      else if c = 12 then Some (AES_128, OFB, False) else if c = 11 then Some (AES_128, CFB, False)
      else if c = 10 then Some (AES_128, CBC, False)
      else if c = 8 then Some (BLOWFISH, OFB, True) else if c = 7 then Some (BLOWFISH, CFB, True)
      else if c = 6 then Some (BLOWFISH, CBC, True)
      else if c = 4 then Some (BLOWFISH, OFB, True) else if c = 3 then Some (BLOWFISH, CFB, True)
      else if c = 2 then Some (BLOWFISH, CBC, True)
      else None)"

definition cipher_enc_init :: "'c evp_lib \<Rightarrow> byte list \<Rightarrow> 'c encst \<Rightarrow> int \<times> 'c encst" where
  "cipher_enc_init lib iv st =
     (case chained_cipher (e_cipher st) of
        None \<Rightarrow> (- 1, st)
      | Some (alg, mode, var_key) \<Rightarrow>
          (0, st\<lparr>ctx_enc := Some (evp_enc_init lib alg mode
                    (if var_key then Some (keysize st) else None) (pkey st) iv),
                 enc_init_first_time := False\<rparr>))"

definition cipher_dec_init :: "'c evp_lib \<Rightarrow> byte list \<Rightarrow> 'c encst \<Rightarrow> int \<times> 'c encst" where
  "cipher_dec_init lib iv st =
     (case chained_cipher (e_cipher st) of
        None \<Rightarrow> (- 1, st)
      | Some (alg, mode, var_key) \<Rightarrow>
          (0, st\<lparr>ctx_dec := Some (evp_dec_init lib alg mode
                    (if var_key then Some (keysize st) else None) (pkey st) iv),
                 dec_init_first_time := False\<rparr>))"

subsection \<open>Sending\<close>

definition tag :: "string \<Rightarrow> byte list" where
  "tag t = map of_char t"

text \<open>A call of \<open>EVP_EncryptUpdate\<close> or \<open>EVP_DecryptUpdate\<close> on a context that may be clean.\<close>

definition evp_call :: "'c evp_lib \<Rightarrow> 'c option \<Rightarrow> byte list \<Rightarrow> (byte list \<times> 'c) option" where
  "evp_call lib ctx bs = map_option (\<lambda>c. evp_update lib c bs) ctx"

text \<open>
  \<open>send_msg\<close>. The result is the memory from \<open>*out\<close> on and the message length. In state
  \<open>CIPHER_INIT\<close> the \<open>2 * blocksize\<close> bytes in front of the frame become \<open>ivec\<close>, the vector and
  random bytes, encrypted in place.
\<close>

definition send_msg :: "'c evp_lib \<Rightarrow> byte list \<Rightarrow> 'c encst \<Rightarrow> (byte list \<times> nat \<times> 'c encst) option" where
  "send_msg lib buf st =
     (case cipher_enc_state st of
        CIPHER_INIT \<Rightarrow>
          (let (iv, st1) = RAND_bytes (blocksize st) st;
               st2 = snd (cipher_enc_init lib iv st1);
               (rnd, st3) = RAND_bytes (blocksize st - 4) st2;
               plain = tag ''ivec'' @ iv @ rnd
           in case evp_call lib (ctx_enc_ecb st3) plain of
                None \<Rightarrow> None
              | Some (out, c) \<Rightarrow>
                  Some ((out @ drop (length out) plain) @ buf, length out,
                    st3\<lparr>ctx_enc_ecb := Some c, cipher_enc_state := CIPHER_SEQUENCE\<rparr>))
      | _ \<Rightarrow> Some (buf, 0, st))"

text \<open>\<open>*((unsigned long *)p) = htonl(n)\<close>: \<open>lw\<close> bytes, of which \<open>htonl\<close> fills the first four.\<close>

definition htonl_store :: "nat \<Rightarrow> 64 word \<Rightarrow> byte list" where
  "htonl_store lw n =
     [ucast (drop_bit 24 n), ucast (drop_bit 16 n), ucast (drop_bit 8 n), ucast n]
       @ replicate (lw - 4) 0"

text \<open>The in-band block in front of the frame, with the store that follows it.\<close>

definition ib_block :: "nat \<Rightarrow> nat \<Rightarrow> string \<Rightarrow> 64 word \<Rightarrow> byte list \<Rightarrow> byte list option" where
  "ib_block lw bs t n frame =
     (let mem = (tag t @ replicate (bs - 4) 0) @ frame
      in if length mem < 4 + lw then None
         else Some (take 4 mem @ htonl_store lw n @ drop (4 + lw) mem))"

definition send_ib_mesg :: "nat \<Rightarrow> int \<Rightarrow> byte list \<Rightarrow> 'c encst
    \<Rightarrow> (int \<times> byte list \<times> 'c encst) option" where
  "send_ib_mesg lw len mem st =
     (case cipher_enc_state st of
        CIPHER_SEQUENCE \<Rightarrow>
          map_option (\<lambda>m. (len + int (blocksize st), m, st))
            (ib_block lw (blocksize st) ''seq#'' (sequence_num st) mem)
      | CIPHER_REQ_INIT \<Rightarrow>
          map_option (\<lambda>m. (len + int (blocksize st), m,
              st\<lparr>cipher_enc_state := CIPHER_SEQUENCE, send_a_packet := True\<rparr>))
            (ib_block lw (blocksize st) ''rsyn'' (sequence_num st) mem)
      | _ \<Rightarrow> Some (len, mem, st))"

text \<open>The padding: its length in every byte, except that a whole block is random but for its last.\<close>

definition pad_frame :: "nat \<Rightarrow> byte list \<Rightarrow> 'c encst \<Rightarrow> (byte list \<times> 'c encst) option" where
  "pad_frame len mem st =
     (let bs = blocksize st;
          pad = bs - nat (int len AND (int bs - 1));
          padded = take len mem @ replicate pad (word_of_nat pad)
      in if length mem < len + pad then None
         else if pad = bs then
           (let (r, st') = RAND_bytes (bs - 1) st
            in Some (take len mem @ r @ [word_of_nat pad], st'))
         else Some (padded, st))"

text \<open>\<open>encrypt_buf\<close> after \<open>send_msg\<close>: the message and the memory at the frame are given.\<close>

definition encrypt_rest :: "nat \<Rightarrow> 'c evp_lib \<Rightarrow> int \<Rightarrow> byte list \<Rightarrow> byte list \<Rightarrow> 'c encst
    \<Rightarrow> (int \<times> byte list \<times> 'c encst) option" where
  "encrypt_rest lw lib len msg mem0 st1 =
     (case send_ib_mesg lw len mem0 st1 of
        None \<Rightarrow> None
      | Some (len2, mem, st2) \<Rightarrow>
     if len2 = 0 then Some (0, msg @ mem0, st2) else
     (case pad_frame (nat len2) mem st2 of
        None \<Rightarrow> None
      | Some (plain, st3) \<Rightarrow>
     (case evp_call lib (ctx_enc st3) plain of
        None \<Rightarrow> None
      | Some (out, c) \<Rightarrow>
          (let res = msg @ out
           in if length (enc_buf st3) < length res then None
              else (let b = res @ drop (length res) (enc_buf st3)
                    in Some (int (length out) + int (length msg), b,
                         st3\<lparr>ctx_enc := Some c, enc_buf := b,
                            sequence_num := sequence_num st3 + 1\<rparr>))))))"

definition encrypt_buf :: "nat \<Rightarrow> 'c evp_lib \<Rightarrow> 'c encst coder" where
  "encrypt_buf lw lib len buf st =
     (case send_msg lib buf st of
        None \<Rightarrow> None
      | Some (whole, msg_len, st1) \<Rightarrow>
          encrypt_rest lw lib len (take msg_len whole) (drop msg_len whole) st1)"

subsection \<open>Receiving\<close>

text \<open>
  \<open>recv_msg\<close>: the new length, the memory from \<open>*out\<close> on, the state. In state \<open>CIPHER_INIT\<close> the
  first \<open>2 * blocksize\<close> bytes are decrypted in place (whatever \<open>len\<close> is) and erased.
\<close>

definition recv_gibberish :: "'c encst \<Rightarrow> 'c encst" where
  "recv_gibberish st0 =
     (let st1 = st0\<lparr>gibberish := gibberish st0 + 1\<rparr>;
          st2 = (if gibberish st1 = 1 then st1\<lparr>gib_time_start := e_now st1\<rparr> else st1);
          st3 = (if gibberish st2 = MIN_GIBBERISH
                 then st2\<lparr>cipher_enc_state := CIPHER_REQ_INIT, send_a_packet := True\<rparr> else st2)
      in if gibberish st3 \<ge> MAX_GIBBERISH \<or> e_now st3 - gib_time_start st3 \<ge> MAX_GIBBERISH_TIME
         then (let st4 = st3\<lparr>gibberish := 0, gib_time_start := 0, send_a_packet := True\<rparr>
               in if cipher_enc_state st4 \<noteq> CIPHER_INIT
                  then st4\<lparr>cipher_enc_state := CIPHER_INIT, ctx_enc := None\<rparr> else st4)
         else st3)"

definition recv_msg :: "'c evp_lib \<Rightarrow> int \<Rightarrow> byte list \<Rightarrow> 'c encst
    \<Rightarrow> (int \<times> byte list \<times> 'c encst) option" where
  "recv_msg lib len buf st =
     (case cipher_dec_state st of
        CIPHER_INIT \<Rightarrow>
          (let n = 2 * blocksize st; hd = take n buf
           in if length buf < n then None
              else (case evp_call lib (ctx_dec_ecb st) hd of
                      None \<Rightarrow> None
                    | Some (out, c) \<Rightarrow>
                        (let region = out @ drop (length out) hd;
                             st1 = st\<lparr>ctx_dec_ecb := Some c\<rparr>
                         in if take 4 region = tag ''ivec'' then
                              (let st2 = snd (cipher_dec_init lib
                                     (take (blocksize st) (drop 4 region)) st1)
                               in Some (len - int n, drop n buf,
                                    st2\<lparr>cipher_dec_state := CIPHER_SEQUENCE, gibberish := 0,
                                       gib_time_start := 0\<rparr>))
                            else Some (0, replicate n 0 @ drop n buf, recv_gibberish st1))))
      | _ \<Rightarrow> Some (len, buf, st))"

text \<open>\<open>recv_ib_mesg\<close>: the new length and how far \<open>*in\<close> moves.\<close>

definition recv_ib_mesg :: "int \<Rightarrow> byte list \<Rightarrow> 'c encst \<Rightarrow> int \<times> nat \<times> 'c encst" where
  "recv_ib_mesg len mem st =
     (if cipher_dec_state st = CIPHER_SEQUENCE then
        (if take 4 mem = tag ''seq#'' then (len - int (blocksize st), blocksize st, st)
         else if take 4 mem = tag ''rsyn'' then
           (len - int (blocksize st), blocksize st,
            if cipher_enc_state st \<noteq> CIPHER_INIT
            then st\<lparr>cipher_enc_state := CIPHER_INIT, ctx_enc := None\<rparr> else st)
         else
           (0, 0,
            if cipher_enc_state st \<noteq> CIPHER_REQ_INIT \<and> cipher_enc_state st \<noteq> CIPHER_INIT
            then st\<lparr>ctx_dec := None, cipher_dec_state := CIPHER_INIT,
                    cipher_enc_state := CIPHER_REQ_INIT\<rparr> else st))
      else (len, 0, st))"

definition decrypt_rest :: "'c evp_lib \<Rightarrow> 'c encst coder" where
  "decrypt_rest lib len buf st =
     (if len = 0 then Some (0, buf, st)
     else if len < 0 \<or> int (length buf) < len then None
     else
     (case evp_call lib (ctx_dec st) (take (nat len) buf) of
        None \<Rightarrow> None
      | Some (out, c) \<Rightarrow>
     if length (dec_buf st) < length out then None else
     (let mem = out @ drop (length out) (dec_buf st);
          st1 = st\<lparr>ctx_dec := Some c, dec_buf := mem\<rparr>;
          (outlen, off, st2) = recv_ib_mesg (int (length out)) mem st1
      in if outlen = 0 then Some (0, buf, st2)
         else if int off + outlen \<le> 0 then None
         else
           (let pad = sint (mem ! nat (int off + outlen - 1))
            in if pad < 1 \<or> pad > int (blocksize st2) then Some (0, buf, st2)
               else Some (outlen - pad, drop off mem, st2)))))"

definition decrypt_buf :: "'c evp_lib \<Rightarrow> 'c encst coder" where
  "decrypt_buf lib len buf st =
     (case recv_msg lib len buf st of
        None \<Rightarrow> None
      | Some (len1, buf1, st1) \<Rightarrow> decrypt_rest lib len1 buf1 st1)"

subsection \<open>Sending, step by step\<close>

lemma length_tag [simp]: "length (tag t) = length t"
  by (simp add: tag_def)

definition lw_ok :: "nat \<Rightarrow> nat \<Rightarrow> bool" where
  "lw_ok lw bs = (4 \<le> lw \<and> 4 + lw \<le> bs)"

lemma ib_block_ok:
  assumes "lw_ok lw bs" and "length t = 4"
  shows "\<exists>blk. ib_block lw bs t n frame = Some (blk @ frame) \<and> length blk = bs \<and> take 4 blk = tag t"
proof -
  let ?blk = "tag t @ htonl_store lw n @ replicate (bs - (4 + lw)) 0"
  have l: "length (htonl_store lw n) = lw" using assms(1) unfolding htonl_store_def lw_ok_def by simp linarith
  have "ib_block lw bs t n frame = Some (?blk @ frame)"
    using assms by (simp add: ib_block_def lw_ok_def)
  moreover have "length ?blk = bs" using assms l by (simp add: lw_ok_def)
  ultimately show ?thesis using assms(2) by (intro exI [of _ ?blk]) simp
qed

lemma and_block: "b = 8 \<or> b = 16 \<Longrightarrow> nat (int n AND (int b - 1)) = n mod b"
proof -
  have "int n AND 7 = int (n mod 8)" "int n AND 15 = int (n mod 16)"
    using take_bit_eq_mask [of 3 "int n"] take_bit_eq_mask [of 4 "int n"]
    by (simp_all add: take_bit_eq_mod mask_eq_exp_minus_1 of_nat_mod)
  then show "b = 8 \<or> b = 16 \<Longrightarrow> nat (int n AND (int b - 1)) = n mod b"
    by (elim disjE) (simp_all add: nat_mod_distrib)
qed

lemma pad_frame_ok:
  assumes bs: "blocksize st = 8 \<or> blocksize st = 16" and room: "n + blocksize st \<le> length mem"
  shows "\<exists>tl r. pad_frame n mem st = Some (take n mem @ tl, st\<lparr>e_rand := r\<rparr>)
    \<and> 1 \<le> length tl \<and> length tl \<le> blocksize st \<and> blocksize st dvd n + length tl
    \<and> last tl = word_of_nat (length tl)"
proof -
  let ?b = "blocksize st" and ?p = "blocksize st - n mod blocksize st"
  have p: "1 \<le> ?p" "?p \<le> ?b" using bs by (auto simp: Suc_le_eq)
  have "n mod ?b + ?p = ?b" using bs by (auto simp: le_add_diff_inverse)
  then have "n + ?p = n div ?b * ?b + ?b" using div_mult_mod_eq [of n ?b] by linarith
  then have d: "?b dvd n + ?p" by (metis dvd_add dvd_refl dvd_triv_right)
  have nm: "\<not> length mem < n + ?p" using room p(2) by simp
  have pf: "pad_frame n mem st = (if ?p = ?b then
      (let (r, st') = RAND_bytes (?b - 1) st in Some (take n mem @ r @ [word_of_nat ?p], st'))
      else Some (take n mem @ replicate ?p (word_of_nat ?p), st))"
    using nm unfolding pad_frame_def Let_def and_block [OF bs] by simp
  show ?thesis
  proof (cases "?p = ?b")
    case True
    then show ?thesis
      using p d unfolding pf
      by (intro exI [of _ "map (e_rand st) [0..<?b - 1] @ [word_of_nat ?p]"]
          exI [of _ "\<lambda>i. e_rand st (i + (?b - 1))"]) (simp add: RAND_bytes_def)
  next
    case False
    then show ?thesis
      using p d unfolding pf
      by (intro exI [of _ "replicate ?p (word_of_nat ?p)"] exI [of _ "e_rand st"]) (auto simp: last_replicate)
  qed
qed

text \<open>The plain text around a frame of \<open>n\<close> bytes: in-band block in front, padding behind.\<close>

definition wraps :: "cstate \<Rightarrow> nat \<Rightarrow> nat \<Rightarrow> byte list \<Rightarrow> byte list \<Rightarrow> bool" where
  "wraps es bs n pre pd =
     ((case es of
         CIPHER_SEQUENCE \<Rightarrow> length pre = bs \<and> take 4 pre = tag ''seq#''
       | CIPHER_REQ_INIT \<Rightarrow> length pre = bs \<and> take 4 pre = tag ''rsyn''
       | _ \<Rightarrow> pre = [])
      \<and> 1 \<le> length pd \<and> length pd \<le> bs \<and> last pd = word_of_nat (length pd)
      \<and> bs dvd length pre + n + length pd)"

definition sent :: "cstate \<Rightarrow> cstate" where
  "sent es = (if es = CIPHER_CODE then CIPHER_CODE else CIPHER_SEQUENCE)"

lemma send_ib_ok:
  assumes "cipher_enc_state st \<noteq> CIPHER_INIT"
    and "cipher_enc_state st = CIPHER_CODE \<or> lw_ok lw (blocksize st)"
  shows "\<exists>pre sp. send_ib_mesg lw (int n) mem st = Some (int (length pre + n), pre @ mem,
      st\<lparr>cipher_enc_state := sent (cipher_enc_state st), send_a_packet := sp\<rparr>)
    \<and> (cipher_enc_state st \<noteq> CIPHER_REQ_INIT \<longrightarrow> sp = send_a_packet st)
    \<and> (case cipher_enc_state st of
         CIPHER_SEQUENCE \<Rightarrow> length pre = blocksize st \<and> take 4 pre = tag ''seq#''
       | CIPHER_REQ_INIT \<Rightarrow> length pre = blocksize st \<and> take 4 pre = tag ''rsyn''
       | _ \<Rightarrow> pre = [])"
proof (cases "cipher_enc_state st")
  case CIPHER_CODE
  then show ?thesis
    by (intro exI [of _ "[]"] exI [of _ "send_a_packet st"]) (simp add: send_ib_mesg_def sent_def)
next
  case CIPHER_SEQUENCE
  with assms(2) obtain blk where "ib_block lw (blocksize st) ''seq#'' (sequence_num st) mem = Some (blk @ mem)"
    "length blk = blocksize st" "take 4 blk = tag ''seq#''"
    using ib_block_ok [of lw "blocksize st" "''seq#''"] by fastforce
  with CIPHER_SEQUENCE show ?thesis
    by (intro exI [of _ blk] exI [of _ "send_a_packet st"]) (simp add: send_ib_mesg_def sent_def)
next
  case CIPHER_REQ_INIT
  with assms(2) obtain blk where "ib_block lw (blocksize st) ''rsyn'' (sequence_num st) mem = Some (blk @ mem)"
    "length blk = blocksize st" "take 4 blk = tag ''rsyn''"
    using ib_block_ok [of lw "blocksize st" "''rsyn''"] by fastforce
  with CIPHER_REQ_INIT show ?thesis
    by (intro exI [of _ blk] exI [of _ True]) (simp add: send_ib_mesg_def sent_def)
qed (use assms in simp)

lemma encrypt_rest_ok:
  assumes bs: "blocksize st = 8 \<or> blocksize st = 16" and es: "cipher_enc_state st \<noteq> CIPHER_INIT"
    and lw: "cipher_enc_state st = CIPHER_CODE \<or> lw_ok lw (blocksize st)"
    and ctx: "ctx_enc st = Some e" and n: "0 < n" "n + blocksize st \<le> length mem"
    and room: "length msg + n + 2 * blocksize st \<le> length (enc_buf st)"
    and upd: "\<And>x. blocksize st dvd length x \<Longrightarrow> length (fst (evp_update lib e x)) = length x"
  shows "\<exists>pre tl c out b r q sp. encrypt_rest lw lib (int n) msg mem st
      = Some (int (length out) + int (length msg), b,
          st\<lparr>ctx_enc := Some c, enc_buf := b, sequence_num := q, e_rand := r,
             cipher_enc_state := sent (cipher_enc_state st), send_a_packet := sp\<rparr>)
    \<and> wraps (cipher_enc_state st) (blocksize st) n pre tl
    \<and> evp_update lib e (pre @ take n mem @ tl) = (out, c)
    \<and> length out = length pre + n + length tl
    \<and> (cipher_enc_state st \<noteq> CIPHER_REQ_INIT \<longrightarrow> sp = send_a_packet st)
    \<and> b = (msg @ out) @ drop (length msg + length out) (enc_buf st)"
proof -
  from send_ib_ok [OF es lw, of n mem] obtain pre sp where
    ib: "send_ib_mesg lw (int n) mem st = Some (int (length pre + n), pre @ mem,
      st\<lparr>cipher_enc_state := sent (cipher_enc_state st), send_a_packet := sp\<rparr>)"
    and sp: "cipher_enc_state st \<noteq> CIPHER_REQ_INIT \<longrightarrow> sp = send_a_packet st"
    and pre: "case cipher_enc_state st of
         CIPHER_SEQUENCE \<Rightarrow> length pre = blocksize st \<and> take 4 pre = tag ''seq#''
       | CIPHER_REQ_INIT \<Rightarrow> length pre = blocksize st \<and> take 4 pre = tag ''rsyn''
       | _ \<Rightarrow> pre = []" by blast
  let ?st2 = "st\<lparr>cipher_enc_state := sent (cipher_enc_state st), send_a_packet := sp\<rparr>"
  have "blocksize ?st2 = 8 \<or> blocksize ?st2 = 16" "(length pre + n) + blocksize ?st2 \<le> length (pre @ mem)"
    using bs n by auto
  from pad_frame_ok [OF this] obtain tl r where
    pf: "pad_frame (length pre + n) (pre @ mem) ?st2
      = Some (take (length pre + n) (pre @ mem) @ tl, ?st2\<lparr>e_rand := r\<rparr>)"
    and tl: "1 \<le> length tl" "length tl \<le> blocksize st" "blocksize st dvd length pre + n + length tl"
      "last tl = word_of_nat (length tl)" by auto
  obtain out c where u: "evp_update lib e (pre @ take n mem @ tl) = (out, c)" by fastforce
  have lo: "length out = length pre + n + length tl"
    using upd [of "pre @ take n mem @ tl"] tl(3) n u by (simp add: add.assoc)
  have "length pre \<le> blocksize st" using pre by (auto split: cstate.splits)
  then have fit: "length msg + length out \<le> length (enc_buf st)" using lo tl(2) room by linarith
  have "encrypt_rest lw lib (int n) msg mem st
      = Some (int (length out) + int (length msg), (msg @ out) @ drop (length msg + length out) (enc_buf st),
          st\<lparr>ctx_enc := Some c, enc_buf := (msg @ out) @ drop (length msg + length out) (enc_buf st),
             sequence_num := sequence_num st + 1, e_rand := r,
             cipher_enc_state := sent (cipher_enc_state st), send_a_packet := sp\<rparr>)"
    using n(1) fit unfolding encrypt_rest_def ib
    by (simp add: pf evp_call_def ctx u Let_def nat_add_distrib)
  moreover have "wraps (cipher_enc_state st) (blocksize st) n pre tl"
    using pre tl unfolding wraps_def by simp
  ultimately show ?thesis using u lo sp by blast
qed

subsection \<open>Receiving, step by step\<close>

text \<open>What an accepted frame does to the other direction: \<open>rsyn\<close> makes the encoder start over.\<close>

definition heard :: "cstate \<Rightarrow> 'c encst \<Rightarrow> 'c encst" where
  "heard es st =
     (if es = CIPHER_REQ_INIT \<and> cipher_enc_state st \<noteq> CIPHER_INIT
      then st\<lparr>cipher_enc_state := CIPHER_INIT, ctx_enc := None\<rparr> else st)"

lemma tags_differ [simp]: "tag ''seq#'' \<noteq> tag ''rsyn''" "tag ''rsyn'' \<noteq> tag ''seq#''"
  by (simp_all add: tag_def)

lemma recv_ib_ok:
  assumes bs: "4 \<le> blocksize st" and w: "wraps es (blocksize st) n pre pd" and es: "es \<noteq> CIPHER_INIT"
    and ds: "cipher_dec_state st = (if es = CIPHER_CODE then CIPHER_CODE else CIPHER_SEQUENCE)"
  shows "recv_ib_mesg (int (length pre) + k) (pre @ rest) st = (k, length pre, heard es st)"
proof (cases es)
  case CIPHER_CODE
  with w ds show ?thesis by (simp add: wraps_def recv_ib_mesg_def heard_def)
next
  case CIPHER_SEQUENCE
  with w have "length pre = blocksize st" "take 4 pre = tag ''seq#''" by (simp_all add: wraps_def)
  with CIPHER_SEQUENCE ds bs show ?thesis by (simp add: recv_ib_mesg_def heard_def)
next
  case CIPHER_REQ_INIT
  with w have "length pre = blocksize st" "take 4 pre = tag ''rsyn''" by (simp_all add: wraps_def)
  with CIPHER_REQ_INIT ds bs show ?thesis by (simp add: recv_ib_mesg_def heard_def)
qed (use es in simp)

lemma decrypt_rest_ok:
  assumes bs: "blocksize st = 8 \<or> blocksize st = 16"
    and ds: "cipher_dec_state st = (if es = CIPHER_CODE then CIPHER_CODE else CIPHER_SEQUENCE)"
    and es: "es \<noteq> CIPHER_INIT"
    and ctx: "ctx_dec st = Some d" and u: "evp_update lib d x = (pre @ pay @ pd, d')"
    and lx: "length x = length pre + length pay + length pd"
    and w: "wraps es (blocksize st) (length pay) pre pd" and pay: "pay \<noteq> []"
    and buf: "take (length x) buf = x" and room: "length x \<le> length (dec_buf st)"
  shows "\<exists>ret b. decrypt_rest lib (int (length x)) buf st
      = Some (int (length pay), ret, heard es (st\<lparr>ctx_dec := Some d', dec_buf := b\<rparr>))
    \<and> take (length pay) ret = pay \<and> length b = length (dec_buf st)"
proof -
  let ?out = "pre @ pay @ pd"
  let ?mem = "?out @ drop (length ?out) (dec_buf st)"
  let ?st1 = "st\<lparr>ctx_dec := Some d', dec_buf := ?mem\<rparr>"
  have lo: "length ?out = length x" using lx by simp
  from w have pd: "1 \<le> length pd" "length pd \<le> blocksize st" "last pd = word_of_nat (length pd)"
    by (simp_all add: wraps_def)
  have "0 < length x" using lx pay by simp
  then have xne: "x \<noteq> []" "int (length x) \<noteq> 0" by auto
  have lb: "\<not> int (length buf) < int (length x)" using buf by (metis length_take min.cobounded1 not_less of_nat_le_iff)
  have ib: "recv_ib_mesg (int (length ?out)) ?mem ?st1 = (int (length pay + length pd), length pre, heard es ?st1)"
    using recv_ib_ok [of ?st1 es "length pay" pre pd "int (length pay + length pd)"
        "pay @ pd @ drop (length ?out) (dec_buf st)"] bs ds es w by auto
  have i: "nat (int (length pre) + int (length pay + length pd) - 1) = length pre + length pay + (length pd - 1)"
    using pd(1) by linarith
  have "?mem ! (length pre + length pay + (length pd - 1)) = last pd"
  proof -
    have "pd \<noteq> []" using pd(1) by auto
    then have "(pd @ drop (length ?out) (dec_buf st)) ! (length pd - 1) = last pd"
      using pd(1) by (simp add: nth_append last_conv_nth)
    then show ?thesis
      using nth_append_length_plus [of "pre @ pay" "pd @ drop (length ?out) (dec_buf st)" "length pd - 1"]
      by simp
  qed
  then have pad: "sint (?mem ! nat (int (length pre) + int (length pay + length pd) - 1)) = int (length pd)"
    unfolding i using pd(2,3) bs by (simp only: ) (intro sint_small_byte, auto)
  have "0 < length pay + length pd" using pay by simp
  then have nz: "int (length pay + length pd) \<noteq> 0"
    and np: "\<not> int (length pre) + int (length pay + length pd) \<le> 0" by linarith+
  have hb: "blocksize (heard es ?st1) = blocksize st" by (simp add: heard_def)
  have ok: "\<not> (int (length pd) < 1 \<or> int (length pd) > int (blocksize st))" using pd(1,2) by auto
  have "decrypt_rest lib (int (length x)) buf st
      = Some (int (length pay + length pd) - int (length pd), drop (length pre) ?mem, heard es ?st1)"
    unfolding decrypt_rest_def evp_call_def ctx option.map option.case nat_int buf u prod.case Let_def ib
      pad hb
    using xne lb nz np ok room lo by simp
  then show ?thesis using pay lo room by (intro exI [of _ "drop (length pre) ?mem"] exI [of _ ?mem]) simp
qed

subsection \<open>Both ends in step\<close>

definition alg_block :: "alg \<Rightarrow> nat" where
  "alg_block a = (if a = BLOWFISH then 8 else 16)"

text \<open>
  What the library promises of whole blocks: contexts made alike are in step (\<open>R\<close>), decryption
  gives back what encryption was given and keeps them in step, and ECB contexts do not change.
\<close>

definition evp_ok :: "'c evp_lib \<Rightarrow> (nat \<Rightarrow> 'c \<Rightarrow> 'c \<Rightarrow> bool) \<Rightarrow> bool" where
  "evp_ok lib R =
     ((\<forall>b e d x. R b e d \<longrightarrow> b dvd length x \<longrightarrow>
        (\<exists>y e' d'. evp_update lib e x = (y, e') \<and> length y = length x
           \<and> evp_update lib d y = (x, d') \<and> R b e' d'))
      \<and> (\<forall>a m kl k iv. R (alg_block a) (evp_enc_init lib a m kl k iv) (evp_dec_init lib a m kl k iv))
      \<and> (\<forall>a kl k x. alg_block a dvd length x \<longrightarrow>
           snd (evp_update lib (evp_enc_init lib a ECB kl k []) x) = evp_enc_init lib a ECB kl k []
           \<and> snd (evp_update lib (evp_dec_init lib a ECB kl k []) x) = evp_dec_init lib a ECB kl k []
           \<and> length (fst (evp_update lib (evp_dec_init lib a ECB kl k []) x)) = length x))"

text \<open>The configuration of one end, as \<open>alloc_encrypt\<close> leaves it.\<close>

definition enc_conf :: "'c evp_lib \<Rightarrow> 'c encst \<Rightarrow> bool" where
  "enc_conf lib st =
     (case cipher_params (e_cipher st) of (bs, ks, vk, sb, a) \<Rightarrow>
        blocksize st = bs \<and> keysize st = ks
        \<and> (sb \<longrightarrow> ctx_enc_ecb st = Some (evp_enc_init lib a ECB (if vk then Some ks else None) (pkey st) [])
             \<and> ctx_dec_ecb st = Some (evp_dec_init lib a ECB (if vk then Some ks else None) (pkey st) []))
        \<and> 2240 \<le> length (enc_buf st) \<and> 2240 \<le> length (dec_buf st))"

definition enc_linked :: "nat \<Rightarrow> 'c evp_lib \<Rightarrow> (nat \<Rightarrow> 'c \<Rightarrow> 'c \<Rightarrow> bool) \<Rightarrow> 'c encst \<Rightarrow> 'c encst \<Rightarrow> bool" where
  "enc_linked lw lib R v w =
     (evp_ok lib R \<and> enc_conf lib v \<and> enc_conf lib w \<and> e_cipher v = e_cipher w \<and> pkey v = pkey w
      \<and> (chained_cipher (e_cipher v) \<noteq> None \<longrightarrow> lw_ok lw (blocksize v)))"

text \<open>What \<open>v\<close> encrypts next, \<open>w\<close> decrypts.\<close>

definition enc_sync :: "nat \<Rightarrow> 'c evp_lib \<Rightarrow> (nat \<Rightarrow> 'c \<Rightarrow> 'c \<Rightarrow> bool) \<Rightarrow> 'c encst \<Rightarrow> 'c encst \<Rightarrow> bool" where
  "enc_sync lw lib R v w =
     (enc_linked lw lib R v w
      \<and> (cipher_enc_state v = CIPHER_CODE \<longleftrightarrow> chained_cipher (e_cipher v) = None)
      \<and> (if cipher_enc_state v = CIPHER_INIT then cipher_dec_state w = CIPHER_INIT
         else cipher_dec_state w = sent (cipher_enc_state v)
           \<and> (\<exists>e d. ctx_enc v = Some e \<and> ctx_dec w = Some d \<and> R (blocksize v) e d)))"

lemma cipher_params_block:
  "cipher_params c = (bs, ks, vk, sb, a) \<Longrightarrow> bs = alg_block a \<and> (bs = 8 \<or> bs = 16)
    \<and> (sb \<longleftrightarrow> chained_cipher c \<noteq> None)"
  unfolding cipher_params_def chained_cipher_def alg_block_def by (auto split: if_splits)

lemma chained_cipher_alg:
  "chained_cipher c = Some (a, m, vk) \<Longrightarrow> \<exists>bs ks. cipher_params c = (bs, ks, vk, True, a)"
  unfolding cipher_params_def chained_cipher_def by (auto split: if_splits)

lemma enc_conf_block: "enc_conf lib st \<Longrightarrow> blocksize st = 8 \<or> blocksize st = 16"
  using cipher_params_block by (fastforce simp: enc_conf_def split: prod.splits)

lemma enc_sync_step:
  assumes l: "enc_sync lw lib R v w" and es: "cipher_enc_state v \<noteq> CIPHER_INIT"
    and n: "0 < n" "n + blocksize v \<le> length mem"
    and room: "length msg + n + 2 * blocksize v \<le> length (enc_buf v)"
    and le: "n + 2 * blocksize v \<le> 2240"
  shows "\<exists>len b v'. encrypt_rest lw lib (int n) msg mem v = Some (int len + int (length msg), b, v')
    \<and> n < len \<and> len \<le> n + 2 * blocksize v \<and> length b = length (enc_buf v)
    \<and> take (length msg) b = msg
    \<and> cipher_dec_state v' = cipher_dec_state v \<and> ctx_dec v' = ctx_dec v \<and> e_cipher v' = e_cipher v
    \<and> cipher_enc_state v' = sent (cipher_enc_state v)
    \<and> (cipher_enc_state v \<noteq> CIPHER_REQ_INIT \<longrightarrow> send_a_packet v' = send_a_packet v)
    \<and> (\<forall>got. take len got = take len (drop (length msg) b) \<longrightarrow>
         (\<exists>ret w'. decrypt_rest lib (int len) got w = Some (int n, ret, w')
            \<and> take n ret = take n mem \<and> enc_sync lw lib R v' w'
            \<and> (\<exists>w0. w' = heard (cipher_enc_state v) w0 \<and> cipher_enc_state w0 = cipher_enc_state w
                  \<and> ctx_enc w0 = ctx_enc w \<and> send_a_packet w0 = send_a_packet w)))"
proof -
  let ?es = "cipher_enc_state v" and ?bs = "blocksize v"
  from l have ok: "evp_ok lib R" and cv: "enc_conf lib v" and cw: "enc_conf lib w"
    and eq: "e_cipher v = e_cipher w" "pkey v = pkey w"
    and lw: "chained_cipher (e_cipher v) \<noteq> None \<longrightarrow> lw_ok lw ?bs"
    and code: "?es = CIPHER_CODE \<longleftrightarrow> chained_cipher (e_cipher v) = None"
    by (auto simp: enc_sync_def enc_linked_def)
  from l es obtain e d where ctx: "ctx_enc v = Some e" "ctx_dec w = Some d" "R ?bs e d"
    and dw: "cipher_dec_state w = sent ?es" by (auto simp: enc_sync_def)
  have bs: "?bs = 8 \<or> ?bs = 16" using enc_conf_block [OF cv] .
  have bw: "blocksize w = ?bs" using cv cw eq by (auto simp: enc_conf_def split: prod.splits)
  have step: "\<exists>y e' d'. evp_update lib e x = (y, e') \<and> length y = length x
      \<and> evp_update lib d y = (x, d') \<and> R ?bs e' d'" if "?bs dvd length x" for x
    using ok ctx(3) that unfolding evp_ok_def by blast
  have upd: "length (fst (evp_update lib e x)) = length x" if "?bs dvd length x" for x
    using step [OF that] by auto
  have lwc: "?es = CIPHER_CODE \<or> lw_ok lw ?bs" using lw code by blast
  from encrypt_rest_ok [OF bs es lwc ctx(1) n room upd] obtain pre pd c out b r q sp where
    enc: "encrypt_rest lw lib (int n) msg mem v = Some (int (length out) + int (length msg), b,
      v\<lparr>ctx_enc := Some c, enc_buf := b, sequence_num := q, e_rand := r,
        cipher_enc_state := sent ?es, send_a_packet := sp\<rparr>)" (is "_ = Some (_, _, ?v')")
    and w: "wraps ?es ?bs n pre pd"
    and u: "evp_update lib e (pre @ take n mem @ pd) = (out, c)"
    and lo: "length out = length pre + n + length pd"
    and sp: "?es \<noteq> CIPHER_REQ_INIT \<longrightarrow> sp = send_a_packet v"
    and b: "b = (msg @ out) @ drop (length msg + length out) (enc_buf v)" by blast
  have bnd: "length pre \<le> ?bs" "length pd \<le> ?bs" "1 \<le> length pd"
    using w by (auto simp: wraps_def split: cstate.splits)
  have lp: "length (take n mem) = n" using n by simp
  have "?bs dvd length (pre @ take n mem @ pd)" using w lp by (simp add: wraps_def add.assoc)
  from step [OF this] u obtain d' where d': "evp_update lib d out = (pre @ take n mem @ pd, d')"
    and R': "R ?bs c d'" by auto
  have lb: "length b = length (enc_buf v)" using b lo bnd room by simp
  have "\<exists>ret w'. decrypt_rest lib (int (length out)) got w = Some (int n, ret, w')
      \<and> take n ret = take n mem \<and> enc_sync lw lib R ?v' w'
      \<and> (\<exists>w0. w' = heard ?es w0 \<and> cipher_enc_state w0 = cipher_enc_state w \<and> ctx_enc w0 = ctx_enc w
            \<and> send_a_packet w0 = send_a_packet w)"
    if got: "take (length out) got = take (length out) (drop (length msg) b)" for got
  proof -
    have g: "take (length out) got = out" using got b by simp
    have ds: "cipher_dec_state w = (if ?es = CIPHER_CODE then CIPHER_CODE else CIPHER_SEQUENCE)"
      using dw by (simp add: sent_def)
    have "2240 \<le> length (dec_buf w)" using cw by (auto simp: enc_conf_def split: prod.splits)
    then have dr: "length out \<le> length (dec_buf w)" using lo bnd le by linarith
    have wr: "wraps ?es (blocksize w) (length (take n mem)) pre pd" using w bw lp by simp
    have ne: "take n mem \<noteq> []" using n by auto
    from decrypt_rest_ok [OF bs [folded bw] ds es ctx(2) d' _ wr ne g dr] lo lp obtain ret bb where
      dec: "decrypt_rest lib (int (length out)) got w
        = Some (int n, ret, heard ?es (w\<lparr>ctx_dec := Some d', dec_buf := bb\<rparr>))"
      and ret: "take n ret = take n mem" and lbb: "length bb = length (dec_buf w)" by auto
    have cv': "enc_conf lib ?v'" using cv lb by (auto simp: enc_conf_def split: prod.splits)
    have cw': "enc_conf lib (heard ?es (w\<lparr>ctx_dec := Some d', dec_buf := bb\<rparr>))"
      using cw lbb by (auto simp: enc_conf_def heard_def split: prod.splits)
    have "enc_sync lw lib R ?v' (heard ?es (w\<lparr>ctx_dec := Some d', dec_buf := bb\<rparr>))"
      using ok cv' cw' eq lw code R' dw es
      by (auto simp: enc_sync_def enc_linked_def heard_def sent_def)
    moreover have "\<exists>w0. heard ?es (w\<lparr>ctx_dec := Some d', dec_buf := bb\<rparr>) = heard ?es w0
        \<and> cipher_enc_state w0 = cipher_enc_state w \<and> ctx_enc w0 = ctx_enc w
        \<and> send_a_packet w0 = send_a_packet w"
      by (intro exI [of _ "w\<lparr>ctx_dec := Some d', dec_buf := bb\<rparr>"]) simp
    ultimately show ?thesis using dec ret by blast
  qed
  then show ?thesis
    using enc lo bnd lb b n sp by (intro exI [of _ "length out"] exI [of _ b] exI [of _ ?v']) auto
qed

lemma ecb_update:
  assumes "evp_ok lib R" and "alg_block a dvd length x"
  shows "\<exists>y. evp_update lib (evp_enc_init lib a ECB kl k []) x = (y, evp_enc_init lib a ECB kl k [])
    \<and> length y = length x
    \<and> evp_update lib (evp_dec_init lib a ECB kl k []) y = (x, evp_dec_init lib a ECB kl k [])"
proof -
  let ?e = "evp_enc_init lib a ECB kl k []" and ?d = "evp_dec_init lib a ECB kl k []"
  have "R (alg_block a) ?e ?d" using assms(1) unfolding evp_ok_def by blast
  with assms obtain y e' d' where u: "evp_update lib ?e x = (y, e')" "length y = length x"
    "evp_update lib ?d y = (x, d')"
    unfolding evp_ok_def by blast
  moreover have "snd (evp_update lib ?e x) = ?e" "snd (evp_update lib ?d y) = ?d"
    using assms u(2) unfolding evp_ok_def by auto
  ultimately show ?thesis by auto
qed

lemma enc_sync_init:
  assumes l: "enc_sync lw lib R v w" and es: "cipher_enc_state v = CIPHER_INIT"
  shows "\<exists>msg v1. send_msg lib buf v = Some (msg @ buf, length msg, v1)
    \<and> length msg = 2 * blocksize v \<and> cipher_enc_state v1 = CIPHER_SEQUENCE
    \<and> cipher_dec_state v1 = cipher_dec_state v \<and> ctx_dec v1 = ctx_dec v
    \<and> blocksize v1 = blocksize v \<and> enc_buf v1 = enc_buf v \<and> e_cipher v1 = e_cipher v
    \<and> send_a_packet v1 = send_a_packet v
    \<and> (\<forall>k got. take (length msg) got = msg \<longrightarrow>
        (\<exists>w1. recv_msg lib (int (length msg) + k) got w = Some (k, drop (length msg) got, w1)
           \<and> enc_sync lw lib R v1 w1 \<and> cipher_enc_state w1 = cipher_enc_state w
           \<and> ctx_enc w1 = ctx_enc w \<and> send_a_packet w1 = send_a_packet w))"
proof -
  let ?bs = "blocksize v"
  from l have ok: "evp_ok lib R" and cv: "enc_conf lib v" and cw: "enc_conf lib w"
    and eq: "e_cipher v = e_cipher w" "pkey v = pkey w" and dw: "cipher_dec_state w = CIPHER_INIT"
    and lw: "lw_ok lw ?bs"
    and ch: "chained_cipher (e_cipher v) \<noteq> None"
    using es by (auto simp: enc_sync_def enc_linked_def)
  then obtain a m vk where ch': "chained_cipher (e_cipher v) = Some (a, m, vk)" by auto
  then obtain ks where cp: "cipher_params (e_cipher v) = (?bs, ks, vk, True, a)"
    using chained_cipher_alg [OF ch'] cv by (auto simp: enc_conf_def)
  let ?kl = "if vk then Some ks else None"
  let ?e = "evp_enc_init lib a ECB ?kl (pkey v) []" and ?d = "evp_dec_init lib a ECB ?kl (pkey v) []"
  have ks: "keysize v = ks" "keysize w = ks" "blocksize w = ?bs"
    and ec: "ctx_enc_ecb v = Some ?e" and dc: "ctx_dec_ecb w = Some ?d"
    using cv cw cp eq by (auto simp: enc_conf_def)
  have bs: "?bs = alg_block a" "?bs = 8 \<or> ?bs = 16" using cipher_params_block [OF cp] by auto
  define iv where "iv = map (e_rand v) [0..<?bs]"
  define rnd where "rnd = map (\<lambda>i. e_rand v (i + ?bs)) [0..<?bs - 4]"
  let ?plain = "tag ''ivec'' @ iv @ rnd"
  have li: "length iv = ?bs" and lp: "length ?plain = 2 * ?bs"
    using bs(2) by (auto simp: iv_def rnd_def)
  have "alg_block a dvd length ?plain" unfolding lp by (simp add: bs(1))
  from ecb_update [OF ok this] obtain msg where
    u: "evp_update lib ?e ?plain = (msg, ?e)" and lm: "length msg = 2 * ?bs"
    and du: "evp_update lib ?d msg = (?plain, ?d)" using lp by fastforce
  define v1 where "v1 = v\<lparr>e_rand := \<lambda>i. e_rand v (i + (?bs - 4) + ?bs),
      ctx_enc := Some (evp_enc_init lib a m ?kl (pkey v) iv), enc_init_first_time := False,
      ctx_enc_ecb := Some ?e, cipher_enc_state := CIPHER_SEQUENCE\<rparr>"
  have send: "send_msg lib buf v = Some (msg @ buf, length msg, v1)"
    using es ch' ks(1) ec u lm lp
    by (simp add: send_msg_def RAND_bytes_def cipher_enc_init_def evp_call_def Let_def
        iv_def [symmetric] rnd_def [symmetric] v1_def add.commute add.left_commute)
  have "\<exists>w1. recv_msg lib (int (length msg) + k) got w = Some (k, drop (length msg) got, w1)
      \<and> enc_sync lw lib R v1 w1 \<and> cipher_enc_state w1 = cipher_enc_state w \<and> ctx_enc w1 = ctx_enc w
      \<and> send_a_packet w1 = send_a_packet w"
    if g: "take (length msg) got = msg" for k got
  proof -
    define w1 where "w1 = w\<lparr>ctx_dec_ecb := Some ?d,
      ctx_dec := Some (evp_dec_init lib a m ?kl (pkey w) iv), dec_init_first_time := False,
      cipher_dec_state := CIPHER_SEQUENCE, gibberish := 0, gib_time_start := 0\<rparr>"
    have lg: "2 * ?bs \<le> length got" using g lm by (metis length_take min.cobounded1)
    have t: "take 4 ?plain = tag ''ivec''" "take ?bs (drop 4 ?plain) = iv" using li by simp_all
    have "recv_msg lib (int (length msg) + k) got w = Some (k, drop (length msg) got, w1)"
      using dw ks dc du g lm lg t lp ch' eq
      by (simp add: recv_msg_def cipher_dec_init_def evp_call_def Let_def w1_def)
    moreover have "enc_conf lib v1" "enc_conf lib w1"
      using cv cw cp eq by (auto simp: enc_conf_def v1_def w1_def)
    then have "enc_sync lw lib R v1 w1"
      using ok eq lw ch ch' dw bs(1)
      by (auto simp: enc_sync_def enc_linked_def v1_def w1_def sent_def evp_ok_def)
    ultimately show ?thesis by (intro exI [of _ w1]) (simp add: w1_def)
  qed
  then show ?thesis using send lm by (intro exI [of _ msg] exI [of _ v1]) (simp add: v1_def)
qed

text \<open>One frame from \<open>v\<close> to \<open>w\<close>, and what it leaves of the other direction.\<close>

definition other_way :: "cstate \<Rightarrow> 'c encst \<Rightarrow> 'c encst \<Rightarrow> bool" where
  "other_way es w w' = (\<exists>w0. w' = heard es w0 \<and> cipher_enc_state w0 = cipher_enc_state w
     \<and> ctx_enc w0 = ctx_enc w \<and> send_a_packet w0 = send_a_packet w)"

lemma enc_sync_frame:
  assumes l: "enc_sync lw lib R v w" and n: "0 < n" "n \<le> 2080" "n + 16 \<le> length mem"
  shows "\<exists>len b v'. encrypt_buf lw lib (int n) mem v = Some (int len, b, v')
    \<and> n < len \<and> len \<le> n + 64 \<and> length b = length (enc_buf v)
    \<and> cipher_dec_state v' = cipher_dec_state v \<and> ctx_dec v' = ctx_dec v \<and> e_cipher v' = e_cipher v
    \<and> cipher_enc_state v' = sent (cipher_enc_state v)
    \<and> (cipher_enc_state v \<noteq> CIPHER_REQ_INIT \<longrightarrow> send_a_packet v' = send_a_packet v)
    \<and> (\<forall>got. take len got = take len b \<longrightarrow>
         (\<exists>ret w'. decrypt_buf lib (int len) got w = Some (int n, ret, w')
            \<and> take n ret = take n mem \<and> enc_sync lw lib R v' w'
            \<and> other_way (cipher_enc_state v) w w'))"
proof -
  from l have cv: "enc_conf lib v" by (simp add: enc_sync_def enc_linked_def)
  then have bs: "blocksize v = 8 \<or> blocksize v = 16" by (rule enc_conf_block)
  have eb: "2240 \<le> length (enc_buf v)" using cv by (auto simp: enc_conf_def split: prod.splits)
  show ?thesis
  proof (cases "cipher_enc_state v = CIPHER_INIT")
    case False
    from bs n eb have b1: "n + blocksize v \<le> length mem" "n + 2 * blocksize v \<le> 2240"
      and b2: "length ([] :: byte list) + n + 2 * blocksize v \<le> length (enc_buf v)" by auto
    have dw: "cipher_dec_state w \<noteq> CIPHER_INIT" using l False by (auto simp: enc_sync_def sent_def)
    from enc_sync_step [OF l False n(1) b1(1) b2 b1(2)] obtain len b v' where
      e: "encrypt_rest lw lib (int n) [] mem v = Some (int len, b, v')"
        "n < len" "len \<le> n + 2 * blocksize v" "length b = length (enc_buf v)"
        "cipher_dec_state v' = cipher_dec_state v" "ctx_dec v' = ctx_dec v" "e_cipher v' = e_cipher v"
        "cipher_enc_state v' = sent (cipher_enc_state v)"
        "cipher_enc_state v \<noteq> CIPHER_REQ_INIT \<longrightarrow> send_a_packet v' = send_a_packet v"
      and d: "\<And>got. take len got = take len b \<Longrightarrow>
         (\<exists>ret w'. decrypt_rest lib (int len) got w = Some (int n, ret, w')
            \<and> take n ret = take n mem \<and> enc_sync lw lib R v' w'
            \<and> other_way (cipher_enc_state v) w w')"
      unfolding other_way_def by auto
    have "encrypt_buf lw lib (int n) mem v = Some (int len, b, v')"
      using e(1) False by (cases "cipher_enc_state v") (simp_all add: encrypt_buf_def send_msg_def)
    moreover have "decrypt_buf lib k got w = decrypt_rest lib k got w" for k got
      using dw by (cases "cipher_dec_state w") (simp_all add: decrypt_buf_def recv_msg_def)
    ultimately show ?thesis using e(2-) d bs
      by (intro exI [of _ len] exI [of _ b] exI [of _ v']) auto
  next
    case True
    from enc_sync_init [OF l True, of mem] obtain msg v1 where
      s: "send_msg lib mem v = Some (msg @ mem, length msg, v1)" and lm: "length msg = 2 * blocksize v"
      and v1: "cipher_enc_state v1 = CIPHER_SEQUENCE" "cipher_dec_state v1 = cipher_dec_state v"
        "ctx_dec v1 = ctx_dec v" "blocksize v1 = blocksize v" "enc_buf v1 = enc_buf v"
        "e_cipher v1 = e_cipher v" "send_a_packet v1 = send_a_packet v"
      and r: "\<And>k got. take (length msg) got = msg \<Longrightarrow>
          \<exists>w1. recv_msg lib (int (length msg) + k) got w = Some (k, drop (length msg) got, w1)
           \<and> enc_sync lw lib R v1 w1 \<and> cipher_enc_state w1 = cipher_enc_state w \<and> ctx_enc w1 = ctx_enc w
           \<and> send_a_packet w1 = send_a_packet w"
      by blast
    from r [of msg 0] obtain w0 where "enc_sync lw lib R v1 w0" by auto
    have b1: "n + blocksize v1 \<le> length mem" "n + 2 * blocksize v1 \<le> 2240"
      and b2: "length msg + n + 2 * blocksize v1 \<le> length (enc_buf v1)"
      using bs n eb v1 lm by auto
    have es1: "cipher_enc_state v1 \<noteq> CIPHER_INIT" using v1 by simp
    from enc_sync_step [OF \<open>enc_sync lw lib R v1 w0\<close> es1 n(1) b1(1) b2 b1(2)] obtain len b v' where
      e: "encrypt_rest lw lib (int n) msg mem v1 = Some (int len + int (length msg), b, v')"
        "n < len" "len \<le> n + 2 * blocksize v1" "length b = length (enc_buf v1)" "take (length msg) b = msg"
        "cipher_dec_state v' = cipher_dec_state v1" "ctx_dec v' = ctx_dec v1" "e_cipher v' = e_cipher v1"
        "cipher_enc_state v' = sent (cipher_enc_state v1)"
        "cipher_enc_state v1 \<noteq> CIPHER_REQ_INIT \<longrightarrow> send_a_packet v' = send_a_packet v1"
      by blast
    have eb': "encrypt_buf lw lib (int n) mem v = Some (int (length msg + len), b, v')"
      using s e(1) by (simp add: encrypt_buf_def)
    have "\<exists>ret w'. decrypt_buf lib (int (length msg + len)) got w = Some (int n, ret, w')
        \<and> take n ret = take n mem \<and> enc_sync lw lib R v' w' \<and> other_way (cipher_enc_state v) w w'"
      if got: "take (length msg + len) got = take (length msg + len) b" for got
    proof -
      have g1: "take (length msg) got = msg"
        using arg_cong [OF got, of "take (length msg)"] e(5) by simp
      have g2: "take len (drop (length msg) got) = take len (drop (length msg) b)"
        using arg_cong [OF got, of "drop (length msg)"] by (simp add: drop_take)
      from r [OF g1, of "int len"] obtain w1 where
        w1: "recv_msg lib (int (length msg) + int len) got w = Some (int len, drop (length msg) got, w1)"
          "enc_sync lw lib R v1 w1" "cipher_enc_state w1 = cipher_enc_state w" "ctx_enc w1 = ctx_enc w"
          "send_a_packet w1 = send_a_packet w"
        by blast
      from enc_sync_step [OF w1(2) es1 n(1) b1(1) b2 b1(2)] e(1) g2 obtain ret w' where
        d: "decrypt_rest lib (int len) (drop (length msg) got) w1 = Some (int n, ret, w')"
          "take n ret = take n mem" "enc_sync lw lib R v' w'"
          "other_way (cipher_enc_state v1) w1 w'" unfolding other_way_def by fastforce
      from d(4) w1(3-5) v1(1) True have "other_way (cipher_enc_state v) w w'"
        by (auto simp: other_way_def heard_def)
      with d w1(1) show ?thesis by (auto simp: decrypt_buf_def)
    qed
    moreover have "sent (cipher_enc_state v1) = sent (cipher_enc_state v)" using v1(1) True by (simp add: sent_def)
    ultimately show ?thesis using eb' e(2-) v1 lm bs
      by (intro exI [of _ "length msg + len"] exI [of _ b] exI [of _ v']) auto
  qed
qed

text \<open>In step, and nobody has asked for a packet of its own.\<close>

definition enc_still :: "nat \<Rightarrow> 'c evp_lib \<Rightarrow> (nat \<Rightarrow> 'c \<Rightarrow> 'c \<Rightarrow> bool) \<Rightarrow> 'c encst \<Rightarrow> 'c encst \<Rightarrow> bool" where
  "enc_still lw lib R v w = (enc_sync lw lib R v w \<and> cipher_enc_state v \<noteq> CIPHER_REQ_INIT
     \<and> \<not> send_a_packet v \<and> \<not> send_a_packet w)"

lemma encrypt_carries:
  assumes st: "enc_still lw lib R v w" and "0 < len" and "len \<le> 2080" and "len + 16 \<le> int (length buf)"
  shows "carries (enc_still lw lib R) (encrypt_buf lw lib) (decrypt_buf lib) 64 len buf v w"
proof -
  define n where "n = nat len"
  then have len: "len = int n" using assms by simp
  from st have s: "enc_sync lw lib R v w" by (simp add: enc_still_def)
  have eb: "2240 \<le> length (enc_buf v)"
    using s by (auto simp: enc_sync_def enc_linked_def enc_conf_def split: prod.splits)
  have "0 < n" "n \<le> 2080" "n + 16 \<le> length buf" using assms len by auto
  from enc_sync_frame [OF s this] obtain l b v' where
    e: "encrypt_buf lw lib (int n) buf v = Some (int l, b, v')" "n < l" "l \<le> n + 64"
      "length b = length (enc_buf v)" "cipher_enc_state v' = sent (cipher_enc_state v)"
      "cipher_enc_state v \<noteq> CIPHER_REQ_INIT \<longrightarrow> send_a_packet v' = send_a_packet v"
    and d: "\<And>got. take l got = take l b \<Longrightarrow>
         (\<exists>ret w'. decrypt_buf lib (int l) got w = Some (int n, ret, w')
            \<and> take n ret = take n buf \<and> enc_sync lw lib R v' w' \<and> other_way (cipher_enc_state v) w w')"
    by blast
  have "enc_still lw lib R v' w'" if "enc_sync lw lib R v' w'" "other_way (cipher_enc_state v) w w'" for w'
    using that st e(5,6) by (auto simp: enc_still_def sent_def other_way_def heard_def)
  with e eb \<open>n \<le> 2080\<close> d show ?thesis unfolding carries_def len
    by (intro exI [of _ "int l"] exI [of _ b] exI [of _ v']) fastforce
qed

subsection \<open>Both directions\<close>

lemma enc_linked_sym: "enc_linked lw lib R v w \<Longrightarrow> enc_linked lw lib R w v"
proof -
  assume l: "enc_linked lw lib R v w"
  then have "blocksize v = blocksize w"
    by (auto simp: enc_linked_def enc_conf_def split: prod.splits)
  with l show ?thesis by (auto simp: enc_linked_def)
qed

lemma enc_sync_linked: "enc_sync lw lib R v w \<Longrightarrow> enc_linked lw lib R v w"
  by (simp add: enc_sync_def)

lemma enc_sync_transfer:
  assumes "enc_sync lw lib R v w" and "enc_linked lw lib R v' w'" and "e_cipher v' = e_cipher v"
    and "cipher_enc_state v' = cipher_enc_state v" and "ctx_enc v' = ctx_enc v"
    and "cipher_dec_state w' = cipher_dec_state w" and "ctx_dec w' = ctx_dec w"
  shows "enc_sync lw lib R v' w'"
proof -
  have "blocksize v' = blocksize v"
    using assms(1-3) by (auto simp: enc_sync_def enc_linked_def enc_conf_def split: prod.splits)
  with assms show ?thesis by (auto simp: enc_sync_def)
qed

definition enc_duplex :: "nat \<Rightarrow> 'c evp_lib \<Rightarrow> (nat \<Rightarrow> 'c \<Rightarrow> 'c \<Rightarrow> bool) \<Rightarrow> 'c encst \<Rightarrow> 'c encst \<Rightarrow> bool" where
  "enc_duplex lw lib R v w = (enc_sync lw lib R v w \<and> enc_sync lw lib R w v)"

lemma heard_quiet: "es \<noteq> CIPHER_REQ_INIT \<Longrightarrow> heard es w = w"
  by (simp add: heard_def)

text \<open>A frame that is no request leaves the other direction in step.\<close>

definition enc_calm :: "nat \<Rightarrow> 'c evp_lib \<Rightarrow> (nat \<Rightarrow> 'c \<Rightarrow> 'c \<Rightarrow> bool) \<Rightarrow> 'c encst \<Rightarrow> 'c encst \<Rightarrow> bool" where
  "enc_calm lw lib R v w = (enc_sync lw lib R v w \<and> enc_sync lw lib R w v
     \<and> cipher_enc_state v \<noteq> CIPHER_REQ_INIT \<and> cipher_enc_state w \<noteq> CIPHER_REQ_INIT)"

lemma enc_calm_sym: "enc_calm lw lib R v w \<Longrightarrow> enc_calm lw lib R w v"
  by (simp add: enc_calm_def)

lemma enc_calm_frame:
  assumes d: "enc_calm lw lib R v w" and n: "0 < n" "n \<le> 2080" "n + 16 \<le> length mem"
  shows "\<exists>len b v'. encrypt_buf lw lib (int n) mem v = Some (int len, b, v')
    \<and> len \<le> n + 64 \<and> len \<le> length b
    \<and> (\<forall>got. take len got = take len b \<longrightarrow>
         (\<exists>ret w'. decrypt_buf lib (int len) got w = Some (int n, ret, w')
            \<and> take n ret = take n mem \<and> enc_calm lw lib R v' w'))"
proof -
  from d have s: "enc_sync lw lib R v w" "enc_sync lw lib R w v"
    and es: "cipher_enc_state v \<noteq> CIPHER_REQ_INIT" "cipher_enc_state w \<noteq> CIPHER_REQ_INIT"
    by (simp_all add: enc_calm_def)
  have eb: "2240 \<le> length (enc_buf v)"
    using s(1) by (auto simp: enc_sync_def enc_linked_def enc_conf_def split: prod.splits)
  from enc_sync_frame [OF s(1) n] obtain len b v' where
    e: "encrypt_buf lw lib (int n) mem v = Some (int len, b, v')"
      "cipher_dec_state v' = cipher_dec_state v" "ctx_dec v' = ctx_dec v" "e_cipher v' = e_cipher v"
      "cipher_enc_state v' = sent (cipher_enc_state v)" "len \<le> n + 64" "length b = length (enc_buf v)"
    and r: "\<And>got. take len got = take len b \<Longrightarrow>
         \<exists>ret w'. decrypt_buf lib (int len) got w = Some (int n, ret, w')
            \<and> take n ret = take n mem \<and> enc_sync lw lib R v' w' \<and> other_way (cipher_enc_state v) w w'"
    by blast
  have "enc_calm lw lib R v' w'"
    if f: "enc_sync lw lib R v' w'" and o: "other_way (cipher_enc_state v) w w'" for w'
  proof -
    have w': "cipher_enc_state w' = cipher_enc_state w" "ctx_enc w' = ctx_enc w"
      using o es by (auto simp: other_way_def heard_quiet)
    have ec: "e_cipher w' = e_cipher w"
      using f s e(4) by (auto simp: enc_sync_def enc_linked_def)
    have "enc_linked lw lib R w' v'" using enc_linked_sym [OF enc_sync_linked [OF f]] .
    from enc_sync_transfer [OF s(2) this ec w' e(2,3)] f w' es e(5) show ?thesis
      by (simp add: enc_calm_def sent_def)
  qed
  moreover have "len \<le> length b" using e(6,7) eb n(2) by linarith
  ultimately show ?thesis using e(1,6) r by blast
qed

end
