(* ===== verification/EncryptSession.thy ===== *)
theory EncryptSession
  imports LfdEncrypt
begin

section \<open>Encrypted sessions\<close>

text \<open>
  The properties of \<open>lfd_encrypt.c\<close> over whole sessions: two ends set up by \<open>alloc_encrypt\<close> with
  the same cipher and password exchange frames in both directions; an end that is thrown out of
  step finds back; and two defects, the use of an encryption context that was never initialised
  and the store that overwrites every frame of a chained Blowfish session where \<open>unsigned long\<close> has eight bytes.
\<close>

text \<open>
  A conversation: each entry says who sends (\<^const>\<open>True\<close> is \<open>v\<close>) and the frame; \<open>slack\<close> is the
  memory behind the frame at the sender, \<open>junk\<close> what lies behind the encrypted frame in the
  receiver's buffer. The result lists what the receivers got.
\<close>

definition pass_frame :: "nat \<Rightarrow> 'c evp_lib \<Rightarrow> byte list \<Rightarrow> byte list \<Rightarrow> byte list \<Rightarrow> 'c encst \<Rightarrow> 'c encst
    \<Rightarrow> (byte list \<times> 'c encst \<times> 'c encst) option" where
  "pass_frame lw lib slack junk p v w =
     (case encrypt_buf lw lib (int (length p)) (p @ slack) v of
        None \<Rightarrow> None
      | Some (l, b, v') \<Rightarrow>
          (case decrypt_buf lib l (take (nat l) b @ junk) w of
             None \<Rightarrow> None
           | Some (k, ret, w') \<Rightarrow> Some (take (nat k) ret, v', w')))"

fun converse_frames :: "nat \<Rightarrow> 'c evp_lib \<Rightarrow> byte list \<Rightarrow> byte list \<Rightarrow> (bool \<times> byte list) list \<Rightarrow> 'c encst
    \<Rightarrow> 'c encst \<Rightarrow> byte list list option" where
  "converse_frames lw lib slack junk [] v w = Some []"
| "converse_frames lw lib slack junk ((dir, p) # ps) v w =
     (if dir then
        (case pass_frame lw lib slack junk p v w of
           None \<Rightarrow> None
         | Some (q, v', w') \<Rightarrow> map_option ((#) q) (converse_frames lw lib slack junk ps v' w'))
      else
        (case pass_frame lw lib slack junk p w v of
           None \<Rightarrow> None
         | Some (q, w', v') \<Rightarrow> map_option ((#) q) (converse_frames lw lib slack junk ps v' w')))"

lemma enc_calm_pass:
  assumes "enc_calm lw lib R v w" and "p \<noteq> []" and "length p \<le> 2080" and "16 \<le> length slack"
  shows "\<exists>v' w'. pass_frame lw lib slack junk p v w = Some (p, v', w') \<and> enc_calm lw lib R v' w'"
proof -
  have "0 < length p" "length p + 16 \<le> length (p @ slack)" using assms(2,4) by simp_all
  from enc_calm_frame [OF assms(1) this(1) assms(3) this(2)] obtain len b v' where
    e: "encrypt_buf lw lib (int (length p)) (p @ slack) v = Some (int len, b, v')" "len \<le> length b"
    and d: "\<And>got. take len got = take len b \<Longrightarrow>
         \<exists>ret w'. decrypt_buf lib (int len) got w = Some (int (length p), ret, w')
            \<and> take (length p) ret = take (length p) (p @ slack) \<and> enc_calm lw lib R v' w'" by blast
  have "take len (take len b @ junk) = take len b" using e(2) by simp
  from d [OF this] e(1) show ?thesis by (auto simp: pass_frame_def)
qed

lemma enc_calm_converse:
  "enc_calm lw lib R v w \<Longrightarrow> 16 \<le> length slack
    \<Longrightarrow> \<forall>(dir, p)\<in>set ps. p \<noteq> [] \<and> length p \<le> 2080
    \<Longrightarrow> converse_frames lw lib slack junk ps v w = Some (map snd ps)"
proof (induction ps arbitrary: v w)
  case (Cons a ps)
  obtain dir p where a: "a = (dir, p)" by (cases a)
  then have p: "p \<noteq> []" "length p \<le> 2080" using Cons.prems by auto
  show ?case
  proof (cases dir)
    case True
    from enc_calm_pass [OF Cons.prems(1) p Cons.prems(2), of junk] obtain v' w' where
      f: "pass_frame lw lib slack junk p v w = Some (p, v', w')" "enc_calm lw lib R v' w'" by blast
    with Cons.IH [of v' w'] Cons.prems True show ?thesis by (simp add: a)
  next
    case False
    from enc_calm_pass [OF enc_calm_sym [OF Cons.prems(1)] p Cons.prems(2), of junk] obtain w' v' where
      f: "pass_frame lw lib slack junk p w v = Some (p, w', v')" "enc_calm lw lib R w' v'" by blast
    with Cons.IH [of v' w'] Cons.prems False enc_calm_sym [OF f(2)] show ?thesis by (simp add: a)
  qed
qed simp

subsection \<open>The start of a session\<close>

lemma alloc_encrypt_conf:
  assumes m: "malloc_ok malloc" and a: "alloc_encrypt malloc True lib h s = Some (0, v)"
  shows "enc_conf lib v \<and> e_cipher v = cipher h
    \<and> (\<exists>pw. vh_passwd h = Some pw \<and> Some (pkey v) = snd (prep_key True (md5 lib) (keysize v) pw))
    \<and> (case cipher_params (cipher h) of (bs, ks, vk, sb, al) \<Rightarrow>
         if sb then cipher_enc_state v = CIPHER_INIT \<and> cipher_dec_state v = CIPHER_INIT
         else cipher_enc_state v = CIPHER_CODE \<and> cipher_dec_state v = CIPHER_CODE
           \<and> ctx_enc v = Some (evp_enc_init lib al ECB (if vk then Some ks else None) (pkey v) [])
           \<and> ctx_dec v = Some (evp_dec_init lib al ECB (if vk then Some ks else None) (pkey v) []))"
proof -
  obtain bs ks vk sb al where cp: "cipher_params (cipher h) = (bs, ks, vk, sb, al)"
    by (metis prod_cases5)
  from a obtain eb db pw where b: "lfd_alloc malloc ENC_BUF_SIZE = Some eb" "vh_passwd h = Some pw"
    by (auto simp: alloc_encrypt_def Let_def split: option.splits)
  have "length eb = 2240" using lfd_alloc_length [OF m b(1)] by simp
  then show ?thesis
    using a b cp
    by (auto simp: alloc_encrypt_def Let_def enc_conf_def RAND_bytes_def
        split: option.splits prod.splits if_splits)
qed

lemma alloc_encrypt_calm:
  assumes "evp_ok lib R" and "malloc_ok m1" and "malloc_ok m2"
    and "alloc_encrypt m1 True lib h1 s1 = Some (0, v)"
    and "alloc_encrypt m2 True lib h2 s2 = Some (0, w)"
    and "cipher h1 = cipher h2" and "vh_passwd h1 = vh_passwd h2"
    and "chained_cipher (cipher h1) \<noteq> None \<longrightarrow> lw_ok lw (fst (cipher_params (cipher h1)))"
  shows "enc_calm lw lib R v w"
proof -
  obtain bs ks vk sb al where cp: "cipher_params (cipher h1) = (bs, ks, vk, sb, al)"
    by (metis prod_cases5)
  note cv = alloc_encrypt_conf [OF assms(2,4)] and cw = alloc_encrypt_conf [OF assms(3,5)]
  have blk: "bs = alg_block al" "chained_cipher (cipher h1) = None \<longleftrightarrow> \<not> sb"
    using cipher_params_block [OF cp] by (simp, metis)
  have ks: "keysize v = keysize w" "blocksize v = bs"
    using cv cw assms(6) cp by (auto simp: enc_conf_def)
  then have k: "pkey v = pkey w" using cv cw assms(7) by (metis option.inject)
  have l: "enc_linked lw lib R v w"
    using assms(1,6,8) cv cw k ks cp by (auto simp: enc_linked_def)
  have R: "R bs (evp_enc_init lib al ECB kl key []) (evp_dec_init lib al ECB kl key [])" for kl key
    using assms(1) unfolding evp_ok_def blk(1) by blast
  have "enc_sync lw lib R v w" if "enc_linked lw lib R v w"
      "case cipher_params (cipher h1) of (bs, ks, vk, sb, al) \<Rightarrow>
         if sb then cipher_enc_state v = CIPHER_INIT \<and> cipher_dec_state w = CIPHER_INIT
         else cipher_enc_state v = CIPHER_CODE \<and> cipher_dec_state w = CIPHER_CODE
           \<and> ctx_enc v = Some (evp_enc_init lib al ECB (if vk then Some ks else None) (pkey v) [])
           \<and> ctx_dec w = Some (evp_dec_init lib al ECB (if vk then Some ks else None) (pkey v) [])"
      "e_cipher v = cipher h1" "blocksize v = bs" for v w
    using that cp R blk(2) by (auto simp: enc_sync_def sent_def split: if_splits)
  from this [OF l] this [OF enc_linked_sym [OF l]] cv cw k ks cp assms(6)
  show ?thesis by (auto simp: enc_calm_def enc_conf_def split: if_splits)
qed

subsection \<open>The store of eight bytes\<close>

text \<open>What the store of eight bytes does: the encryptor works on the frame with its first four bytes cleared.\<close>

lemma parts_keep:
  "blocksize (snd (RAND_bytes n st)) = blocksize st" "e_cipher (snd (RAND_bytes n st)) = e_cipher st"
  "blocksize (snd (cipher_enc_init lib iv st)) = blocksize st" "e_cipher (snd (cipher_enc_init lib iv st)) = e_cipher st"
  by (simp_all add: RAND_bytes_def cipher_enc_init_def split: option.split prod.split)

lemma send_msg_append: "send_msg lib buf st = map_option (\<lambda>(x, n, st'). (x @ buf, n, st')) (send_msg lib [] st)"
  by (cases "cipher_enc_state st") (simp_all add: send_msg_def Let_def split_beta option.map_comp comp_def split: option.split)

lemma send_msg_keeps:
  assumes "send_msg lib buf st = Some (x, n, st')"
  shows "blocksize st' = blocksize st" and "e_cipher st' = e_cipher st"
    and "cipher_enc_state st' = (if cipher_enc_state st = CIPHER_INIT then CIPHER_SEQUENCE else cipher_enc_state st)"
    and "buf = [] \<Longrightarrow> n \<le> length x \<and> drop n x = [] \<or> cipher_enc_state st = CIPHER_INIT"
  using assms
  by (cases "cipher_enc_state st"; auto simp: send_msg_def Let_def split_beta parts_keep split: option.splits)+

lemma block_keeps_cipher:
  "send_ib_mesg lw len mem st = Some (l, m, st') \<Longrightarrow> e_cipher st' = e_cipher st"
  "pad_frame n mem st = Some (p, st') \<Longrightarrow> e_cipher st' = e_cipher st"
  by (auto simp: send_ib_mesg_def split: cstate.splits)
    (auto simp: pad_frame_def RAND_bytes_def Let_def split: if_splits)

lemma encrypt_keeps_cipher:
  assumes "encrypt_buf lw lib len buf st = Some (l, b, st')"
  shows "e_cipher st' = e_cipher st"
proof -
  obtain x n st1 where s: "send_msg lib buf st = Some (x, n, st1)"
    and r: "encrypt_rest lw lib len (take n x) (drop n x) st1 = Some (l, b, st')"
    using assms by (auto simp: encrypt_buf_def split: option.splits)
  obtain l2 m st2 where i: "send_ib_mesg lw len (drop n x) st1 = Some (l2, m, st2)"
    using r by (auto simp: encrypt_rest_def split: option.splits)
  have "e_cipher st' = e_cipher st2"
  proof (cases "l2 = 0")
    case True
    then show ?thesis using r i by (auto simp: encrypt_rest_def)
  next
    case False
    then obtain p st3 where "pad_frame (nat l2) m st2 = Some (p, st3)"
      using r i by (auto simp: encrypt_rest_def split: option.splits)
    with r i False block_keeps_cipher(2) [OF this] show ?thesis
      by (auto simp: encrypt_rest_def Let_def split: option.splits if_splits)
  qed
  with block_keeps_cipher(1) [OF i] send_msg_keeps(2) [OF s] show ?thesis by simp
qed

lemma ib_block_lp64:
  "length t = 4 \<Longrightarrow> 4 \<le> length frame \<Longrightarrow> ib_block 8 8 t n frame = ib_block 4 8 t n ([0, 0, 0, 0] @ drop 4 frame)"
  by (auto simp: ib_block_def htonl_store_def tag_def numeral_eq_Suc)

lemma encrypt_lp64:
  assumes "cipher_enc_state st \<noteq> CIPHER_CODE" and "blocksize st = 8" and "4 \<le> length buf"
    and "cipher_enc_state st = CIPHER_INIT \<Longrightarrow> enc_sync 4 lib R st w" and "0 < len"
  shows "encrypt_buf 8 lib len buf st = encrypt_buf 4 lib len ([0, 0, 0, 0] @ drop 4 buf) st"
proof (cases "send_msg lib [] st")
  case None
  then show ?thesis by (simp add: encrypt_buf_def send_msg_append [of lib buf] send_msg_append [of lib "_ # _"])
next
  case (Some z)
  then obtain x n st1 where s: "send_msg lib [] st = Some (x, n, st1)" by (cases z) auto
  have x: "drop n x = [] \<and> n \<le> length x"
  proof (cases "cipher_enc_state st = CIPHER_INIT")
    case True
    from enc_sync_init [OF assms(4) [OF True] True, of "[]"] s show ?thesis by auto
  qed (use send_msg_keeps(4) [OF s] in simp)
  have st1: "blocksize st1 = 8" "cipher_enc_state st1 = CIPHER_SEQUENCE \<or> cipher_enc_state st1 = CIPHER_REQ_INIT"
    using send_msg_keeps(1,3) [OF s] assms(1,2) by (cases "cipher_enc_state st"; simp)+
  have "send_ib_mesg 8 len buf st1 = send_ib_mesg 4 len ([0, 0, 0, 0] @ drop 4 buf) st1"
    using st1 assms(3) by (auto simp: send_ib_mesg_def ib_block_lp64)
  moreover have "l \<noteq> 0" if "send_ib_mesg 4 len y st1 = Some (l, y', st2)" for l y y' st2
    using st1 that assms(5) by (auto simp: send_ib_mesg_def)
  ultimately show ?thesis using x
    by (auto simp: encrypt_buf_def encrypt_rest_def send_msg_append [of lib buf] send_msg_append [of lib "_ # _"] s split: option.split)
qed

text \<open>One frame of a chained Blowfish session, on hosts with an \<open>unsigned long\<close> of eight bytes.\<close>

definition cleared :: "byte list \<Rightarrow> byte list" where
  "cleared p = [0, 0, 0, 0] @ drop 4 p"

lemma calm_cipher: "enc_calm lw lib R v w \<Longrightarrow> e_cipher w = e_cipher v"
  unfolding enc_calm_def enc_sync_def enc_linked_def by blast

lemma lp64_pass:
  assumes s: "enc_calm 4 lib R v w" and c: "chained_cipher (e_cipher v) = Some (BLOWFISH, m, vk)"
    and p: "4 \<le> length p" "length p \<le> 2080" "16 \<le> length slack"
  shows "\<exists>v' w'. pass_frame 8 lib slack junk p v w = Some (cleared p, v', w') \<and> enc_calm 4 lib R v' w'
    \<and> e_cipher v' = e_cipher v"
proof -
  have sy: "enc_sync 4 lib R v w" using s by (simp add: enc_calm_def)
  then have "enc_conf lib v" by (simp add: enc_sync_def enc_linked_def)
  moreover obtain bs ks where "cipher_params (e_cipher v) = (bs, ks, vk, True, BLOWFISH)"
    using chained_cipher_alg [OF c] by blast
  ultimately have b: "blocksize v = 8"
    using cipher_params_block [of "e_cipher v"] by (auto simp: enc_conf_def alg_block_def)
  have pn: "p \<noteq> []" using p(1) by auto
  have st: "cipher_enc_state v \<noteq> CIPHER_CODE" using sy c by (simp add: enc_sync_def)
  have l: "length (cleared p) = length p" "cleared p \<noteq> []" using p(1) by (simp_all add: cleared_def)
  have e: "encrypt_buf 8 lib (int (length p)) (p @ slack) v = encrypt_buf 4 lib (int (length (cleared p))) (cleared p @ slack) v"
    using encrypt_lp64 [OF st b _ sy, of "p @ slack" "int (length p)"] p(1) pn l by (simp add: cleared_def)
  from enc_calm_pass [OF s l(2) _ p(3), of junk] p(2) l(1) obtain v' w' where
    f: "pass_frame 4 lib slack junk (cleared p) v w = Some (cleared p, v', w')" "enc_calm 4 lib R v' w'" by auto
  have "e_cipher v' = e_cipher v"
    using f(1) encrypt_keeps_cipher by (fastforce simp: pass_frame_def split: option.splits prod.splits)
  moreover have "pass_frame 8 lib slack junk p v w = Some (cleared p, v', w')"
    using f(1) e l(1) by (simp add: pass_frame_def)
  ultimately show ?thesis using f(2) by blast
qed

lemma lp64_converse:
  "enc_calm 4 lib R v w \<Longrightarrow> chained_cipher (e_cipher v) = Some (BLOWFISH, m, vk) \<Longrightarrow> 16 \<le> length slack
    \<Longrightarrow> \<forall>(dir, p)\<in>set ps. 4 \<le> length p \<and> length p \<le> 2080
    \<Longrightarrow> converse_frames 8 lib slack junk ps v w = Some (map (cleared \<circ> snd) ps)"
proof (induction ps arbitrary: v w)
  case (Cons a ps)
  obtain dir p where a: "a = (dir, p)" by (cases a)
  then have p: "4 \<le> length p" "length p \<le> 2080" using Cons.prems by auto
  have ew: "e_cipher w = e_cipher v" by (rule calm_cipher [OF Cons.prems(1)])
  show ?case
  proof (cases dir)
    case True
    from lp64_pass [OF Cons.prems(1,2) p Cons.prems(3), of junk] obtain v' w' where
      "pass_frame 8 lib slack junk p v w = Some (cleared p, v', w')" "enc_calm 4 lib R v' w'" "e_cipher v' = e_cipher v" by blast
    with Cons.IH [of v' w'] Cons.prems True show ?thesis by (simp add: a)
  next
    case False
    from lp64_pass [OF enc_calm_sym [OF Cons.prems(1)] _ p Cons.prems(3), of m vk junk] Cons.prems(2) ew obtain w' v' where
      f: "pass_frame 8 lib slack junk p w v = Some (cleared p, w', v')" "enc_calm 4 lib R w' v'" "e_cipher w' = e_cipher w" by auto
    moreover have "e_cipher v' = e_cipher w'" by (rule calm_cipher [OF f(2)])
    ultimately show ?thesis using Cons.IH [of v' w'] Cons.prems False enc_calm_sym [OF f(2)] ew by (simp add: a)
  qed
qed simp
subsection \<open>Properties\<close>

text \<open>
  C2. An encrypted session works in both directions: after both ends are set up with the same
  cipher and password, every frame of every conversation arrives as it was sent, whatever the random bytes are
  and whatever lies behind the frames. The frames are those the linker hands over, of 1 to 2080 bytes with 16 bytes of room behind
  them. \<open>lw\<close> is the size of \<open>unsigned long\<close>: with four bytes this holds for each of the sixteen ciphers, with eight for
  all but the six chained ones of Blowfish, whose blocks are too short for the store of the sequence number (\<open>lw_ok\<close>).
\<close>

theorem encrypted_conversation:
  assumes "evp_ok lib R" and "malloc_ok m1" and "malloc_ok m2"
    and "alloc_encrypt m1 True lib h1 s1 = Some (0, v)"
    and "alloc_encrypt m2 True lib h2 s2 = Some (0, w)"
    and "cipher h1 = cipher h2" and "vh_passwd h1 = vh_passwd h2"
    and "chained_cipher (cipher h1) \<noteq> None \<longrightarrow> lw_ok lw (fst (cipher_params (cipher h1)))"
    and "\<forall>(dir, p)\<in>set ps. p \<noteq> [] \<and> length p \<le> 2080" and "16 \<le> length slack"
  shows "converse_frames lw lib slack junk ps v w = Some (map snd ps)"
  using enc_calm_converse [OF alloc_encrypt_calm [OF assms(1-8)] assms(10,9)] .

text \<open>
  C9. An end that is thrown out of step finds back. A frame it cannot make sense of is dropped;
  its next own frame carries a request, is delivered, and makes the peer start over; the peer's
  next frame is delivered, and both directions are in step again.
\<close>

theorem encrypt_resync:
  assumes ab: "enc_sync lw lib R a b" and ba: "chained_cipher (e_cipher b) \<noteq> None"
    and st: "cipher_enc_state a = CIPHER_SEQUENCE" "cipher_dec_state a = CIPHER_SEQUENCE"
      "cipher_enc_state b = CIPHER_SEQUENCE"
    and f: "ctx_dec a = Some d" "evp_update lib d f = (x, d')" "f \<noteq> []" "length x \<le> length (dec_buf a)"
    and bad: "take 4 (x @ drop (length x) (dec_buf a)) \<notin> {tag ''seq#'', tag ''rsyn''}"
    and p: "p \<noteq> []" "length p \<le> 2080" and q: "q \<noteq> []" "length q \<le> 2080" and sl: "16 \<le> length slack"
  shows "\<exists>a1. decrypt_buf lib (int (length f)) f a = Some (0, f, a1)
    \<and> (\<exists>a2 b2. pass_frame lw lib slack junk p a1 b = Some (p, a2, b2)
        \<and> (\<exists>b3 a3. pass_frame lw lib slack junk q b2 a2 = Some (q, b3, a3)
            \<and> enc_sync lw lib R b3 a3 \<and> enc_sync lw lib R a3 b3))"
proof -
  have pass: "\<exists>v' w'. pass_frame lw lib slack junk p v w = Some (p, v', w') \<and> enc_sync lw lib R v' w'
      \<and> cipher_dec_state v' = cipher_dec_state v \<and> ctx_dec v' = ctx_dec v \<and> e_cipher v' = e_cipher v
      \<and> other_way (cipher_enc_state v) w w'"
    if s: "enc_sync lw lib R v w" and p: "p \<noteq> []" "length p \<le> 2080" for v w p
  proof -
    have "0 < length p" "length p + 16 \<le> length (p @ slack)" using p(1) sl by simp_all
    from enc_sync_frame [OF s this(1) p(2) this(2)] obtain len b v' where
      e: "encrypt_buf lw lib (int (length p)) (p @ slack) v = Some (int len, b, v')" "len \<le> length p + 64"
        "length b = length (enc_buf v)" "cipher_dec_state v' = cipher_dec_state v" "ctx_dec v' = ctx_dec v"
        "e_cipher v' = e_cipher v"
      and d: "\<And>got. take len got = take len b \<Longrightarrow>
         \<exists>ret w'. decrypt_buf lib (int len) got w = Some (int (length p), ret, w')
            \<and> take (length p) ret = take (length p) (p @ slack) \<and> enc_sync lw lib R v' w'
            \<and> other_way (cipher_enc_state v) w w'" by blast
    have "2240 \<le> length b" unfolding e(3)
      using s by (auto simp: enc_sync_def enc_linked_def enc_conf_def split: prod.splits)
    then have "take len (take len b @ junk) = take len b" using e(2) p(2) by simp
    from d [OF this] e show ?thesis by (auto simp: pass_frame_def)
  qed
  let ?a1 = "a\<lparr>ctx_dec := None, dec_buf := x @ drop (length x) (dec_buf a),
      cipher_dec_state := CIPHER_INIT, cipher_enc_state := CIPHER_REQ_INIT\<rparr>"
  have "decrypt_buf lib (int (length f)) f a = Some (0, f, ?a1)"
    using st f bad by (auto simp: decrypt_buf_def recv_msg_def decrypt_rest_def evp_call_def Let_def recv_ib_mesg_def)
  moreover have "enc_sync lw lib R ?a1 b"
    using ab st f(4) by (auto simp: enc_sync_def enc_linked_def enc_conf_def sent_def split: prod.splits)
  from pass [OF this p] obtain a2 b2 where
    ab2: "pass_frame lw lib slack junk p ?a1 b = Some (p, a2, b2)" "enc_sync lw lib R a2 b2"
      "cipher_dec_state a2 = CIPHER_INIT" "e_cipher a2 = e_cipher a"
      "other_way CIPHER_REQ_INIT b b2" by auto
  then have "cipher_enc_state b2 = CIPHER_INIT" using st(3) by (auto simp: other_way_def heard_def)
  moreover have "chained_cipher (e_cipher b2) \<noteq> None"
    using ba ab ab2(2,4) by (auto simp: enc_sync_def enc_linked_def)
  ultimately have s2: "enc_sync lw lib R b2 a2"
    using enc_linked_sym [OF enc_sync_linked [OF ab2(2)]] ab2(3) by (auto simp: enc_sync_def)
  from pass [OF s2 q] \<open>cipher_enc_state b2 = CIPHER_INIT\<close> obtain b3 a3 where
    ba3: "pass_frame lw lib slack junk q b2 a2 = Some (q, b3, a3)" "enc_sync lw lib R b3 a3"
      "cipher_dec_state b3 = cipher_dec_state b2" "ctx_dec b3 = ctx_dec b2" "e_cipher b3 = e_cipher b2"
      "other_way CIPHER_INIT a2 a3" by auto
  have a3: "cipher_enc_state a3 = cipher_enc_state a2" "ctx_enc a3 = ctx_enc a2"
    using ba3(6) by (auto simp: other_way_def heard_def)
  have ec: "e_cipher a3 = e_cipher a2"
    using ba3(2,5) ab2(2) by (auto simp: enc_sync_def enc_linked_def)
  have "enc_sync lw lib R a3 b3"
    using enc_sync_transfer [OF ab2(2) enc_linked_sym [OF enc_sync_linked [OF ba3(2)]] ec a3 ba3(3,4)] .
  with \<open>decrypt_buf lib (int (length f)) f a = Some (0, f, ?a1)\<close> ab2(1) ba3(1,2) show ?thesis by blast
qed

text \<open>
  A chained encryptor that has not sent anything yet can be made to use its encryption context
  before it is initialised: one frame without a vector is counted as gibberish, the encoder goes
  to \<open>CIPHER_REQ_INIT\<close> and asks the linker to send at once, and the next \<open>encrypt_buf\<close> calls
  \<open>EVP_EncryptUpdate\<close> on a context that was never set up.
\<close>

theorem encrypt_uninitialised_context:
  assumes "cipher_enc_state st = CIPHER_INIT" and "cipher_dec_state st = CIPHER_INIT"
    and "ctx_enc st = None" and "gibberish st = 0" and "ctx_dec_ecb st = Some d"
    and "blocksize st = 8 \<or> blocksize st = 16" and "2 * blocksize st \<le> length buf"
    and "take 4 (fst (evp_update lib d (take (2 * blocksize st) buf))
           @ drop (length (fst (evp_update lib d (take (2 * blocksize st) buf)))) (take (2 * blocksize st) buf))
         \<noteq> tag ''ivec''"
  shows "\<exists>ret st'. decrypt_buf lib len buf st = Some (0, ret, st') \<and> send_a_packet st'
    \<and> (\<forall>lw n mem. 0 < n \<longrightarrow> encrypt_buf lw lib n mem st' = None)"
proof -
  obtain out c where u: "evp_update lib d (take (2 * blocksize st) buf) = (out, c)" by fastforce
  let ?st' = "st\<lparr>ctx_dec_ecb := Some c, gibberish := 1, gib_time_start := e_now st,
      cipher_enc_state := CIPHER_REQ_INIT, send_a_packet := True\<rparr>"
  have "decrypt_buf lib len buf st
      = Some (0, replicate (2 * blocksize st) 0 @ drop (2 * blocksize st) buf, ?st')"
    using assms u
    by (simp add: decrypt_buf_def recv_msg_def evp_call_def Let_def recv_gibberish_def decrypt_rest_def)
  moreover have "encrypt_buf lw lib n mem ?st' = None" if "0 < n" for lw n mem
    using assms(3) that
    by (auto simp: encrypt_buf_def send_msg_def encrypt_rest_def send_ib_mesg_def evp_call_def
        pad_frame_def RAND_bytes_def Let_def split: option.splits)
  ultimately show ?thesis by auto
qed

text \<open>
  C37. On hosts where \<open>unsigned long\<close> has eight bytes, a session with one of the six chained Blowfish ciphers damages
  every frame: set up as in the session above, both ends run on without an error, and each frame of each conversation, the
  first one included, arrives with its first four bytes cleared. The block in front of the frame has eight
  bytes, and the store of the sequence number, behind a tag of four, reaches four bytes into the frame.
\<close>

theorem lp64_store_hits_frame:
  assumes "evp_ok lib R" and "malloc_ok m1" and "malloc_ok m2"
    and "alloc_encrypt m1 True lib h1 s1 = Some (0, v)"
    and "alloc_encrypt m2 True lib h2 s2 = Some (0, w)"
    and "cipher h1 = cipher h2" and "vh_passwd h1 = vh_passwd h2" and "cipher h1 \<in> {2, 3, 4, 6, 7, 8}"
    and "\<forall>(dir, p)\<in>set ps. 4 \<le> length p \<and> length p \<le> 2080" and "16 \<le> length slack"
  shows "converse_frames 8 lib slack junk ps v w = Some (map (\<lambda>(dir, p). [0, 0, 0, 0] @ drop 4 p) ps)"
proof -
  obtain m vk where c: "chained_cipher (cipher h1) = Some (BLOWFISH, m, vk)"
    using assms(8) by (auto simp: chained_cipher_def)
  have lw: "chained_cipher (cipher h1) \<noteq> None \<longrightarrow> lw_ok 4 (fst (cipher_params (cipher h1)))"
    using assms(8) by (auto simp: lw_ok_def cipher_params_def)
  have e: "chained_cipher (e_cipher v) = Some (BLOWFISH, m, vk)"
    using c alloc_encrypt_conf [OF assms(2,4)] by simp
  show ?thesis
    using lp64_converse [OF alloc_encrypt_calm [OF assms(1-7) lw] e assms(10,9), of junk]
    by (simp add: comp_def cleared_def case_prod_beta)
qed

subsection \<open>The properties at work\<close>

text \<open>A library whose ciphers do nothing.\<close>

definition null_lib :: "unit evp_lib" where
  "null_lib = \<lparr>evp_enc_init = (\<lambda>_ _ _ _ _. ()), evp_dec_init = (\<lambda>_ _ _ _ _. ()),
     evp_update = (\<lambda>c x. (x, c)), md5 = (\<lambda>_. replicate 16 1)\<rparr>"

definition ex_encst :: "unit encst" where
  "ex_encst = \<lparr>send_a_packet = False, enc_buf = [], dec_buf = [], gibberish = 0, gib_time_start = 0,
     cipher_enc_state = CIPHER_INIT, cipher_dec_state = CIPHER_INIT, e_cipher = 0, blocksize = 0,
     keysize = 0, enc_init_first_time = False, dec_init_first_time = False, sequence_num = 0,
     pkey = [], ctx_enc = None, ctx_dec = None, ctx_enc_ecb = None, ctx_dec_ecb = None,
     e_rand = (\<lambda>i. of_nat (i + 1)), e_now = 100\<rparr>"

definition ex_malloc :: "nat \<Rightarrow> byte list option" where
  "ex_malloc n = Some (replicate n 0)"

definition ex_enc_host :: vtun_host where
  "ex_enc_host = default_host\<lparr>cipher := 10, vh_passwd := Some ''secret''\<rparr>"

lemma null_lib_ok: "evp_ok null_lib (\<lambda>_ _ _. True)"
  by (simp add: evp_ok_def null_lib_def)

lemma ex_malloc_ok: "malloc_ok ex_malloc"
  by (auto simp: malloc_ok_def ex_malloc_def)

definition ex_end :: "unit encst" where
  "ex_end = snd (the (alloc_encrypt ex_malloc True null_lib ex_enc_host ex_encst))"

lemma ex_end: "alloc_encrypt ex_malloc True null_lib ex_enc_host ex_encst = Some (0, ex_end)"
  by (simp add: ex_end_def alloc_encrypt_def ex_enc_host_def ex_malloc_def lfd_alloc_def RAND_bytes_def
      cipher_params_def prep_key_def null_lib_def Let_def)

lemma encrypted_conversation_witness:
  "converse_frames 8 null_lib (replicate 16 0) [9, 9]
     [(True, [1, 2, 3]), (False, [4]), (True, replicate 16 5)] ex_end ex_end
   = Some (map snd [(True, [1, 2, 3]), (False, [4]), (True, replicate 16 5)])"
  by (rule encrypted_conversation [OF null_lib_ok ex_malloc_ok ex_malloc_ok ex_end ex_end])
    (simp_all add: ex_enc_host_def cipher_params_def lw_ok_def)

lemma tag_sevens: "[7, 7, 7, 7] \<noteq> tag ''seq#''" "[7, 7, 7, 7] \<noteq> tag ''rsyn''" "[7, 7, 7, 7] \<noteq> tag ''ivec''"
  by (simp_all add: tag_def)

lemma take_sevens: "4 \<le> k \<Longrightarrow> take 4 (replicate k 7 @ t) = [7, 7, 7, (7 :: byte)]"
  by (simp add: numeral_eq_Suc min_def)

text \<open>Two ends in the middle of a session.\<close>

definition ex_mid :: "unit encst" where
  "ex_mid = ex_end\<lparr>cipher_enc_state := CIPHER_SEQUENCE, cipher_dec_state := CIPHER_SEQUENCE,
     ctx_enc := Some (), ctx_dec := Some ()\<rparr>"

lemma ex_mid_sync: "enc_sync 8 null_lib (\<lambda>_ _ _. True) ex_mid ex_mid"
proof -
  have "enc_calm 8 null_lib (\<lambda>_ _ _. True) ex_end ex_end"
    by (rule alloc_encrypt_calm [OF null_lib_ok ex_malloc_ok ex_malloc_ok ex_end ex_end])
      (simp_all add: ex_enc_host_def cipher_params_def lw_ok_def)
  then have "enc_linked 8 null_lib (\<lambda>_ _ _. True) ex_end ex_end" by (simp add: enc_calm_def enc_sync_def)
  moreover have "e_cipher ex_end = 10" using alloc_encrypt_conf [OF ex_malloc_ok ex_end] by (simp add: ex_enc_host_def)
  ultimately show ?thesis
    by (simp add: enc_sync_def enc_linked_def enc_conf_def ex_mid_def sent_def chained_cipher_def)
qed

lemma encrypt_resync_witness:
  "\<exists>a1. decrypt_buf null_lib (int (length (replicate 16 (7 :: byte)))) (replicate 16 7) ex_mid
        = Some (0, replicate 16 7, a1)
    \<and> (\<exists>a2 b2. pass_frame 8 null_lib (replicate 16 0) [] [1, 2] a1 ex_mid = Some ([1, 2], a2, b2)
        \<and> (\<exists>b3 a3. pass_frame 8 null_lib (replicate 16 0) [] [3] b2 a2 = Some ([3], b3, a3)
            \<and> enc_sync 8 null_lib (\<lambda>_ _ _. True) b3 a3 \<and> enc_sync 8 null_lib (\<lambda>_ _ _. True) a3 b3))"
proof (rule encrypt_resync [OF ex_mid_sync])
  have "enc_conf null_lib ex_mid" using ex_mid_sync by (simp add: enc_sync_def enc_linked_def)
  then show "length (replicate 16 (7 :: byte)) \<le> length (dec_buf ex_mid)"
    by (auto simp: enc_conf_def split: prod.splits)
  have "e_cipher ex_end = 10" using alloc_encrypt_conf [OF ex_malloc_ok ex_end] by (simp add: ex_enc_host_def)
  then show "chained_cipher (e_cipher ex_mid) \<noteq> None" by (simp add: ex_mid_def chained_cipher_def)
  show "take 4 (replicate 16 7 @ drop (length (replicate 16 7)) (dec_buf ex_mid)) \<notin> {tag ''seq#'', tag ''rsyn''}"
    by (simp add: take_sevens tag_sevens del: take_append)
qed (simp_all add: ex_mid_def null_lib_def)

lemma encrypt_uninitialised_context_witness:
  "\<exists>ret st'. decrypt_buf null_lib 32 (replicate 40 7) (ex_encst\<lparr>blocksize := 16, ctx_dec_ecb := Some ()\<rparr>)
      = Some (0, ret, st') \<and> send_a_packet st'
    \<and> (\<forall>lw n mem. 0 < n \<longrightarrow> encrypt_buf lw null_lib n mem st' = None)"
proof (rule encrypt_uninitialised_context [where d = "()"])
  show "take 4 (fst (evp_update null_lib () (take (2 * blocksize (ex_encst\<lparr>blocksize := 16, ctx_dec_ecb := Some ()\<rparr>)) (replicate 40 7)))
      @ drop (length (fst (evp_update null_lib () (take (2 * blocksize (ex_encst\<lparr>blocksize := 16, ctx_dec_ecb := Some ()\<rparr>)) (replicate 40 7)))))
          (take (2 * blocksize (ex_encst\<lparr>blocksize := 16, ctx_dec_ecb := Some ()\<rparr>)) (replicate 40 7)))
      \<noteq> tag ''ivec''"
    using take_sevens [of 32 "[]"] by (simp add: null_lib_def tag_sevens)
qed (simp_all add: ex_encst_def)

definition ex_bf_host :: vtun_host where
  "ex_bf_host = ex_enc_host\<lparr>cipher := 4\<rparr>"

definition ex_bf_end :: "unit encst" where
  "ex_bf_end = snd (the (alloc_encrypt ex_malloc True null_lib ex_bf_host ex_encst))"

lemma ex_bf_end: "alloc_encrypt ex_malloc True null_lib ex_bf_host ex_encst = Some (0, ex_bf_end)"
  by (simp add: ex_bf_end_def alloc_encrypt_def ex_bf_host_def ex_enc_host_def ex_malloc_def lfd_alloc_def RAND_bytes_def
      cipher_params_def prep_key_def null_lib_def Let_def)

lemma lp64_store_hits_frame_witness:
  "converse_frames 8 null_lib (replicate 16 0) [] [(True, [69, 0, 0, 84, 1]), (False, [1, 2, 3, 4])] ex_bf_end ex_bf_end
    = Some [[0, 0, 0, 0, 1], [0, 0, 0, 0]]"
  using lp64_store_hits_frame [OF null_lib_ok ex_malloc_ok ex_malloc_ok ex_bf_end ex_bf_end,
      of "[(True, [69, 0, 0, 84, 1]), (False, [1, 2, 3, 4])]" "replicate 16 0" "[]"]
  by (simp add: ex_bf_host_def)

end
