(* ===== verification/LfdStack.thy ===== *)
theory LfdStack
  imports LfdLegacy LfdShaper LfdCompress EncryptSession
begin

section \<open>The modules of the program and their stack (\<open>linkfd.c\<close>: \<open>linkfd\<close>)\<close>

text \<open>
  The five \<open>struct lfd_mod\<close> values, each over the static variables of its file, and the stack
  that \<open>linkfd\<close> builds from the host's options. The libraries the modules call are gathered in
  one record of parameters; \<open>l_built\<close> says which modules the build has (\<open>HAVE_SSL\<close>, \<open>HAVE_ZLIB\<close>, \<open>HAVE_LZO\<close>,
  \<open>HAVE_SHAPER\<close>).
\<close>

datatype ('z, 'c) cell =
  C_zlib "'z zlib" | C_lzo lzo | C_enc "'c encst" | C_legacy legacy | C_shaper shaper

record ('z, 'c) libs =
  l_malloc :: "nat \<Rightarrow> byte list option"
  l_realloc :: "byte list \<Rightarrow> nat \<Rightarrow> byte list option"
  l_hash_mem :: bool
  l_lw :: nat
  l_bf_key :: "string \<Rightarrow> block_fun \<times> block_fun"
  l_zlib :: "'z zlib_lib"
  l_lzo :: lzo_lib
  l_evp :: "'c evp_lib"
  l_built :: "lfd_id \<Rightarrow> bool"

subsection \<open>The module structures\<close>

definition lfd_zlib_mod :: "('z, 'c) libs \<Rightarrow> 'z zlib lfd_mod" where
  "lfd_zlib_mod L = \<lparr>m_alloc = Some (zlib_alloc (l_malloc L) (l_zlib L)),
     m_encode = Some (zlib_comp (l_realloc L) (l_zlib L)), m_avail_encode = None,
     m_decode = Some (zlib_decomp (l_realloc L) (l_zlib L)), m_avail_decode = None,
     m_free = Some zlib_free\<rparr>"

definition lfd_lzo_mod :: "('z, 'c) libs \<Rightarrow> lzo lfd_mod" where
  "lfd_lzo_mod L = \<lparr>m_alloc = Some (alloc_lzo (l_malloc L) (l_lzo L)),
     m_encode = Some comp_lzo, m_avail_encode = None,
     m_decode = Some (decomp_lzo (l_lzo L)), m_avail_decode = None,
     m_free = Some free_lzo\<rparr>"

definition lfd_encrypt_mod :: "('z, 'c) libs \<Rightarrow> 'c encst lfd_mod" where
  "lfd_encrypt_mod L = \<lparr>m_alloc = Some (alloc_encrypt (l_malloc L) (l_hash_mem L) (l_evp L)),
     m_encode = Some (encrypt_buf (l_lw L) (l_evp L)), m_avail_encode = None,
     m_decode = Some (decrypt_buf (l_evp L)), m_avail_decode = None,
     m_free = Some free_encrypt\<rparr>"

definition lfd_legacy_mod :: "('z, 'c) libs \<Rightarrow> legacy lfd_mod" where
  "lfd_legacy_mod L = \<lparr>m_alloc = Some (alloc_legacy_encrypt (l_malloc L) (l_bf_key L)),
     m_encode = Some legacy_encrypt_buf, m_avail_encode = None,
     m_decode = Some legacy_decrypt_buf, m_avail_decode = None,
     m_free = Some free_legacy_encrypt\<rparr>"

definition lfd_shaper_mod :: "shaper lfd_mod" where
  "lfd_shaper_mod = \<lparr>m_alloc = Some shaper_init,
     m_encode = Some shaper_counter, m_avail_encode = Some shaper_avail,
     m_decode = None, m_avail_decode = None, m_free = None\<rparr>"

text \<open>The modules that are not part of a build refuse to be allocated.\<close>

definition no_encrypt :: "vtun_host \<Rightarrow> 'v \<Rightarrow> (int \<times> 'v) option" where "no_encrypt host v = Some (- 1, v)"
definition no_legacy_encrypt :: "vtun_host \<Rightarrow> 'v \<Rightarrow> (int \<times> 'v) option" where "no_legacy_encrypt host v = Some (- 1, v)"
definition no_lzo :: "vtun_host \<Rightarrow> 'v \<Rightarrow> (int \<times> 'v) option" where "no_lzo host v = Some (- 1, v)"
definition no_zlib :: "vtun_host \<Rightarrow> 'v \<Rightarrow> (int \<times> 'v) option" where "no_zlib host v = Some (- 1, v)"
definition no_shaper :: "vtun_host \<Rightarrow> 'v \<Rightarrow> (int \<times> 'v) option" where "no_shaper host v = Some (- 1, v)"

definition only_alloc :: "(vtun_host \<Rightarrow> 'v \<Rightarrow> (int \<times> 'v) option) \<Rightarrow> 'v lfd_mod" where
  "only_alloc f = \<lparr>m_alloc = Some f, m_encode = None, m_avail_encode = None, m_decode = None, m_avail_decode = None,
     m_free = None\<rparr>"

definition lfd_encrypt_none :: "'v lfd_mod" where "lfd_encrypt_none = only_alloc no_encrypt"
definition lfd_legacy_none :: "'v lfd_mod" where "lfd_legacy_none = only_alloc no_legacy_encrypt"
definition lfd_lzo_none :: "'v lfd_mod" where "lfd_lzo_none = only_alloc no_lzo"
definition lfd_zlib_none :: "'v lfd_mod" where "lfd_zlib_none = only_alloc no_zlib"
definition lfd_shaper_none :: "'v lfd_mod" where "lfd_shaper_none = only_alloc no_shaper"

text \<open>A module that works on its own variables, as a module that works on a cell.\<close>

definition on_cell :: "('s \<Rightarrow> 'v) \<Rightarrow> ('v \<Rightarrow> 's option) \<Rightarrow> 's lfd_mod \<Rightarrow> 'v lfd_mod" where
  "on_cell put get m =
     \<lparr>m_alloc = map_option (\<lambda>f h v. case get v of None \<Rightarrow> None
          | Some s \<Rightarrow> map_option (\<lambda>(r, s'). (r, put s')) (f h s)) (m_alloc m),
      m_encode = map_option (\<lambda>f len buf v. case get v of None \<Rightarrow> None
          | Some s \<Rightarrow> map_option (\<lambda>(l, b, s'). (l, b, put s')) (f len buf s)) (m_encode m),
      m_avail_encode = map_option (\<lambda>f v. case get v of None \<Rightarrow> (1, v)
          | Some s \<Rightarrow> (case f s of (r, s') \<Rightarrow> (r, put s'))) (m_avail_encode m),
      m_decode = map_option (\<lambda>f len buf v. case get v of None \<Rightarrow> None
          | Some s \<Rightarrow> map_option (\<lambda>(l, b, s'). (l, b, put s')) (f len buf s)) (m_decode m),
      m_avail_decode = map_option (\<lambda>f v. case get v of None \<Rightarrow> (1, v)
          | Some s \<Rightarrow> (case f s of (r, s') \<Rightarrow> (r, put s'))) (m_avail_decode m),
      m_free = map_option (\<lambda>f v. case get v of None \<Rightarrow> (0, v)
          | Some s \<Rightarrow> (case f s of (r, s') \<Rightarrow> (r, put s'))) (m_free m)\<rparr>"

definition get_zlib :: "('z, 'c) cell \<Rightarrow> 'z zlib option" where
  "get_zlib v = (case v of C_zlib s \<Rightarrow> Some s | _ \<Rightarrow> None)"
definition get_lzo :: "('z, 'c) cell \<Rightarrow> lzo option" where
  "get_lzo v = (case v of C_lzo s \<Rightarrow> Some s | _ \<Rightarrow> None)"
definition get_enc :: "('z, 'c) cell \<Rightarrow> 'c encst option" where
  "get_enc v = (case v of C_enc s \<Rightarrow> Some s | _ \<Rightarrow> None)"
definition get_legacy :: "('z, 'c) cell \<Rightarrow> legacy option" where
  "get_legacy v = (case v of C_legacy s \<Rightarrow> Some s | _ \<Rightarrow> None)"
definition get_shaper :: "('z, 'c) cell \<Rightarrow> shaper option" where
  "get_shaper v = (case v of C_shaper s \<Rightarrow> Some s | _ \<Rightarrow> None)"

definition lfd_mods :: "('z, 'c) libs \<Rightarrow> ('z, 'c) cell mods" where
  "lfd_mods L m =
     (case m of
        Lfd_zlib \<Rightarrow> if l_built L m then on_cell C_zlib get_zlib (lfd_zlib_mod L) else lfd_zlib_none
      | Lfd_lzo \<Rightarrow> if l_built L m then on_cell C_lzo get_lzo (lfd_lzo_mod L) else lfd_lzo_none
      | Lfd_encrypt \<Rightarrow> if l_built L m then on_cell C_enc get_enc (lfd_encrypt_mod L) else lfd_encrypt_none
      | Lfd_legacy_encrypt \<Rightarrow> if l_built L m then on_cell C_legacy get_legacy (lfd_legacy_mod L) else lfd_legacy_none
      | Lfd_shaper \<Rightarrow> if l_built L m then on_cell C_shaper get_shaper lfd_shaper_mod else lfd_shaper_none)"

lemmas none_defs = lfd_zlib_none_def lfd_lzo_none_def lfd_encrypt_none_def lfd_legacy_none_def lfd_shaper_none_def
  only_alloc_def

lemma not_built:
  "\<not> l_built L m \<Longrightarrow> \<exists>f. m_alloc (lfd_mods L m) = Some f \<and> (\<forall>h v. f h v = Some (- 1, v))"
  by (cases m) (simp_all add: lfd_mods_def none_defs no_zlib_def no_lzo_def no_encrypt_def no_legacy_encrypt_def no_shaper_def)

subsection \<open>Building the stack\<close>

definition add_if :: "bool \<Rightarrow> lfd_id \<Rightarrow> mod_list option \<Rightarrow> mod_list option" where
  "add_if c m l = (case l of None \<Rightarrow> None | Some l' \<Rightarrow> if c then lfd_add_mod m l' else Some l')"

definition build_mods :: "vtun_host \<Rightarrow> mod_list \<Rightarrow> mod_list option" where
  "build_mods h l =
     add_if (has_flag h VTUN_SHAPE) Lfd_shaper
       (add_if (has_flag h VTUN_ENCRYPT)
          (if cipher h = VTUN_LEGACY_ENCRYPT then Lfd_legacy_encrypt else Lfd_encrypt)
          (add_if (has_flag h VTUN_LZO) Lfd_lzo
             (add_if (has_flag h VTUN_ZLIB) Lfd_zlib (Some l))))"

text \<open>The modules of a host, first the one next to the device.\<close>

definition codecs_of :: "vtun_host \<Rightarrow> lfd_id list" where
  "codecs_of h = (if has_flag h VTUN_ZLIB then [Lfd_zlib] else [])
     @ (if has_flag h VTUN_LZO then [Lfd_lzo] else [])
     @ (if has_flag h VTUN_ENCRYPT
        then [if cipher h = VTUN_LEGACY_ENCRYPT then Lfd_legacy_encrypt else Lfd_encrypt] else [])"

definition modules_of :: "vtun_host \<Rightarrow> lfd_id list" where
  "modules_of h = codecs_of h @ (if has_flag h VTUN_SHAPE then [Lfd_shaper] else [])"

lemma add_if_repr:
  assumes "case l of None \<Rightarrow> False | Some l' \<Rightarrow> mods_repr l' ms" and "c \<longrightarrow> m \<notin> set ms"
  shows "case add_if c m l of None \<Rightarrow> False | Some l' \<Rightarrow> mods_repr l' (ms @ (if c then [m] else []))"
  using assms lfd_add_mod_repr [of _ ms m] by (cases l) (fastforce simp: add_if_def split: option.splits)+

lemma build_mods_repr:
  assumes "mods_repr l []"
  shows "\<exists>l'. build_mods h l = Some l' \<and> mods_repr l' (modules_of h)"
proof -
  let ?e = "if cipher h = VTUN_LEGACY_ENCRYPT then Lfd_legacy_encrypt else Lfd_encrypt"
  from assms have 0: "case Some l of None \<Rightarrow> False | Some l' \<Rightarrow> mods_repr l' []" by simp
  note 1 = add_if_repr [OF 0, of "has_flag h VTUN_ZLIB" Lfd_zlib, simplified]
  note 2 = add_if_repr [OF 1, of "has_flag h VTUN_LZO" Lfd_lzo]
  note 3 = add_if_repr [OF 2, of "has_flag h VTUN_ENCRYPT" ?e]
  note 4 = add_if_repr [OF 3, of "has_flag h VTUN_SHAPE" Lfd_shaper]
  show ?thesis
    using 4 by (auto simp: build_mods_def modules_of_def codecs_of_def split: option.splits if_splits)
qed

lemma distinct_modules_of: "distinct (modules_of h)"
  by (simp add: modules_of_def codecs_of_def)

subsection \<open>The modules carry frames\<close>

text \<open>
  Both ends of a module in step, per module: it is built, and the relations of the module theories hold.
  \<open>Rz\<close> and \<open>Re\<close> relate the zlib streams and the OpenSSL contexts of the two ends.
\<close>

definition stack_sync :: "('z, 'c) libs \<Rightarrow> ('z \<Rightarrow> 'z \<Rightarrow> bool) \<Rightarrow> (nat \<Rightarrow> 'c \<Rightarrow> 'c \<Rightarrow> bool) \<Rightarrow> lfd_id
    \<Rightarrow> ('z, 'c) cell \<Rightarrow> ('z, 'c) cell \<Rightarrow> bool" where
  "stack_sync L Rz Re m v w =
     (l_built L m \<and> (case m of
        Lfd_zlib \<Rightarrow> (\<exists>a b. v = C_zlib a \<and> w = C_zlib b \<and> zlib_sync (l_zlib L) Rz a b)
      | Lfd_lzo \<Rightarrow> (\<exists>a b. v = C_lzo a \<and> w = C_lzo b \<and> lzo_sync (l_lzo L) a b)
      | Lfd_encrypt \<Rightarrow> (\<exists>a b. v = C_enc a \<and> w = C_enc b \<and> enc_still (l_lw L) (l_evp L) Re a b)
      | Lfd_legacy_encrypt \<Rightarrow> (\<exists>a b. v = C_legacy a \<and> w = C_legacy b \<and> legacy_sync a b)
      | Lfd_shaper \<Rightarrow> (\<exists>a b. v = C_shaper a \<and> w = C_shaper b)))"

text \<open>The largest frame each module takes, and by how much it lengthens it at most.\<close>

definition stack_cap :: "lfd_id \<Rightarrow> int" where
  "stack_cap m = (case m of Lfd_zlib \<Rightarrow> 2048 | Lfd_lzo \<Rightarrow> 2048 | Lfd_encrypt \<Rightarrow> 2080
     | Lfd_legacy_encrypt \<Rightarrow> 2104 | Lfd_shaper \<Rightarrow> 4095)"

definition stack_grow :: "lfd_id \<Rightarrow> int" where
  "stack_grow m = (case m of Lfd_zlib \<Rightarrow> 32 | Lfd_lzo \<Rightarrow> 195 | Lfd_encrypt \<Rightarrow> 64
     | Lfd_legacy_encrypt \<Rightarrow> 8 | Lfd_shaper \<Rightarrow> 0)"

definition cell_coder :: "('s \<Rightarrow> 'v) \<Rightarrow> ('v \<Rightarrow> 's option) \<Rightarrow> 's coder \<Rightarrow> 'v coder" where
  "cell_coder put get f len buf v = (case get v of None \<Rightarrow> None
     | Some s \<Rightarrow> map_option (\<lambda>(l, b, s'). (l, b, put s')) (f len buf s))"

lemma carries_on_cell:
  assumes get: "\<And>s. get (put s) = Some s" and c: "carries S enc dec g len buf a b"
    and S: "\<And>a b. S a b \<Longrightarrow> S' (put a) (put b)"
  shows "carries S' (cell_coder put get enc) (cell_coder put get dec) g len buf (put a) (put b)"
proof -
  from c obtain len' buf' v' where
    e: "enc len buf a = Some (len', buf', v')" "0 < len'" "len' \<le> len + g" "len' + 16 \<le> int (length buf')"
    and d: "\<And>got. take (nat len') got = take (nat len') buf' \<Longrightarrow>
             \<exists>ret w'. dec len' got b = Some (len, ret, w')
                \<and> take (nat len) ret = take (nat len) buf \<and> S v' w'"
    unfolding carries_def by blast
  have "\<exists>ret w'. cell_coder put get dec len' got (put b) = Some (len, ret, w')
      \<and> take (nat len) ret = take (nat len) buf \<and> S' (put v') w'"
    if "take (nat len') got = take (nat len') buf'" for got
    using d [OF that] S by (fastforce simp: cell_coder_def get)
  with e show ?thesis unfolding carries_def
    by (intro exI [of _ len'] exI [of _ buf'] exI [of _ "put v'"]) (simp add: cell_coder_def get)
qed

lemma code_some: "code (Some f) = f"
  by (simp add: code_def fun_eq_iff)

lemma lfd_mods_code:
  "l_built L Lfd_zlib \<Longrightarrow> code (m_encode (lfd_mods L Lfd_zlib)) = cell_coder C_zlib get_zlib (zlib_comp (l_realloc L) (l_zlib L))"
  "l_built L Lfd_zlib \<Longrightarrow> code (m_decode (lfd_mods L Lfd_zlib)) = cell_coder C_zlib get_zlib (zlib_decomp (l_realloc L) (l_zlib L))"
  "l_built L Lfd_lzo \<Longrightarrow> code (m_encode (lfd_mods L Lfd_lzo)) = cell_coder C_lzo get_lzo comp_lzo"
  "l_built L Lfd_lzo \<Longrightarrow> code (m_decode (lfd_mods L Lfd_lzo)) = cell_coder C_lzo get_lzo (decomp_lzo (l_lzo L))"
  "l_built L Lfd_encrypt \<Longrightarrow> code (m_encode (lfd_mods L Lfd_encrypt)) = cell_coder C_enc get_enc (encrypt_buf (l_lw L) (l_evp L))"
  "l_built L Lfd_encrypt \<Longrightarrow> code (m_decode (lfd_mods L Lfd_encrypt)) = cell_coder C_enc get_enc (decrypt_buf (l_evp L))"
  "l_built L Lfd_legacy_encrypt \<Longrightarrow> code (m_encode (lfd_mods L Lfd_legacy_encrypt)) = cell_coder C_legacy get_legacy legacy_encrypt_buf"
  "l_built L Lfd_legacy_encrypt \<Longrightarrow> code (m_decode (lfd_mods L Lfd_legacy_encrypt)) = cell_coder C_legacy get_legacy legacy_decrypt_buf"
  "l_built L Lfd_shaper \<Longrightarrow> code (m_encode (lfd_mods L Lfd_shaper)) = cell_coder C_shaper get_shaper shaper_counter"
  "m_decode (lfd_mods L Lfd_shaper) = None"
  by (simp_all add: lfd_mods_def on_cell_def code_some cell_coder_def fun_eq_iff lfd_zlib_mod_def
      lfd_lzo_mod_def lfd_encrypt_mod_def lfd_legacy_mod_def lfd_shaper_mod_def none_defs)

lemma shaper_carries:
  "0 < len \<Longrightarrow> len + 16 \<le> int (length buf)
    \<Longrightarrow> carries (\<lambda>v w. \<exists>a b. v = C_shaper a \<and> w = C_shaper b)
          (cell_coder C_shaper get_shaper shaper_counter) (code None) 0 len buf (C_shaper a) (C_shaper b)"
  by (auto simp: carries_def cell_coder_def get_shaper_def shaper_counter_def code_def)

interpretation stk: lfd_stack "lfd_mods L" "stack_sync L Rz Re" stack_cap stack_grow
proof unfold_locales
  fix m v w len and buf :: "byte list"
  assume s: "stack_sync L Rz Re m v w" and n: "0 < len" "len \<le> stack_cap m" "len + 16 \<le> int (length buf)"
  show "carries (stack_sync L Rz Re m) (code (m_encode (lfd_mods L m))) (code (m_decode (lfd_mods L m)))
      (stack_grow m) len buf v w"
  proof (cases m)
    case Lfd_zlib
    have bu: "l_built L m" using s by (simp add: stack_sync_def)
    from Lfd_zlib s obtain a b where vw: "v = C_zlib a" "w = C_zlib b" "zlib_sync (l_zlib L) Rz a b"
      by (auto simp: stack_sync_def)
    from Lfd_zlib n have "len \<le> 2048" by (simp add: stack_cap_def)
    from carries_on_cell [OF _ zlib_carries [OF vw(3) n(1) this n(3), of "l_realloc L"],
        of get_zlib C_zlib "stack_sync L Rz Re m"]
    show ?thesis using Lfd_zlib vw bu by (simp add: lfd_mods_code get_zlib_def stack_sync_def stack_grow_def)
  next
    case Lfd_lzo
    have bu: "l_built L m" using s by (simp add: stack_sync_def)
    from Lfd_lzo s obtain a b where vw: "v = C_lzo a" "w = C_lzo b" "lzo_sync (l_lzo L) a b"
      by (auto simp: stack_sync_def)
    from Lfd_lzo n have "len \<le> 2048" by (simp add: stack_cap_def)
    from carries_on_cell [OF _ lzo_carries [OF vw(3) n(1) this n(3)],
        of get_lzo C_lzo "stack_sync L Rz Re m"]
    show ?thesis using Lfd_lzo vw bu by (simp add: lfd_mods_code get_lzo_def stack_sync_def stack_grow_def)
  next
    case Lfd_encrypt
    have bu: "l_built L m" using s by (simp add: stack_sync_def)
    from Lfd_encrypt s obtain a b where vw: "v = C_enc a" "w = C_enc b" "enc_still (l_lw L) (l_evp L) Re a b"
      by (auto simp: stack_sync_def)
    from Lfd_encrypt n have "len \<le> 2080" by (simp add: stack_cap_def)
    from carries_on_cell [OF _ encrypt_carries [OF vw(3) n(1) this n(3)],
        of get_enc C_enc "stack_sync L Rz Re m"]
    show ?thesis using Lfd_encrypt vw bu by (simp add: lfd_mods_code get_enc_def stack_sync_def stack_grow_def)
  next
    case Lfd_legacy_encrypt
    have bu: "l_built L m" using s by (simp add: stack_sync_def)
    from Lfd_legacy_encrypt s obtain a b where vw: "v = C_legacy a" "w = C_legacy b" "legacy_sync a b"
      by (auto simp: stack_sync_def)
    from Lfd_legacy_encrypt n have "len \<le> 2104" by (simp add: stack_cap_def)
    from carries_on_cell [OF _ legacy_carries [OF vw(3) n(1) this n(3)],
        of get_legacy C_legacy "stack_sync L Rz Re m"]
    show ?thesis using Lfd_legacy_encrypt vw bu
      by (simp add: lfd_mods_code get_legacy_def stack_sync_def stack_grow_def)
  next
    case Lfd_shaper
    with s obtain a b where "v = C_shaper a" "w = C_shaper b" by (auto simp: stack_sync_def)
    moreover have bu: "l_built L Lfd_shaper" using s Lfd_shaper by (simp add: stack_sync_def)
    then have "stack_sync L Rz Re m = (\<lambda>v w. \<exists>a b. v = C_shaper a \<and> w = C_shaper b)"
      using Lfd_shaper by (simp add: stack_sync_def fun_eq_iff)
    ultimately show ?thesis
      using shaper_carries [OF n(1,3)] Lfd_shaper bu by (simp add: lfd_mods_code stack_grow_def)
  qed
qed

subsection \<open>The stacks of two hosts\<close>

lemma run_shaper_down:
  "l_built L Lfd_shaper \<Longrightarrow> s Lfd_shaper = C_shaper a \<Longrightarrow> \<exists>c. run_list (m_encode \<circ> lfd_mods L) [Lfd_shaper] len buf s
     = Some (len, buf, s(Lfd_shaper := C_shaper c))"
proof (cases "len > 0")
  case True
  assume "l_built L Lfd_shaper" "s Lfd_shaper = C_shaper a"
  with True show ?thesis
    using run_list_single [of len "m_encode \<circ> lfd_mods L" Lfd_shaper buf s]
    by (auto simp: lfd_mods_code cell_coder_def get_shaper_def shaper_counter_def)
next
  case False
  assume "s Lfd_shaper = C_shaper a"
  with False have "s(Lfd_shaper := C_shaper a) = s" by auto
  with False show ?thesis by (intro exI [of _ a]) simp
qed

lemma run_shaper_up:
  "run_list (m_decode \<circ> lfd_mods L) (Lfd_shaper # ms) len buf s
     = run_list (m_decode \<circ> lfd_mods L) ms len buf s"
  by (simp add: lfd_mods_code run_list_stop)

text \<open>What a frame of \<open>h1\<close> needs to get through the stacks of \<open>h1\<close> and \<open>h2\<close>.\<close>

definition same_codecs :: "vtun_host \<Rightarrow> vtun_host \<Rightarrow> bool" where
  "same_codecs h1 h2 = (codecs_of h1 = codecs_of h2)"

definition ends_sync :: "('z, 'c) libs \<Rightarrow> ('z \<Rightarrow> 'z \<Rightarrow> bool) \<Rightarrow> (nat \<Rightarrow> 'c \<Rightarrow> 'c \<Rightarrow> bool) \<Rightarrow> vtun_host
    \<Rightarrow> ('z, 'c) cell cells \<Rightarrow> ('z, 'c) cell cells \<Rightarrow> bool" where
  "ends_sync L Rz Re h s r = ((\<forall>m\<in>set (codecs_of h). stack_sync L Rz Re m (s m) (r m))
     \<and> (has_flag h VTUN_SHAPE \<longrightarrow> l_built L Lfd_shaper \<and> (\<exists>a. s Lfd_shaper = C_shaper a)))"

lemma stacks_carry:
  assumes a: "mods_repr a (modules_of h1)" and b: "mods_repr b (modules_of h2)"
    and hs: "same_codecs h1 h2" and sy: "ends_sync L Rz Re h1 s r"
    and ft: "fits stack_cap stack_grow (codecs_of h1) len" and n: "0 < len" "len + 16 \<le> int (length buf)"
  shows "\<exists>len' buf' s'. lfd_run_down (lfd_mods L) a len buf s = Some (len', buf', s')
      \<and> 0 < len' \<and> len' \<le> len + sum_list (map stack_grow (codecs_of h1)) \<and> len' \<le> int (length buf')
      \<and> (\<forall>got. take (nat len') got = take (nat len') buf' \<longrightarrow>
           (\<exists>ret r'. lfd_run_up (lfd_mods L) b len' got r = Some (len, ret, r')
              \<and> take (nat len) ret = take (nat len) buf \<and> ends_sync L Rz Re h1 s' r'))"
proof -
  let ?c = "codecs_of h1"
  have d: "distinct ?c" and sh: "Lfd_shaper \<notin> set ?c" by (simp_all add: codecs_of_def)
  from stk.down_up [OF d _ ft n, of L Rz Re s r] sy obtain len' buf' s' where
    e: "run_list (m_encode \<circ> lfd_mods L) ?c len buf s = Some (len', buf', s')" "0 < len'"
      "len' \<le> len + sum_list (map stack_grow ?c)" "len' + 16 \<le> int (length buf')"
    and u: "\<And>got. take (nat len') got = take (nat len') buf' \<Longrightarrow>
         \<exists>ret r'. run_list (m_decode \<circ> lfd_mods L) (rev ?c) len' got r = Some (len, ret, r')
              \<and> take (nat len) ret = take (nat len) buf \<and> (\<forall>m\<in>set ?c. stack_sync L Rz Re m (s' m) (r' m))"
    unfolding ends_sync_def by blast
  have s': "s' Lfd_shaper = s Lfd_shaper" using run_list_frame [OF e(1) sh] .
  have "\<exists>x. lfd_run_down (lfd_mods L) a len buf s
      = Some (len', buf', if has_flag h1 VTUN_SHAPE then s'(Lfd_shaper := C_shaper x) else s')"
  proof (cases "has_flag h1 VTUN_SHAPE")
    case True
    then obtain aa where "l_built L Lfd_shaper" "s' Lfd_shaper = C_shaper aa" using sy s' by (auto simp: ends_sync_def)
    from run_shaper_down [of L s', OF this, of len' buf'] True e(1) show ?thesis
      by (auto simp: lfd_run_down_list [OF a] modules_of_def run_list_append simp del: run_list.simps(2))
  next
    case False
    then show ?thesis using e(1) by (simp add: lfd_run_down_list [OF a] modules_of_def)
  qed
  then obtain x where down: "lfd_run_down (lfd_mods L) a len buf s
      = Some (len', buf', if has_flag h1 VTUN_SHAPE then s'(Lfd_shaper := C_shaper x) else s')" (is "_ = Some (_, _, ?s2)")
    by blast
  have up: "lfd_run_up (lfd_mods L) b k got r = run_list (m_decode \<circ> lfd_mods L) (rev ?c) k got r" for k got
    using hs
    by (cases "has_flag h2 VTUN_SHAPE")
      (simp_all add: lfd_run_up_list [OF b] modules_of_def same_codecs_def run_shaper_up
        del: run_list.simps(2) VTUN_SHAPE_def)
  have sy2: "ends_sync L Rz Re h1 ?s2 r'" if "\<forall>m\<in>set ?c. stack_sync L Rz Re m (s' m) (r' m)" for r'
    using that sh s' sy by (auto simp: ends_sync_def)
  show ?thesis using down e(2-4) u sy2 unfolding up
    by (intro exI [of _ len'] exI [of _ buf'] exI [of _ ?s2]) fastforce
qed

end
