(* ===== verification/Frames.thy ===== *)
theory Frames
  imports LibIO VtunHost
begin

section \<open>Frame protocols (\<open>generic/tcp_proto.c\<close>, \<open>generic/udp_proto.c\<close>)\<close>

text \<open>
  A frame on the wire is a 16-bit header in network order (the low 12 bits are the payload size,
  the high 4 bits the flags) and the payload. Over TCP the frames follow each other in a byte
  stream and are read with \<open>read_n\<close>; over UDP each is one datagram.
\<close>

subsection \<open>The header\<close>

text \<open>The two bytes that \<open>*((unsigned short *)ptr) = htons(len)\<close> leaves in memory, and back.\<close>

definition hdr_bytes :: "16 word \<Rightarrow> byte list" where
  "hdr_bytes w = [ucast (drop_bit 8 w), ucast w]"

definition hdr_value :: "byte list \<Rightarrow> 16 word" where
  "hdr_value bs = push_bit 8 (ucast (bs ! 0)) OR ucast (bs ! 1)"

lemma hdr_roundtrip [simp]: "hdr_value (hdr_bytes w) = w"
proof (rule bit_word_eqI)
  fix n assume "n < LENGTH(16)"
  then have "n < 16" by simp
  then show "bit (hdr_value (hdr_bytes w)) n = bit w n"
    by (auto simp: hdr_value_def hdr_bytes_def bit_simps)
qed

lemma hdr_value_append [simp]: "hdr_value (hdr_bytes w @ x) = w"
proof -
  have "hdr_value (hdr_bytes w @ x) = hdr_value (hdr_bytes w)"
    by (simp add: hdr_value_def hdr_bytes_def)
  then show ?thesis by simp
qed

lemma length_hdr_bytes [simp]: "length (hdr_bytes w) = 2"
  by (simp add: hdr_bytes_def)

text \<open>The two fields of a header word.\<close>

definition flen_of :: "16 word \<Rightarrow> nat" where
  "flen_of w = nat (uint w AND VTUN_FSIZE_MASK)"

definition fflags_of :: "16 word \<Rightarrow> int" where
  "fflags_of w = uint w AND NOT VTUN_FSIZE_MASK"

lemma fsize_mask: "i AND VTUN_FSIZE_MASK = i mod 4096" for i :: int
proof -
  have "i AND VTUN_FSIZE_MASK = i AND mask 12" by (simp add: mask_eq_exp_minus_1)
  also have "\<dots> = take_bit 12 i" by (simp add: take_bit_eq_mask)
  finally show ?thesis by (simp add: take_bit_eq_mod)
qed

lemma fsize_not_mask: "i AND NOT VTUN_FSIZE_MASK = i - i mod 4096" for i :: int
proof -
  let ?m = VTUN_FSIZE_MASK
  have "(i AND ?m) + (i AND NOT ?m) = (i AND ?m) OR (i AND NOT ?m)"
    by (rule disjunctive_add_eq_or)
       (auto simp: bit_eq_iff bit_simps simp del: VTUN_FSIZE_MASK_def)
  also have "\<dots> = i" by (auto simp: bit_eq_iff bit_simps simp del: VTUN_FSIZE_MASK_def)
  finally show ?thesis unfolding fsize_mask by simp
qed

lemma uint_hdr_word: "uint (word_of_int l :: 16 word) = l mod 65536"
  by (simp add: uint_word_of_int)

lemma flen_of_word: "flen_of (word_of_int l) = nat (l mod 4096)"
  unfolding flen_of_def fsize_mask uint_hdr_word by (simp add: mod_mod_cancel)

lemma flen_of_le: "flen_of w \<le> 4095"
proof -
  have "uint w mod 4096 < 4096" by simp
  then show ?thesis unfolding flen_of_def fsize_mask by linarith
qed

lemma fflags_of_word: "fflags_of (word_of_int l) = l mod 65536 - l mod 4096"
  unfolding fflags_of_def fsize_not_mask uint_hdr_word by (simp add: mod_mod_cancel)

lemma hdr_fields_nat:
  assumes "n < 4096"
  shows "flen_of (word_of_nat n) = n" and "fflags_of (word_of_nat n) = 0"
    and "uint (word_of_nat n :: 16 word) = int n"
  using assms flen_of_word [of "int n"] fflags_of_word [of "int n"] uint_hdr_word [of "int n"]
  by simp_all

subsection \<open>TCP\<close>

text \<open>
  \<open>tcp_write(fd, buf, len)\<close>: the header is written just before the buffer, then header and
  payload go out with \<open>write_n\<close>. \<open>buf\<close> is the memory from the buffer on; \<open>len\<close> carries the flags.
\<close>

definition wire :: "int \<Rightarrow> byte list \<Rightarrow> byte list" where
  "wire len buf = hdr_bytes (word_of_int len) @ take (nat (len AND VTUN_FSIZE_MASK)) buf"

definition tcp_write :: "bool \<Rightarrow> byte list \<Rightarrow> int \<Rightarrow> wr_ev list
    \<Rightarrow> (int \<times> byte list \<times> bool \<times> wr_ev list) option" where
  "tcp_write canc buf len es = write_n canc (wire len buf) es"

text \<open>Bytes stored at the start of what a buffer holds so far.\<close>

definition overlay :: "'a list \<Rightarrow> 'a list \<Rightarrow> 'a list" where
  "overlay d mem = d @ drop (length d) mem"

lemma length_overlay [simp]: "length (overlay d mem) = max (length d) (length mem)"
  by (simp add: overlay_def)

lemma overlay_empty [simp]: "overlay [] mem = mem" "overlay d [] = d"
  by (simp_all add: overlay_def)

text \<open>
  The loop of \<open>tcp_read\<close> that drops an oversized frame: it is read into the buffer in pieces of at
  most \<open>VTUN_FRAME_SIZE\<close> bytes, each over the one before, until a read fails. \<open>mem\<close> is what has been
  stored so far.
\<close>

function tcp_drain :: "bool \<Rightarrow> nat \<Rightarrow> byte list \<Rightarrow> byte rd_ev list \<Rightarrow> (byte list \<times> bool \<times> byte rd_ev list) option" where
  "tcp_drain canc flen mem es =
     (if flen = 0 then Some (mem, canc, es)
      else (case read_n canc (min flen VTUN_FRAME_SIZE) es of
              None \<Rightarrow> None
            | Some (rlen, d, canc', es') \<Rightarrow>
                if rlen \<le> 0 then Some (overlay d mem, canc', es')
                else tcp_drain canc' (flen - nat rlen) (overlay d mem) es'))"
  by pat_completeness auto
termination
  by (relation "measure (\<lambda>(canc, flen, mem, es). flen)") auto

declare tcp_drain.simps [simp del, vt_run]

text \<open>
  \<open>tcp_read(fd, buf)\<close>: the value returned, the bytes stored at \<open>buf\<close>, the cancel flag and the
  rest of the environment. \<open>stk\<close> is what the uninitialised local \<open>len\<close> holds: a cancelled header
  read overwrites only its first byte.
\<close>

definition tcp_read :: "byte list \<Rightarrow> bool \<Rightarrow> byte rd_ev list \<Rightarrow> byte rd_res option" where
  "tcp_read stk canc es =
     (case read_n canc 2 es of
        None \<Rightarrow> None
      | Some (rlen, hb, canc1, es1) \<Rightarrow>
          if rlen \<le> 0 then Some (rlen, [], canc1, es1)
          else let len = hdr_value (hb @ drop (length hb) stk); flen = flen_of len
               in if flen > VTUN_FRAME_SIZE + VTUN_FRAME_OVERHEAD
                  then map_option (\<lambda>(mem, canc2, es2). (VTUN_BAD_FRAME, mem, canc2, es2))
                         (tcp_drain canc1 flen [] es1)
                  else if fflags_of len \<noteq> 0 then Some (uint len, [], canc1, es1)
                  else read_n canc1 flen es1)"

text \<open>What \<open>tcp_write\<close> puts on the wire when the kernel takes it all.\<close>

lemma tcp_write_all:
  assumes "length (wire len buf) \<le> wr_accepts es"
  obtains es' where "tcp_write False buf len es
     = Some (int (length (wire len buf)), wire len buf, False, es')"
  using write_n_all [OF assms] unfolding tcp_write_def by blast

lemma length_wire: "length (wire len buf) = 2 + min (length buf) (nat (len mod 4096))"
  unfolding wire_def fsize_mask by simp

text \<open>Draining consumes exactly the frame when the stream holds it.\<close>

lemma tcp_drain_enough:
  "flen \<le> length (rd_stream es) \<Longrightarrow>
     \<exists>d es'. tcp_drain False flen mem es = Some (d, False, es') \<and> rd_stream es' = drop flen (rd_stream es)
       \<and> (rd_clean es \<longrightarrow> rd_clean es')"
proof (induction flen arbitrary: mem es rule: less_induct)
  case (less flen)
  show ?case
  proof (cases "flen = 0")
    case True
    then show ?thesis by (simp add: tcp_drain.simps)
  next
    case False
    define n where "n = min flen VTUN_FRAME_SIZE"
    have n: "n \<noteq> 0" "n \<le> flen" using False by (auto simp: n_def)
    have "n \<le> length (rd_stream es)" using less.prems n by simp
    then obtain es1 where r: "read_n False n es = Some (int n, take n (rd_stream es), False, es1)"
      and s: "rd_stream es1 = drop n (rd_stream es)" and c: "rd_clean es \<longrightarrow> rd_clean es1"
      by (rule read_n_enough)
    have lt: "flen - n < flen" using n by simp
    have "flen - n \<le> length (rd_stream es1)" using less.prems s by simp
    from less.IH [OF lt this, of "overlay (take n (rd_stream es)) mem"] obtain b es2
      where d: "tcp_drain False (flen - n) (overlay (take n (rd_stream es)) mem) es1 = Some (b, False, es2)"
      and s2: "rd_stream es2 = drop (flen - n) (rd_stream es1)"
      and c2: "rd_clean es1 \<longrightarrow> rd_clean es2" by blast
    have "tcp_drain False flen mem es = Some (b, False, es2)"
      using False n r d unfolding tcp_drain.simps [of False flen mem es] n_def [symmetric] by simp
    moreover have "rd_stream es2 = drop flen (rd_stream es)" using s s2 n by simp
    ultimately show ?thesis using c c2 by blast
  qed
qed

text \<open>Reading the two header bytes, the step every case of \<open>tcp_read\<close> starts with.\<close>

lemma tcp_read_header:
  assumes "rd_stream es = hdr_bytes w @ rest"
  obtains es1 where "read_n False 2 es = Some (2, hdr_bytes w, False, es1)"
    and "rd_stream es1 = rest" and "rd_clean es \<longrightarrow> rd_clean es1"
proof -
  from assms have "2 \<le> length (rd_stream es)" by simp
  then obtain es1 where "read_n False 2 es = Some (int 2, take 2 (rd_stream es), False, es1)"
    and "rd_stream es1 = drop 2 (rd_stream es)" and "rd_clean es \<longrightarrow> rd_clean es1"
    by (rule read_n_enough)
  with assms that show thesis by simp
qed

text \<open>A data frame comes back as it was sent, whatever the chunking of the stream.\<close>

lemma tcp_read_data:
  assumes str: "rd_stream es = wire (int (length b)) b @ rest" and len: "length b \<le> 2148"
  shows "\<exists>es'. tcp_read stk False es = Some (int (length b), b, False, es')
    \<and> rd_stream es' = rest \<and> (rd_clean es \<longrightarrow> rd_clean es')"
proof -
  let ?w = "word_of_int (int (length b)) :: 16 word"
  have fl: "flen_of ?w = length b" "fflags_of ?w = 0"
    using len by (simp_all add: hdr_fields_nat)
  have "wire (int (length b)) b = hdr_bytes ?w @ b"
    using len unfolding wire_def fsize_mask by (simp add: nat_mod_distrib)
  with str have "rd_stream es = hdr_bytes ?w @ (b @ rest)" by simp
  then obtain es1 where h: "read_n False 2 es = Some (2, hdr_bytes ?w, False, es1)"
    and s1: "rd_stream es1 = b @ rest" and c1: "rd_clean es \<longrightarrow> rd_clean es1"
    by (rule tcp_read_header)
  have "length b \<le> length (rd_stream es1)" using s1 by simp
  then obtain es2 where "read_n False (length b) es1
      = Some (int (length b), take (length b) (rd_stream es1), False, es2)"
    and "rd_stream es2 = drop (length b) (rd_stream es1)" and "rd_clean es1 \<longrightarrow> rd_clean es2"
    by (rule read_n_enough)
  with s1 c1 h len fl show ?thesis by (auto simp: tcp_read_def Let_def)
qed

text \<open>A flag frame (no payload) comes back as its header word.\<close>

definition ctl_frame :: "int \<Rightarrow> bool" where
  "ctl_frame l = (0 < l \<and> l < 65536 \<and> l mod 4096 = 0)"

lemma ctl_frames [simp]:
  "ctl_frame VTUN_CONN_CLOSE" "ctl_frame VTUN_ECHO_REQ" "ctl_frame VTUN_ECHO_REP"
  "ctl_frame VTUN_BAD_FRAME"
  by (simp_all add: ctl_frame_def)

lemma wire_ctl: "ctl_frame l \<Longrightarrow> wire l b = hdr_bytes (word_of_int l)"
  unfolding wire_def fsize_mask by (simp add: ctl_frame_def)

lemma tcp_read_ctl:
  assumes str: "rd_stream es = wire l b @ rest" and l: "ctl_frame l"
  shows "\<exists>es'. tcp_read stk False es = Some (l, [], False, es')
    \<and> rd_stream es' = rest \<and> (rd_clean es \<longrightarrow> rd_clean es')"
proof -
  let ?w = "word_of_int l :: 16 word"
  have "flen_of ?w = 0" "fflags_of ?w = l" "uint ?w = l"
    using l by (simp_all add: flen_of_word fflags_of_word uint_hdr_word ctl_frame_def)
  moreover from str l have "rd_stream es = hdr_bytes ?w @ rest" by (simp add: wire_ctl)
  then obtain es1 where "read_n False 2 es = Some (2, hdr_bytes ?w, False, es1)"
    and "rd_stream es1 = rest" and "rd_clean es \<longrightarrow> rd_clean es1"
    by (rule tcp_read_header)
  ultimately show ?thesis using l by (auto simp: tcp_read_def Let_def ctl_frame_def)
qed

text \<open>An oversized frame is dropped whole and reported, and the stream stays in step.\<close>

lemma tcp_read_oversized:
  assumes str: "rd_stream es = wire (int (length b)) b @ rest"
    and len: "2148 < length b" "length b \<le> 4095"
  shows "\<exists>d es'. tcp_read stk False es = Some (VTUN_BAD_FRAME, d, False, es')
    \<and> rd_stream es' = rest \<and> (rd_clean es \<longrightarrow> rd_clean es')"
proof -
  let ?w = "word_of_int (int (length b)) :: 16 word"
  have fl: "flen_of ?w = length b" using len by (simp add: hdr_fields_nat)
  have "wire (int (length b)) b = hdr_bytes ?w @ b"
    using len unfolding wire_def fsize_mask by (simp add: nat_mod_distrib)
  with str have "rd_stream es = hdr_bytes ?w @ (b @ rest)" by simp
  then obtain es1 where h: "read_n False 2 es = Some (2, hdr_bytes ?w, False, es1)"
    and s1: "rd_stream es1 = b @ rest" and c1: "rd_clean es \<longrightarrow> rd_clean es1"
    by (rule tcp_read_header)
  from s1 have "length b \<le> length (rd_stream es1)" by simp
  from tcp_drain_enough [OF this, of "[]"] obtain d es2
    where "tcp_drain False (length b) [] es1 = Some (d, False, es2)"
      and "rd_stream es2 = drop (length b) (rd_stream es1)" and "rd_clean es1 \<longrightarrow> rd_clean es2" by blast
  with s1 c1 h len fl show ?thesis by (auto simp: tcp_read_def Let_def)
qed

text \<open>\<open>tcp_read\<close> never stores more than the linker's buffer holds, what it drops included.\<close>

lemma tcp_drain_bound:
  "tcp_drain canc flen mem es = Some (d, canc', es') \<Longrightarrow> length mem \<le> VTUN_FRAME_SIZE
     \<Longrightarrow> length d \<le> VTUN_FRAME_SIZE"
proof (induction canc flen mem es rule: tcp_drain.induct)
  case (1 canc flen mem es)
  show ?case
  proof (cases "flen = 0")
    case True
    then show ?thesis using 1(2,3) by (auto simp: tcp_drain.simps [of canc 0])
  next
    case False
    from 1(2) False obtain rlen b canc2 es2 where
      r: "read_n canc (min flen VTUN_FRAME_SIZE) es = Some (rlen, b, canc2, es2)"
      by (auto simp: tcp_drain.simps [of canc flen] split: option.splits)
    have "length b \<le> VTUN_FRAME_SIZE" using read_n_ret(2) [OF r] by simp
    then have m: "length (overlay b mem) \<le> VTUN_FRAME_SIZE" using 1(3) by simp
    show ?thesis
    proof (cases "rlen \<le> 0")
      case True
      then show ?thesis using 1(2) False r m by (auto simp: tcp_drain.simps [of canc flen])
    next
      case pos: False
      have "tcp_drain canc2 (flen - nat rlen) (overlay b mem) es2 = Some (d, canc', es')"
        using 1(2) False pos r by (simp add: tcp_drain.simps [of canc flen])
      from 1(1) [OF False r refl refl refl pos this m] show ?thesis .
    qed
  qed
qed

lemma tcp_read_bound:
  assumes "tcp_read stk canc es = Some (r, b, canc', es')"
  shows "length b \<le> VTUN_FRAME_SIZE + VTUN_FRAME_OVERHEAD"
proof -
  have "length b \<le> VTUN_FRAME_SIZE" if "tcp_drain c (flen_of w) [] e = Some (b, canc', es')" for c w e
    using tcp_drain_bound [OF that] by simp
  then show ?thesis
    using assms read_n_ret(2)
    by (fastforce simp: tcp_read_def Let_def split: option.splits if_splits prod.splits)
qed

subsection \<open>UDP\<close>

text \<open>What the coming calls on a datagram socket meet: a datagram, or an errno.\<close>

datatype ud_ev = UdData "byte list" | UdErr errno

text \<open>
  \<open>udp_write\<close>: one \<open>write\<close>, tried again on \<open>EAGAIN\<close> and \<open>EINTR\<close>; \<open>ENOBUFS\<close> counts as
  a dropped frame. Nothing is sent before the socket is connected (NAT hack). The second component
  is the datagram that went out.
\<close>

fun udp_write_loop :: "byte list \<Rightarrow> wr_ev list \<Rightarrow> (int \<times> byte list \<times> wr_ev list) option" where
  "udp_write_loop pkt [] = None"
| "udp_write_loop pkt (WrErr e # es) =
     (if soft_errno e then udp_write_loop pkt es
      else if e = ENOBUFS then Some (0, [], es)
      else Some (- 1, [], es))"
| "udp_write_loop pkt (WrSig # es) = udp_write_loop pkt es"
| "udp_write_loop pkt (WrOk k # es) = Some (int (length (take k pkt)), take k pkt, es)"

definition udp_write :: "bool \<Rightarrow> byte list \<Rightarrow> int \<Rightarrow> wr_ev list
    \<Rightarrow> (int \<times> byte list \<times> wr_ev list) option" where
  "udp_write is_rmt_fd_connected buf len es =
     (if \<not> is_rmt_fd_connected then Some (0, [], es) else udp_write_loop (wire len buf) es)"

text \<open>
  The late connect of \<open>udp_read\<close>: peek (the datagram stays queued) until one is there, then
  connect to its sender; \<open>con_ok\<close> is the outcome of \<open>connect\<close>. The peek stores up to two bytes in the
  buffer, the second component. \<open>Inl\<close> is the value returned on failure.
\<close>

fun udp_late_connect :: "bool \<Rightarrow> ud_ev list \<Rightarrow> ((int + unit) \<times> byte list \<times> ud_ev list) option" where
  "udp_late_connect con_ok [] = None"
| "udp_late_connect con_ok (UdErr e # es) =
     (if soft_errno e then udp_late_connect con_ok es else Some (Inl (- 1), [], es))"
| "udp_late_connect con_ok (UdData d # es) =
     (if con_ok then Some (Inr (), take 2 d, UdData d # es) else Some (Inl (- 1), take 2 d, UdData d # es))"

text \<open>The \<open>readv\<close> loop: a datagram longer than the two vectors is cut by the kernel.\<close>

fun udp_read_loop :: "ud_ev list \<Rightarrow> (int \<times> byte list \<times> ud_ev list) option" where
  "udp_read_loop [] = None"
| "udp_read_loop (UdErr e # es) =
     (if soft_errno e then udp_read_loop es else Some (- 1, [], es))"
| "udp_read_loop (UdData d # es) =
     (let got = take (2 + (VTUN_FRAME_SIZE + VTUN_FRAME_OVERHEAD)) d;
          rlen = length got; hdr = hdr_value got; flen = flen_of hdr
      in if rlen < 2 \<or> rlen - 2 \<noteq> flen then Some (VTUN_BAD_FRAME, drop 2 got, es)
         else Some (uint hdr, drop 2 got, es))"

text \<open>
  \<open>udp_read\<close>: the value returned, the bytes at \<open>buf\<close>, \<open>is_rmt_fd_connected\<close> after the call and
  the rest of the environment.
\<close>

definition udp_read :: "bool \<Rightarrow> bool \<Rightarrow> ud_ev list \<Rightarrow> (int \<times> byte list \<times> bool \<times> ud_ev list) option" where
  "udp_read con_ok is_rmt_fd_connected es =
     (if is_rmt_fd_connected
      then map_option (\<lambda>(r, b, es'). (r, b, True, es')) (udp_read_loop es)
      else (case udp_late_connect con_ok es of
              None \<Rightarrow> None
            | Some (Inl r, mem, es1) \<Rightarrow> Some (r, mem, False, es1)
            | Some (Inr _, mem, es1) \<Rightarrow>
                map_option (\<lambda>(r, b, es'). (r, overlay b mem, True, es')) (udp_read_loop es1)))"

lemma udp_write_unconnected: "udp_write False buf len es = Some (0, [], es)"
  by (simp add: udp_write_def)

lemma udp_read_loop_data:
  assumes "length b \<le> 2148"
  shows "udp_read_loop (UdData (wire (int (length b)) b) # es) = Some (int (length b), b, es)"
proof -
  let ?w = "word_of_nat (length b) :: 16 word"
  have w: "wire (int (length b)) b = hdr_bytes ?w @ b"
    using assms unfolding wire_def fsize_mask by (simp add: nat_mod_distrib)
  have "take 2150 (hdr_bytes ?w @ b) = hdr_bytes ?w @ b" using assms by simp
  with w assms show ?thesis by (simp add: Let_def hdr_fields_nat)
qed

lemma udp_read_loop_ctl:
  assumes "ctl_frame l"
  shows "udp_read_loop (UdData (wire l b) # es) = Some (l, [], es)"
  using assms by (simp add: wire_ctl Let_def flen_of_word uint_hdr_word ctl_frame_def)

text \<open>A datagram whose size does not match its header is reported bad, never passed on.\<close>

lemma udp_read_loop_ok:
  assumes "udp_read_loop es = Some (r, b, es')" and "r \<noteq> VTUN_BAD_FRAME" and "0 \<le> r"
  shows "nat (r mod 4096) = length b" and "length b \<le> VTUN_FRAME_SIZE + VTUN_FRAME_OVERHEAD"
proof -
  have "\<exists>w. r = uint w \<and> flen_of w = length b \<and> length b \<le> 2148"
    using assms by (induction es rule: udp_read_loop.induct) (auto simp: Let_def split: if_splits)
  then show "nat (r mod 4096) = length b" "length b \<le> VTUN_FRAME_SIZE + VTUN_FRAME_OVERHEAD"
    by (auto simp: flen_of_def fsize_mask simp del: VTUN_FSIZE_MASK_def)
qed

subsection \<open>The interface both protocols implement\<close>

text \<open>The frames the linker sends: data that fits the receiver's buffer, or a bare flag.\<close>

definition frame_ok :: "int \<times> byte list \<Rightarrow> bool" where
  "frame_ok f = (case f of (l, b) \<Rightarrow>
     (ctl_frame l \<and> b = []) \<or> (l = int (length b) \<and> b \<noteq> [] \<and> length b \<le> 2148))"

text \<open>A batch of writes, and a number of reads; reading stops when a read does not return.\<close>

definition emit_all :: "(int \<Rightarrow> byte list \<Rightarrow> 'ch \<Rightarrow> 'ch) \<Rightarrow> (int \<times> byte list) list \<Rightarrow> 'ch \<Rightarrow> 'ch" where
  "emit_all emit fs ch = foldl (\<lambda>c (l, b). emit l b c) ch fs"

fun recv_all :: "('ch \<Rightarrow> (int \<times> byte list \<times> 'ch) option) \<Rightarrow> nat \<Rightarrow> 'ch
    \<Rightarrow> ((int \<times> byte list) list \<times> 'ch) option" where
  "recv_all recv 0 ch = Some ([], ch)"
| "recv_all recv (Suc n) ch =
     (case recv ch of None \<Rightarrow> None
      | Some (l, b, ch') \<Rightarrow>
          (case recv_all recv n ch' of None \<Rightarrow> None
           | Some (fs, ch'') \<Rightarrow> Some ((l, b) # fs, ch'')))"

locale framing =
  fixes emit :: "int \<Rightarrow> byte list \<Rightarrow> 'ch \<Rightarrow> 'ch"
    and recv :: "'ch \<Rightarrow> (int \<times> byte list \<times> 'ch) option"
    and holds :: "'ch \<Rightarrow> (int \<times> byte list) list \<Rightarrow> bool"
  assumes holds_emit: "frame_ok (l, b) \<Longrightarrow> holds ch fs \<Longrightarrow> holds (emit l b ch) (fs @ [(l, b)])"
    and holds_recv: "holds ch ((l, b) # fs) \<Longrightarrow> \<exists>ch'. recv ch = Some (l, b, ch') \<and> holds ch' fs"
begin

lemma recv_holds:
  "holds ch (fs @ gs) \<Longrightarrow> \<exists>ch'. recv_all recv (length fs) ch = Some (fs, ch') \<and> holds ch' gs"
proof (induction fs arbitrary: ch)
  case Nil
  then show ?case by simp
next
  case (Cons f fs)
  obtain l b where f: "f = (l, b)" by (cases f)
  from Cons.prems f obtain ch1 where 1: "recv ch = Some (l, b, ch1)" "holds ch1 (fs @ gs)"
    using holds_recv by fastforce
  from Cons.IH [OF 1(2)] f 1(1) show ?case by auto
qed

lemma emit_holds:
  "list_all frame_ok fs \<Longrightarrow> holds ch gs \<Longrightarrow> holds (emit_all emit fs ch) (gs @ fs)"
proof (induction fs arbitrary: ch gs)
  case Nil
  then show ?case by (simp add: emit_all_def)
next
  case (Cons f fs)
  obtain l b where f: "f = (l, b)" by (cases f)
  with Cons.prems have "holds (emit l b ch) (gs @ [f])" by (simp add: holds_emit)
  with Cons show ?case by (force simp: emit_all_def f)
qed

lemma fifo:
  assumes "list_all frame_ok fs" and "holds ch []"
  shows "\<exists>ch'. recv_all recv (length fs) (emit_all emit fs ch) = Some (fs, ch') \<and> holds ch' []"
  using recv_holds [of "emit_all emit fs ch" fs "[]"] emit_holds [OF assms] by simp

end

subsection \<open>TCP and UDP implement it\<close>

text \<open>A TCP channel is the receiver's environment; \<open>tcp_emit\<close> appends what \<open>tcp_write\<close> sent.\<close>

definition tcp_emit :: "int \<Rightarrow> byte list \<Rightarrow> byte rd_ev list \<Rightarrow> byte rd_ev list" where
  "tcp_emit l b ch =
     (case tcp_write False b l [WrOk 4097] of
        None \<Rightarrow> ch | Some (_, out, _, _) \<Rightarrow> ch @ [RdData out])"

definition tcp_recv :: "byte list \<Rightarrow> byte rd_ev list \<Rightarrow> (int \<times> byte list \<times> byte rd_ev list) option" where
  "tcp_recv stk ch = map_option (\<lambda>(r, b, _, ch'). (r, b, ch')) (tcp_read stk False ch)"

definition tcp_holds :: "byte rd_ev list \<Rightarrow> (int \<times> byte list) list \<Rightarrow> bool" where
  "tcp_holds ch fs = (rd_clean ch \<and> list_all frame_ok fs
     \<and> rd_stream ch = concat (map (\<lambda>(l, b). wire l b) fs))"

definition udp_emit :: "int \<Rightarrow> byte list \<Rightarrow> ud_ev list \<Rightarrow> ud_ev list" where
  "udp_emit l b ch =
     (case udp_write True b l [WrOk 4097] of
        None \<Rightarrow> ch | Some (_, out, _) \<Rightarrow> ch @ [UdData out])"

definition udp_recv :: "ud_ev list \<Rightarrow> (int \<times> byte list \<times> ud_ev list) option" where
  "udp_recv ch = map_option (\<lambda>(r, b, _, ch'). (r, b, ch')) (udp_read True True ch)"

fun ud_grams :: "ud_ev list \<Rightarrow> byte list list" where
  "ud_grams [] = []"
| "ud_grams (UdData d # es) = d # ud_grams es"
| "ud_grams (UdErr e # es) = ud_grams es"

definition udp_holds :: "ud_ev list \<Rightarrow> (int \<times> byte list) list \<Rightarrow> bool" where
  "udp_holds ch fs = ((\<forall>e. UdErr e \<in> set ch \<longrightarrow> soft_errno e) \<and> list_all frame_ok fs
     \<and> ud_grams ch = map (\<lambda>(l, b). wire l b) fs)"

lemma length_wire_le: "length (wire l b) \<le> 4097"
proof -
  have "nat (l mod 4096) \<le> 4095" by (simp add: nat_le_iff)
  then show ?thesis by (simp add: length_wire)
qed

lemma tcp_emit_wire: "tcp_emit l b ch = ch @ [RdData (wire l b)]"
proof -
  have "length (wire l b) \<le> wr_accepts [WrOk 4097]" using length_wire_le [of l b] by simp
  then obtain es' where "tcp_write False b l [WrOk 4097]
      = Some (int (length (wire l b)), wire l b, False, es')" by (rule tcp_write_all)
  then show ?thesis by (simp add: tcp_emit_def)
qed

lemma udp_emit_wire: "udp_emit l b ch = ch @ [UdData (wire l b)]"
  using length_wire_le [of l b] by (simp add: udp_emit_def udp_write_def)

lemma ud_grams_append: "ud_grams (es @ es') = ud_grams es @ ud_grams es'"
  by (induction es rule: ud_grams.induct) auto

lemma udp_read_loop_grams:
  assumes "\<forall>e. UdErr e \<in> set es \<longrightarrow> soft_errno e" and "ud_grams es = d # ds"
  shows "\<exists>es'. udp_read_loop es = udp_read_loop (UdData d # es') \<and> ud_grams es' = ds
    \<and> set es' \<subseteq> set es"
  using assms
proof (induction es rule: ud_grams.induct)
  case (3 e es)
  then obtain es' where "udp_read_loop es = udp_read_loop (UdData d # es')" "ud_grams es' = ds"
    "set es' \<subseteq> set es" by auto
  with 3 show ?case by (intro exI [of _ es']) (auto simp del: udp_read_loop.simps(3))
qed (auto simp del: udp_read_loop.simps)

interpretation tcpf: framing tcp_emit "tcp_recv stk" tcp_holds
proof unfold_locales
  fix l b ch fs
  assume ok: "frame_ok (l, b)" and h: "tcp_holds ch fs"
  have "wire l b \<noteq> []" by (simp add: wire_def hdr_bytes_def)
  with ok h show "tcp_holds (tcp_emit l b ch) (fs @ [(l, b)])"
    by (auto simp: tcp_holds_def tcp_emit_wire rd_clean_append rd_stream_append)
next
  fix l b ch fs
  assume h: "tcp_holds ch ((l, b) # fs)"
  let ?rest = "concat (map (\<lambda>(l, b). wire l b) fs)"
  from h have s: "rd_stream ch = wire l b @ ?rest" and c: "rd_clean ch" and ok: "frame_ok (l, b)"
    and oks: "list_all frame_ok fs"
    by (auto simp: tcp_holds_def)
  have "\<exists>es'. tcp_read stk False ch = Some (l, b, False, es') \<and> rd_stream es' = ?rest
      \<and> (rd_clean ch \<longrightarrow> rd_clean es')"
    using ok tcp_read_ctl [OF s] tcp_read_data [of ch b ?rest] s by (auto simp: frame_ok_def)
  with c oks show "\<exists>ch'. tcp_recv stk ch = Some (l, b, ch') \<and> tcp_holds ch' fs"
    by (auto simp: tcp_recv_def tcp_holds_def)
qed

interpretation udpf: framing udp_emit udp_recv udp_holds
proof unfold_locales
  fix l b ch fs
  assume "frame_ok (l, b)" and "udp_holds ch fs"
  then show "udp_holds (udp_emit l b ch) (fs @ [(l, b)])"
    by (auto simp: udp_holds_def udp_emit_wire ud_grams_append)
next
  fix l b ch fs
  assume h: "udp_holds ch ((l, b) # fs)"
  then obtain es' where r: "udp_read_loop ch = udp_read_loop (UdData (wire l b) # es')"
    and g: "ud_grams es' = map (\<lambda>(l, b). wire l b) fs" "set es' \<subseteq> set ch"
    using udp_read_loop_grams [of ch "wire l b"] by (auto simp: udp_holds_def)
  from h have "frame_ok (l, b)" by (simp add: udp_holds_def)
  then have "udp_read_loop ch = Some (l, b, es')"
    unfolding r using udp_read_loop_ctl udp_read_loop_data [of b es'] by (auto simp: frame_ok_def)
  with h g show "\<exists>ch'. udp_recv ch = Some (l, b, ch') \<and> udp_holds ch' fs"
    by (auto simp: udp_recv_def udp_read_def udp_holds_def)
qed

subsection \<open>Properties\<close>

text \<open>
  A TCP stream that holds a sequence of frames delivers exactly these frames, in order,
  however the kernel cuts the stream into chunks and however often a call is interrupted.
\<close>

theorem tcp_frames_any_chunking:
  assumes "rd_clean es" and "list_all frame_ok fs"
    and "rd_stream es = concat (map (\<lambda>(l, b). wire l b) fs)"
  shows "\<exists>es'. recv_all (tcp_recv stk) (length fs) es = Some (fs, es') \<and> rd_stream es' = []"
proof -
  from assms have "tcp_holds es (fs @ [])" by (simp add: tcp_holds_def)
  from tcpf.recv_holds [OF this, of stk] show ?thesis by (auto simp: tcp_holds_def)
qed

lemma tcp_frames_any_chunking_witness:
  "\<exists>es'. recv_all (tcp_recv [0, 0]) (length [(VTUN_ECHO_REQ, []), (3, [7, 8, 9 :: byte])])
       [RdData [0x20], RdErr EINTR, RdData [0, 0, 3, 7], RdErr EAGAIN, RdData [8, 9]]
     = Some ([(VTUN_ECHO_REQ, []), (3, [7, 8, 9])], es') \<and> rd_stream es' = []"
proof (rule tcp_frames_any_chunking)
  show "rd_clean [RdData [0x20], RdErr EINTR, RdData [0, 0, 3, 7], RdErr EAGAIN, RdData [8, 9]]"
    by simp
  show "list_all frame_ok [(VTUN_ECHO_REQ, []), (3, [7, 8, 9])]"
    by (simp add: frame_ok_def ctl_frame_def)
  show "rd_stream [RdData [0x20], RdErr EINTR, RdData [0, 0, 3, 7], RdErr EAGAIN, RdData [8, 9]]
      = concat (map (\<lambda>(l, b). wire l b) [(VTUN_ECHO_REQ, []), (3, [7, 8, 9])])"
    by (simp add: wire_def hdr_bytes_def)
qed

text \<open>
  C10. Frames of up to 2148 bytes (\<open>VTUN_FRAME_SIZE\<close> and the overhead), control frames among them, that are written by
  \<open>tcp_write\<close> are read back by \<open>tcp_read\<close> unchanged and in the order they were sent; the same goes for
  \<open>udp_write\<close> and \<open>udp_read\<close> over a network that happens to lose and reorder nothing.
\<close>

theorem frames_fifo:
  assumes "list_all frame_ok fs"
  shows "(\<exists>es. recv_all (tcp_recv stk) (length fs) (emit_all tcp_emit fs []) = Some (fs, es))
    \<and> (\<exists>ds. recv_all udp_recv (length fs) (emit_all udp_emit fs []) = Some (fs, ds))"
proof -
  have "tcp_holds [] []" "udp_holds [] []" by (simp_all add: tcp_holds_def udp_holds_def)
  then show ?thesis
    using tcpf.fifo [OF assms, of "[]" stk] udpf.fifo [OF assms, of "[]"] by blast
qed

lemma frames_fifo_witness:
  "(\<exists>es. recv_all (tcp_recv [0, 0]) (length [(2, [1, 2 :: byte]), (VTUN_ECHO_REP, [])])
       (emit_all tcp_emit [(2, [1, 2]), (VTUN_ECHO_REP, [])] [])
     = Some ([(2, [1, 2]), (VTUN_ECHO_REP, [])], es))
   \<and> (\<exists>ds. recv_all udp_recv (length [(2, [1, 2 :: byte]), (VTUN_ECHO_REP, [])])
       (emit_all udp_emit [(2, [1, 2]), (VTUN_ECHO_REP, [])] [])
     = Some ([(2, [1, 2]), (VTUN_ECHO_REP, [])], ds))"
  by (rule frames_fifo) (simp add: frame_ok_def ctl_frame_def)

text \<open>
  A frame whose header announces more than the linker's buffer (2148 bytes) is read away
  completely and reported as a bad frame, so the next frame starts where it should.
\<close>

theorem tcp_oversized_in_step:
  assumes "rd_stream es = wire (int (length b)) b @ rest"
    and "2148 < length b" and "length b \<le> 4095"
  shows "\<exists>d es'. tcp_read stk False es = Some (VTUN_BAD_FRAME, d, False, es') \<and> rd_stream es' = rest"
  using tcp_read_oversized [OF assms] by blast

lemma tcp_oversized_in_step_witness:
  "\<exists>d es'. tcp_read [0, 0] False [RdData (wire 3000 (replicate 3000 5)), RdData [0, 1, 9]]
     = Some (VTUN_BAD_FRAME, d, False, es') \<and> rd_stream es' = [0, 1, 9]"
  using tcp_oversized_in_step [of "[RdData (wire 3000 (replicate 3000 5)), RdData [0, 1, 9]]"
      "replicate 3000 5" "[0, 1, 9]" "[0, 0]"]
  by (simp add: wire_def hdr_bytes_def)

text \<open>
  C28. Whatever arrives, \<open>tcp_read\<close> stores at most \<open>VTUN_FRAME_SIZE + VTUN_FRAME_OVERHEAD\<close>
  bytes, the size of the linker's buffer, the pieces of a frame that it drops included; and so does
  \<open>udp_read\<close>, the two bytes included that it peeks at before it connects.
\<close>

theorem read_frame_bound:
  assumes "tcp_read stk canc es = Some (r, b, canc', es')"
    and "udp_read con_ok conn ds = Some (q, d, conn', ds')"
  shows "length b \<le> VTUN_FRAME_SIZE + VTUN_FRAME_OVERHEAD
    \<and> length d \<le> VTUN_FRAME_SIZE + VTUN_FRAME_OVERHEAD"
proof
  show "length b \<le> VTUN_FRAME_SIZE + VTUN_FRAME_OVERHEAD" using tcp_read_bound [OF assms(1)] .
  have l: "udp_read_loop es = Some (q, b, ds') \<Longrightarrow> length b \<le> VTUN_FRAME_SIZE + VTUN_FRAME_OVERHEAD" for es b
    by (induction es rule: udp_read_loop.induct) (auto simp: Let_def split: if_splits)
  have m: "udp_late_connect con_ok es = Some (x, mem, es1) \<Longrightarrow> length mem \<le> 2" for x mem es es1
    by (induction con_ok es rule: udp_late_connect.induct) (auto split: if_splits)
  show "length d \<le> VTUN_FRAME_SIZE + VTUN_FRAME_OVERHEAD"
  proof (cases conn)
    case True
    then show ?thesis using assms(2) l by (auto simp: udp_read_def)
  next
    case False
    with assms(2) obtain x mem es1 where c: "udp_late_connect con_ok ds = Some (x, mem, es1)"
      by (auto simp: udp_read_def split: option.splits)
    then show ?thesis using assms(2) False m [OF c] l [of es1] by (cases x) (auto simp: udp_read_def)
  qed
qed

lemma read_frame_bound_witness:
  "\<exists>b d. tcp_read [0, 0] False [RdData [0, 1, 9]] = Some (1, b, False, [])
     \<and> udp_read True True [UdData [0, 1, 9]] = Some (1, d, True, [])
     \<and> length b \<le> VTUN_FRAME_SIZE + VTUN_FRAME_OVERHEAD
     \<and> length d \<le> VTUN_FRAME_SIZE + VTUN_FRAME_OVERHEAD"
proof -
  have "flen_of 1 = 1" "fflags_of 1 = 0" using hdr_fields_nat [of 1] by simp_all
  then have t: "tcp_read [0, 0] False [RdData [0, 1, 9]] = Some (1, [9], False, [])"
    and u: "udp_read True True [UdData [0, 1, 9]] = Some (1, [9], True, [])"
    by (simp_all add: tcp_read_def udp_read_def read_n_def read_n_loop_eqs hdr_value_def)
  from read_frame_bound [OF t u] t u show ?thesis by simp
qed

end
