(* ===== verification/Linker.thy ===== *)
theory Linker
  imports LfdStack Frames
begin

section \<open>The linker (\<open>linkfd.c\<close>)\<close>

text \<open>
  \<open>lfd_linker\<close> moves frames between the network (\<open>fd1\<close>) and the local device (\<open>fd2\<close>). Its state
  is a record of the variables of \<open>linkfd.c\<close>, the module stack, and what it has sent and
  delivered so far. One turn of its loop is a function of what the outside does in that turn, the
  record \<open>lk_env\<close>: the signals that arrive while \<open>select\<close> waits, the result of \<open>select\<close>, and what the
  functions of the protocol and the driver do at the places the loop calls them.
\<close>

datatype lk_sig = Sig_term | Sig_hup | Sig_usr1 | Sig_alarm int

text \<open>
  What becomes of a frame or a packet that is written: all of it goes out, or \<open>n\<close> bytes of it and the
  call returns \<open>r\<close> (negative for an error).
\<close>

datatype wr_out = Wr_all | Wr_part int nat

text \<open>The statistics file, \<open>host->stat.file\<close>: NULL, an open stream, or a stream that has been closed.\<close>

datatype stat_ptr = No_stat | Stat_open | Stat_closed

record lk_env =
  ev_sigs :: "lk_sig list"
  sel_res :: int
  sel_errno :: errno
  fd1_set :: bool
  fd2_set :: bool
  net_res :: "int \<times> byte list"
  dev_res :: "int \<times> byte list"
  dev_errno :: errno
  wr_echo :: wr_out
  wr_packet :: wr_out
  wr_reply :: wr_out
  wr_frame :: wr_out
  wr_dev :: wr_out
  wr_dev_errno :: errno
  ev_clock :: timeval
  ev_now :: int

record ('z, 'c) lk =
  lk_host :: vtun_host
  lk_mods :: mod_list
  lk_cells :: "('z, 'c) cell cells"
  lk_buf :: "byte list"
  lk_idle :: int
  ka_need_verify :: bool
  ka_timer :: int
  stat_timer :: int
  alarm_tm :: int
  alarm_in :: int
  stat_file :: stat_ptr
  stat_log :: "vtun_stat list"
  linker_term :: int
  io_canceled :: bool
  lk_net :: "(int \<times> byte list) list"
  lk_torn :: "(nat \<times> byte list) list"
  lk_dev :: "byte list list"

text \<open>
  \<open>lk_net\<close> holds the frames that have gone out whole, \<open>lk_torn\<close> the pieces of frames that have not, each
  with the number of whole frames before it.
\<close>

text \<open>How a piece of the loop body ends: it goes on, \<open>continue\<close>s, \<open>break\<close>s, or is undefined.\<close>

datatype 's flow = Next 's | Again 's | Leave 's | Undef

definition and_then :: "'s flow \<Rightarrow> ('s \<Rightarrow> 's flow) \<Rightarrow> 's flow" where
  "and_then a f = (case a of Next s \<Rightarrow> f s | _ \<Rightarrow> a)"

lemma and_then_simps [simp]:
  "and_then (Next s) f = f s" "and_then (Again s) f = Again s"
  "and_then (Leave s) f = Leave s" "and_then Undef f = Undef"
  by (simp_all add: and_then_def)

subsection \<open>Statistics\<close>

definition upd_stat :: "(vtun_stat \<Rightarrow> vtun_stat) \<Rightarrow> ('z, 'c) lk \<Rightarrow> ('z, 'c) lk" where
  "upd_stat f s = s\<lparr>lk_host := (lk_host s)\<lparr>vh_stat := f (vh_stat (lk_host s))\<rparr>\<rparr>"

definition add_byte_in :: "int \<Rightarrow> ('z, 'c) lk \<Rightarrow> ('z, 'c) lk" where
  "add_byte_in n = upd_stat (\<lambda>t. t\<lparr>byte_in := byte_in t + word_of_int n\<rparr>)"
definition add_byte_out :: "int \<Rightarrow> ('z, 'c) lk \<Rightarrow> ('z, 'c) lk" where
  "add_byte_out n = upd_stat (\<lambda>t. t\<lparr>byte_out := byte_out t + word_of_int n\<rparr>)"
definition add_comp_in :: "int \<Rightarrow> ('z, 'c) lk \<Rightarrow> ('z, 'c) lk" where
  "add_comp_in n = upd_stat (\<lambda>t. t\<lparr>comp_in := comp_in t + word_of_int n\<rparr>)"
definition add_comp_out :: "int \<Rightarrow> ('z, 'c) lk \<Rightarrow> ('z, 'c) lk" where
  "add_comp_out n = upd_stat (\<lambda>t. t\<lparr>comp_out := comp_out t + word_of_int n\<rparr>)"

subsection \<open>Signal handlers\<close>

definition sig_term :: "('z, 'c) lk \<Rightarrow> ('z, 'c) lk" where
  "sig_term s = s\<lparr>io_canceled := True, linker_term := VTUN_SIG_TERM\<rparr>"

definition sig_hup :: "('z, 'c) lk \<Rightarrow> ('z, 'c) lk" where
  "sig_hup s = s\<lparr>io_canceled := True, linker_term := VTUN_SIG_HUP\<rparr>"

text \<open>\<open>sig_alarm\<close> at time \<open>now\<close>; printing to a statistics file that is not open is undefined.\<close>

definition sig_alarm :: "int \<Rightarrow> ('z, 'c) lk \<Rightarrow> ('z, 'c) lk option" where
  "sig_alarm now s =
     (let d = now - alarm_tm s;
          s1 = s\<lparr>alarm_tm := now\<rparr>;
          s2 = (if has_flag (lk_host s1) VTUN_KEEP_ALIVE then
                  (let s' = s1\<lparr>ka_timer := ka_timer s1 - d\<rparr>
                   in if ka_timer s' \<le> 0
                      then s'\<lparr>ka_need_verify := True, ka_timer := ka_interval (lk_host s') + 1\<rparr>
                      else s')
                else s1);
          due = (has_flag (lk_host s2) VTUN_STAT \<and> stat_timer s2 - d \<le> 0);
          s3 = (if has_flag (lk_host s2) VTUN_STAT then
                  (let s' = s2\<lparr>stat_timer := stat_timer s2 - d\<rparr>
                   in if stat_timer s' \<le> 0
                      then s'\<lparr>stat_log := stat_log s' @ [vh_stat (lk_host s')], stat_timer := VTUN_STAT_IVAL\<rparr>
                      else s')
                else s2);
          next_in = (if ka_timer s3 * stat_timer s3 \<noteq> 0
                     then (if ka_timer s3 < stat_timer s3 then ka_timer s3 else stat_timer s3)
                     else if ka_timer s3 \<noteq> 0 then ka_timer s3 else stat_timer s3)
      in if due \<and> stat_file s \<noteq> Stat_open then None else Some (s3\<lparr>alarm_in := next_in\<rparr>))"

definition sig_usr1 :: "('z, 'c) lk \<Rightarrow> ('z, 'c) lk" where
  "sig_usr1 s = upd_stat (\<lambda>t. \<lparr>byte_in = 0, byte_out = 0, comp_in = 0, comp_out = 0\<rparr>) s"

fun handle_sigs :: "lk_sig list \<Rightarrow> ('z, 'c) lk \<Rightarrow> ('z, 'c) lk option" where
  "handle_sigs [] s = Some s"
| "handle_sigs (Sig_term # g) s = handle_sigs g (sig_term s)"
| "handle_sigs (Sig_hup # g) s = handle_sigs g (sig_hup s)"
| "handle_sigs (Sig_usr1 # g) s = handle_sigs g (sig_usr1 s)"
| "handle_sigs (Sig_alarm now # g) s =
     (case sig_alarm now s of None \<Rightarrow> None | Some s' \<Rightarrow> handle_sigs g s')"

subsection \<open>The shared flag \<open>send_a_packet\<close> and the clock\<close>

definition wants_packet :: "('z, 'c) cell cells \<Rightarrow> bool" where
  "wants_packet c = (case c Lfd_encrypt of C_enc e \<Rightarrow> send_a_packet e | _ \<Rightarrow> False)"

definition packet_done :: "('z, 'c) cell cells \<Rightarrow> ('z, 'c) cell cells" where
  "packet_done c = (case c Lfd_encrypt of
      C_enc e \<Rightarrow> c(Lfd_encrypt := C_enc (e\<lparr>send_a_packet := False\<rparr>)) | _ \<Rightarrow> c)"

text \<open>The environment moves the clocks the modules read.\<close>

definition see_time :: "lk_env \<Rightarrow> ('z, 'c) cell cells \<Rightarrow> ('z, 'c) cell cells" where
  "see_time e c m =
     (case c m of
        C_shaper s \<Rightarrow> C_shaper (s\<lparr>sh_clock := ev_clock e\<rparr>)
      | C_enc s \<Rightarrow> C_enc (s\<lparr>e_now := ev_now e\<rparr>)
      | v \<Rightarrow> v)"

subsection \<open>The protocol and the device\<close>

text \<open>
  What \<open>tunnel\<close> has set the function pointers to: \<open>proto_write\<close> and \<open>proto_read\<close> are those of TCP or UDP,
  \<open>dev_write\<close> is that of a TTY or a pipe, or of a device of packets. \<open>tcp_write\<close>, \<open>tcp_read\<close>, and
  \<open>pty_write\<close> and \<open>pipe_write\<close>, return 0 at once when input and output have been cancelled
  (\<open>write_n\<close> and \<open>read_n\<close> in \<open>lib.h\<close>).
\<close>

definition over_tcp :: "vtun_host \<Rightarrow> bool" where
  "over_tcp h = (vh_flags h AND VTUN_PROT_MASK = VTUN_TCP)"

definition stream_dev :: "vtun_host \<Rightarrow> bool" where
  "stream_dev h = (vh_flags h AND VTUN_TYPE_MASK \<in> {VTUN_TTY, VTUN_PIPE})"

text \<open>
  \<open>proto_write\<close>, with the value it returns: a frame is the length word and the bytes that its low
  twelve bits count.
\<close>

definition proto_write :: "wr_out \<Rightarrow> int \<Rightarrow> byte list \<Rightarrow> ('z, 'c) lk \<Rightarrow> int \<times> ('z, 'c) lk" where
  "proto_write w len buf s =
     (if over_tcp (lk_host s) \<and> io_canceled s then (0, s)
      else (case w of
              Wr_all \<Rightarrow> (int (length (wire len buf)),
                s\<lparr>lk_net := lk_net s @ [(len, take (nat (len AND VTUN_FSIZE_MASK)) buf)]\<rparr>)
            | Wr_part r n \<Rightarrow> (r, if n = 0 then s
                else s\<lparr>lk_torn := lk_torn s @ [(length (lk_net s), take n (wire len buf))]\<rparr>)))"

definition net_frame :: "lk_env \<Rightarrow> ('z, 'c) lk \<Rightarrow> int \<times> byte list" where
  "net_frame e s = (if over_tcp (lk_host s) \<and> io_canceled s then (0, []) else net_res e)"

definition dev_put :: "wr_out \<Rightarrow> byte list \<Rightarrow> ('z, 'c) lk \<Rightarrow> int \<times> ('z, 'c) lk" where
  "dev_put w p s =
     (if stream_dev (lk_host s) \<and> io_canceled s then (0, s)
      else (case w of
              Wr_all \<Rightarrow> (int (length p), s\<lparr>lk_dev := lk_dev s @ [p]\<rparr>)
            | Wr_part r n \<Rightarrow> (r, if n = 0 then s else s\<lparr>lk_dev := lk_dev s @ [take n p]\<rparr>)))"

subsection \<open>One turn of the loop\<close>

definition lk_wait :: "lk_env \<Rightarrow> ('z, 'c) lk \<Rightarrow> ('z, 'c) lk flow" where
  "lk_wait e s =
     (case handle_sigs (ev_sigs e) s of
        None \<Rightarrow> Undef
      | Some s1 \<Rightarrow>
          (if sel_res e < 0 then (if soft_errno (sel_errno e) then Again s1 else Leave s1)
           else Next (s1\<lparr>lk_cells := see_time e (lk_cells s1)\<rparr>)))"

definition lk_verify :: "lk_env \<Rightarrow> ('z, 'c) lk \<Rightarrow> ('z, 'c) lk flow" where
  "lk_verify e s =
     (if ka_need_verify s then
        (if lk_idle s > ka_maxfail (lk_host s) then Leave s
         else (let s1 = s\<lparr>lk_idle := lk_idle s + 1\<rparr>
               in if lk_idle s > 0 then
                    (let w = proto_write (wr_echo e) VTUN_ECHO_REQ (lk_buf s1) s1
                     in if fst w < 0 then Leave (snd w) else Next ((snd w)\<lparr>ka_need_verify := False\<rparr>))
                  else Next (s1\<lparr>ka_need_verify := False\<rparr>)))
      else Next s)"

definition lk_packet :: "('z, 'c) libs \<Rightarrow> lk_env \<Rightarrow> ('z, 'c) lk \<Rightarrow> ('z, 'c) lk flow" where
  "lk_packet L e s =
     (if wants_packet (lk_cells s) then
        (let s1 = add_byte_out 1 (s\<lparr>lk_cells := packet_done (lk_cells s)\<rparr>)
         in case lfd_run_down (lfd_mods L) (lk_mods s1) 1 (lk_buf s1) (lk_cells s1) of
              None \<Rightarrow> Undef
            | Some (n, out, c) \<Rightarrow>
                (let s2 = s1\<lparr>lk_cells := c\<rparr>;
                     w = (if n \<noteq> 0 then proto_write (wr_packet e) n out s2 else (0, s2))
                 in if n = - 1 then Leave s2
                    else if fst w < 0 then Leave (snd w)
                    else Next (add_comp_out n (snd w))))
      else Next s)"

text \<open>A data frame of \<open>len\<close> bytes in the buffer, on its way to the device.\<close>

definition lk_deliver :: "('z, 'c) libs \<Rightarrow> lk_env \<Rightarrow> int \<Rightarrow> ('z, 'c) lk \<Rightarrow> ('z, 'c) lk flow" where
  "lk_deliver L e len s0 =
     (let s = add_comp_in len s0
      in case lfd_run_up (lfd_mods L) (lk_mods s) len (lk_buf s) (lk_cells s) of
           None \<Rightarrow> Undef
         | Some (n, out, c) \<Rightarrow>
             (let s1 = s\<lparr>lk_cells := c\<rparr>;
                  w = (if n \<noteq> 0 then dev_put (wr_dev e) (take (nat n) out) s1 else (0, s1))
              in if n = - 1 then Leave s1
                 else if fst w < 0
                   then (if soft_errno (wr_dev_errno e) then Again (snd w) else Leave (snd w))
                 else Next (add_byte_in n (snd w))))"

text \<open>What is read into the linker's buffer.\<close>

definition fill_buf :: "byte list \<Rightarrow> ('z, 'c) lk \<Rightarrow> ('z, 'c) lk" where
  "fill_buf d s = s\<lparr>lk_buf := overlay d (lk_buf s)\<rparr>"

definition lk_frame :: "('z, 'c) libs \<Rightarrow> lk_env \<Rightarrow> ('z, 'c) lk \<Rightarrow> ('z, 'c) lk flow" where
  "lk_frame L e s0 =
     (let s = s0\<lparr>lk_idle := 0, ka_need_verify := False\<rparr>;
          len = fst (net_frame e s); d = snd (net_frame e s)
      in if length (lk_buf s) < length d then Undef
         else (let s1 = fill_buf d s; fl = len AND NOT VTUN_FSIZE_MASK
               in if len \<le> 0 then Leave s1
                  else if fl = VTUN_BAD_FRAME then Again s1
                  else if fl = VTUN_ECHO_REQ then
                    (let w = proto_write (wr_reply e) VTUN_ECHO_REP (lk_buf s1) s1
                     in if fst w < 0 then Leave (snd w) else Again (snd w))
                  else if fl = VTUN_ECHO_REP then Again s1
                  else if fl = VTUN_CONN_CLOSE then Leave s1
                  else lk_deliver L e (len AND VTUN_FSIZE_MASK) s1))"

definition lk_net_in :: "('z, 'c) libs \<Rightarrow> lk_env \<Rightarrow> ('z, 'c) lk \<Rightarrow> ('z, 'c) lk flow" where
  "lk_net_in L e s =
     (if fd1_set e then
        (case lfd_check_up (lfd_mods L) (lk_mods s) (lk_cells s) of
           None \<Rightarrow> Undef
         | Some (r, c) \<Rightarrow>
             (if r \<noteq> 0 then lk_frame L e (s\<lparr>lk_cells := c\<rparr>) else Next (s\<lparr>lk_cells := c\<rparr>)))
      else Next s)"

definition lk_encode :: "('z, 'c) libs \<Rightarrow> lk_env \<Rightarrow> int \<Rightarrow> ('z, 'c) lk \<Rightarrow> ('z, 'c) lk flow" where
  "lk_encode L e len s0 =
     (let s = add_byte_out len s0
      in case lfd_run_down (lfd_mods L) (lk_mods s) len (lk_buf s) (lk_cells s) of
           None \<Rightarrow> Undef
         | Some (n, out, c) \<Rightarrow>
             (let s1 = s\<lparr>lk_cells := c\<rparr>;
                  w = (if n \<noteq> 0 then proto_write (wr_frame e) n out s1 else (0, s1))
              in if n = - 1 then Leave s1
                 else if fst w < 0 then Leave (snd w)
                 else Next (add_comp_out n (snd w))))"

definition lk_dev_in :: "('z, 'c) libs \<Rightarrow> lk_env \<Rightarrow> ('z, 'c) lk \<Rightarrow> ('z, 'c) lk flow" where
  "lk_dev_in L e s =
     (if fd2_set e then
        (case lfd_check_down (lfd_mods L) (lk_mods s) (lk_cells s) of
           None \<Rightarrow> Undef
         | Some (r, c) \<Rightarrow>
             (let s1 = s\<lparr>lk_cells := c\<rparr>; len = fst (dev_res e); d = snd (dev_res e)
              in if r = 0 then Next s1
                 else if VTUN_FRAME_SIZE < length d \<or> length (lk_buf s1) < length d then Undef
                 else if len < 0 then (if soft_errno (dev_errno e) then Again s1 else Leave s1)
                 else if len = 0 then Leave s1
                 else lk_encode L e len (fill_buf d s1)))
      else Next s)"

definition lk_turn :: "('z, 'c) libs \<Rightarrow> lk_env \<Rightarrow> ('z, 'c) lk \<Rightarrow> ('z, 'c) lk flow" where
  "lk_turn L e s =
     and_then (and_then (and_then (and_then (lk_wait e s) (lk_verify e)) (lk_packet L e))
       (lk_net_in L e)) (lk_dev_in L e)"

subsection \<open>The linker and its frame\<close>

datatype 's run = Running 's | Ended 's | Undefined

fun lk_loop :: "('z, 'c) libs \<Rightarrow> lk_env list \<Rightarrow> ('z, 'c) lk \<Rightarrow> ('z, 'c) lk run" where
  "lk_loop L [] s = (if linker_term s \<noteq> 0 then Ended s else Running s)"
| "lk_loop L (e # es) s =
     (if linker_term s \<noteq> 0 then Ended s
      else (case lk_turn L e s of
              Next s' \<Rightarrow> lk_loop L es s'
            | Again s' \<Rightarrow> lk_loop L es s'
            | Leave s' \<Rightarrow> Ended s'
            | Undef \<Rightarrow> Undefined))"

definition lk_close :: "wr_out \<Rightarrow> ('z, 'c) lk \<Rightarrow> ('z, 'c) lk" where
  "lk_close w s =
     (let s1 = (if linker_term s = VTUN_SIG_TERM
                then s\<lparr>lk_host := (lk_host s)\<lparr>vh_persist := 0\<rparr>\<rparr> else s)
      in (snd (proto_write w VTUN_CONN_CLOSE (lk_buf s1) s1))\<lparr>lk_buf := []\<rparr>)"

text \<open>\<open>lfd_linker\<close>: \<open>nat_hack\<close> is \<open>VTUN_USE_NAT_HACK\<close>; \<open>w1\<close> and \<open>w2\<close> are what becomes of the
  frames written before and after the loop; the code ignores the results.\<close>

definition lfd_linker :: "('z, 'c) libs \<Rightarrow> wr_out \<Rightarrow> wr_out \<Rightarrow> lk_env list \<Rightarrow> ('z, 'c) lk \<Rightarrow> ('z, 'c) lk run" where
  "lfd_linker L w1 w2 es s =
     (case lfd_alloc (l_malloc L) (VTUN_FRAME_SIZE + VTUN_FRAME_OVERHEAD) of
        None \<Rightarrow> Ended s
      | Some b \<Rightarrow>
          (let s1 = s\<lparr>lk_buf := b, lk_idle := 0\<rparr>;
               s2 = (if has_flag (lk_host s1) VTUN_NAT_HACK_MASK then s1
                     else snd (proto_write w1 VTUN_ECHO_REQ (lk_buf s1) s1))
           in case lk_loop L es (s2\<lparr>linker_term := 0\<rparr>) of
                Ended s' \<Rightarrow> Ended (lk_close w2 s')
              | r \<Rightarrow> r))"

text \<open>
  \<open>linkfd\<close> up to the statistics file: the stack is built and its modules are allocated. The first component
  says whether it goes on: when a module fails, the function returns 0 at once.
\<close>

definition link_start :: "('z, 'c) libs \<Rightarrow> vtun_host \<Rightarrow> ('z, 'c) lk \<Rightarrow> (bool \<times> ('z, 'c) lk) option" where
  "link_start L h s0 =
     (case build_mods h (lk_mods s0) of
        None \<Rightarrow> None
      | Some ml \<Rightarrow>
          map_option (\<lambda>(r, c). (r = 0, s0\<lparr>lk_host := h, lk_mods := ml, lk_cells := c\<rparr>))
            (lfd_alloc_mod (lfd_mods L) ml h (lk_cells s0)))"

text \<open>
  The end of \<open>linkfd\<close>: the statistics file is closed if there is one, and the pointer stays as it is;
  closing a stream twice is undefined. Then the stack is taken apart.
\<close>

definition link_end :: "('z, 'c) libs \<Rightarrow> vtun_host \<Rightarrow> ('z, 'c) lk \<Rightarrow> (int \<times> ('z, 'c) lk) run" where
  "link_end L h s =
     (let due = has_flag h (VTUN_STAT OR VTUN_KEEP_ALIVE);
          s1 = (if due then s\<lparr>alarm_in := 0, stat_file := (if stat_file s = Stat_open then Stat_closed else stat_file s)\<rparr>
                else s)
      in if due \<and> stat_file s = Stat_closed then Undefined
         else (case lfd_free_mod (lfd_mods L) (lk_mods s1) (lk_cells s1) of
                 None \<Rightarrow> Undefined
               | Some (_, ml', c') \<Rightarrow> Ended (linker_term s1, s1\<lparr>lk_mods := ml', lk_cells := c'\<rparr>)))"

text \<open>
  \<open>linkfd\<close> from the timers on; \<open>can_open\<close> says whether the statistics file opens. The result is the value
  returned and the state that the next session of the process starts with.
\<close>

definition link_run :: "('z, 'c) libs \<Rightarrow> bool \<Rightarrow> wr_out \<Rightarrow> wr_out \<Rightarrow> lk_env list \<Rightarrow> vtun_host \<Rightarrow> ('z, 'c) lk
    \<Rightarrow> (int \<times> ('z, 'c) lk) run" where
  "link_run L can_open w1 w2 es h s1 =
     (let iv = (if ka_interval h < VTUN_STAT_IVAL then ka_interval h else VTUN_STAT_IVAL);
          s2 = (if has_flag h (VTUN_STAT OR VTUN_KEEP_ALIVE) then s1\<lparr>alarm_in := iv\<rparr> else s1);
          s3 = (if has_flag h VTUN_STAT then s2\<lparr>stat_file := (if can_open then Stat_open else No_stat)\<rparr> else s2)
      in case lfd_linker L w1 w2 es (s3\<lparr>io_canceled := False\<rparr>) of
           Undefined \<Rightarrow> Undefined
         | Running s' \<Rightarrow> Running (linker_term s', s')
         | Ended s' \<Rightarrow> link_end L h s')"

definition linkfd :: "('z, 'c) libs \<Rightarrow> bool \<Rightarrow> wr_out \<Rightarrow> wr_out \<Rightarrow> lk_env list \<Rightarrow> vtun_host \<Rightarrow> ('z, 'c) lk
    \<Rightarrow> (int \<times> ('z, 'c) lk) run" where
  "linkfd L can_open w1 w2 es h s0 =
     (case link_start L h s0 of
        None \<Rightarrow> Undefined
      | Some (go, s1) \<Rightarrow> if go then link_run L can_open w1 w2 es h s1 else Ended (0, s1))"

end
