(* ===== verification/Tunnel.thy ===== *)
theory Tunnel
  imports Linker
begin

section \<open>Properties of the linker\<close>

text \<open>
  What the linker does for the two ends of a session: a frame read from the device of one end is
  written to the device of the other; silent peers are noticed, requests answered, the end of a
  session announced; the counters count what was delivered.
\<close>

subsection \<open>The pieces of a turn\<close>

lemma see_time_sync:
  "stack_sync L Rz Re m (see_time e s m) w = stack_sync L Rz Re m (s m) w"
  "stack_sync L Rz Re m v (see_time e r m) = stack_sync L Rz Re m v (r m)"
  by (cases m; cases "s m"; auto simp: stack_sync_def see_time_def enc_still_def enc_sync_def enc_linked_def
        enc_conf_def split: cell.splits)
    (cases m; cases "r m"; auto simp: stack_sync_def see_time_def enc_still_def enc_sync_def enc_linked_def
        enc_conf_def split: cell.splits)

lemma see_time_shaper: "s Lfd_shaper = C_shaper a \<Longrightarrow> \<exists>b. see_time e s Lfd_shaper = C_shaper b"
  by (simp add: see_time_def)

lemma ends_sync_see_time:
  "ends_sync L Rz Re h s r \<Longrightarrow> ends_sync L Rz Re h (see_time e s) r"
  "ends_sync L Rz Re h s r \<Longrightarrow> ends_sync L Rz Re h s (see_time e r)"
  using see_time_shaper [of s] by (auto simp: ends_sync_def see_time_sync)

lemma no_avail:
  "m \<noteq> Lfd_shaper \<Longrightarrow> m_avail_encode (lfd_mods L m) = None"
  "m_avail_decode (lfd_mods L m) = None"
  by (cases m; simp add: lfd_mods_def on_cell_def lfd_zlib_mod_def lfd_lzo_mod_def
      lfd_encrypt_mod_def lfd_legacy_mod_def lfd_shaper_mod_def none_defs)+

lemma check_list_none:
  "\<forall>m\<in>set ms. sel m = None \<Longrightarrow> check_list sel ms err s = (err, s)"
  by (induction ms) auto

lemma check_list_append_none:
  "\<forall>m\<in>set ms. sel m = None \<Longrightarrow> check_list sel (ms @ ns) 1 s = check_list sel ns 1 s"
  by (induction ms) auto

lemma lfd_check_up_yes:
  "mods_repr l ms \<Longrightarrow> lfd_check_up (lfd_mods L) l s = Some (1, s)"
  by (simp add: lfd_check_up_list check_list_none no_avail)

lemma lfd_check_down_frame:
  assumes "mods_repr l (modules_of h)" and "lfd_check_down (lfd_mods L) l s = Some (r, c)"
  shows "(\<forall>m. m \<noteq> Lfd_shaper \<longrightarrow> c m = s m)
    \<and> ((\<exists>a. s Lfd_shaper = C_shaper a) \<longrightarrow> (\<exists>a. c Lfd_shaper = C_shaper a))"
proof -
  have "\<forall>m\<in>set (codecs_of h). (m_avail_encode \<circ> lfd_mods L) m = None"
    using no_avail(1) by (auto simp: codecs_of_def)
  then have eq: "check_list (m_avail_encode \<circ> lfd_mods L) (codecs_of h @ ns) 1 s
      = check_list (m_avail_encode \<circ> lfd_mods L) ns 1 s" for ns
    by (rule check_list_append_none)
  have "(r, c) = check_list (m_avail_encode \<circ> lfd_mods L)
      (if has_flag h VTUN_SHAPE then [Lfd_shaper] else []) 1 s"
    using assms(2) by (simp only: lfd_check_down_list [OF assms(1)] modules_of_def eq option.inject)
  then show ?thesis
    by (auto simp: lfd_mods_def on_cell_def lfd_shaper_mod_def get_shaper_def none_defs
        split: if_splits cell.splits prod.splits)
qed

lemma ends_sync_check_down:
  assumes "mods_repr l (modules_of h)" and "lfd_check_down (lfd_mods L) l s = Some (r, c)"
    and "ends_sync L Rz Re h s q"
  shows "ends_sync L Rz Re h c q"
proof -
  have "Lfd_shaper \<notin> set (codecs_of h)" by (simp add: codecs_of_def)
  then have "\<forall>m\<in>set (codecs_of h). c m = s m" using lfd_check_down_frame [OF assms(1,2)] by metis
  then show ?thesis using lfd_check_down_frame [OF assms(1,2)] assms(3) by (auto simp: ends_sync_def)
qed

text \<open>Turns in which one thing happens: a frame comes from the device, or one from the network.\<close>

definition calm :: "lk_env \<Rightarrow> bool" where
  "calm e = (ev_sigs e = [] \<and> 0 \<le> sel_res e)"

definition dev_turn :: "lk_env \<Rightarrow> byte list \<Rightarrow> bool" where
  "dev_turn e p = (calm e \<and> \<not> fd1_set e \<and> fd2_set e \<and> dev_res e = (int (length p), p) \<and> wr_frame e = Wr_all)"

definition net_turn :: "lk_env \<Rightarrow> int \<times> byte list \<Rightarrow> bool" where
  "net_turn e f = (calm e \<and> fd1_set e \<and> \<not> fd2_set e \<and> net_res e = f \<and> wr_dev e = Wr_all)"

definition quiet :: "('z, 'c) lk \<Rightarrow> bool" where
  "quiet s = (\<not> ka_need_verify s \<and> \<not> wants_packet (lk_cells s))"

text \<open>Input and output have not been cancelled.\<close>

abbreviation uncut :: "('z, 'c) lk \<Rightarrow> bool" where
  "uncut s \<equiv> \<not> io_canceled s"

lemma proto_write_all:
  "uncut s \<Longrightarrow> proto_write Wr_all len buf s
     = (int (length (wire len buf)), s\<lparr>lk_net := lk_net s @ [(len, take (nat (len AND VTUN_FSIZE_MASK)) buf)]\<rparr>)"
  by (simp add: proto_write_def)

lemma dev_put_all: "uncut s \<Longrightarrow> dev_put Wr_all p s = (int (length p), s\<lparr>lk_dev := lk_dev s @ [p]\<rparr>)"
  by (simp add: dev_put_def)

lemma net_frame_uncut: "uncut s \<Longrightarrow> net_frame e s = net_res e"
  by (simp add: net_frame_def)

text \<open>The shaper accepts input in this turn.\<close>

definition accepts :: "('z, 'c) libs \<Rightarrow> lk_env \<Rightarrow> ('z, 'c) lk \<Rightarrow> bool" where
  "accepts L e s = (case lfd_check_down (lfd_mods L) (lk_mods s) (see_time e (lk_cells s)) of
     None \<Rightarrow> False | Some (r, _) \<Rightarrow> r \<noteq> 0)"

lemma wants_packet_see_time: "wants_packet (see_time e c) = wants_packet c"
  by (auto simp: wants_packet_def see_time_def split: cell.splits)

lemma quiet_turn:
  assumes "calm e" and "quiet s"
  shows "lk_turn L e s = and_then (lk_net_in L e (s\<lparr>lk_cells := see_time e (lk_cells s)\<rparr>)) (lk_dev_in L e)"
  using assms by (simp add: lk_turn_def lk_wait_def calm_def quiet_def lk_verify_def lk_packet_def
      wants_packet_see_time)

lemma mask_flags:
  assumes "0 < l" and "l < 4096"
  shows "l AND 0xfff = l" and "l AND NOT 0xfff = (0 :: int)"
proof -
  have "l = take_bit 12 l" using assms by (simp add: take_bit_int_eq_self)
  moreover have "mask 12 = (0xfff :: int)" by (simp add: mask_eq_exp_minus_1)
  ultimately show "l AND 0xfff = l" by (metis take_bit_eq_mask)
  then have "l AND NOT 0xfff = (l AND 0xfff) AND NOT 0xfff" by (simp only:)
  also have "\<dots> = l AND (0xfff AND NOT 0xfff)" by (simp only: and.assoc)
  also have "\<dots> = 0" by simp
  finally show "l AND NOT 0xfff = (0 :: int)" .
qed

subsection \<open>One frame through the tunnel\<close>

lemma ends_sync_still:
  assumes "ends_sync L Rz Re h s r" and "Lfd_encrypt \<in> set (codecs_of h)"
  shows "\<not> wants_packet s \<and> \<not> wants_packet r"
proof -
  from assms have "stack_sync L Rz Re Lfd_encrypt (s Lfd_encrypt) (r Lfd_encrypt)"
    unfolding ends_sync_def by blast
  then show ?thesis by (auto simp: stack_sync_def enc_still_def wants_packet_def)
qed

lemma lk_turn_sends:
  assumes t: "dev_turn e p" and q: "quiet s" and nc: "uncut s" and ok: "accepts L e s"
    and m: "mods_repr (lk_mods s) (modules_of h)" and m2: "mods_repr b (modules_of h2)"
    and hs: "same_codecs h h2" and sy: "ends_sync L Rz Re h (lk_cells s) r"
    and ft: "fits stack_cap stack_grow (codecs_of h) (int (length p))"
    and p: "p \<noteq> []" "length p \<le> 2048" and buf: "2064 \<le> length (lk_buf s)"
    and le: "int (length p) + sum_list (map stack_grow (codecs_of h)) \<le> 2148"
  shows "\<exists>s' l d. lk_turn L e s = Next s' \<and> lk_net s' = lk_net s @ [(l, d)]
    \<and> 0 < l \<and> l \<le> 2148 \<and> int (length d) = l
    \<and> vh_stat (lk_host s') = (vh_stat (lk_host s))
         \<lparr>byte_out := byte_out (vh_stat (lk_host s)) + word_of_nat (length p),
          comp_out := comp_out (vh_stat (lk_host s)) + word_of_int l\<rparr>
    \<and> lk_mods s' = lk_mods s \<and> lk_dev s' = lk_dev s \<and> linker_term s' = linker_term s
    \<and> uncut s' \<and> quiet s' \<and> length (lk_buf s') = length (lk_buf s)
    \<and> (\<forall>got. take (nat l) got = d \<longrightarrow>
         (\<exists>ret r'. lfd_run_up (lfd_mods L) b l got r = Some (int (length p), ret, r')
            \<and> take (length p) ret = p \<and> ends_sync L Rz Re h (lk_cells s') r'
            \<and> (wants_packet r \<or> \<not> wants_packet r')))"
proof -
  let ?c0 = "see_time e (lk_cells s)"
  from t have ce: "calm e" and e: "\<not> fd1_set e" "fd2_set e" "dev_res e = (int (length p), p)" "wr_frame e = Wr_all"
    by (simp_all add: dev_turn_def)
  from ok obtain k c where chk: "lfd_check_down (lfd_mods L) (lk_mods s) ?c0 = Some (k, c)" "k \<noteq> 0"
    by (auto simp: accepts_def split: option.splits prod.splits)
  have sy0: "ends_sync L Rz Re h c r"
    using ends_sync_check_down [OF m chk(1) ends_sync_see_time(1) [OF sy]] .
  let ?buf = "p @ drop (length p) (lk_buf s)"
  have n: "0 < int (length p)" "int (length p) + 16 \<le> int (length ?buf)" using p buf by auto
  from stacks_carry [OF m m2 hs sy0 ft n] obtain l out c' where
    dn: "lfd_run_down (lfd_mods L) (lk_mods s) (int (length p)) ?buf c = Some (l, out, c')"
    and l: "0 < l" "l \<le> int (length p) + sum_list (map stack_grow (codecs_of h))" "l \<le> int (length out)"
    and up: "\<And>got. take (nat l) got = take (nat l) out \<Longrightarrow>
           (\<exists>ret r'. lfd_run_up (lfd_mods L) b l got r = Some (int (length p), ret, r')
              \<and> take (nat (int (length p))) ret = take (nat (int (length p))) ?buf
              \<and> ends_sync L Rz Re h c' r')" by blast
  have l2: "l \<le> 2148" using l(2) le by linarith
  have cc: "c m = see_time e (lk_cells s) m" if "m \<noteq> Lfd_shaper" for m
    using lfd_check_down_frame [OF m chk(1)] that by blast
  have still: "\<not> wants_packet c'" if "ends_sync L Rz Re h c' q" for q
  proof (cases "Lfd_encrypt \<in> set (codecs_of h)")
    case True
    then show ?thesis using ends_sync_still [OF that] by blast
  next
    case False
    then have "Lfd_encrypt \<notin> set (modules_of h)" by (simp add: modules_of_def)
    then have "c' Lfd_encrypt = c Lfd_encrypt"
      using run_list_frame dn by (simp add: lfd_run_down_list [OF m])
    then have "wants_packet c' = wants_packet (see_time e (lk_cells s))"
      using cc [of Lfd_encrypt] by (simp add: wants_packet_def)
    then show ?thesis using q by (simp add: quiet_def wants_packet_see_time)
  qed
  have rstill: "wants_packet r \<or> \<not> wants_packet r'"
    if u: "lfd_run_up (lfd_mods L) b l got r = Some (n, ret, r')" and sy: "ends_sync L Rz Re h c' r'" for got n ret r'
  proof (cases "Lfd_encrypt \<in> set (codecs_of h)")
    case True
    then show ?thesis using ends_sync_still [OF sy] by blast
  next
    case False
    then have "Lfd_encrypt \<notin> set (rev (modules_of h2))" using hs by (simp add: modules_of_def same_codecs_def)
    then have "r' Lfd_encrypt = r Lfd_encrypt"
      using u unfolding lfd_run_up_list [OF m2] by (intro run_list_frame)
    then show ?thesis by (simp add: wants_packet_def)
  qed
  have msk: "l AND 0xfff = l" using mask_flags(1) [OF l(1)] l2 by simp
  let ?d = "take (nat l) out"
  let ?s1 = "add_byte_out (int (length p)) (fill_buf p (s\<lparr>lk_cells := c\<rparr>))"
  let ?s' = "add_comp_out l (?s1\<lparr>lk_cells := c', lk_net := lk_net s @ [(l, ?d)]\<rparr>)"
  have "lk_turn L e s = Next ?s'"
    using e ce q nc chk p buf dn l(1) msk
    by (simp add: quiet_turn lk_net_in_def lk_dev_in_def lk_encode_def fill_buf_def overlay_def Let_def
        add_byte_out_def upd_stat_def proto_write_all)
  moreover have "int (length ?d) = l" using l by simp
  moreover have "\<exists>ret r'. lfd_run_up (lfd_mods L) b l got r = Some (int (length p), ret, r')
      \<and> take (length p) ret = p \<and> ends_sync L Rz Re h (lk_cells ?s') r'
      \<and> (wants_packet r \<or> \<not> wants_packet r')"
    if "take (nat l) got = ?d" for got
    using up [OF that] rstill by (auto simp: add_comp_out_def upd_stat_def)
  moreover have "\<not> wants_packet c'" using up [of out] still by blast
  then have "quiet ?s'" using q by (simp add: quiet_def add_comp_out_def add_byte_out_def upd_stat_def fill_buf_def)
  ultimately show ?thesis using l(1) l2 p(2) buf nc
    by (intro exI [of _ ?s'] exI [of _ l] exI [of _ ?d])
      (simp add: add_comp_out_def add_byte_out_def upd_stat_def fill_buf_def)
qed

lemma lk_turn_receives:
  assumes t: "net_turn e (l, d)" and q: "quiet s" and nc: "uncut s" and m: "mods_repr (lk_mods s) ms"
    and l: "0 < l" "l \<le> 2148" "int (length d) = l" and buf: "2148 \<le> length (lk_buf s)"
    and up: "\<And>got. take (nat l) got = d \<Longrightarrow>
        \<exists>ret r'. lfd_run_up (lfd_mods L) (lk_mods s) l got (see_time e (lk_cells s))
            = Some (int (length p), ret, r') \<and> take (length p) ret = p \<and> P r'"
    and p: "p \<noteq> []"
  shows "\<exists>s'. lk_turn L e s = Next s' \<and> lk_dev s' = lk_dev s @ [p] \<and> lk_net s' = lk_net s
    \<and> lk_idle s' = 0 \<and> lk_mods s' = lk_mods s \<and> P (lk_cells s') \<and> linker_term s' = linker_term s
    \<and> uncut s' \<and> \<not> ka_need_verify s' \<and> length (lk_buf s') = length (lk_buf s)
    \<and> vh_stat (lk_host s') = (vh_stat (lk_host s))
         \<lparr>comp_in := comp_in (vh_stat (lk_host s)) + word_of_int l,
          byte_in := byte_in (vh_stat (lk_host s)) + word_of_nat (length p)\<rparr>"
proof -
  from t have ce: "calm e" and e: "fd1_set e" "\<not> fd2_set e" "net_res e = (l, d)" "wr_dev e = Wr_all"
    by (simp_all add: net_turn_def)
  let ?buf = "d @ drop (length d) (lk_buf s)"
  have "take (nat l) ?buf = d" using l(3) by simp
  from up [OF this] obtain ret r' where
    r: "lfd_run_up (lfd_mods L) (lk_mods s) l ?buf (see_time e (lk_cells s)) = Some (int (length p), ret, r')"
      "take (length p) ret = p" "P r'" by blast
  have msk: "l AND 0xfff = l" "l AND NOT 0xfff = 0" using mask_flags [OF l(1)] l(2) by simp_all
  have fit: "\<not> length (lk_buf s) < length d" using l buf by linarith
  let ?s' = "add_byte_in (int (length p))
      ((add_comp_in l (fill_buf d (s\<lparr>lk_cells := see_time e (lk_cells s), lk_idle := 0, ka_need_verify := False\<rparr>)))
        \<lparr>lk_cells := r', lk_dev := lk_dev s @ [p]\<rparr>)"
  have "lk_turn L e s = Next ?s'"
    using e ce q nc l(1) msk fit r p
    by (simp add: quiet_turn lk_net_in_def lfd_check_up_yes [OF m] lk_frame_def lk_deliver_def lk_dev_in_def
        fill_buf_def overlay_def Let_def add_comp_in_def upd_stat_def net_frame_uncut dev_put_all)
  with r(3) fit nc show ?thesis
    by (intro exI [of _ ?s']) (simp add: add_comp_in_def add_byte_in_def upd_stat_def fill_buf_def)
qed

subsection \<open>Two linkers of one session\<close>

definition joined :: "('z, 'c) libs \<Rightarrow> ('z \<Rightarrow> 'z \<Rightarrow> bool) \<Rightarrow> (nat \<Rightarrow> 'c \<Rightarrow> 'c \<Rightarrow> bool) \<Rightarrow> vtun_host \<Rightarrow> vtun_host
    \<Rightarrow> ('z, 'c) lk \<Rightarrow> ('z, 'c) lk \<Rightarrow> bool" where
  "joined L Rz Re hA hB A B =
     (mods_repr (lk_mods A) (modules_of hA) \<and> mods_repr (lk_mods B) (modules_of hB)
      \<and> same_codecs hA hB \<and> ends_sync L Rz Re hA (lk_cells A) (lk_cells B)
      \<and> quiet A \<and> quiet B \<and> uncut A \<and> uncut B \<and> linker_term A = 0 \<and> linker_term B = 0
      \<and> 2148 \<le> length (lk_buf A) \<and> 2148 \<le> length (lk_buf B))"

text \<open>Packets that fit the tunnel: with all headers of the modules, a frame of at most 2148 bytes.\<close>

definition fits_tunnel :: "vtun_host \<Rightarrow> byte list \<Rightarrow> bool" where
  "fits_tunnel h p = (p \<noteq> [] \<and> length p \<le> VTUN_FRAME_SIZE
     \<and> fits stack_cap stack_grow (codecs_of h) (int (length p))
     \<and> int (length p) + sum_list (map stack_grow (codecs_of h)) \<le> int (VTUN_FRAME_SIZE + VTUN_FRAME_OVERHEAD))"

lemma joined_step:
  assumes j: "joined L Rz Re hA hB A B" and t: "dev_turn e p" and ok: "accepts L e A"
    and p: "fits_tunnel hA p"
  shows "\<exists>A' f. lk_turn L e A = Next A' \<and> lk_net A' = lk_net A @ [f] \<and> frame_ok f \<and> lk_dev A' = lk_dev A
    \<and> linker_term A' = 0
    \<and> vh_stat (lk_host A') = (vh_stat (lk_host A))
         \<lparr>byte_out := byte_out (vh_stat (lk_host A)) + word_of_nat (length p),
          comp_out := comp_out (vh_stat (lk_host A)) + word_of_int (fst f)\<rparr>
    \<and> (\<forall>eB. net_turn eB f \<longrightarrow> (\<exists>B'. lk_turn L eB B = Next B' \<and> lk_dev B' = lk_dev B @ [p]
         \<and> lk_net B' = lk_net B \<and> lk_idle B' = 0
         \<and> vh_stat (lk_host B') = (vh_stat (lk_host B))
             \<lparr>comp_in := comp_in (vh_stat (lk_host B)) + word_of_int (fst f),
              byte_in := byte_in (vh_stat (lk_host B)) + word_of_nat (length p)\<rparr>
         \<and> joined L Rz Re hA hB A' B'))"
proof -
  from j have q: "quiet A" "quiet B" and nc: "uncut A" "uncut B" and m: "mods_repr (lk_mods A) (modules_of hA)"
      "mods_repr (lk_mods B) (modules_of hB)"
    and hs: "same_codecs hA hB" and sy: "ends_sync L Rz Re hA (lk_cells A) (lk_cells B)"
    and lt: "linker_term A = 0" "linker_term B = 0"
    and buf: "2148 \<le> length (lk_buf A)" "2148 \<le> length (lk_buf B)" by (simp_all add: joined_def)
  have sz: "fits stack_cap stack_grow (codecs_of hA) (int (length p))" "p \<noteq> []" "length p \<le> 2048"
      "int (length p) + sum_list (map stack_grow (codecs_of hA)) \<le> 2148"
    using p by (simp_all add: fits_tunnel_def)
  have b0: "2064 \<le> length (lk_buf A)" using buf by simp
  \<comment> \<open>the receiver's clock moves before it decodes, whatever turn that is\<close>
  have send: "\<exists>s' l d. lk_turn L e A = Next s' \<and> lk_net s' = lk_net A @ [(l, d)]
    \<and> 0 < l \<and> l \<le> 2148 \<and> int (length d) = l
    \<and> vh_stat (lk_host s') = (vh_stat (lk_host A))
         \<lparr>byte_out := byte_out (vh_stat (lk_host A)) + word_of_nat (length p),
          comp_out := comp_out (vh_stat (lk_host A)) + word_of_int l\<rparr>
    \<and> lk_mods s' = lk_mods A \<and> lk_dev s' = lk_dev A \<and> linker_term s' = linker_term A
    \<and> uncut s' \<and> quiet s' \<and> length (lk_buf s') = length (lk_buf A)
    \<and> (\<forall>got. take (nat l) got = d \<longrightarrow>
         (\<exists>ret r'. lfd_run_up (lfd_mods L) (lk_mods B) l got r = Some (int (length p), ret, r')
            \<and> take (length p) ret = p \<and> ends_sync L Rz Re hA (lk_cells s') r'
            \<and> (wants_packet r \<or> \<not> wants_packet r')))"
    if "ends_sync L Rz Re hA (lk_cells A) r" for r
    using lk_turn_sends [OF t q(1) nc(1) ok m hs that sz(1-3) b0 sz(4)] .
  from send [OF sy] obtain A' l d where
    a: "lk_turn L e A = Next A'" "lk_net A' = lk_net A @ [(l, d)]" "0 < l" "l \<le> 2148" "int (length d) = l"
      "lk_mods A' = lk_mods A" "lk_dev A' = lk_dev A" "linker_term A' = linker_term A" "quiet A'" "uncut A'"
      "length (lk_buf A') = length (lk_buf A)"
      "vh_stat (lk_host A') = (vh_stat (lk_host A))
         \<lparr>byte_out := byte_out (vh_stat (lk_host A)) + word_of_nat (length p),
          comp_out := comp_out (vh_stat (lk_host A)) + word_of_int l\<rparr>" by blast
  have fo: "frame_ok (l, d)" using a(3-5) by (auto simp: frame_ok_def)
  have "\<exists>B'. lk_turn L eB B = Next B' \<and> lk_dev B' = lk_dev B @ [p] \<and> lk_net B' = lk_net B \<and> lk_idle B' = 0
      \<and> vh_stat (lk_host B') = (vh_stat (lk_host B))
             \<lparr>comp_in := comp_in (vh_stat (lk_host B)) + word_of_int l,
              byte_in := byte_in (vh_stat (lk_host B)) + word_of_nat (length p)\<rparr>
      \<and> joined L Rz Re hA hB A' B'" if tB: "net_turn eB (l, d)" for eB
  proof -
    let ?r = "see_time eB (lk_cells B)"
    from send [OF ends_sync_see_time(2) [OF sy, of eB]] a(1,2) have
      up: "\<exists>ret r'. lfd_run_up (lfd_mods L) (lk_mods B) l got ?r = Some (int (length p), ret, r')
            \<and> take (length p) ret = p
            \<and> (ends_sync L Rz Re hA (lk_cells A') r' \<and> (wants_packet ?r \<or> \<not> wants_packet r'))"
      if "take (nat l) got = d" for got using that by auto
    from lk_turn_receives [OF tB q(2) nc(2) m(2) a(3-5) buf(2) up sz(2)] obtain B' where
      b: "lk_turn L eB B = Next B'" "lk_dev B' = lk_dev B @ [p]" "lk_net B' = lk_net B" "lk_mods B' = lk_mods B"
        "ends_sync L Rz Re hA (lk_cells A') (lk_cells B')"
        "wants_packet ?r \<or> \<not> wants_packet (lk_cells B')" "linker_term B' = linker_term B"
        "uncut B'" "\<not> ka_need_verify B'" "length (lk_buf B') = length (lk_buf B)" "lk_idle B' = 0"
        "vh_stat (lk_host B') = (vh_stat (lk_host B))
             \<lparr>comp_in := comp_in (vh_stat (lk_host B)) + word_of_int l,
              byte_in := byte_in (vh_stat (lk_host B)) + word_of_nat (length p)\<rparr>" by auto
    then have "quiet B'" using q(2) by (simp add: quiet_def wants_packet_see_time)
    with b a m hs lt buf show ?thesis by (simp add: joined_def)
  qed
  with a fo lt show ?thesis by (intro exI [of _ A'] exI [of _ "(l, d)"]) simp
qed

text \<open>Without a shaper, input is always accepted.\<close>

lemma accepts_no_shape:
  assumes "mods_repr (lk_mods s) (modules_of h)" and "\<not> has_flag h VTUN_SHAPE"
  shows "accepts L e s"
proof -
  have "\<forall>m\<in>set (modules_of h). (m_avail_encode \<circ> lfd_mods L) m = None"
    using assms(2) no_avail(1) by (auto simp: modules_of_def codecs_of_def)
  then have "check_list (m_avail_encode \<circ> lfd_mods L) (modules_of h) 1 c = (1, c)" for c
    by (rule check_list_none)
  then show ?thesis unfolding accepts_def lfd_check_down_list [OF assms(1)] by (simp only: ) simp
qed

lemma joined_loop:
  assumes "joined L Rz Re hA hB A B" and "\<not> has_flag hA VTUN_SHAPE"
    and "list_all2 dev_turn es ps" and "\<forall>p\<in>set ps. fits_tunnel hA p"
  shows "\<exists>A' fs. lk_loop L es A = Running A' \<and> lk_net A' = lk_net A @ fs \<and> list_all frame_ok fs
    \<and> length fs = length ps
    \<and> (\<forall>eBs. list_all2 net_turn eBs fs \<longrightarrow> (\<exists>B'. lk_loop L eBs B = Running B'
         \<and> lk_dev B' = lk_dev B @ ps \<and> joined L Rz Re hA hB A' B'))"
  using assms(3,1,4)
proof (induction es ps arbitrary: A B rule: list_all2_induct)
  case Nil
  then show ?case by (auto simp: joined_def)
next
  case (Cons e es p ps)
  have "linker_term A = 0" "linker_term B = 0" "mods_repr (lk_mods A) (modules_of hA)"
    using Cons.prems(1) by (simp_all add: joined_def)
  note ac = accepts_no_shape [OF this(3) assms(2)]
  have "fits_tunnel hA p" using Cons.prems(2) by simp
  from joined_step [OF Cons.prems(1) Cons.hyps(1) ac this] obtain A1 f where
    a: "lk_turn L e A = Next A1" "lk_net A1 = lk_net A @ [f]" "frame_ok f"
    and b: "\<And>eB. net_turn eB f \<Longrightarrow> \<exists>B'. lk_turn L eB B = Next B' \<and> lk_dev B' = lk_dev B @ [p]
         \<and> lk_net B' = lk_net B \<and> joined L Rz Re hA hB A1 B'" by blast
  obtain l d where f: "f = (l, d)" by (cases f)
  obtain eB0 where "net_turn eB0 f"
    by (rule that [of "\<lparr>ev_sigs = [], sel_res = 1, sel_errno = EINTR, fd1_set = True, fd2_set = False,
        net_res = f, dev_res = (0, []), dev_errno = EINTR, wr_echo = Wr_all, wr_packet = Wr_all,
        wr_reply = Wr_all, wr_frame = Wr_all, wr_dev = Wr_all, wr_dev_errno = EINTR, ev_clock = \<lparr>tv_sec = 0, tv_usec = 0\<rparr>, ev_now = 0\<rparr>"])
      (simp add: net_turn_def calm_def)
  from b [OF this] obtain B0 where "joined L Rz Re hA hB A1 B0" by blast
  from Cons.IH [OF this] Cons.prems(2) obtain A' fs where
    a': "lk_loop L es A1 = Running A'" "lk_net A' = lk_net A1 @ fs" "list_all frame_ok fs"
      "length fs = length ps" by auto
  have "\<exists>B'. lk_loop L eBs B = Running B' \<and> lk_dev B' = lk_dev B @ p # ps \<and> joined L Rz Re hA hB A' B'"
    if r: "list_all2 net_turn eBs (f # fs)" for eBs
  proof -
    from r obtain eB eBs' where eb: "eBs = eB # eBs'" "net_turn eB f" "list_all2 net_turn eBs' fs"
      by (auto simp: list_all2_Cons2)
    from b [OF eb(2)] obtain B1 where b1: "lk_turn L eB B = Next B1" "lk_dev B1 = lk_dev B @ [p]"
      "joined L Rz Re hA hB A1 B1" by blast
    from Cons.IH [OF b1(3)] Cons.prems(2) a' eb(3) obtain B' where
      "lk_loop L eBs' B1 = Running B'" "lk_dev B' = lk_dev B1 @ ps" "joined L Rz Re hA hB A' B'" by auto
    with b1 eb(1) \<open>linker_term B = 0\<close> show ?thesis by auto
  qed
  with a a' \<open>linker_term A = 0\<close> show ?case
    by (intro exI [of _ A'] exI [of _ "f # fs"]) auto
qed

subsection \<open>What a turn never changes\<close>

definition flow_all :: "('s \<Rightarrow> bool) \<Rightarrow> 's flow \<Rightarrow> bool" where
  "flow_all P a = (case a of Next s \<Rightarrow> P s | Again s \<Rightarrow> P s | Leave s \<Rightarrow> P s | Undef \<Rightarrow> True)"

lemma flow_all_simps [simp]:
  "flow_all P (Next s) = P s" "flow_all P (Again s) = P s" "flow_all P (Leave s) = P s" "flow_all P Undef"
  by (simp_all add: flow_all_def)

lemma flow_all_and_then:
  "flow_all P a \<Longrightarrow> (\<And>s. P s \<Longrightarrow> flow_all P (f s)) \<Longrightarrow> flow_all P (and_then a f)"
  by (cases a) auto

text \<open>The options of the host the loop reads; nothing in a turn changes them.\<close>

definition conf :: "('z, 'c) lk \<Rightarrow> flags \<times> int \<times> int \<times> int \<times> int \<times> int \<times> string option \<times> string \<times> int" where
  "conf s = (vh_flags (lk_host s), vh_persist (lk_host s), ka_interval (lk_host s), ka_maxfail (lk_host s),
     rmt_fd (lk_host s), loc_fd (lk_host s), vh_dev (lk_host s), vh_host (lk_host s), vh_multi (lk_host s))"

lemma conf_upd [simp]:
  "conf (upd_stat f s) = conf s" "conf (add_byte_in n s) = conf s" "conf (add_byte_out n s) = conf s"
  "conf (add_comp_in n s) = conf s" "conf (add_comp_out n s) = conf s"
  "conf (snd (proto_write w len b s)) = conf s" "conf (snd (dev_put w p s)) = conf s" "conf (fill_buf d s) = conf s"
  "conf (sig_term s) = conf s" "conf (sig_hup s) = conf s" "conf (sig_usr1 s) = conf s"
  "conf (s\<lparr>lk_cells := c\<rparr>) = conf s" "conf (s\<lparr>lk_idle := i\<rparr>) = conf s"
  "conf (s\<lparr>ka_need_verify := k\<rparr>) = conf s" "conf (s\<lparr>lk_dev := dv\<rparr>) = conf s"
  "conf (s\<lparr>linker_term := t\<rparr>) = conf s" "conf (s\<lparr>lk_buf := bf\<rparr>) = conf s"
  by (simp_all add: conf_def upd_stat_def add_byte_in_def add_byte_out_def add_comp_in_def
      add_comp_out_def proto_write_def dev_put_def fill_buf_def sig_term_def sig_hup_def sig_usr1_def
      split: wr_out.split)

lemma sig_alarm_conf: "sig_alarm now s = Some s' \<Longrightarrow> conf s' = conf s"
  by (auto simp: sig_alarm_def Let_def conf_def split: if_splits)

lemma handle_sigs_conf: "handle_sigs g s = Some s' \<Longrightarrow> conf s' = conf s"
  by (induction g s rule: handle_sigs.induct) (auto dest: sig_alarm_conf split: option.splits)

text \<open>
  After \<open>select\<close> the rest of a turn leaves also the signals' marks alone, and once input and output over TCP
  have been cancelled it sends nothing.
\<close>

definition kept :: "('z, 'c) lk \<Rightarrow> (flags \<times> int \<times> int \<times> int \<times> int \<times> int \<times> string option \<times> string \<times> int) \<times> bool \<times> int" where
  "kept s = (conf s, io_canceled s, linker_term s)"

definition sent :: "('z, 'c) lk \<Rightarrow> (int \<times> byte list) list \<times> (nat \<times> byte list) list" where
  "sent s = (lk_net s, lk_torn s)"

definition stopped :: "('z, 'c) lk \<Rightarrow> bool" where
  "stopped s = (over_tcp (lk_host s) \<and> io_canceled s)"

definition after_sel :: "('z, 'c) lk \<Rightarrow> ('z, 'c) lk \<Rightarrow> bool" where
  "after_sel s s' = (kept s' = kept s \<and> (stopped s \<longrightarrow> sent s' = sent s))"

lemma conf_over_tcp: "conf s' = conf s \<Longrightarrow> over_tcp (lk_host s') = over_tcp (lk_host s)"
  by (simp add: conf_def over_tcp_def)

lemma kept_stopped: "kept s' = kept s \<Longrightarrow> stopped s' = stopped s"
  using conf_over_tcp [of s' s] by (simp add: kept_def stopped_def)

lemma after_sel_refl [simp]: "after_sel s s"
  by (simp add: after_sel_def)

lemma after_sel_trans: "after_sel a b \<Longrightarrow> after_sel b c \<Longrightarrow> after_sel a c"
  using kept_stopped [of b a] by (simp add: after_sel_def)

definition marks :: "('z, 'c) lk \<Rightarrow> bool \<times> int \<times> (int \<times> byte list) list \<times> (nat \<times> byte list) list" where
  "marks s = (io_canceled s, linker_term s, lk_net s, lk_torn s)"

lemma marks_upd [simp]:
  "marks (upd_stat f t) = marks t" "marks (add_byte_in n t) = marks t" "marks (add_byte_out n t) = marks t"
  "marks (add_comp_in n t) = marks t" "marks (add_comp_out n t) = marks t" "marks (fill_buf d t) = marks t"
  "marks (t\<lparr>lk_cells := c\<rparr>) = marks t" "marks (t\<lparr>lk_idle := i\<rparr>) = marks t"
  "marks (t\<lparr>ka_need_verify := k\<rparr>) = marks t" "marks (t\<lparr>lk_dev := dv\<rparr>) = marks t"
  "marks (snd (dev_put w p t)) = marks t"
  by (simp_all add: marks_def upd_stat_def add_byte_in_def add_byte_out_def add_comp_in_def add_comp_out_def
      fill_buf_def dev_put_def split: wr_out.split)

lemma after_sel_cong: "conf t' = conf t \<Longrightarrow> marks t' = marks t \<Longrightarrow> after_sel s t' = after_sel s t"
  by (simp add: after_sel_def kept_def sent_def marks_def)

lemma after_sel_upd [simp]:
  "after_sel s (upd_stat f t) = after_sel s t" "after_sel s (add_byte_in n t) = after_sel s t"
  "after_sel s (add_byte_out n t) = after_sel s t" "after_sel s (add_comp_in n t) = after_sel s t"
  "after_sel s (add_comp_out n t) = after_sel s t" "after_sel s (fill_buf d t) = after_sel s t"
  "after_sel s (t\<lparr>lk_cells := c\<rparr>) = after_sel s t" "after_sel s (t\<lparr>lk_idle := i\<rparr>) = after_sel s t"
  "after_sel s (t\<lparr>ka_need_verify := k\<rparr>) = after_sel s t" "after_sel s (t\<lparr>lk_dev := dv\<rparr>) = after_sel s t"
  "after_sel s (snd (dev_put w p t)) = after_sel s t"
  by (rule after_sel_cong; simp)+

lemma proto_write_marks:
  "io_canceled (snd (proto_write w len b t)) = io_canceled t" "linker_term (snd (proto_write w len b t)) = linker_term t"
  "stopped t \<Longrightarrow> sent (snd (proto_write w len b t)) = sent t"
  by (simp_all add: proto_write_def stopped_def split: wr_out.split)

lemma after_sel_write [simp]: "after_sel s t \<Longrightarrow> after_sel s (snd (proto_write w len b t))"
  using kept_stopped [of t s] by (simp add: after_sel_def kept_def proto_write_marks)

lemma lk_deliver_after: "after_sel s t \<Longrightarrow> flow_all (after_sel s) (lk_deliver L e len t)"
  by (auto simp: lk_deliver_def Let_def split: option.splits)

lemma lk_encode_after: "after_sel s t \<Longrightarrow> flow_all (after_sel s) (lk_encode L e len t)"
  by (auto simp: lk_encode_def Let_def split: option.splits)

text \<open>A turn after \<open>select\<close>, and the whole turn.\<close>

definition lk_rest :: "('z, 'c) libs \<Rightarrow> lk_env \<Rightarrow> ('z, 'c) lk \<Rightarrow> ('z, 'c) lk flow" where
  "lk_rest L e s = and_then (and_then (and_then (lk_verify e s) (lk_packet L e)) (lk_net_in L e)) (lk_dev_in L e)"

lemma and_then_assoc: "and_then (and_then a f) g = and_then a (\<lambda>s. and_then (f s) g)"
  by (cases a) simp_all

lemma lk_turn_rest: "lk_turn L e s = and_then (lk_wait e s) (lk_rest L e)"
  unfolding lk_turn_def lk_rest_def [abs_def] and_then_assoc ..

lemma lk_rest_after: "flow_all (after_sel s) (lk_rest L e s)"
proof -
  have v: "flow_all (after_sel s) (lk_verify e s)" by (auto simp: lk_verify_def Let_def)
  have p: "flow_all (after_sel s) (lk_packet L e t)" if "after_sel s t" for t
    using that by (auto simp: lk_packet_def Let_def split: option.splits)
  have f: "flow_all (after_sel s) (lk_frame L e t)" if "after_sel s t" for t
    using that by (auto simp: lk_frame_def Let_def intro: lk_deliver_after)
  have n: "flow_all (after_sel s) (lk_net_in L e t)" if "after_sel s t" for t
    using that by (auto simp: lk_net_in_def intro: f split: option.splits)
  have d: "flow_all (after_sel s) (lk_dev_in L e t)" if "after_sel s t" for t
    using that by (auto simp: lk_dev_in_def Let_def intro: lk_encode_after split: option.splits)
  show ?thesis unfolding lk_rest_def by (intro flow_all_and_then v p n d)
qed

text \<open>Signals that end a session.\<close>

definition stop_sig :: "lk_env \<Rightarrow> bool" where
  "stop_sig e = (Sig_term \<in> set (ev_sigs e) \<or> Sig_hup \<in> set (ev_sigs e))"

lemma sig_alarm_keeps:
  "sig_alarm now s = Some s' \<Longrightarrow> sent s' = sent s \<and> io_canceled s' = io_canceled s \<and> linker_term s' = linker_term s"
  by (auto simp: sig_alarm_def Let_def sent_def split: if_splits)

lemma handle_sigs_marks:
  "handle_sigs g s = Some s' \<Longrightarrow> sent s' = sent s
    \<and> (if Sig_term \<in> set g \<or> Sig_hup \<in> set g then io_canceled s' \<and> linker_term s' \<noteq> 0
       else io_canceled s' = io_canceled s \<and> linker_term s' = linker_term s)"
proof (induction g s rule: handle_sigs.induct)
  case (2 g s)
  then show ?case by (auto simp: sig_term_def sent_def VTUN_SIG_TERM_def split: if_splits)
next
  case (3 g s)
  then show ?case by (auto simp: sig_hup_def sent_def VTUN_SIG_HUP_def split: if_splits)
next
  case (4 g s)
  then show ?case by (auto simp: sig_usr1_def upd_stat_def sent_def)
next
  case (5 now g s)
  then show ?case using sig_alarm_keeps [of now s] by (auto split: option.splits)
qed simp

lemma lk_wait_marks:
  "flow_all (\<lambda>s'. conf s' = conf s \<and> sent s' = sent s
    \<and> (if stop_sig e then io_canceled s' \<and> linker_term s' \<noteq> 0
       else io_canceled s' = io_canceled s \<and> linker_term s' = linker_term s)) (lk_wait e s)"
  using handle_sigs_marks [of "ev_sigs e" s] handle_sigs_conf [of "ev_sigs e" s]
  by (auto simp: lk_wait_def stop_sig_def sent_def split: option.splits)

lemma lk_turn_conf: "flow_all (\<lambda>s'. conf s' = conf s) (lk_turn L e s)"
proof (cases "lk_wait e s")
  case (Next t)
  moreover have "flow_all (\<lambda>s'. conf s' = conf t) (lk_rest L e t)"
    using lk_rest_after [of t L e] by (cases "lk_rest L e t") (auto simp: after_sel_def kept_def)
  ultimately show ?thesis using lk_wait_marks [of s e] by (simp add: lk_turn_rest)
qed (use lk_wait_marks [of s e] in \<open>auto simp: lk_turn_rest\<close>)

lemma lk_turn_uncut: "\<not> stop_sig e \<Longrightarrow> flow_all (\<lambda>s'. io_canceled s' = io_canceled s) (lk_turn L e s)"
proof (cases "lk_wait e s")
  case (Next t)
  moreover have "flow_all (\<lambda>s'. io_canceled s' = io_canceled t) (lk_rest L e t)"
    using lk_rest_after [of t L e] by (cases "lk_rest L e t") (auto simp: after_sel_def kept_def)
  moreover assume "\<not> stop_sig e"
  ultimately show ?thesis using lk_wait_marks [of s e] by (simp add: lk_turn_rest)
qed (use lk_wait_marks [of s e] in \<open>auto simp: lk_turn_rest\<close>)

text \<open>A turn in which a signal ends the session, over TCP: nothing is sent in it.\<close>

lemma lk_turn_stops:
  assumes "stop_sig e" and "over_tcp (lk_host s)"
  shows "flow_all (\<lambda>s'. conf s' = conf s \<and> sent s' = sent s \<and> stopped s' \<and> linker_term s' \<noteq> 0) (lk_turn L e s)"
proof (cases "lk_wait e s")
  case (Next t)
  have t: "conf t = conf s" "sent t = sent s" "stopped t" "linker_term t \<noteq> 0"
    using lk_wait_marks [of s e] assms conf_over_tcp [of t s] by (auto simp: Next stopped_def)
  have "flow_all (\<lambda>s'. conf s' = conf t \<and> sent s' = sent t \<and> stopped s' \<and> linker_term s' = linker_term t) (lk_rest L e t)"
    using lk_rest_after [of t L e] t(3) kept_stopped [of _ t]
    by (cases "lk_rest L e t") (auto simp: after_sel_def kept_def)
  then show ?thesis using Next t by (cases "lk_rest L e t") (auto simp: lk_turn_rest)
qed (use lk_wait_marks [of s e] assms conf_over_tcp [of _ s] in \<open>auto simp: lk_turn_rest stopped_def\<close>)

definition run_all :: "('s \<Rightarrow> bool) \<Rightarrow> 's run \<Rightarrow> bool" where
  "run_all P r = (case r of Running s \<Rightarrow> P s | Ended s \<Rightarrow> P s | Undefined \<Rightarrow> True)"

lemma lk_loop_conf: "conf s = k \<Longrightarrow> run_all (\<lambda>s'. conf s' = k) (lk_loop L es s)"
proof (induction es arbitrary: s)
  case Nil
  then show ?case by (simp add: run_all_def)
next
  case (Cons e es)
  with lk_turn_conf [of s L e] show ?case
    by (cases "lk_turn L e s") (simp_all add: run_all_def)
qed

lemma lk_loop_uncut:
  "uncut s \<Longrightarrow> \<forall>e\<in>set es. \<not> stop_sig e \<Longrightarrow> run_all uncut (lk_loop L es s)"
proof (induction es arbitrary: s)
  case Nil
  then show ?case by (simp add: run_all_def)
next
  case (Cons e es)
  with lk_turn_uncut [of e s L] show ?case
    by (cases "lk_turn L e s") (simp_all add: run_all_def)
qed

lemma lk_loop_append: "lk_loop L es s = Running t \<Longrightarrow> lk_loop L (es @ es') s = lk_loop L es' t"
  by (induction es arbitrary: s) (auto split: if_splits flow.splits)

lemma lk_loop_over: "linker_term s \<noteq> 0 \<Longrightarrow> lk_loop L es s = Ended s"
  by (cases es) simp_all

lemma lk_loop_running: "lk_loop L es s = Running t \<Longrightarrow> linker_term t = 0"
  by (induction es arbitrary: s) (auto split: if_splits flow.splits)

text \<open>The linker is its loop, from a state with the options of the host, and what follows it.\<close>

lemma lfd_linker_run:
  assumes "lfd_alloc (l_malloc L) (VTUN_FRAME_SIZE + VTUN_FRAME_OVERHEAD) = Some b"
  shows "\<exists>s2. conf s2 = conf s \<and> io_canceled s2 = io_canceled s
    \<and> (\<forall>es. lfd_linker L w1 w2 es s = (case lk_loop L es s2 of Ended t \<Rightarrow> Ended (lk_close w2 t) | r \<Rightarrow> r))"
proof -
  define s2 where "s2 = (let s1 = s\<lparr>lk_buf := b, lk_idle := 0\<rparr> in
      if has_flag (lk_host s1) VTUN_NAT_HACK_MASK then s1
      else snd (proto_write w1 VTUN_ECHO_REQ (lk_buf s1) s1))\<lparr>linker_term := 0\<rparr>"
  have "conf s2 = conf s" by (simp add: s2_def Let_def)
  moreover have "io_canceled s2 = io_canceled s" by (simp add: s2_def Let_def proto_write_def split: wr_out.split)
  moreover have "lfd_linker L w1 w2 es s = (case lk_loop L es s2 of Ended t \<Rightarrow> Ended (lk_close w2 t) | r \<Rightarrow> r)" for es
    using assms by (simp add: lfd_linker_def Let_def s2_def)
  ultimately show ?thesis by blast
qed

subsection \<open>What \<open>proto_write\<close> stands for\<close>

text \<open>The functions of the two protocols do what \<^const>\<open>proto_write\<close> says, for what becomes of their frame.\<close>

definition wrote :: "int \<Rightarrow> byte list \<Rightarrow> byte list \<Rightarrow> ('z, 'c) lk \<Rightarrow> ('z, 'c) lk" where
  "wrote len buf out s =
     (if out = wire len buf then s\<lparr>lk_net := lk_net s @ [(len, take (nat (len AND VTUN_FSIZE_MASK)) buf)]\<rparr>
      else if out = [] then s
      else s\<lparr>lk_torn := lk_torn s @ [(length (lk_net s), out)]\<rparr>)"

lemma write_n_loop_sent:
  "write_n_loop canc todo gone es = Some (r, out, canc', es') \<Longrightarrow>
     \<exists>n. out = gone @ take n todo \<and> (canc \<longrightarrow> take n todo = [] \<and> r = int (length gone))
       \<and> (take n todo = todo \<longrightarrow> r = int (length out))"
proof (induction canc todo gone es rule: write_n_loop.induct)
  case (1 canc todo sent es)
  show ?case
  proof (cases "canc \<or> todo = []")
    case True
    then show ?thesis using "1.prems" by (intro exI [of _ 0]) (auto simp: write_n_loop.simps [of canc])
  next
    case False
    then obtain x es2 where es: "es = x # es2"
      using "1.prems" by (cases es) (auto simp: write_n_loop_eqs)
    show ?thesis
    proof (cases x)
      case (WrErr e)
      show ?thesis
      proof (cases "soft_errno e")
        case True
        then have "write_n_loop canc todo sent es2 = Some (r, out, canc', es')"
          using "1.prems" False es WrErr by (auto simp: write_n_loop_eqs)
        from "1.IH"(2) [OF False es WrErr True this] show ?thesis .
      next
        case hard: False
        then show ?thesis using "1.prems" False es WrErr
          by (intro exI [of _ 0]) (auto simp: write_n_loop_eqs)
      qed
    next
      case WrSig
      then have "write_n_loop True todo sent es2 = Some (r, out, canc', es')"
        using "1.prems" False es by (auto simp: write_n_loop_eqs)
      then show ?thesis using False by (intro exI [of _ 0]) (auto simp: write_n_loop_eqs)
    next
      case (WrOk k)
      show ?thesis
      proof (cases "k = 0")
        case True
        then show ?thesis using "1.prems" False es WrOk
          by (intro exI [of _ 0]) (auto simp: write_n_loop_eqs)
      next
        case k: False
        have "write_n_loop canc (drop k todo) (sent @ take k todo) es2 = Some (r, out, canc', es')"
          using "1.prems" False es WrOk k by (auto simp: write_n_loop_eqs)
        from "1.IH"(1) [OF False es WrOk k this] obtain n where n: "out = (sent @ take k todo) @ take n (drop k todo)"
          "take n (drop k todo) = drop k todo \<longrightarrow> r = int (length out)" by blast
        have e: "take k todo @ take n (drop k todo) = take (k + n) todo" by (simp add: take_add)
        have "take n (drop k todo) = drop k todo" if "take (k + n) todo = todo"
          using that e by (metis append_eq_append_conv append_take_drop_id)
        then show ?thesis using n e False by (intro exI [of _ "k + n"]) auto
      qed
    qed
  qed
qed

lemma wire_not_empty: "wire len buf \<noteq> []"
  by (simp add: wire_def hdr_bytes_def)

lemma proto_write_tcp:
  assumes "over_tcp (lk_host s)" and "tcp_write (io_canceled s) buf len es = Some (r, out, canc', es')"
  shows "\<exists>w. proto_write w len buf s = (r, wrote len buf out s)"
proof -
  from write_n_loop_sent [OF assms(2) [unfolded tcp_write_def write_n_def]] obtain n where
    "out = [] @ take n (wire len buf)" "io_canceled s \<longrightarrow> take n (wire len buf) = [] \<and> r = int (length ([] :: byte list))"
    "take n (wire len buf) = wire len buf \<longrightarrow> r = int (length out)" by blast
  then have n: "out = take n (wire len buf)" "io_canceled s \<longrightarrow> out = [] \<and> r = 0"
    "out = wire len buf \<longrightarrow> r = int (length out)" by auto
  show ?thesis
  proof (cases "out = wire len buf")
    case True
    then show ?thesis using n assms(1) wire_not_empty [of len buf]
      by (intro exI [of _ Wr_all]) (auto simp: proto_write_def wrote_def)
  next
    case False
    then show ?thesis using n assms(1) wire_not_empty [of len buf]
      by (intro exI [of _ "Wr_part r (length out)"]) (auto simp: proto_write_def wrote_def)
  qed
qed

lemma udp_write_loop_prefix:
  "udp_write_loop pkt es = Some (r, out, es') \<Longrightarrow> \<exists>n. out = take n pkt \<and> (out = pkt \<longrightarrow> out = [] \<or> r = int (length out))"
  by (induction pkt es rule: udp_write_loop.induct) (auto split: if_splits intro: exI [of _ 0])

lemma proto_write_udp:
  assumes "\<not> over_tcp (lk_host s)" and "udp_write conn buf len es = Some (r, out, es')"
  shows "\<exists>w. proto_write w len buf s = (r, wrote len buf out s)"
proof -
  obtain n where n: "out = take n (wire len buf)" "out = wire len buf \<longrightarrow> r = int (length out)"
    using assms(2) udp_write_loop_prefix [of "wire len buf" es r out es'] wire_not_empty [of len buf]
    by (cases conn) (auto simp: udp_write_def intro: exI [of _ 0])
  show ?thesis
  proof (cases "out = wire len buf")
    case True
    then show ?thesis using n assms(1) wire_not_empty [of len buf]
      by (intro exI [of _ Wr_all]) (auto simp: proto_write_def wrote_def)
  next
    case False
    then show ?thesis using n assms(1) wire_not_empty [of len buf]
      by (intro exI [of _ "Wr_part r (length out)"]) (auto simp: proto_write_def wrote_def)
  qed
qed

subsection \<open>Properties\<close>

text \<open>
  The tunnel delivers: the packets one end reads from its device come out of the device of the
  other end, unchanged and in order, whatever modules the two hosts share (compression, any of the
  ciphers, or the legacy encryption), and however TCP cuts the stream of frames into pieces.
\<close>

theorem tunnel_over_tcp:
  assumes "joined L Rz Re hA hB A B" and "\<not> has_flag hA VTUN_SHAPE"
    and "list_all2 dev_turn es ps" and "\<forall>p\<in>set ps. fits_tunnel hA p"
  shows "\<exists>A' fs. lk_loop L es A = Running A' \<and> lk_net A' = lk_net A @ fs
    \<and> (\<forall>ch. rd_clean ch \<and> rd_stream ch = concat (map (\<lambda>(l, b). wire l b) fs) \<longrightarrow>
        (\<exists>got ch'. recv_all (tcp_recv stk) (length ps) ch = Some (got, ch')
          \<and> (\<forall>eBs. list_all2 net_turn eBs got \<longrightarrow>
               (\<exists>B'. lk_loop L eBs B = Running B' \<and> lk_dev B' = lk_dev B @ ps
                  \<and> joined L Rz Re hA hB A' B'))))"
proof -
  from joined_loop [OF assms] obtain A' fs where
    a: "lk_loop L es A = Running A'" "lk_net A' = lk_net A @ fs" "list_all frame_ok fs" "length fs = length ps"
    and b: "\<forall>eBs. list_all2 net_turn eBs fs \<longrightarrow> (\<exists>B'. lk_loop L eBs B = Running B'
         \<and> lk_dev B' = lk_dev B @ ps \<and> joined L Rz Re hA hB A' B')" by blast
  have "\<exists>ch'. recv_all (tcp_recv stk) (length ps) ch = Some (fs, ch')"
    if "rd_clean ch" "rd_stream ch = concat (map (\<lambda>(l, b). wire l b) fs)" for ch
  proof -
    have "tcp_holds ch (fs @ [])" using that a(3) by (simp add: tcp_holds_def)
    from tcpf.recv_holds [OF this, of stk] a(4) show ?thesis by auto
  qed
  with a b show ?thesis by blast
qed

text \<open>
  A packet is counted once on each side: \<open>byte_out\<close> and \<open>comp_out\<close> of the sender grow by the
  length of the packet and of the frame, \<open>comp_in\<close> and \<open>byte_in\<close> of the receiver by the same
  numbers, also when a shaper is in the stack.
\<close>

theorem packet_counted:
  assumes "joined L Rz Re hA hB A B" and "dev_turn e p" and "accepts L e A" and "fits_tunnel hA p"
  shows "\<exists>A' f. lk_turn L e A = Next A' \<and> lk_net A' = lk_net A @ [f]
    \<and> byte_out (vh_stat (lk_host A')) = byte_out (vh_stat (lk_host A)) + word_of_nat (length p)
    \<and> comp_out (vh_stat (lk_host A')) = comp_out (vh_stat (lk_host A)) + word_of_int (fst f)
    \<and> (\<forall>eB. net_turn eB f \<longrightarrow> (\<exists>B'. lk_turn L eB B = Next B' \<and> lk_dev B' = lk_dev B @ [p]
         \<and> comp_in (vh_stat (lk_host B')) = comp_in (vh_stat (lk_host B)) + word_of_int (fst f)
         \<and> byte_in (vh_stat (lk_host B')) = byte_in (vh_stat (lk_host B)) + word_of_nat (length p)))"
proof -
  from joined_step [OF assms] obtain A' f where
    a: "lk_turn L e A = Next A'" "lk_net A' = lk_net A @ [f]"
      "vh_stat (lk_host A') = (vh_stat (lk_host A))
         \<lparr>byte_out := byte_out (vh_stat (lk_host A)) + word_of_nat (length p),
          comp_out := comp_out (vh_stat (lk_host A)) + word_of_int (fst f)\<rparr>"
    and b: "\<And>eB. net_turn eB f \<Longrightarrow> \<exists>B'. lk_turn L eB B = Next B' \<and> lk_dev B' = lk_dev B @ [p]
         \<and> vh_stat (lk_host B') = (vh_stat (lk_host B))
             \<lparr>comp_in := comp_in (vh_stat (lk_host B)) + word_of_int (fst f),
              byte_in := byte_in (vh_stat (lk_host B)) + word_of_nat (length p)\<rparr>" by blast
  have "\<exists>B'. lk_turn L eB B = Next B' \<and> lk_dev B' = lk_dev B @ [p]
         \<and> comp_in (vh_stat (lk_host B')) = comp_in (vh_stat (lk_host B)) + word_of_int (fst f)
         \<and> byte_in (vh_stat (lk_host B')) = byte_in (vh_stat (lk_host B)) + word_of_nat (length p)"
    if "net_turn eB f" for eB
    using b [OF that] by force
  with a show ?thesis by (intro exI [of _ A'] exI [of _ f]) simp
qed

text \<open>
  C29. A session that does not end by a signal, or that runs over UDP, tells its peer: when the last write is
  carried out, the last frame that leaves is \<open>VTUN_CONN_CLOSE\<close>. A session ended by SIGTERM or SIGINT also
  clears the host's \<open>persist\<close>, so that the client does not reconnect; one ended otherwise keeps it.
\<close>

theorem linker_announces_end:
  assumes "lfd_linker L w1 Wr_all es s = Ended s'"
    and "lfd_alloc (l_malloc L) (VTUN_FRAME_SIZE + VTUN_FRAME_OVERHEAD) = Some b"
    and "\<not> over_tcp (lk_host s) \<or> uncut s \<and> (\<forall>e\<in>set es. \<not> stop_sig e)"
  shows "lk_net s' \<noteq> [] \<and> last (lk_net s') = (VTUN_CONN_CLOSE, [])
    \<and> vh_persist (lk_host s') = (if linker_term s' = VTUN_SIG_TERM then 0 else vh_persist (lk_host s))"
proof -
  from lfd_linker_run [OF assms(2), where s = s and ?w1.0 = w1 and ?w2.0 = Wr_all] obtain s2 where
    s2: "conf s2 = conf s" "io_canceled s2 = io_canceled s"
    and run2: "\<And>es. lfd_linker L w1 Wr_all es s = (case lk_loop L es s2 of Ended t \<Rightarrow> Ended (lk_close Wr_all t) | r \<Rightarrow> r)"
    by blast
  from assms(1) run2 [of es] obtain t where l: "lk_loop L es s2 = Ended t" and s': "s' = lk_close Wr_all t"
    by (auto split: run.splits)
  have t: "conf t = conf s" using lk_loop_conf [of s2 "conf s" L es] s2 l by (simp add: run_all_def)
  have "\<not> stopped t"
    using assms(3) lk_loop_uncut [of s2 es L] s2 l conf_over_tcp [OF t] by (auto simp: stopped_def run_all_def)
  then show ?thesis using s' t
    by (auto simp: lk_close_def Let_def proto_write_def conf_def stopped_def over_tcp_def)
qed

text \<open>
  C25. A session over TCP that SIGTERM, SIGINT or SIGHUP ends does not tell its peer: the handlers cancel input and
  output, so that from the signal on nothing is written, the \<open>VTUN_CONN_CLOSE\<close> at the end of the linker
  included. The session does end, and SIGTERM clears \<open>persist\<close>.
\<close>

theorem signal_ends_silently:
  assumes "lfd_linker L w1 w2 es s = Running t" and "over_tcp (lk_host s)" and "stop_sig e" and "lk_turn L e t \<noteq> Undef"
  shows "\<exists>s'. lfd_linker L w1 w2 (es @ e # es') s = Ended s' \<and> lk_net s' = lk_net t \<and> lk_torn s' = lk_torn t
    \<and> linker_term s' \<noteq> 0
    \<and> vh_persist (lk_host s') = (if linker_term s' = VTUN_SIG_TERM then 0 else vh_persist (lk_host s))"
proof -
  from assms(1) obtain b where b: "lfd_alloc (l_malloc L) (VTUN_FRAME_SIZE + VTUN_FRAME_OVERHEAD) = Some b"
    by (auto simp: lfd_linker_def split: option.splits)
  from lfd_linker_run [OF b, where s = s and ?w1.0 = w1 and ?w2.0 = w2] obtain s2 where c2: "conf s2 = conf s"
    and run2: "\<And>es. lfd_linker L w1 w2 es s = (case lk_loop L es s2 of Ended t \<Rightarrow> Ended (lk_close w2 t) | r \<Rightarrow> r)" by blast
  have s2: "conf s2 = conf s" "lk_loop L es s2 = Running t"
    using c2 run2 [of es] assms(1) by (auto split: run.splits)
  have t: "conf t = conf s" "linker_term t = 0"
    using lk_loop_conf [of s2 "conf s" L es] s2 lk_loop_running [OF s2(2)] by (simp_all add: run_all_def)
  then have "over_tcp (lk_host t)" using conf_over_tcp assms(2) by blast
  from lk_turn_stops [OF assms(3) this, of L] assms(4) obtain u where
    u: "conf u = conf t" "sent u = sent t" "stopped u" "linker_term u \<noteq> 0" "lk_loop L (e # es') t = Ended u"
    using t(2) by (cases "lk_turn L e t") (auto simp: lk_loop_over)
  have "lfd_linker L w1 w2 (es @ e # es') s = Ended (lk_close w2 u)"
    using run2 [of "es @ e # es'"] lk_loop_append [OF s2(2)] u(5) by simp
  then show ?thesis using u t
    by (auto simp: lk_close_def Let_def proto_write_def conf_def sent_def stopped_def over_tcp_def)
qed

text \<open>A request for life is answered with exactly one reply, and nothing reaches the device.\<close>

theorem echo_answered:
  assumes "calm e" and "quiet s" and "uncut s" and "fd1_set e" and "net_res e = (VTUN_ECHO_REQ, d)" and "wr_reply e = Wr_all"
    and "mods_repr (lk_mods s) ms" and "length d \<le> length (lk_buf s)"
  shows "\<exists>s'. lk_turn L e s = Again s' \<and> lk_net s' = lk_net s @ [(VTUN_ECHO_REP, [])]
    \<and> lk_dev s' = lk_dev s \<and> lk_idle s' = 0"
proof -
  have "(VTUN_ECHO_REQ AND NOT VTUN_FSIZE_MASK) = VTUN_ECHO_REQ" by simp
  then show ?thesis using assms
    by (simp add: quiet_turn lk_net_in_def lfd_check_up_yes [OF assms(7)] lk_frame_def Let_def
        fill_buf_def proto_write_all net_frame_uncut)
qed

subsection \<open>A peer that falls silent\<close>

text \<open>
  A period in which only the keep-alive alarm rings, at time \<open>t\<close>: the alarm interrupts \<open>select\<close>,
  whose next call then times out, or it rings just when \<open>select\<close> times out.
\<close>

definition timed_out :: "lk_env \<Rightarrow> bool" where
  "timed_out e = (0 \<le> sel_res e \<and> \<not> fd1_set e \<and> \<not> fd2_set e \<and> wr_echo e = Wr_all)"

fun silent :: "lk_env list \<Rightarrow> int \<Rightarrow> bool" where
  "silent [e] t = (ev_sigs e = [Sig_alarm t] \<and> timed_out e)"
| "silent [i, e] t = (ev_sigs i = [Sig_alarm t] \<and> sel_res i < 0 \<and> soft_errno (sel_errno i)
     \<and> ev_sigs e = [] \<and> timed_out e)"
| "silent _ t = False"

text \<open>Alarms at times that are all due.\<close>

fun due :: "int \<Rightarrow> int \<Rightarrow> int \<Rightarrow> int list \<Rightarrow> bool" where
  "due iv tm timer [] = True"
| "due iv tm timer (t # ts) = (timer \<le> t - tm \<and> due iv t (iv + 1) ts)"

definition watched :: "('z, 'c) lk \<Rightarrow> bool" where
  "watched s = (has_flag (lk_host s) VTUN_KEEP_ALIVE \<and> \<not> has_flag (lk_host s) VTUN_STAT
     \<and> \<not> wants_packet (lk_cells s) \<and> linker_term s = 0 \<and> uncut s)"

lemma silent_alarm:
  assumes "watched s" and "ka_timer s \<le> t - alarm_tm s"
  shows "\<exists>k. sig_alarm t s = Some (s\<lparr>alarm_tm := t, ka_need_verify := True,
      ka_timer := ka_interval (lk_host s) + 1, alarm_in := k\<rparr>)"
  using assms
  by (intro exI [of _ "if (ka_interval (lk_host s) + 1) * stat_timer s \<noteq> 0
        then (if ka_interval (lk_host s) + 1 < stat_timer s then ka_interval (lk_host s) + 1 else stat_timer s)
        else if ka_interval (lk_host s) + 1 \<noteq> 0 then ka_interval (lk_host s) + 1 else stat_timer s"])
    (simp add: watched_def sig_alarm_def Let_def)

lemma silent_verify:
  assumes w: "watched s" and k: "ka_need_verify s" and e: "timed_out e"
  shows "if lk_idle s > ka_maxfail (lk_host s)
    then \<exists>s'. and_then (and_then (and_then (lk_verify e s) (lk_packet L e)) (lk_net_in L e)) (lk_dev_in L e)
        = Leave s' \<and> lk_net s' = lk_net s
    else \<exists>s'. and_then (and_then (and_then (lk_verify e s) (lk_packet L e)) (lk_net_in L e)) (lk_dev_in L e)
        = Next s' \<and> watched s' \<and> lk_idle s' = lk_idle s + 1
       \<and> alarm_tm s' = alarm_tm s \<and> ka_timer s' = ka_timer s \<and> conf s' = conf s
       \<and> lk_net s' = lk_net s @ (if lk_idle s > 0 then [(VTUN_ECHO_REQ, [])] else [])"
  using assms
  by (auto simp: timed_out_def lk_verify_def lk_packet_def lk_net_in_def lk_dev_in_def Let_def watched_def
      proto_write_all conf_def)

lemma silent_period:
  assumes w: "watched s" and e: "silent es t" and d: "ka_timer s \<le> t - alarm_tm s"
  shows "if lk_idle s > ka_maxfail (lk_host s)
    then \<exists>s'. lk_loop L (es @ rest) s = Ended s' \<and> lk_net s' = lk_net s
    else \<exists>s'. lk_loop L (es @ rest) s = lk_loop L rest s' \<and> watched s' \<and> lk_idle s' = lk_idle s + 1
       \<and> alarm_tm s' = t \<and> ka_timer s' = ka_interval (lk_host s) + 1 \<and> conf s' = conf s
       \<and> lk_net s' = lk_net s @ (if lk_idle s > 0 then [(VTUN_ECHO_REQ, [])] else [])"
proof -
  from silent_alarm [OF w d] obtain k where
    a: "sig_alarm t s = Some (s\<lparr>alarm_tm := t, ka_need_verify := True,
      ka_timer := ka_interval (lk_host s) + 1, alarm_in := k\<rparr>)" (is "_ = Some ?s") by blast
  have lt: "linker_term s = 0" using w by (simp add: watched_def)
  define s1 where "s1 e = ?s\<lparr>lk_cells := see_time e (lk_cells s)\<rparr>" for e
  have s1: "watched (s1 e)" "ka_need_verify (s1 e)" "lk_idle (s1 e) = lk_idle s"
    "ka_maxfail (lk_host (s1 e)) = ka_maxfail (lk_host s)" "lk_net (s1 e) = lk_net s"
    "alarm_tm (s1 e) = t" "ka_timer (s1 e) = ka_interval (lk_host s) + 1" "conf (s1 e) = conf s" for e
    using w by (simp_all add: s1_def watched_def wants_packet_see_time conf_def)
  have v: "if lk_idle s > ka_maxfail (lk_host s)
    then \<exists>s'. and_then (and_then (and_then (lk_verify e (s1 e)) (lk_packet L e)) (lk_net_in L e)) (lk_dev_in L e)
        = Leave s' \<and> lk_net s' = lk_net s
    else \<exists>s'. and_then (and_then (and_then (lk_verify e (s1 e)) (lk_packet L e)) (lk_net_in L e)) (lk_dev_in L e)
        = Next s' \<and> watched s' \<and> lk_idle s' = lk_idle s + 1
       \<and> alarm_tm s' = t \<and> ka_timer s' = ka_interval (lk_host s) + 1 \<and> conf s' = conf s
       \<and> lk_net s' = lk_net s @ (if lk_idle s > 0 then [(VTUN_ECHO_REQ, [])] else [])"
    if "timed_out e" for e
    using silent_verify [OF s1(1,2) that, where L = L] unfolding s1(3-8) by simp
  show ?thesis
  proof (cases "(es, t)" rule: silent.cases)
    case (1 e)
    then have e: "es = [e]" "timed_out e" "ev_sigs e = [Sig_alarm t]" using assms(2) by simp_all
    then have "lk_turn L e s
        = and_then (and_then (and_then (lk_verify e (s1 e)) (lk_packet L e)) (lk_net_in L e)) (lk_dev_in L e)"
      by (simp add: lk_turn_def lk_wait_def a s1_def timed_out_def)
    with v [OF e(2)] e(1) lt show ?thesis by (auto split: if_splits)
  next
    case (2 i e)
    then have e: "es = [i, e]" "timed_out e" "ev_sigs i = [Sig_alarm t]" "ev_sigs e = []"
      "sel_res i < 0" "soft_errno (sel_errno i)" using assms(2) by simp_all
    have "lk_turn L i s = Again ?s" using e by (simp add: lk_turn_def lk_wait_def a)
    moreover have "lk_turn L e ?s
        = and_then (and_then (and_then (lk_verify e (s1 e)) (lk_packet L e)) (lk_net_in L e)) (lk_dev_in L e)"
      using e(2,4) by (simp add: lk_turn_def lk_wait_def s1_def timed_out_def)
    ultimately show ?thesis using v [OF e(2)] e(1) lt by (auto split: if_splits)
  qed (use assms(2) in simp_all)
qed

lemma silent_loop:
  assumes "list_all2 silent es ts" and "watched s" and "due (ka_interval (lk_host s)) (alarm_tm s) (ka_timer s) ts"
    and "0 \<le> lk_idle s" and "lk_idle s \<le> ka_maxfail (lk_host s) + 1"
    and "int (length es) = ka_maxfail (lk_host s) + 2 - lk_idle s"
  shows "\<exists>s'. lk_loop L (concat es) s = Ended s'
    \<and> lk_net s' = lk_net s @ replicate (nat (ka_maxfail (lk_host s) + 1 - max 1 (lk_idle s))) (VTUN_ECHO_REQ, [])"
  using assms
proof (induction es ts arbitrary: s rule: list_all2_induct)
  case Nil
  then show ?case by simp
next
  case (Cons e es t ts)
  let ?m = "ka_maxfail (lk_host s)"
  have lt: "linker_term s = 0" using Cons.prems(1) by (simp add: watched_def)
  have d: "ka_timer s \<le> t - alarm_tm s" using Cons.prems(2) by simp
  note st = silent_period [OF Cons.prems(1) Cons.hyps(1) d, of L "concat es"]
  show ?case
  proof (cases "lk_idle s > ?m")
    case True
    with st lt Cons.prems(3) show ?thesis by (auto simp: max_def)
  next
    case False
    with st obtain s1 where s1: "lk_loop L (e @ concat es) s = lk_loop L (concat es) s1" "watched s1"
      "lk_idle s1 = lk_idle s + 1" "alarm_tm s1 = t" "ka_timer s1 = ka_interval (lk_host s) + 1"
      "conf s1 = conf s" "lk_net s1 = lk_net s @ (if lk_idle s > 0 then [(VTUN_ECHO_REQ, [])] else [])" by auto
    from s1(6) have c: "ka_interval (lk_host s1) = ka_interval (lk_host s)" "ka_maxfail (lk_host s1) = ?m"
      by (simp_all add: conf_def)
    have "\<exists>s'. lk_loop L (concat es) s1 = Ended s'
      \<and> lk_net s' = lk_net s1 @ replicate (nat (ka_maxfail (lk_host s1) + 1 - max 1 (lk_idle s1))) (VTUN_ECHO_REQ, [])"
      using Cons.prems(2-) False s1 c by (intro Cons.IH) auto
    then obtain s' where s': "lk_loop L (concat es) s1 = Ended s'"
      "lk_net s' = lk_net s1 @ replicate (nat (?m + 1 - max 1 (lk_idle s1))) (VTUN_ECHO_REQ, [])"
      using c by auto
    have "lk_net s' = lk_net s @ replicate (nat (?m + 1 - max 1 (lk_idle s))) (VTUN_ECHO_REQ, [])"
    proof (cases "lk_idle s > 0")
      case True
      then have "nat (?m + 1 - max 1 (lk_idle s)) = Suc (nat (?m + 1 - max 1 (lk_idle s1)))"
        using False s1(3) by (simp add: max_def)
      then show ?thesis using s' s1(7) True by simp
    next
      case 2: False
      then have "lk_idle s = 0" using Cons.prems(3) by simp
      then show ?thesis using s' s1(3,7) by simp
    qed
    with s'(1) s1(1) lt show ?thesis by simp
  qed
qed

text \<open>
  C14. A silent peer is noticed: when the keep-alive alarm rings \<open>ka_maxfail + 2\<close> times and nothing
  comes in, the session ends at the last of them, after exactly \<open>ka_maxfail\<close> requests for life.
\<close>

theorem silent_peer_noticed:
  assumes "watched s" and "lk_idle s = 0" and "0 \<le> ka_maxfail (lk_host s)"
    and "list_all2 silent es ts" and "int (length es) = ka_maxfail (lk_host s) + 2"
    and "due (ka_interval (lk_host s)) (alarm_tm s) (ka_timer s) ts"
  shows "\<exists>s'. lk_loop L (concat es) s = Ended s'
    \<and> lk_net s' = lk_net s @ replicate (nat (ka_maxfail (lk_host s))) (VTUN_ECHO_REQ, [])"
  using silent_loop [OF assms(4,1,6), of L] assms(2,3,5) by simp

subsection \<open>Two defects\<close>

text \<open>
  A statistics file that does not open is only reported: \<open>linkfd\<close> goes on, and the first alarm
  whose statistics are due prints to the NULL stream.
\<close>

theorem stat_file_not_open:
  assumes "has_flag (lk_host s) VTUN_STAT" and "stat_file s \<noteq> Stat_open" and "stat_timer s \<le> now - alarm_tm s"
  shows "sig_alarm now s = None"
  using assms by (auto simp: sig_alarm_def Let_def)

text \<open>
  When the modules of a session cannot be allocated, \<open>linkfd\<close> returns without taking the list
  apart. A module entered a second time becomes its own predecessor, and the walk up through the
  list never ends, whatever the decoder does with the frame (as long as it keeps it).
\<close>

theorem module_entered_twice:
  assumes "lfd_add_mod m no_mods = Some l" and "lfd_add_mod m l = Some l'"
    and "m_decode (ops m) = Some f" and "0 < len"
    and "\<forall>n b v n' b' v'. f n b v = Some (n', b', v') \<longrightarrow> n' > 0"
  shows "lfd_run_up ops l' len buf s = None"
proof -
  from lfd_add_mod_twice [OF assms(1,2)] have "md_tail l' = Some m" "md_prev l' m = Some m" by auto
  then show ?thesis
    unfolding lfd_run_up_def using run_from_cycle [of "md_prev l'" m f "m_decode \<circ> ops" len buf s] assms(3-5)
    by simp
qed

subsection \<open>The properties at work\<close>

definition ex_libs :: "(unit, unit) libs" where
  "ex_libs = \<lparr>l_malloc = ex_malloc, l_realloc = (\<lambda>b n. None), l_hash_mem = True, l_lw = 8,
     l_bf_key = (\<lambda>_. (id, id)),
     l_zlib = \<lparr>deflateInit = (\<lambda>_. (0, ())), inflateInit = (0, ()),
       deflate = (\<lambda>z i r. (0, length i, i, z)), inflate = (\<lambda>z i r. (0, length i, i, z))\<rparr>,
     l_lzo = \<lparr>lzo_init = 0, lzo1x_999_compress = (\<lambda>i. (0, i)), lzo1x_1_15_compress = (\<lambda>i. (0, i)),
       lzo1x_decompress = (\<lambda>i. (0, i)), lzo_malloc = True\<rparr>,
     l_evp = null_lib, l_built = (\<lambda>_. True)\<rparr>"

definition ex_tun_host :: vtun_host where
  "ex_tun_host = ex_enc_host\<lparr>vh_flags := VTUN_TUN OR VTUN_TCP OR VTUN_ENCRYPT OR VTUN_KEEP_ALIVE\<rparr>"

definition ex_lk :: "(unit, unit) lk" where
  "ex_lk = \<lparr>lk_host = ex_tun_host, lk_mods = the (build_mods ex_tun_host no_mods),
     lk_cells = (\<lambda>_. C_enc ex_end), lk_buf = replicate 2212 0, lk_idle = 0, ka_need_verify = False,
     ka_timer = 30, stat_timer = 0, alarm_tm = 1000, alarm_in = 30, stat_file = No_stat, stat_log = [],
     linker_term = 0, io_canceled = False, lk_net = [], lk_torn = [], lk_dev = []\<rparr>"

definition ex_dev_env :: "byte list \<Rightarrow> lk_env" where
  "ex_dev_env p = \<lparr>ev_sigs = [], sel_res = 1, sel_errno = EINTR, fd1_set = False, fd2_set = True,
     net_res = (0, []), dev_res = (int (length p), p), dev_errno = EINTR, wr_echo = Wr_all,
     wr_packet = Wr_all, wr_reply = Wr_all, wr_frame = Wr_all, wr_dev = Wr_all, wr_dev_errno = EINTR,
     ev_clock = \<lparr>tv_sec = 5, tv_usec = 0\<rparr>, ev_now = 5\<rparr>"

lemma ex_tun_flags: "codecs_of ex_tun_host = [Lfd_encrypt]" "\<not> has_flag ex_tun_host VTUN_SHAPE"
  by (simp_all add: codecs_of_def ex_tun_host_def ex_enc_host_def has_flag_def)

lemma ex_lk_joined: "joined ex_libs (\<lambda>_ _. True) (\<lambda>_ _ _. True) ex_tun_host ex_tun_host ex_lk ex_lk"
proof -
  have "enc_calm 8 null_lib (\<lambda>_ _ _. True) ex_end ex_end"
    by (rule alloc_encrypt_calm [OF null_lib_ok ex_malloc_ok ex_malloc_ok ex_end ex_end])
      (simp_all add: ex_enc_host_def cipher_params_def lw_ok_def)
  moreover have "\<not> send_a_packet ex_end"
    by (simp add: ex_end_def alloc_encrypt_def ex_enc_host_def ex_malloc_def lfd_alloc_def RAND_bytes_def
      cipher_params_def prep_key_def null_lib_def Let_def ex_encst_def)
  ultimately have "enc_still 8 null_lib (\<lambda>_ _ _. True) ex_end ex_end" "\<not> send_a_packet ex_end"
    by (simp_all add: enc_calm_def enc_still_def)
  moreover obtain l where "build_mods ex_tun_host no_mods = Some l" "mods_repr l (modules_of ex_tun_host)"
    using build_mods_repr [OF no_mods_repr] by blast
  ultimately show ?thesis using ex_tun_flags
    by (simp add: joined_def ex_lk_def same_codecs_def ends_sync_def stack_sync_def quiet_def
        wants_packet_def ex_libs_def)
qed

lemma ex_fits: "p \<noteq> [] \<Longrightarrow> length p \<le> 2048 \<Longrightarrow> fits_tunnel ex_tun_host p"
  by (simp add: fits_tunnel_def ex_tun_flags stack_cap_def stack_grow_def)

lemma ex_dev_turn: "dev_turn (ex_dev_env p) p"
  by (simp add: dev_turn_def calm_def ex_dev_env_def)

lemma tunnel_over_tcp_witness:
  "\<exists>A' fs. lk_loop ex_libs [ex_dev_env [1, 2, 3], ex_dev_env [4]] ex_lk = Running A' \<and> lk_net A' = lk_net ex_lk @ fs
    \<and> (\<forall>ch. rd_clean ch \<and> rd_stream ch = concat (map (\<lambda>(l, b). wire l b) fs) \<longrightarrow>
        (\<exists>got ch'. recv_all (tcp_recv [0, 0]) (length [[1, 2, 3], [4 :: byte]]) ch = Some (got, ch')
          \<and> (\<forall>eBs. list_all2 net_turn eBs got \<longrightarrow>
               (\<exists>B'. lk_loop ex_libs eBs ex_lk = Running B' \<and> lk_dev B' = lk_dev ex_lk @ [[1, 2, 3], [4]]
                  \<and> joined ex_libs (\<lambda>_ _. True) (\<lambda>_ _ _. True) ex_tun_host ex_tun_host A' B'))))"
  by (rule tunnel_over_tcp [OF ex_lk_joined ex_tun_flags(2)]) (simp_all add: ex_dev_turn ex_fits)

lemma packet_counted_witness:
  "\<exists>A' f. lk_turn ex_libs (ex_dev_env [1, 2, 3]) ex_lk = Next A' \<and> lk_net A' = lk_net ex_lk @ [f]
    \<and> byte_out (vh_stat (lk_host A')) = byte_out (vh_stat (lk_host ex_lk)) + word_of_nat (length [1, 2, 3 :: byte])
    \<and> comp_out (vh_stat (lk_host A')) = comp_out (vh_stat (lk_host ex_lk)) + word_of_int (fst f)
    \<and> (\<forall>eB. net_turn eB f \<longrightarrow> (\<exists>B'. lk_turn ex_libs eB ex_lk = Next B' \<and> lk_dev B' = lk_dev ex_lk @ [[1, 2, 3]]
         \<and> comp_in (vh_stat (lk_host B')) = comp_in (vh_stat (lk_host ex_lk)) + word_of_int (fst f)
         \<and> byte_in (vh_stat (lk_host B')) = byte_in (vh_stat (lk_host ex_lk)) + word_of_nat (length [1, 2, 3 :: byte])))"
proof (rule packet_counted [OF ex_lk_joined ex_dev_turn])
  show "accepts ex_libs (ex_dev_env [1, 2, 3]) ex_lk"
    using accepts_no_shape [of ex_lk ex_tun_host] ex_lk_joined ex_tun_flags(2) by (simp add: joined_def)
qed (simp add: ex_fits)

definition ex_close_env :: lk_env where
  "ex_close_env = (ex_dev_env [])\<lparr>fd1_set := True, fd2_set := False, net_res := (VTUN_CONN_CLOSE, [])\<rparr>"

definition ex_term_env :: lk_env where
  "ex_term_env = (ex_dev_env [])\<lparr>ev_sigs := [Sig_term], fd2_set := False\<rparr>"

lemma ex_lk_alloc: "lfd_alloc (l_malloc ex_libs) (VTUN_FRAME_SIZE + VTUN_FRAME_OVERHEAD)
    = Some (drop 128 (replicate (lfd_alloc_size 2148) 0))"
  by (simp add: ex_libs_def lfd_alloc_def ex_malloc_def)

lemma linker_announces_end_witness:
  "\<exists>s'. lfd_linker ex_libs Wr_all Wr_all [ex_close_env] ex_lk = Ended s'
    \<and> lk_net s' \<noteq> [] \<and> last (lk_net s') = (VTUN_CONN_CLOSE, [])
    \<and> vh_persist (lk_host s') = (if linker_term s' = VTUN_SIG_TERM then 0 else vh_persist (lk_host ex_lk))"
proof -
  have j: "\<not> wants_packet (lk_cells ex_lk)" "mods_repr (lk_mods ex_lk) (modules_of ex_tun_host)"
    using ex_lk_joined by (simp_all add: joined_def quiet_def)
  have "\<exists>s'. lfd_linker ex_libs Wr_all Wr_all [ex_close_env] ex_lk = Ended s'"
    using j lfd_check_up_yes [OF j(2), of ex_libs]
    by (simp add: lfd_linker_def ex_libs_def ex_malloc_def lfd_alloc_def ex_close_env_def ex_dev_env_def
        lk_turn_def lk_wait_def lk_verify_def lk_packet_def lk_net_in_def lk_frame_def net_frame_def
        proto_write_def wants_packet_see_time ex_lk_def Let_def has_flag_def ex_tun_host_def)
  then obtain s' where e: "lfd_linker ex_libs Wr_all Wr_all [ex_close_env] ex_lk = Ended s'" by blast
  from linker_announces_end [OF e ex_lk_alloc] e show ?thesis
    by (simp add: ex_lk_def stop_sig_def ex_close_env_def ex_dev_env_def)
qed

lemma signal_ends_silently_witness:
  "\<exists>t s'. lfd_linker ex_libs Wr_all Wr_all [] ex_lk = Running t
    \<and> lfd_linker ex_libs Wr_all Wr_all ([] @ ex_term_env # []) ex_lk = Ended s' \<and> lk_net s' = lk_net t
    \<and> lk_torn s' = lk_torn t \<and> linker_term s' \<noteq> 0
    \<and> vh_persist (lk_host s') = (if linker_term s' = VTUN_SIG_TERM then 0 else vh_persist (lk_host ex_lk))"
proof -
  have nw: "\<not> wants_packet (lk_cells ex_lk)" using ex_lk_joined by (simp add: joined_def quiet_def)
  obtain t where t: "lfd_linker ex_libs Wr_all Wr_all [] ex_lk = Running t" "lk_cells t = lk_cells ex_lk"
    "ka_need_verify t = False"
    by (simp add: lfd_linker_def ex_libs_def ex_malloc_def lfd_alloc_def proto_write_def ex_lk_def Let_def has_flag_def
        ex_tun_host_def)
  have "lk_turn ex_libs ex_term_env t \<noteq> Undef" using nw t(2,3)
    by (simp add: ex_term_env_def ex_dev_env_def lk_turn_def lk_wait_def sig_term_def lk_verify_def lk_packet_def
        lk_net_in_def lk_dev_in_def wants_packet_see_time)
  from signal_ends_silently [OF t(1) _ _ this, of "[]"] t(1) show ?thesis
    by (simp add: ex_lk_def over_tcp_def ex_tun_host_def stop_sig_def ex_term_env_def ex_dev_env_def)
qed

lemma echo_answered_witness:
  "\<exists>s'. lk_turn ex_libs ((ex_dev_env [])\<lparr>fd1_set := True, net_res := (VTUN_ECHO_REQ, [])\<rparr>) ex_lk = Again s'
    \<and> lk_net s' = lk_net ex_lk @ [(VTUN_ECHO_REP, [])] \<and> lk_dev s' = lk_dev ex_lk \<and> lk_idle s' = 0"
proof (rule echo_answered [where d = "[]"])
  show "quiet ex_lk" "uncut ex_lk" "mods_repr (lk_mods ex_lk) (modules_of ex_tun_host)"
    using ex_lk_joined by (simp_all add: joined_def)
qed (simp_all add: calm_def ex_dev_env_def)

definition ex_silent_env :: "int \<Rightarrow> lk_env list" where
  "ex_silent_env t = [(ex_dev_env [])\<lparr>ev_sigs := [Sig_alarm t], sel_res := - 1, sel_errno := EINTR\<rparr>,
     (ex_dev_env [])\<lparr>sel_res := 0, fd2_set := False\<rparr>]"

lemma silent_peer_noticed_witness:
  "\<exists>s'. lk_loop ex_libs (concat (map ex_silent_env [1030, 1061, 1092, 1123, 1154, 1185])) ex_lk = Ended s'
    \<and> lk_net s' = lk_net ex_lk @ replicate (nat (ka_maxfail (lk_host ex_lk))) (VTUN_ECHO_REQ, [])"
proof (rule silent_peer_noticed [where ts = "[1030, 1061, 1092, 1123, 1154, 1185]"])
  have "\<not> wants_packet (lk_cells ex_lk)" using ex_lk_joined by (simp add: joined_def quiet_def)
  then show "watched ex_lk" by (simp add: watched_def ex_lk_def ex_tun_host_def has_flag_def)
qed (simp_all add: ex_lk_def ex_tun_host_def ex_enc_host_def default_host_def timed_out_def soft_errno_def ex_silent_env_def ex_dev_env_def)

lemma stat_file_not_open_witness:
  "sig_alarm 1400 (ex_lk\<lparr>lk_host := ex_tun_host\<lparr>vh_flags := VTUN_STAT\<rparr>\<rparr>) = None"
  by (rule stat_file_not_open) (simp_all add: ex_lk_def has_flag_def)

definition ex_keeper :: "unit mods" where
  "ex_keeper = (\<lambda>_. \<lparr>m_alloc = None, m_encode = None, m_avail_encode = None,
     m_decode = Some (\<lambda>n b v. Some (5, b, v)), m_avail_decode = None, m_free = None\<rparr>)"

lemma module_entered_twice_witness:
  "\<exists>l l'. lfd_add_mod Lfd_lzo no_mods = Some l \<and> lfd_add_mod Lfd_lzo l = Some l'
    \<and> lfd_run_up ex_keeper l' 5 [1, 2, 3, 4, 5] (\<lambda>_. ()) = None"
proof -
  obtain l l' where l: "lfd_add_mod Lfd_lzo no_mods = Some l" "lfd_add_mod Lfd_lzo l = Some l'"
    by (auto simp: lfd_add_mod_def no_mods_def)
  have "m_decode (ex_keeper Lfd_lzo) = Some (\<lambda>n b v. Some (5, b, v))" by (simp add: ex_keeper_def)
  from module_entered_twice [where ops = ex_keeper, OF l this, of 5 "[1, 2, 3, 4, 5]" "\<lambda>_. ()"] l
  show ?thesis by simp
qed

end
