(* ===== verification/AuthFlags.thy ===== *)
theory AuthFlags
  imports AuthText
begin

section \<open>The negotiated session options survive the flag string (\<open>auth.c\<close>)\<close>

text \<open>
  The server sends its options with \<open>bf2cf\<close>, the client takes them over with \<open>cf2bf\<close>. This
  theory shows what the client ends up with, and where the two functions do not fit together.
\<close>

subsection \<open>One piece of the string at a time\<close>

lemma flag_cases: "vh_flags h AND 2 ^ n = (if vh_flags h AND 2 ^ n \<noteq> 0 then 2 ^ n else 0)"
  by (rule and_single_bit [symmetric])

lemma has_flag_value:
  "has_flag h VTUN_SHAPE \<Longrightarrow> vh_flags h AND VTUN_SHAPE = VTUN_SHAPE"
  "has_flag h VTUN_ZLIB \<Longrightarrow> vh_flags h AND VTUN_ZLIB = VTUN_ZLIB"
  "has_flag h VTUN_LZO \<Longrightarrow> vh_flags h AND VTUN_LZO = VTUN_LZO"
  "has_flag h VTUN_KEEP_ALIVE \<Longrightarrow> vh_flags h AND VTUN_KEEP_ALIVE = VTUN_KEEP_ALIVE"
  "has_flag h VTUN_ENCRYPT \<Longrightarrow> vh_flags h AND VTUN_ENCRYPT = VTUN_ENCRYPT"
  using flag_cases [of h 2] flag_cases [of h 0] flag_cases [of h 1] flag_cases [of h 6]
    flag_cases [of h 3]
  by (auto simp: has_flag_def split: if_splits)

lemma not_has_flag: "\<not> has_flag h f \<Longrightarrow> vh_flags h AND f = 0"
  by (simp add: has_flag_def)

lemma set_flags_0 [simp]: "set_flags c 0 = c"
  by (simp add: set_flags_def)

text \<open>Characters without an argument.\<close>

lemma cf2bf_letters [vt_run]:
  "cf2bf_loop (CHR ''t'' # r) c = cf2bf_loop r (set_flags c VTUN_TTY)"
  "cf2bf_loop (CHR ''p'' # r) c = cf2bf_loop r (set_flags c VTUN_PIPE)"
  "cf2bf_loop (CHR ''e'' # r) c = cf2bf_loop r (set_flags c VTUN_ETHER)"
  "cf2bf_loop (CHR ''u'' # r) c = cf2bf_loop r (set_flags c VTUN_TUN)"
  "cf2bf_loop (CHR ''U'' # r) c = cf2bf_loop r (set_proto c VTUN_UDP)"
  "cf2bf_loop (CHR ''T'' # r) c = cf2bf_loop r (set_proto c VTUN_TCP)"
  "cf2bf_loop (CHR ''K'' # r) c = cf2bf_loop r (set_flags c VTUN_KEEP_ALIVE)"
  "cf2bf_loop (CHR ''F'' # r) c = cf2bf_loop r c"
  "cf2bf_loop (CHR ''>'' # r) c = (1, c)"
  by (simp_all add: cf2bf_loop.simps(2))

text \<open>A number that \<open>bf2cf\<close> may print and \<open>cf2bf\<close> takes: an \<open>int\<close> other than \<open>ERANGE\<close>.\<close>

definition plain_int :: "int \<Rightarrow> bool" where
  "plain_int i = (- (2 ^ 31) \<le> i \<and> i < 2 ^ 31 \<and> i \<noteq> ERANGE_num)"

definition no_digit :: "string \<Rightarrow> bool" where
  "no_digit r = (r = [] \<or> \<not> is_digit (hd r))"

lemma show_int_ne: "show_int i \<noteq> []"
  using show_nat_props by (simp add: show_int_def)

lemma strtol_plain:
  assumes "no_digit r" and "plain_int i"
  shows "strtol (show_int i @ r) = (i, r)" and "to_int32 i = i" and "r \<noteq> show_int i @ r"
  using assms strtol_show_int [of r i] to_int32_id [of i] show_int_ne [of i]
  by (auto simp: no_digit_def plain_int_def)

lemma cf2bf_numbers:
  assumes "no_digit r" and "plain_int i"
  shows "cf2bf_loop (CHR ''C'' # show_int i @ r) c
           = cf2bf_loop r ((set_flags c VTUN_ZLIB)\<lparr>zlevel := i\<rparr>)"
    and "cf2bf_loop (CHR ''L'' # show_int i @ r) c
           = cf2bf_loop r ((set_flags c VTUN_LZO)\<lparr>zlevel := i\<rparr>)"
    and "cf2bf_loop (CHR ''E'' # show_int i @ r) c
           = cf2bf_loop r ((set_flags c VTUN_ENCRYPT)
               \<lparr>cipher := (if i = 0 then VTUN_LEGACY_ENCRYPT else i)\<rparr>)"
    and "cf2bf_loop (CHR ''S'' # show_int i @ r) c
           = cf2bf_loop r (if i \<noteq> 0 then (set_flags c VTUN_SHAPE)\<lparr>spd_out := i\<rparr> else c)"
proof -
  note s = strtol_plain [OF assms]
  have "i \<noteq> 34" using assms(2) by (simp add: plain_int_def)
  then show
    "cf2bf_loop (CHR ''C'' # show_int i @ r) c
       = cf2bf_loop r ((set_flags c VTUN_ZLIB)\<lparr>zlevel := i\<rparr>)"
    "cf2bf_loop (CHR ''L'' # show_int i @ r) c
       = cf2bf_loop r ((set_flags c VTUN_LZO)\<lparr>zlevel := i\<rparr>)"
    "cf2bf_loop (CHR ''E'' # show_int i @ r) c
       = cf2bf_loop r ((set_flags c VTUN_ENCRYPT)
           \<lparr>cipher := (if i = 0 then VTUN_LEGACY_ENCRYPT else i)\<rparr>)"
    "cf2bf_loop (CHR ''S'' # show_int i @ r) c
       = cf2bf_loop r (if i \<noteq> 0 then (set_flags c VTUN_SHAPE)\<lparr>spd_out := i\<rparr> else c)"
    using s by (simp_all add: cf2bf_loop.simps(2))
qed

text \<open>The old form \<open>E\<close> with no number, before the end of the string.\<close>

lemma cf2bf_legacy:
  "cf2bf_loop (CHR ''E'' # CHR ''>'' # r) c
     = cf2bf_loop (CHR ''>'' # r) ((set_flags c VTUN_ENCRYPT)\<lparr>cipher := VTUN_LEGACY_ENCRYPT\<rparr>)"
proof -
  have "strtol (CHR ''>'' # r) = (0, CHR ''>'' # r)"
    by (rule strtol_no_number) (simp_all add: isspace_def is_digit_def digits10_def)
  moreover have "to_int32 0 = 0" by (simp add: to_int32_def)
  ultimately show ?thesis by (simp add: cf2bf_loop.simps(2) [of "CHR ''E''"])
qed

subsection \<open>The pieces \<open>bf2cf\<close> writes\<close>

definition proto_text :: "vtun_host \<Rightarrow> string" where
  "proto_text h = (let p = vh_flags h AND VTUN_PROT_MASK
     in if p = VTUN_TCP then ''T'' else if p = VTUN_UDP then ''U'' else [])"

definition type_text :: "vtun_host \<Rightarrow> string" where
  "type_text h = (let t = vh_flags h AND VTUN_TYPE_MASK
     in if t = VTUN_TTY then ''t'' else if t = VTUN_PIPE then ''p''
        else if t = VTUN_ETHER then ''e'' else if t = VTUN_TUN then ''u'' else [])"

definition opt_text :: "vtun_host \<Rightarrow> flags \<Rightarrow> char \<Rightarrow> int \<Rightarrow> string" where
  "opt_text h f c i = (if has_flag h f then c # show_int i else [])"

definition ka_text :: "vtun_host \<Rightarrow> string" where
  "ka_text h = (if has_flag h VTUN_KEEP_ALIVE then ''K'' else [])"

definition enc_text :: "vtun_host \<Rightarrow> string" where
  "enc_text h = (if has_flag h VTUN_ENCRYPT
     then if cipher h = VTUN_LEGACY_ENCRYPT then ''E'' else CHR ''E'' # show_int (cipher h) else [])"

lemma flag_text_pieces:
  "flag_text h = CHR ''<'' # proto_text h @ type_text h
     @ opt_text h VTUN_SHAPE (CHR ''S'') (spd_in h)
     @ opt_text h VTUN_ZLIB (CHR ''C'') (zlevel h)
     @ opt_text h VTUN_LZO (CHR ''L'') (zlevel h)
     @ ka_text h @ enc_text h"
  by (simp add: flag_text_def proto_text_def type_text_def opt_text_def ka_text_def enc_text_def)

text \<open>
  The options of a host that \<open>bf2cf\<close>/\<open>cf2bf\<close> carry over unchanged: one protocol, one device
  type, and no number that is 0 where 0 has a meaning of its own or equals \<open>ERANGE\<close>.
\<close>

definition negotiable :: "vtun_host \<Rightarrow> bool" where
  "negotiable h =
     ((vh_flags h AND VTUN_PROT_MASK = VTUN_TCP \<or> vh_flags h AND VTUN_PROT_MASK = VTUN_UDP)
      \<and> vh_flags h AND VTUN_TYPE_MASK \<in> {VTUN_TTY, VTUN_PIPE, VTUN_ETHER, VTUN_TUN}
      \<and> (has_flag h VTUN_SHAPE \<longrightarrow> plain_int (spd_in h) \<and> spd_in h \<noteq> 0)
      \<and> (has_flag h VTUN_ZLIB \<or> has_flag h VTUN_LZO \<longrightarrow> plain_int (zlevel h))
      \<and> (has_flag h VTUN_ENCRYPT \<longrightarrow> plain_int (cipher h) \<and> cipher h \<noteq> 0))"

definition VTUN_NEG_MASK :: flags where
  "VTUN_NEG_MASK = VTUN_PROT_MASK OR VTUN_TYPE_MASK OR VTUN_SHAPE OR VTUN_ZLIB OR VTUN_LZO
     OR VTUN_KEEP_ALIVE OR VTUN_ENCRYPT"

text \<open>What the client's host should hold afterwards: the server's options over its own.\<close>

definition negotiated :: "vtun_host \<Rightarrow> vtun_host \<Rightarrow> vtun_host" where
  "negotiated h c = c\<lparr>
     vh_flags := (vh_flags c AND NOT VTUN_PROT_MASK) OR (vh_flags h AND VTUN_NEG_MASK),
     spd_out := (if has_flag h VTUN_SHAPE then spd_in h else spd_out c),
     zlevel := (if has_flag h VTUN_ZLIB \<or> has_flag h VTUN_LZO then zlevel h else zlevel c),
     cipher := (if has_flag h VTUN_ENCRYPT then cipher h else cipher c)\<rparr>"

lemma proto_piece:
  "negotiable h \<Longrightarrow> cf2bf_loop (proto_text h @ r) c
     = cf2bf_loop r (set_proto c (vh_flags h AND VTUN_PROT_MASK))"
  by (auto simp: negotiable_def proto_text_def Let_def cf2bf_letters)

lemma type_piece:
  "negotiable h \<Longrightarrow> cf2bf_loop (type_text h @ r) c
     = cf2bf_loop r (set_flags c (vh_flags h AND VTUN_TYPE_MASK))"
  by (auto simp: negotiable_def type_text_def Let_def cf2bf_letters)

lemma shape_piece:
  "negotiable h \<Longrightarrow> no_digit r \<Longrightarrow>
     cf2bf_loop (opt_text h VTUN_SHAPE (CHR ''S'') (spd_in h) @ r) c
       = cf2bf_loop r ((set_flags c (vh_flags h AND VTUN_SHAPE))
           \<lparr>spd_out := (if has_flag h VTUN_SHAPE then spd_in h else spd_out c)\<rparr>)"
  by (cases "has_flag h VTUN_SHAPE")
     (simp_all add: negotiable_def opt_text_def cf2bf_numbers has_flag_value not_has_flag
        del: VTUN_SHAPE_def)

lemma zlib_piece:
  "negotiable h \<Longrightarrow> no_digit r \<Longrightarrow>
     cf2bf_loop (opt_text h VTUN_ZLIB (CHR ''C'') (zlevel h) @ r) c
       = cf2bf_loop r ((set_flags c (vh_flags h AND VTUN_ZLIB))
           \<lparr>zlevel := (if has_flag h VTUN_ZLIB then zlevel h else zlevel c)\<rparr>)"
  by (cases "has_flag h VTUN_ZLIB")
     (simp_all add: negotiable_def opt_text_def cf2bf_numbers has_flag_value not_has_flag
        del: VTUN_ZLIB_def)

lemma lzo_piece:
  "negotiable h \<Longrightarrow> no_digit r \<Longrightarrow>
     cf2bf_loop (opt_text h VTUN_LZO (CHR ''L'') (zlevel h) @ r) c
       = cf2bf_loop r ((set_flags c (vh_flags h AND VTUN_LZO))
           \<lparr>zlevel := (if has_flag h VTUN_LZO then zlevel h else zlevel c)\<rparr>)"
  by (cases "has_flag h VTUN_LZO")
     (simp_all add: negotiable_def opt_text_def cf2bf_numbers has_flag_value not_has_flag
        del: VTUN_LZO_def)

lemma ka_piece:
  "cf2bf_loop (ka_text h @ r) c = cf2bf_loop r (set_flags c (vh_flags h AND VTUN_KEEP_ALIVE))"
  by (cases "has_flag h VTUN_KEEP_ALIVE")
     (simp_all add: ka_text_def cf2bf_letters(7) has_flag_value not_has_flag
        del: VTUN_KEEP_ALIVE_def)

lemma enc_piece:
  assumes "negotiable h"
  shows "cf2bf_loop (enc_text h @ CHR ''>'' # r) c
       = (1, (set_flags c (vh_flags h AND VTUN_ENCRYPT))
           \<lparr>cipher := (if has_flag h VTUN_ENCRYPT then cipher h else cipher c)\<rparr>)"
proof -
  have nd: "no_digit (CHR ''>'' # r)" by (simp add: no_digit_def is_digit_def digits10_def)
  show ?thesis
    using assms cf2bf_numbers(3) [OF nd, of "cipher h" c]
    by (cases "has_flag h VTUN_ENCRYPT")
       (auto simp: negotiable_def enc_text_def cf2bf_legacy cf2bf_letters(9) has_flag_value
          not_has_flag simp del: VTUN_ENCRYPT_def)
qed

lemma no_digit_pieces:
  "no_digit (CHR ''>'' # r)"
  "no_digit r \<Longrightarrow> no_digit (ka_text h @ r)"
  "no_digit r \<Longrightarrow> no_digit (enc_text h @ r)"
  "no_digit r \<Longrightarrow> no_digit (opt_text h f (CHR ''C'') i @ r)"
  "no_digit r \<Longrightarrow> no_digit (opt_text h f (CHR ''L'') i @ r)"
  by (auto simp: no_digit_def ka_text_def enc_text_def opt_text_def is_digit_def digits10_def)

lemma negotiated_flags:
  "fh AND VTUN_NEG_MASK = (fh AND VTUN_PROT_MASK) OR (fh AND VTUN_TYPE_MASK) OR (fh AND VTUN_SHAPE)
     OR (fh AND VTUN_ZLIB) OR (fh AND VTUN_LZO) OR (fh AND VTUN_KEEP_ALIVE) OR (fh AND VTUN_ENCRYPT)"
  unfolding VTUN_NEG_MASK_def by (simp only: bit.conj_disj_distrib or.assoc)

lemma cf2bf_loop_flag_text:
  assumes n: "negotiable h"
  shows "cf2bf_loop (tl (flag_text h) @ CHR ''>'' # r) c = (1, negotiated h c)"
proof -
  have "cf2bf_loop (tl (flag_text h) @ CHR ''>'' # r) c
    = (1, c\<lparr>vh_flags := ((((((((vh_flags c AND NOT VTUN_PROT_MASK) OR (vh_flags h AND VTUN_PROT_MASK))
          OR (vh_flags h AND VTUN_TYPE_MASK)) OR (vh_flags h AND VTUN_SHAPE))
          OR (vh_flags h AND VTUN_ZLIB)) OR (vh_flags h AND VTUN_LZO))
          OR (vh_flags h AND VTUN_KEEP_ALIVE)) OR (vh_flags h AND VTUN_ENCRYPT)),
        spd_out := (if has_flag h VTUN_SHAPE then spd_in h else spd_out c),
        zlevel := (if has_flag h VTUN_LZO then zlevel h
                   else if has_flag h VTUN_ZLIB then zlevel h else zlevel c),
        cipher := (if has_flag h VTUN_ENCRYPT then cipher h else cipher c)\<rparr>)"
    using n
    by (simp add: flag_text_pieces proto_piece type_piece shape_piece zlib_piece lzo_piece ka_piece
        enc_piece no_digit_pieces set_flags_def set_proto_def
        del: VTUN_SHAPE_def VTUN_ZLIB_def VTUN_LZO_def VTUN_KEEP_ALIVE_def VTUN_ENCRYPT_def
          VTUN_PROT_MASK_def VTUN_TYPE_MASK_def)
  then show ?thesis
    unfolding negotiated_def negotiated_flags by (simp only: or.assoc) simp
qed

end
