(* ===== verification/AuthProto.thy ===== *)
theory AuthProto
  imports AuthFlags
begin

section \<open>Challenge authentication (\<open>auth.c\<close>)\<close>

text \<open>
  \<open>auth_server\<close> and \<open>auth_client\<close> as loops over the 50-byte messages they receive. The
  end of the list of messages is \<open>readn_t\<close> not returning a positive value (timeout, end of file,
  error). What goes out is the list of buffers handed to \<open>print_p\<close>.

  Parameters of the model: the challenge that \<open>gen_chal\<close> draws, \<open>find_host\<close> and \<open>lock_host\<close>
  (modelled in their own theories), the version string, and the challenge cipher. The cipher comes
  in two variants: the XOR of a build without OpenSSL, written out below, and the Blowfish one,
  whose block function (\<open>BF_ecb_encrypt\<close> under \<open>BF_set_key(MD5(pwd))\<close>) is a parameter.
\<close>

subsection \<open>The challenge cipher\<close>

text \<open>Without OpenSSL: XOR with the password, repeated. An empty password divides by zero.\<close>

definition encrypt_chal :: "byte list \<Rightarrow> string \<Rightarrow> byte list option" where
  "encrypt_chal chal pwd =
     (if pwd = [] then None
      else Some (map (\<lambda>i. chal ! i XOR of_char (pwd ! (i mod length pwd))) [0..<VTUN_CHAL_SIZE]))"

definition decrypt_chal :: "byte list \<Rightarrow> string \<Rightarrow> byte list option" where
  "decrypt_chal chal pwd = encrypt_chal chal pwd"

text \<open>With OpenSSL: two 8-byte blocks, in place.\<close>

definition ssl_crypt_chal :: "(string \<Rightarrow> byte list \<Rightarrow> byte list) \<Rightarrow> byte list \<Rightarrow> string \<Rightarrow> byte list option" where
  "ssl_crypt_chal bf chal pwd = Some (bf pwd (take 8 chal) @ bf pwd (take 8 (drop 8 chal)))"

text \<open>What both directions of the authentication need of the cipher.\<close>

locale chal_cipher =
  fixes enc dec :: "byte list \<Rightarrow> string \<Rightarrow> byte list option"
  assumes enc_ok: "length c = 16 \<Longrightarrow> p \<noteq> [] \<Longrightarrow> \<exists>e. enc c p = Some e \<and> length e = 16 \<and> dec e p = Some c"
    and dec_ok: "length c = 16 \<Longrightarrow> dec c p = Some d \<Longrightarrow> enc d p = Some c"
begin

text \<open>Exactly one answer opens a challenge.\<close>

lemma answer_unique:
  assumes "length c = 16" and "length a = 16" and "p \<noteq> []"
  shows "dec a p = Some c \<longleftrightarrow> enc c p = Some a"
  using assms enc_ok [OF assms(1,3)] dec_ok [OF assms(2)] by auto

end

lemma xor_twice:
  assumes "length c = 16" and "encrypt_chal c p = Some e"
  shows "length e = 16" and "encrypt_chal e p = Some c"
proof -
  have e: "p \<noteq> []" "e = map (\<lambda>i. c ! i XOR of_char (p ! (i mod length p))) [0..<16]"
    using assms(2) by (auto simp: encrypt_chal_def split: if_splits)
  then show "length e = 16" by simp
  have "map (\<lambda>i. e ! i XOR of_char (p ! (i mod length p))) [0..<16] = c"
  proof (rule nth_equalityI)
    fix i assume "i < length (map (\<lambda>i. e ! i XOR of_char (p ! (i mod length p))) [0..<16])"
    then have "i < 16" by simp
    then have "e ! i = c ! i XOR of_char (p ! (i mod length p))"
      unfolding e(2) by (subst nth_map) auto
    with \<open>i < 16\<close> show "map (\<lambda>i. e ! i XOR of_char (p ! (i mod length p))) [0..<16] ! i = c ! i"
      by (subst nth_map) (auto simp: xor.assoc)
  qed (simp add: assms(1))
  with e(1) show "encrypt_chal e p = Some c" by (simp add: encrypt_chal_def)
qed

interpretation xorc: chal_cipher encrypt_chal decrypt_chal
proof unfold_locales
  fix c :: "byte list" and p :: string
  assume c: "length c = 16" and "p \<noteq> []"
  then obtain e where "encrypt_chal c p = Some e" by (auto simp: encrypt_chal_def)
  with xor_twice [OF c this] show "\<exists>e. encrypt_chal c p = Some e \<and> length e = 16 \<and> decrypt_chal e p = Some c"
    unfolding decrypt_chal_def by blast
next
  fix c d :: "byte list" and p :: string
  assume "length c = 16" and "decrypt_chal c p = Some d"
  then show "encrypt_chal d p = Some c" unfolding decrypt_chal_def by (rule xor_twice(2))
qed

text \<open>
  The documented behaviour of a block cipher in ECB mode: both directions keep the block size and
  undo each other.
\<close>

definition block_cipher :: "(string \<Rightarrow> byte list \<Rightarrow> byte list) \<Rightarrow> (string \<Rightarrow> byte list \<Rightarrow> byte list) \<Rightarrow> bool" where
  "block_cipher E D = (\<forall>k b. length b = 8 \<longrightarrow>
     length (E k b) = 8 \<and> length (D k b) = 8 \<and> D k (E k b) = b \<and> E k (D k b) = b)"

lemma ssl_chal_cipher:
  assumes "block_cipher E D"
  shows "chal_cipher (ssl_crypt_chal E) (ssl_crypt_chal D)"
proof
  fix c :: "byte list" and p :: string
  assume "length c = 16"
  then have "length (take 8 c) = 8" "length (take 8 (drop 8 c)) = 8"
    and "take 8 c @ take 8 (drop 8 c) = c"
    by (simp_all flip: take_add)
  with assms show "\<exists>e. ssl_crypt_chal E c p = Some e \<and> length e = 16 \<and> ssl_crypt_chal D e p = Some c"
    by (simp add: block_cipher_def ssl_crypt_chal_def)
next
  fix c d :: "byte list" and p :: string
  assume "length c = 16" and d: "ssl_crypt_chal D c p = Some d"
  then have "length (take 8 c) = 8" "length (take 8 (drop 8 c)) = 8"
    and "take 8 c @ take 8 (drop 8 c) = c"
    by (simp_all flip: take_add)
  with assms d show "ssl_crypt_chal E d p = Some c"
    by (auto simp: block_cipher_def ssl_crypt_chal_def)
qed

subsection \<open>The server\<close>

datatype stage = ST_INIT | ST_HOST | ST_CHAL

record srv_env =
  se_ver :: string
  se_chal :: "byte list"
  se_find_host :: "string \<Rightarrow> vtun_host option"
  se_lock_host :: "vtun_host \<Rightarrow> int"
  se_decrypt :: "byte list \<Rightarrow> string \<Rightarrow> byte list option"

record srv =
  s_stage :: stage
  s_name :: "string option"
  s_h :: "vtun_host option"
  s_out :: "char list list"

definition LF :: string where
  "LF = [CHR 0x0A]"

definition CRLF_set :: string where
  "CRLF_set = [CHR 0x0D, CHR 0x0A]"

text \<open>The message texts, the \<open>print_p\<close> formats with their arguments.\<close>

definition msg_ver :: "string \<Rightarrow> string" where
  "msg_ver ver = ''VTUN server ver '' @ ver @ LF"

definition msg_ok_chal :: "byte list \<Rightarrow> string" where
  "msg_ok_chal chal = ''OK CHAL: '' @ cl2cs chal @ LF"

definition msg_ok_flags :: "string \<Rightarrow> string" where
  "msg_ok_flags fl = ''OK FLAGS: '' @ fl @ LF"

definition msg_err :: string where
  "msg_err = ''ERR'' @ LF"

definition msg_host :: "string \<Rightarrow> string" where
  "msg_host name = ''HOST'' @ '': '' @ name @ LF"

definition msg_chal :: "byte list \<Rightarrow> string" where
  "msg_chal chal = ''CHAL'' @ '': '' @ cl2cs chal @ LF"

definition srv_say :: "string \<Rightarrow> srv \<Rightarrow> srv" where
  "srv_say m s = s\<lparr>s_out := s_out s @ [print_p_buf m]\<rparr>"

text \<open>
  The two words of a message: cut at the first CR or LF, then the first two tokens separated by
  blanks or colons.
\<close>

definition two_words :: "char list \<Rightarrow> (string \<times> string) option" where
  "two_words buf =
     (let b1 = cstr (buf[49 := NUL]);
          b2 = (case strtok CRLF_set b1 of None \<Rightarrow> b1 | Some (b, _, _) \<Rightarrow> b)
      in case strtok '' :'' b2 of
           None \<Rightarrow> None
         | Some (_, str1, rest) \<Rightarrow>
             (case strtok '' :'' rest of None \<Rightarrow> None | Some (_, str2, _) \<Rightarrow> Some (str1, str2)))"

text \<open>The \<open>CHAL\<close> case: decode, find the host, decrypt, compare, lock, answer.\<close>

definition srv_check :: "srv_env \<Rightarrow> srv \<Rightarrow> string \<Rightarrow> srv turn" where
  "srv_check env s str2 =
     (case cs2cl str2 of
        None \<Rightarrow> Break s
      | Some chal_res \<Rightarrow>
          (case s_name s of
             None \<Rightarrow> Crash
           | Some host \<Rightarrow>
               (case se_find_host env host of
                  None \<Rightarrow> Break s
                | Some h \<Rightarrow>
                    (case Option.bind (vh_passwd h) (se_decrypt env chal_res) of
                       None \<Rightarrow> Crash
                     | Some d \<Rightarrow>
                         if d = se_chal env then
                           if se_lock_host env h < 0 then Break s
                           else (case bf2cf [] h of
                                   None \<Rightarrow> Crash
                                 | Some (fl, _) \<Rightarrow>
                                     Break (srv_say (msg_ok_flags fl) (s\<lparr>s_h := Some h\<rparr>)))
                         else Break s))))"

definition srv_step :: "srv_env \<Rightarrow> srv \<Rightarrow> char list \<Rightarrow> srv turn" where
  "srv_step env s buf =
     (case two_words buf of
        None \<Rightarrow> Break s
      | Some (str1, str2) \<Rightarrow>
          (case s_stage s of
             ST_HOST \<Rightarrow>
               if str1 = ''HOST''
               then Continue (srv_say (msg_ok_chal (se_chal env))
                                (s\<lparr>s_name := Some str2, s_stage := ST_CHAL\<rparr>))
               else Break s
           | ST_CHAL \<Rightarrow> if str1 = ''CHAL'' then srv_check env s str2 else Break s
           | ST_INIT \<Rightarrow> Break s))"

fun srv_loop :: "srv_env \<Rightarrow> srv \<Rightarrow> char list list \<Rightarrow> srv option" where
  "srv_loop env s [] = Some s"
| "srv_loop env s (buf # bufs) =
     (case srv_step env s buf of
        Continue s' \<Rightarrow> srv_loop env s' bufs
      | Break s' \<Rightarrow> Some s'
      | Crash \<Rightarrow> None)"

definition srv_start :: "srv_env \<Rightarrow> srv" where
  "srv_start env = srv_say (msg_ver (se_ver env))
     \<lparr>s_stage = ST_HOST, s_name = None, s_h = None, s_out = []\<rparr>"

text \<open>\<open>auth_server\<close>: the host (or NULL) and what was sent; \<^const>\<open>None\<close> is undefined behaviour.\<close>

definition auth_server :: "srv_env \<Rightarrow> char list list \<Rightarrow> (vtun_host option \<times> char list list) option" where
  "auth_server env bufs =
     map_option (\<lambda>s. let s' = (if s_h s = None then srv_say msg_err s else s) in (s_h s', s_out s'))
       (srv_loop env (srv_start env) bufs)"

subsection \<open>The client\<close>

record cli =
  c_stage :: stage
  c_host :: vtun_host
  c_success :: bool
  c_out :: "char list list"

definition cli_say :: "string \<Rightarrow> cli \<Rightarrow> cli" where
  "cli_say m s = s\<lparr>c_out := c_out s @ [print_p_buf m]\<rparr>"

definition cli_step :: "(byte list \<Rightarrow> string \<Rightarrow> byte list option) \<Rightarrow> cli \<Rightarrow> char list \<Rightarrow> cli turn" where
  "cli_step enc s buf =
     (let b = cstr (buf[49 := NUL])
      in case c_stage s of
           ST_INIT \<Rightarrow>
             if strn_eq b ''VTUN'' 4
             then Continue (cli_say (msg_host (vh_host (c_host s))) (s\<lparr>c_stage := ST_HOST\<rparr>))
             else Break s
         | ST_HOST \<Rightarrow>
             (case (if strn_eq b ''OK'' 2 then cs2cl b else None) of
                None \<Rightarrow> Break s
              | Some chal \<Rightarrow>
                  (case Option.bind (vh_passwd (c_host s)) (enc chal) of
                     None \<Rightarrow> Crash
                   | Some e \<Rightarrow> Continue (cli_say (msg_chal e) (s\<lparr>c_stage := ST_CHAL\<rparr>))))
         | ST_CHAL \<Rightarrow>
             if strn_eq b ''OK'' 2
             then (case cf2bf b (c_host s) of
                     (r, h) \<Rightarrow> Break (s\<lparr>c_host := h, c_success := (r \<noteq> 0)\<rparr>))
             else Break s)"

fun cli_loop :: "(byte list \<Rightarrow> string \<Rightarrow> byte list option) \<Rightarrow> cli \<Rightarrow> char list list \<Rightarrow> cli option" where
  "cli_loop enc s [] = Some s"
| "cli_loop enc s (buf # bufs) =
     (case cli_step enc s buf of
        Continue s' \<Rightarrow> cli_loop enc s' bufs
      | Break s' \<Rightarrow> Some s'
      | Crash \<Rightarrow> None)"

text \<open>\<open>auth_client\<close>: success, the host with the options taken over, and what was sent.\<close>

definition auth_client :: "(byte list \<Rightarrow> string \<Rightarrow> byte list option) \<Rightarrow> vtun_host \<Rightarrow> char list list
    \<Rightarrow> (bool \<times> vtun_host \<times> char list list) option" where
  "auth_client enc host bufs =
     map_option (\<lambda>s. (c_success s, c_host s, c_out s))
       (cli_loop enc \<lparr>c_stage = ST_INIT, c_host = host, c_success = False, c_out = []\<rparr> bufs)"

subsection \<open>Messages survive the 50-byte buffers\<close>

definition word_ok :: "string \<Rightarrow> bool" where
  "word_ok w = (w \<noteq> [] \<and> set w \<inter> {NUL, CHR 0x0D, CHR 0x0A, CHR '' '', CHR '':''} = {})"

lemma word_ok_nul_free: "word_ok w \<Longrightarrow> nul_free w"
  by (simp add: word_ok_def nul_free_def)

lemma received_text:
  assumes "nul_free m" and "length m \<le> 48"
  shows "cstr ((print_p_buf m)[49 := NUL]) = m"
proof -
  have "print_p_buf m ! 49 = NUL"
    using assms(2) by (simp add: print_p_buf_def Let_def nth_append)
  then have "(print_p_buf m)[49 := NUL] = print_p_buf m"
    by (metis list_update_id)
  with cstr_print_p_buf [OF assms(1)] assms(2) show ?thesis by simp
qed

lemma two_words_msg:
  assumes w: "word_ok w1" "word_ok w2" and len: "length w1 + length w2 \<le> 45"
  shows "two_words (print_p_buf (w1 @ '': '' @ w2 @ LF)) = Some (w1, w2)"
proof -
  let ?m1 = "w1 @ CHR '':'' # CHR '' '' # w2"
  have m: "w1 @ '': '' @ w2 @ LF = ?m1 @ CHR 0x0A # []" by (simp add: LF_def)
  have "nul_free (?m1 @ CHR 0x0A # [])" "length (?m1 @ CHR 0x0A # []) \<le> 48"
    using w len by (auto simp: word_ok_nul_free NUL_def)
  from received_text [OF this]
  have 1: "cstr ((print_p_buf (w1 @ '': '' @ w2 @ LF))[49 := NUL]) = ?m1 @ CHR 0x0A # []"
    unfolding m .
  have 2: "strtok CRLF_set (?m1 @ CHR 0x0A # []) = Some (?m1, ?m1, [])"
    using w by (intro strtok_token_then_delim) (auto simp: CRLF_set_def word_ok_def)
  have 3: "strtok '' :'' ?m1 = Some (w1, w1, CHR '' '' # w2)"
    using w by (intro strtok_token_then_delim) (auto simp: word_ok_def)
  have 4: "strtok '' :'' (CHR '' '' # w2) = Some (CHR '' '' # w2, w2, [])"
    using w strtok_whole [of w2 "'' :''"] by (subst strtok_skip) (auto simp: word_ok_def)
  show ?thesis unfolding two_words_def Let_def 1 2 option.case prod.case 3 4 ..
qed

lemma length_cl2cs: "length c = 16 \<Longrightarrow> length (cl2cs c) = 34"
  using length_byte_texts [of c] by (simp add: cl2cs_def)

lemma word_ok_cl2cs: "word_ok (cl2cs c)"
  using byte_texts_chars [of c] by (auto simp: word_ok_def cl2cs_def NUL_def)

lemma nul_free_LF [simp]: "nul_free LF" and length_LF [simp]: "length LF = 1"
  by (simp_all add: LF_def NUL_def)

lemma flag_text_nul_free: "nul_free (flag_text h)"
  by (auto simp: flag_text_def Let_def show_int_nul_free NUL_def)

lemma flag_text_hd: "flag_text h = CHR ''<'' # tl (flag_text h)"
  by (simp add: flag_text_pieces)

lemma bf2cf_first:
  assumes "bf2cf [] h = Some (fl, p)"
  shows "fl = flag_text h @ ''>''" and "length fl \<le> 19"
  using assms by (auto simp: bf2cf_def Let_def split: if_splits)

lemma cf2bf_flags_msg:
  assumes "negotiable h" and "CHR ''<'' \<notin> set pre"
  shows "cf2bf (pre @ (flag_text h @ ''>'') @ post) c = (1, negotiated h c)"
proof -
  have "strchr (pre @ (flag_text h @ ''>'') @ post) (CHR ''<'')
      = Some (CHR ''<'' # tl (flag_text h) @ CHR ''>'' # post)"
    using strchr_skip [OF assms(2), of "tl (flag_text h) @ CHR ''>'' # post"]
    by (subst flag_text_hd) simp
  with cf2bf_loop_flag_text [OF assms(1)] show ?thesis by (simp add: cf2bf_def)
qed

subsection \<open>A session between an honest client and an honest server\<close>

text \<open>What each side sends in a successful session.\<close>

definition srv_transcript :: "srv_env \<Rightarrow> string \<Rightarrow> char list list" where
  "srv_transcript env fl =
     map print_p_buf [msg_ver (se_ver env), msg_ok_chal (se_chal env), msg_ok_flags fl]"

definition cli_transcript :: "string \<Rightarrow> byte list \<Rightarrow> char list list" where
  "cli_transcript name e = map print_p_buf [msg_host name, msg_chal e]"

text \<open>
  The two ends are set up for each other: the server finds the host under the client's name, both
  have the same password, the lock is granted, and the host's options can be sent.
\<close>

definition matched :: "srv_env \<Rightarrow> vtun_host \<Rightarrow> vtun_host \<Rightarrow> string \<Rightarrow> string \<Rightarrow> bool" where
  "matched env c h pwd fl =
     (nul_free (se_ver env) \<and> length (se_chal env) = 16
      \<and> word_ok (vh_host c) \<and> length (vh_host c) \<le> 41
      \<and> se_find_host env (vh_host c) = Some h
      \<and> vh_passwd h = Some pwd \<and> vh_passwd c = Some pwd \<and> pwd \<noteq> []
      \<and> 0 \<le> se_lock_host env h
      \<and> negotiable h \<and> bf2cf [] h = Some (fl, flag_text h))"

lemma received_msgs:
  assumes "nul_free ver" and "length ch = 16" and "nul_free fl" and "length fl \<le> 19"
  shows "strn_eq (cstr ((print_p_buf (msg_ver ver))[49 := NUL])) ''VTUN'' 4"
    and "cstr ((print_p_buf (msg_ok_chal ch))[49 := NUL]) = msg_ok_chal ch"
    and "cstr ((print_p_buf (msg_ok_flags fl))[49 := NUL]) = msg_ok_flags fl"
proof -
  have n: "nul_free (msg_ver ver)" using assms(1) by (simp add: msg_ver_def NUL_def)
  have "print_p_buf (msg_ver ver) ! 49 = NUL"
    by (simp add: print_p_buf_def Let_def nth_append min_def)
  then have "(print_p_buf (msg_ver ver))[49 := NUL] = print_p_buf (msg_ver ver)"
    by (metis list_update_id)
  then show "strn_eq (cstr ((print_p_buf (msg_ver ver))[49 := NUL])) ''VTUN'' 4"
    using cstr_print_p_buf [OF n] by (simp add: strn_eq_def msg_ver_def)
  show "cstr ((print_p_buf (msg_ok_chal ch))[49 := NUL]) = msg_ok_chal ch"
    using assms(2) word_ok_nul_free [OF word_ok_cl2cs]
    by (intro received_text) (auto simp: msg_ok_chal_def length_cl2cs NUL_def)
  show "cstr ((print_p_buf (msg_ok_flags fl))[49 := NUL]) = msg_ok_flags fl"
    using assms(3,4) by (intro received_text) (auto simp: msg_ok_flags_def NUL_def)
qed

lemma msg_prefixes:
  "strn_eq (msg_ok_chal ch) ''OK'' 2" "strn_eq (msg_ok_flags fl) ''OK'' 2"
  by (simp_all add: strn_eq_def msg_ok_chal_def msg_ok_flags_def)

lemma cs2cl_msg_ok_chal: "length ch = 16 \<Longrightarrow> cs2cl (msg_ok_chal ch) = Some ch"
  unfolding msg_ok_chal_def by (rule cs2cl_cl2cs) simp_all

lemma cf2bf_msg_ok_flags:
  "negotiable h \<Longrightarrow> cf2bf (msg_ok_flags (flag_text h @ ''>'')) c = (1, negotiated h c)"
  unfolding msg_ok_flags_def by (rule cf2bf_flags_msg) simp_all

lemma client_run:
  assumes m: "matched env c h pwd fl" and e: "enc (se_chal env) pwd = Some e"
  shows "auth_client enc c (srv_transcript env fl)
     = Some (True, negotiated h c, cli_transcript (vh_host c) e)"
proof -
  have fl: "fl = flag_text h @ ''>''" "length fl \<le> 19"
    using m bf2cf_first [of h fl] by (auto simp: matched_def)
  note r = received_msgs [of "se_ver env" "se_chal env" fl]
  have env: "nul_free (se_ver env)" "length (se_chal env) = 16" "negotiable h"
    "vh_passwd c = Some pwd" "nul_free fl"
    using m fl flag_text_nul_free by (auto simp: matched_def NUL_def)
  show ?thesis
    unfolding auth_client_def srv_transcript_def cli_transcript_def
    using fl env r e cs2cl_msg_ok_chal cf2bf_msg_ok_flags [of h c]
    by (simp add: cli_step_def cli_say_def msg_prefixes)
qed

lemma server_run:
  assumes m: "matched env c h pwd fl" and d: "se_decrypt env e pwd = Some (se_chal env)"
    and e: "length e = 16"
  shows "auth_server env (cli_transcript (vh_host c) e) = Some (Some h, srv_transcript env fl)"
proof -
  have 1: "two_words (print_p_buf (msg_host (vh_host c))) = Some (''HOST'', vh_host c)"
    unfolding msg_host_def using m
    by (intro two_words_msg) (auto simp: matched_def word_ok_def NUL_def)
  have 2: "two_words (print_p_buf (msg_chal e)) = Some (''CHAL'', cl2cs e)"
    unfolding msg_chal_def using e word_ok_cl2cs
    by (intro two_words_msg) (auto simp: length_cl2cs word_ok_def NUL_def)
  have 3: "cs2cl (cl2cs e) = Some e"
    using cs2cl_cl2cs [OF e, of "[]" "[]"] by simp
  from m have "se_find_host env (vh_host c) = Some h" "vh_passwd h = Some pwd"
    "\<not> se_lock_host env h < 0" "bf2cf [] h = Some (fl, flag_text h)"
    by (auto simp: matched_def)
  with 1 2 3 d show ?thesis
    by (simp add: auth_server_def srv_transcript_def cli_transcript_def srv_start_def srv_say_def
        srv_step_def srv_check_def)
qed

text \<open>Any cipher with the laws of the interface lets the two ends through.\<close>

context chal_cipher
begin

lemma session:
  assumes m: "matched env c h pwd fl" and d: "se_decrypt env = dec"
  shows "\<exists>e. enc (se_chal env) pwd = Some e
     \<and> auth_server env (cli_transcript (vh_host c) e) = Some (Some h, srv_transcript env fl)
     \<and> auth_client enc c (srv_transcript env fl)
         = Some (True, negotiated h c, cli_transcript (vh_host c) e)"
proof -
  from m have "length (se_chal env) = 16" "pwd \<noteq> []" by (auto simp: matched_def)
  then obtain e where e: "enc (se_chal env) pwd = Some e" "length e = 16"
    "dec e pwd = Some (se_chal env)" using enc_ok by blast
  with client_run [where enc = enc, OF m e(1)] server_run [OF m _ e(2)] d show ?thesis by auto
qed

end

subsection \<open>Nobody gets in without the answer to the challenge\<close>

text \<open>Every run of the server that ends with a host went through both messages.\<close>

lemma srv_step_Host:
  assumes "s_stage s = ST_HOST"
  shows "srv_step env s b = (case two_words b of
     Some (w, name) \<Rightarrow> if w = ''HOST''
       then Continue (srv_say (msg_ok_chal (se_chal env)) (s\<lparr>s_name := Some name, s_stage := ST_CHAL\<rparr>))
       else Break s
   | None \<Rightarrow> Break s)"
  using assms by (simp add: srv_step_def split: option.splits)

lemma srv_check_ok:
  assumes "srv_check env s w = t" and "s_h s = None"
  shows "(t = Break s) \<or> t = Crash
    \<or> (\<exists>name h a fl p. t = Break (srv_say (msg_ok_flags fl) (s\<lparr>s_h := Some h\<rparr>))
         \<and> s_name s = Some name \<and> se_find_host env name = Some h \<and> cs2cl w = Some a
         \<and> Option.bind (vh_passwd h) (se_decrypt env a) = Some (se_chal env)
         \<and> 0 \<le> se_lock_host env h \<and> bf2cf [] h = Some (fl, p))"
  using assms by (auto simp: srv_check_def split: option.splits if_splits prod.splits)

lemma srv_step_Chal:
  assumes "s_stage s = ST_CHAL"
  shows "srv_step env s b = (case two_words b of
     Some (w, ans) \<Rightarrow> if w = ''CHAL'' then srv_check env s ans else Break s
   | None \<Rightarrow> Break s)"
  using assms by (simp add: srv_step_def split: option.splits)

lemma srv_check_stops: "srv_check env s w \<noteq> Continue s'"
  by (simp add: srv_check_def split: option.splits if_splits prod.splits)

text \<open>The runs of the server, by how far they get.\<close>

lemma srv_loop_shape:
  assumes "srv_loop env (srv_start env) bufs = Some s"
  shows "s = srv_start env
   \<or> (\<exists>b1 bs name s1. bufs = b1 # bs \<and> two_words b1 = Some (''HOST'', name)
        \<and> s1 = srv_say (msg_ok_chal (se_chal env)) ((srv_start env)\<lparr>s_name := Some name, s_stage := ST_CHAL\<rparr>)
        \<and> (s = s1 \<or> (\<exists>b2 bs' w. bs = b2 # bs' \<and> two_words b2 = Some (''CHAL'', w)
             \<and> srv_check env s1 w = Break s)))"
proof (cases bufs)
  case Nil
  with assms show ?thesis by simp
next
  case (Cons b1 bs)
  have st: "s_stage (srv_start env) = ST_HOST" by (simp add: srv_start_def srv_say_def)
  show ?thesis
  proof (cases "\<exists>name. two_words b1 = Some (''HOST'', name)")
    case False
    with assms Cons show ?thesis
      by (auto simp: srv_step_Host [OF st] split: option.splits if_splits)
  next
    case True
    then obtain name where b1: "two_words b1 = Some (''HOST'', name)" by blast
    let ?s1 = "srv_say (msg_ok_chal (se_chal env))
      ((srv_start env)\<lparr>s_name := Some name, s_stage := ST_CHAL\<rparr>)"
    have st1: "s_stage ?s1 = ST_CHAL" by (simp add: srv_say_def)
    from assms Cons b1 have l: "srv_loop env ?s1 bs = Some s" by (simp add: srv_step_Host [OF st])
    show ?thesis
    proof (cases bs)
      case Nil
      with l Cons b1 show ?thesis by simp
    next
      case c2: (Cons b2 bs')
      with l have "(\<exists>w. two_words b2 = Some (''CHAL'', w) \<and> srv_check env ?s1 w = Break s) \<or> s = ?s1"
        using srv_check_stops
        by (auto simp: srv_step_Chal [OF st1] split: option.splits if_splits turn.splits)
      with c2 Cons b1 show ?thesis by blast
    qed
  qed
qed

lemma srv_start_h [simp]: "s_h (srv_start env) = None"
  by (simp add: srv_start_def srv_say_def)

text \<open>What a run that ends with a host has checked.\<close>

lemma auth_server_host:
  assumes "auth_server env bufs = Some (Some h, out)"
  shows "\<exists>b1 b2 bs name w a pwd fl p. bufs = b1 # b2 # bs
     \<and> two_words b1 = Some (''HOST'', name) \<and> two_words b2 = Some (''CHAL'', w)
     \<and> cs2cl w = Some a \<and> se_find_host env name = Some h
     \<and> vh_passwd h = Some pwd \<and> se_decrypt env a pwd = Some (se_chal env)
     \<and> 0 \<le> se_lock_host env h \<and> bf2cf [] h = Some (fl, p)
     \<and> out = srv_transcript env fl"
proof -
  from assms obtain s where l: "srv_loop env (srv_start env) bufs = Some s"
    and h: "s_h s = Some h" and out: "out = s_out s"
    by (auto simp: auth_server_def Let_def srv_say_def split: if_splits)
  let ?s1 = "\<lambda>name. srv_say (msg_ok_chal (se_chal env))
      ((srv_start env)\<lparr>s_name := Some name, s_stage := ST_CHAL\<rparr>)"
  have n1: "s_h (?s1 name) = None" for name by (simp add: srv_say_def)
  from srv_loop_shape [OF l] h n1 obtain b1 b2 bs name w
    where b: "bufs = b1 # b2 # bs" "two_words b1 = Some (''HOST'', name)"
      "two_words b2 = Some (''CHAL'', w)" and c: "srv_check env (?s1 name) w = Break s"
    by auto
  from srv_check_ok [OF c n1] h n1 obtain a fl p
    where "se_find_host env name = Some h" "cs2cl w = Some a"
      "Option.bind (vh_passwd h) (se_decrypt env a) = Some (se_chal env)"
      "0 \<le> se_lock_host env h" "bf2cf [] h = Some (fl, p)"
      "s = srv_say (msg_ok_flags fl) ((?s1 name)\<lparr>s_h := Some h\<rparr>)"
    by (auto simp: srv_say_def)
  moreover from this obtain pwd where "vh_passwd h = Some pwd"
    "se_decrypt env a pwd = Some (se_chal env)" by (auto simp: bind_eq_Some_conv)
  ultimately show ?thesis
    using b out by (auto simp: srv_transcript_def srv_say_def srv_start_def)
qed

text \<open>What a run without a host has sent: never the flags, and \<open>ERR\<close> last.\<close>

lemma auth_server_no_host:
  assumes "auth_server env bufs = Some (None, out)"
  shows "out = map print_p_buf [msg_ver (se_ver env), msg_err]
       \<or> out = map print_p_buf [msg_ver (se_ver env), msg_ok_chal (se_chal env), msg_err]"
proof -
  from assms obtain s where l: "srv_loop env (srv_start env) bufs = Some s"
    and h: "s_h s = None" and out: "out = s_out (srv_say msg_err s)"
    by (auto simp: auth_server_def Let_def split: if_splits)
  let ?s1 = "\<lambda>name. srv_say (msg_ok_chal (se_chal env))
      ((srv_start env)\<lparr>s_name := Some name, s_stage := ST_CHAL\<rparr>)"
  have n1: "s_h (?s1 name) = None" for name by (simp add: srv_say_def)
  have "s = srv_start env \<or> (\<exists>name. s = ?s1 name)"
    using srv_loop_shape [OF l] srv_check_ok [OF _ n1] h by (fastforce simp: srv_say_def)
  with out show ?thesis by (auto simp: srv_say_def srv_start_def)
qed

lemma length_cs2cl: "cs2cl w = Some a \<Longrightarrow> length a = 16"
  by (auto simp: cs2cl_def split: option.splits if_splits prod.splits)

subsection \<open>Properties\<close>

text \<open>
  C3. A session between matched ends succeeds over the default (Blowfish) challenge cipher, for
  any block cipher: the server returns the host, the client succeeds with the server's options,
  and each side's messages are exactly what the other side received.
\<close>

theorem auth_session_ssl:
  assumes "block_cipher E D" and "matched env c h pwd fl" and "se_decrypt env = ssl_crypt_chal D"
  shows "\<exists>e. ssl_crypt_chal E (se_chal env) pwd = Some e
     \<and> auth_server env (cli_transcript (vh_host c) e) = Some (Some h, srv_transcript env fl)
     \<and> auth_client (ssl_crypt_chal E) c (srv_transcript env fl)
         = Some (True, negotiated h c, cli_transcript (vh_host c) e)"
  using chal_cipher.session [OF ssl_chal_cipher [OF assms(1)] assms(2,3)] .

definition ex_host :: vtun_host where
  "ex_host = default_host\<lparr>vh_host := ''cobra'', vh_passwd := Some ''secret'',
     vh_flags := VTUN_TUN OR VTUN_UDP OR VTUN_KEEP_ALIVE OR VTUN_LZO, zlevel := 9\<rparr>"

definition ex_client :: vtun_host where
  "ex_client = default_host\<lparr>vh_host := ''cobra'', vh_passwd := Some ''secret'',
     vh_flags := VTUN_STAT\<rparr>"

definition ex_env :: "(byte list \<Rightarrow> string \<Rightarrow> byte list option) \<Rightarrow> srv_env" where
  "ex_env dec = \<lparr>se_ver = ''3.X'', se_chal = [0, 1, 2, 3, 4, 5, 6, 7, 8, 9, 10, 11, 12, 13, 14, 255],
     se_find_host = (\<lambda>n. if n = ''cobra'' then Some ex_host else None),
     se_lock_host = (\<lambda>_. 0), se_decrypt = dec\<rparr>"

lemma ex_matched: "matched (ex_env dec) ex_client ex_host ''secret'' ''<UuL9K>''"
proof -
  have f: "flag_text ex_host = ''<UuL9K''"
    by (simp add: flag_text_def ex_host_def default_host_def zero_host_def has_flag_def show_int_def
        show_nat.simps digits10_def)
  have "negotiable ex_host"
    by (simp add: negotiable_def ex_host_def default_host_def zero_host_def has_flag_def plain_int_def)
  moreover have "bf2cf [] ex_host = Some (''<UuL9K>'', flag_text ex_host)"
    by (simp add: bf2cf_def f)
  moreover have "word_ok ''cobra''" by (simp add: word_ok_def NUL_def)
  ultimately show ?thesis
    unfolding matched_def ex_env_def
    by (simp add: ex_client_def ex_host_def default_host_def zero_host_def NUL_def)
qed

lemma auth_session_ssl_witness:
  "\<exists>e. ssl_crypt_chal (\<lambda>_ b. rev b) (se_chal (ex_env (ssl_crypt_chal (\<lambda>_ b. rev b)))) ''secret'' = Some e
     \<and> auth_server (ex_env (ssl_crypt_chal (\<lambda>_ b. rev b))) (cli_transcript ''cobra'' e)
         = Some (Some ex_host, srv_transcript (ex_env (ssl_crypt_chal (\<lambda>_ b. rev b))) ''<UuL9K>'')"
proof -
  have "block_cipher (\<lambda>_ b. rev b) (\<lambda>_ b. rev b)" by (simp add: block_cipher_def)
  from auth_session_ssl [OF this ex_matched, of "ssl_crypt_chal (\<lambda>_ b. rev b)"]
  show ?thesis by (auto simp: ex_env_def ex_client_def)
qed

text \<open>
  The same for a build without OpenSSL, where the challenge is XORed with the password.
\<close>

theorem auth_session_xor:
  assumes "matched env c h pwd fl" and "se_decrypt env = decrypt_chal"
  shows "\<exists>e. encrypt_chal (se_chal env) pwd = Some e
     \<and> auth_server env (cli_transcript (vh_host c) e) = Some (Some h, srv_transcript env fl)
     \<and> auth_client encrypt_chal c (srv_transcript env fl)
         = Some (True, negotiated h c, cli_transcript (vh_host c) e)"
  using xorc.session [OF assms] .

lemma auth_session_xor_witness:
  "\<exists>e. encrypt_chal (se_chal (ex_env decrypt_chal)) ''secret'' = Some e
     \<and> auth_server (ex_env decrypt_chal) (cli_transcript ''cobra'' e)
         = Some (Some ex_host, srv_transcript (ex_env decrypt_chal) ''<UuL9K>'')"
  using auth_session_xor [OF ex_matched, of decrypt_chal] by (auto simp: ex_env_def ex_client_def)

text \<open>No other message of the server is taken for the flags.\<close>

lemma flags_message:
  "print_p_buf (msg_ok_flags fl) \<notin> set (map print_p_buf [msg_ver ver, msg_ok_chal chal, msg_err])"
proof -
  have "print_p_buf m ! 3 = (if 3 < length m then m ! 3 else NUL)" for m
    by (simp add: print_p_buf_def Let_def nth_append)
  then have "print_p_buf (msg_ok_flags fl) ! 3 = CHR ''F''" "print_p_buf (msg_ver ver) ! 3 = CHR ''N''"
    "print_p_buf (msg_ok_chal chal) ! 3 = CHR ''C''" "print_p_buf msg_err ! 3 = CHR 0x0A"
    by (simp_all add: msg_ok_flags_def msg_ver_def msg_ok_chal_def msg_err_def LF_def)
  then show ?thesis by (auto dest: arg_cong [where f = "\<lambda>m. m ! 3"])
qed

text \<open>
  C4. The server returns a host only after a HOST message that names it and a CHAL message that
  carries the encryption of this session's challenge under the host's password, and only when
  the lock was granted; then it has sent its greeting, the challenge and the flags, which are those that \<open>bf2cf\<close> writes
  for this host. Where it returns no host it has not sent flags of any host. This takes a challenge cipher that
  encrypts what it has decrypted.
\<close>

theorem auth_server_sound:
  assumes "chal_cipher enc (se_decrypt env)"
    and "auth_server env bufs = Some (r, out)"
  shows "case r of
      Some h \<Rightarrow> (\<exists>b1 b2 bs name w a pwd fl p. bufs = b1 # b2 # bs
        \<and> two_words b1 = Some (''HOST'', name) \<and> two_words b2 = Some (''CHAL'', w)
        \<and> se_find_host env name = Some h \<and> vh_passwd h = Some pwd
        \<and> cs2cl w = Some a \<and> enc (se_chal env) pwd = Some a
        \<and> 0 \<le> se_lock_host env h \<and> bf2cf [] h = Some (fl, p)
        \<and> out = map print_p_buf [msg_ver (se_ver env), msg_ok_chal (se_chal env), msg_ok_flags fl])
    | None \<Rightarrow> (\<forall>fl. print_p_buf (msg_ok_flags fl) \<notin> set out)"
proof (cases r)
  case None
  then show ?thesis using auth_server_no_host [of env bufs out] assms(2) flags_message by force
next
  case (Some h)
  have "enc c p = Some a" if "length a = 16" "se_decrypt env a p = Some c" for a c p
    using chal_cipher.dec_ok [OF assms(1) that] .
  then show ?thesis
    using auth_server_host [of env bufs h out] assms(2) length_cs2cl Some by (auto simp: srv_transcript_def)
qed

lemma auth_server_sound_witness:
  "\<exists>bufs out b1 b2 bs w a. auth_server (ex_env decrypt_chal) bufs = Some (Some ex_host, out) \<and> bufs = b1 # b2 # bs
     \<and> two_words b1 = Some (''HOST'', ''cobra'') \<and> two_words b2 = Some (''CHAL'', w)
     \<and> cs2cl w = Some a \<and> encrypt_chal (se_chal (ex_env decrypt_chal)) ''secret'' = Some a
     \<and> out = map print_p_buf [msg_ver ''3.X'', msg_ok_chal (se_chal (ex_env decrypt_chal)), msg_ok_flags ''<UuL9K>'']"
proof -
  have d: "se_decrypt (ex_env decrypt_chal) = decrypt_chal" by (simp add: ex_env_def)
  with xorc.session [OF ex_matched] obtain e where
    r: "auth_server (ex_env decrypt_chal) (cli_transcript (vh_host ex_client) e)
      = Some (Some ex_host, srv_transcript (ex_env decrypt_chal) ''<UuL9K>'')" by blast
  have "chal_cipher encrypt_chal (se_decrypt (ex_env decrypt_chal))"
    unfolding d by (rule xorc.chal_cipher_axioms)
  from auth_server_sound [OF this r] r obtain b1 b2 bs name w a pwd fl p where
    x: "cli_transcript (vh_host ex_client) e = b1 # b2 # bs" "two_words b1 = Some (''HOST'', name)" "two_words b2 = Some (''CHAL'', w)"
      "se_find_host (ex_env decrypt_chal) name = Some ex_host" "vh_passwd ex_host = Some pwd" "cs2cl w = Some a"
      "encrypt_chal (se_chal (ex_env decrypt_chal)) pwd = Some a" "bf2cf [] ex_host = Some (fl, p)"
      "srv_transcript (ex_env decrypt_chal) ''<UuL9K>''
        = map print_p_buf [msg_ver (se_ver (ex_env decrypt_chal)), msg_ok_chal (se_chal (ex_env decrypt_chal)), msg_ok_flags fl]"
    by auto
  have "name = ''cobra''" using x(4) by (auto simp: ex_env_def split: if_splits)
  moreover have "pwd = ''secret''" using x(5) by (simp add: ex_host_def)
  moreover have "fl = ''<UuL9K>''" using x(8) ex_matched by (simp add: matched_def)
  moreover have "se_ver (ex_env decrypt_chal) = ''3.X''" by (simp add: ex_env_def)
  ultimately show ?thesis using r x(1-3,6,7,9) by metis
qed

text \<open>
  C32. A run that ends without a host has told the peer at most the greeting and the challenge,
  then ERR: the flags never leave the server before the answer is checked.
\<close>

theorem auth_server_refuses:
  assumes "auth_server env bufs = Some (None, out)"
  shows "out = map print_p_buf [msg_ver (se_ver env), msg_err]
       \<or> out = map print_p_buf [msg_ver (se_ver env), msg_ok_chal (se_chal env), msg_err]"
  using auth_server_no_host [OF assms] .

lemma auth_server_refuses_witness:
  "\<exists>out. auth_server (ex_env decrypt_chal) [print_p_buf (msg_host ''cobra''), print_p_buf msg_err]
       = Some (None, out)
     \<and> (out = map print_p_buf [msg_ver ''3.X'', msg_err]
       \<or> out = map print_p_buf [msg_ver ''3.X'', msg_ok_chal (se_chal (ex_env decrypt_chal)), msg_err])"
proof -
  have "two_words (print_p_buf (msg_host ''cobra'')) = Some (''HOST'', ''cobra'')"
    unfolding msg_host_def by (rule two_words_msg) (simp_all add: word_ok_def NUL_def)
  moreover have "two_words (print_p_buf msg_err) = None"
    by (simp add: two_words_def msg_err_def LF_def print_p_buf_def Let_def cstr_def NUL_def
        strtok_def CRLF_set_def)
  ultimately have "\<exists>out. auth_server (ex_env decrypt_chal)
      [print_p_buf (msg_host ''cobra''), print_p_buf msg_err] = Some (None, out)"
    by (auto simp: auth_server_def Let_def srv_step_def srv_start_def srv_say_def)
  then show ?thesis using auth_server_refuses [of "ex_env decrypt_chal"] by (auto simp: ex_env_def)
qed

text \<open>
  C15. The options of a host reach the client as they are: the flag message the server sends,
  padded to 50 bytes, makes the client's \<open>cf2bf\<close> succeed and take over protocol, device type,
  speed, compression, encryption and keep-alive. This holds for every host that is \<open>negotiable\<close> (one protocol and
  one device type, and no number in use that is 34, the value of \<open>ERANGE\<close>, or that is a speed or cipher of 0) and
  whose options fit the 20 bytes of \<open>bf2cf\<close>.
\<close>

theorem flags_negotiated:
  assumes "negotiable h" and "bf2cf [] h = Some (fl, p)"
  shows "cf2bf (cstr ((print_p_buf (msg_ok_flags fl))[49 := NUL])) c = (1, negotiated h c)"
proof -
  have fl: "fl = flag_text h @ ''>''" "length fl \<le> 19" using bf2cf_first [OF assms(2)] by auto
  moreover have "nul_free fl" using fl flag_text_nul_free by (simp add: NUL_def)
  ultimately show ?thesis
    using received_msgs(3) [of "[]" "replicate 16 0" fl] cf2bf_msg_ok_flags [OF assms(1)] by simp
qed

lemma flags_negotiated_witness:
  "bf2cf [] ex_host = Some (''<UuL9K>'', ''<UuL9K'')
    \<and> cf2bf (cstr ((print_p_buf (msg_ok_flags ''<UuL9K>''))[49 := NUL])) ex_client = (1, negotiated ex_host ex_client)
    \<and> zlevel (negotiated ex_host ex_client) = 9"
proof -
  have f: "flag_text ex_host = ''<UuL9K''"
    by (simp add: flag_text_def ex_host_def default_host_def zero_host_def has_flag_def show_int_def
        show_nat.simps digits10_def)
  have m: "negotiable ex_host" "bf2cf [] ex_host = Some (''<UuL9K>'', ''<UuL9K'')"
    using ex_matched f by (simp_all add: matched_def)
  moreover have "zlevel (negotiated ex_host ex_client) = 9"
    by (simp add: negotiated_def ex_host_def default_host_def zero_host_def has_flag_def)
  ultimately show ?thesis using flags_negotiated [OF m, of ex_client] by simp
qed

lemma length_show_int:
  "0 \<le> i \<Longrightarrow> i < 10 ^ Suc k \<Longrightarrow> length (show_int i) \<le> Suc k"
  using length_show_nat_le [of "nat i" k] by (simp add: show_int_def nat_less_iff)

text \<open>
  The option string fits the 20-byte buffer of \<open>bf2cf\<close> for speeds below 1000000 kbit/s,
  compression levels 0 to 9 and the ciphers the configuration knows.
\<close>

theorem bf2cf_fits:
  assumes "0 \<le> spd_in h" "spd_in h < 1000000" and "0 \<le> zlevel h" "zlevel h \<le> 9"
    and "0 \<le> cipher h" "cipher h \<le> 16 \<or> cipher h = VTUN_LEGACY_ENCRYPT"
    and "\<not> (has_flag h VTUN_ZLIB \<and> has_flag h VTUN_LZO)"
  shows "bf2cf [] h = Some (flag_text h @ ''>'', flag_text h)"
proof -
  have l: "length (show_int (spd_in h)) \<le> 6" "length (show_int (zlevel h)) \<le> 1"
    "cipher h \<noteq> VTUN_LEGACY_ENCRYPT \<Longrightarrow> length (show_int (cipher h)) \<le> 2"
    using length_show_int [of "spd_in h" 5] length_show_int [of "zlevel h" 0]
      length_show_int [of "cipher h" 1] assms by auto
  have "length (proto_text h) \<le> 1" "length (type_text h) \<le> 1" "length (ka_text h) \<le> 1"
    by (simp_all add: proto_text_def type_text_def ka_text_def Let_def)
  moreover have "length (opt_text h VTUN_SHAPE (CHR ''S'') (spd_in h)) \<le> 7"
    "length (opt_text h VTUN_ZLIB (CHR ''C'') (zlevel h))
      + length (opt_text h VTUN_LZO (CHR ''L'') (zlevel h)) \<le> 2"
    "length (enc_text h) \<le> 3"
    using l assms(7) by (auto simp: opt_text_def enc_text_def)
  ultimately have "length (flag_text h) \<le> 16" by (simp add: flag_text_pieces)
  then show ?thesis by (simp add: bf2cf_def Let_def)
qed

lemma bf2cf_fits_witness:
  "bf2cf [] (ex_host\<lparr>spd_in := 999999, vh_flags := 0x0f7d\<rparr>)
     = Some (flag_text (ex_host\<lparr>spd_in := 999999, vh_flags := 0x0f7d\<rparr>) @ ''>'',
             flag_text (ex_host\<lparr>spd_in := 999999, vh_flags := 0x0f7d\<rparr>))"
  by (rule bf2cf_fits)
     (simp_all add: ex_host_def default_host_def zero_host_def has_flag_def)

text \<open>
  A shaped session of 34 kbit/s is refused by the client: the converted number is compared
  with the errno value \<open>ERANGE\<close>, so \<open>cf2bf\<close> gives up at the speed.
\<close>

theorem speed_34_refused:
  assumes "vh_flags h AND VTUN_PROT_MASK = VTUN_TCP" and "vh_flags h AND VTUN_TYPE_MASK = VTUN_TUN"
    and "has_flag h VTUN_SHAPE" and "spd_in h = 34"
  shows "fst (cf2bf (msg_ok_flags (flag_text h @ ''>'')) c) = 0"
proof -
  have o: "opt_text h 4 (CHR ''S'') 34 = ''S34''"
    using assms(3) by (simp add: opt_text_def show_int_def show_nat.simps digits10_def)
  obtain r where "flag_text h @ ''>'' @ LF = ''<Tu'' @ CHR ''S'' # ''34'' @ r \<and> no_digit r"
  proof
    let ?r = "opt_text h VTUN_ZLIB (CHR ''C'') (zlevel h) @ opt_text h VTUN_LZO (CHR ''L'') (zlevel h)
        @ ka_text h @ enc_text h @ CHR ''>'' # LF"
    show "flag_text h @ ''>'' @ LF = ''<Tu'' @ CHR ''S'' # ''34'' @ ?r \<and> no_digit ?r"
      using assms o by (simp add: flag_text_pieces proto_text_def type_text_def no_digit_pieces)
  qed
  then have m: "msg_ok_flags (flag_text h @ ''>'') = ''OK FLAGS: '' @ CHR ''<'' # ''TuS34'' @ r"
    and r: "no_digit r" by (simp_all add: msg_ok_flags_def)
  have "strtol (''34'' @ r) = (34, r)"
    using strtol_show_int [of r 34] r by (simp add: no_digit_def show_int_def show_nat.simps digits10_def)
  moreover have "strchr (msg_ok_flags (flag_text h @ ''>'')) (CHR ''<'') = Some (CHR ''<'' # ''TuS34'' @ r)"
    unfolding m by (rule strchr_skip) simp
  ultimately show ?thesis
    by (simp add: cf2bf_def cf2bf_letters cf2bf_loop.simps(2) [of "CHR ''S''"] to_int32_def)
qed

lemma speed_34_refused_witness:
  "fst (cf2bf (msg_ok_flags (flag_text (ex_host\<lparr>vh_flags := 0x0814, spd_in := 34\<rparr>) @ ''>'')) ex_client) = 0"
  by (rule speed_34_refused) (simp_all add: has_flag_def)

text \<open>
  The challenge survives its text form: what \<open>cl2cs\<close> prints inside any message,
  \<open>cs2cl\<close> reads back.
\<close>

theorem challenge_roundtrip:
  assumes "length chal = 16" and "CHR ''<'' \<notin> set pre"
  shows "cs2cl (pre @ cl2cs chal @ post) = Some chal"
  using assms by (rule cs2cl_cl2cs)

lemma challenge_roundtrip_witness:
  "cs2cl (''OK CHAL: '' @ cl2cs (se_chal (ex_env decrypt_chal)) @ LF) = Some (se_chal (ex_env decrypt_chal))"
  by (rule challenge_roundtrip) (simp_all add: ex_env_def)

end
