(* ===== verification/ClientLoop.thy ===== *)
theory ClientLoop
  imports TunnelSetup Tunnel AuthProto
begin

section \<open>The client (\<open>client.c\<close>)\<close>

text \<open>
  \<open>client\<close> connects, authenticates, runs a session, and starts again while the host is persistent. The
  dialogue is a call whose answer holds the messages of the server, which \<^const>\<open>auth_client\<close> turns
  into a result; the session is \<^const>\<open>tunnel\<close>, with \<^const>\<open>linkfd\<close> as its linker.
\<close>

subsection \<open>The linker of a session\<close>

text \<open>
  \<^const>\<open>linkfd\<close> in an environment: \<open>w1\<close>, \<open>w2\<close> and the turns \<open>es\<close> are what it meets, \<open>s0\<close> the
  state that the last session of the process left, and \<open>dir\<close> is \<open>VTUN_STAT_DIR\<close>. When the turns are used up it
  is still running. The name of the statistics file goes to \<open>file[40]\<close>; a longer one is undefined.
\<close>

definition stat_path :: "string \<Rightarrow> vtun_host \<Rightarrow> string option" where
  "stat_path dir h =
     (let file = dir @ ''/'' @ take 20 (vh_host h) in if length file < 40 then Some file else None)"

definition link_done :: "(int \<times> ('z, 'c) lk) run \<Rightarrow> int option \<Rightarrow> bool \<Rightarrow> (int \<times> vtun_host \<times> bool) ended sys_prog" where
  "link_done r stat_fd c =
     (case r of
        Undefined \<Rightarrow> Fault
      | Running s \<Rightarrow> Ret Hangs
      | Ended (n, s) \<Rightarrow>
          (case stat_fd of
             None \<Rightarrow> Ret (Returned (n, lk_host s, c))
           | Some fd \<Rightarrow> Ask (Close fd) (\<lambda>_. Ret (Returned (n, lk_host s, c)))))"

definition link_program :: "('z, 'c) libs \<Rightarrow> string \<Rightarrow> wr_out \<Rightarrow> wr_out \<Rightarrow> lk_env list \<Rightarrow> ('z, 'c) lk \<Rightarrow> linker" where
  "link_program L dir w1 w2 es s0 h c =
     (case link_start L h s0 of
        None \<Rightarrow> Fault
      | Some (go, s1) \<Rightarrow>
          if \<not> go then Ret (Returned (0, lk_host s1, c))
          else if has_flag h VTUN_STAT then
            (case stat_path dir h of
               None \<Rightarrow> Fault
             | Some file \<Rightarrow> Ask (Open_file file) (\<lambda>a.
                 if sr_ret a = - 1 then link_done (link_run L False w1 w2 es h s1) None c
                 else link_done (link_run L True w1 w2 es h s1) (Some (sr_ret a)) c))
          else link_done (link_run L False w1 w2 es h s1) None c)"

definition host_kept :: "vtun_host \<Rightarrow> vtun_host \<Rightarrow> bool" where
  "host_kept h h' =
     (rmt_fd h' = rmt_fd h \<and> loc_fd h' = loc_fd h \<and> vh_flags h' = vh_flags h \<and> vh_dev h' = vh_dev h
      \<and> vh_host h' = vh_host h \<and> vh_multi h' = vh_multi h
      \<and> (vh_persist h' = vh_persist h \<or> vh_persist h' = 0))"

lemma conf_kept: "conf s' = conf s \<Longrightarrow> host_kept (lk_host s) (lk_host s')"
  by (simp add: conf_def host_kept_def)

lemma lk_close_kept: "host_kept (lk_host s) (lk_host (lk_close r s))"
proof -
  have "conf (lk_close r s) = conf (if linker_term s = VTUN_SIG_TERM then s\<lparr>lk_host := (lk_host s)\<lparr>vh_persist := 0\<rparr>\<rparr> else s)"
    by (simp add: lk_close_def Let_def)
  then show ?thesis by (auto simp: conf_def host_kept_def split: if_splits)
qed

lemma host_kept_trans: "host_kept a b \<Longrightarrow> host_kept b c \<Longrightarrow> host_kept a c"
  by (auto simp: host_kept_def)

lemma lfd_linker_kept:
  assumes "lfd_linker L w1 w2 es s = Ended s'"
  shows "host_kept (lk_host s) (lk_host s')"
proof (cases "lfd_alloc (l_malloc L) (VTUN_FRAME_SIZE + VTUN_FRAME_OVERHEAD)")
  case None
  then show ?thesis using assms by (simp add: lfd_linker_def host_kept_def)
next
  case (Some b)
  let ?s1 = "s\<lparr>lk_buf := b, lk_idle := 0\<rparr>"
  let ?s2 = "(if has_flag (lk_host ?s1) VTUN_NAT_HACK_MASK then ?s1
     else snd (proto_write w1 VTUN_ECHO_REQ (lk_buf ?s1) ?s1))\<lparr>linker_term := 0\<rparr>"
  obtain s3 where s3: "lk_loop L es ?s2 = Ended s3" "s' = lk_close w2 s3"
    using assms Some by (auto simp: lfd_linker_def Let_def split: run.splits)
  have "conf ?s2 = conf s" by simp
  moreover have "conf s3 = conf ?s2" using lk_loop_conf [of ?s2 "conf ?s2" L es] s3(1) by (simp add: run_all_def)
  ultimately have "host_kept (lk_host s) (lk_host s3)" by (intro conf_kept) simp
  then show ?thesis using s3(2) lk_close_kept [of s3 w2] host_kept_trans by blast
qed

lemma link_start_host: "link_start L h s0 = Some (go, s1) \<Longrightarrow> lk_host s1 = h"
  by (auto simp: link_start_def split: option.splits)

lemma link_run_kept:
  assumes "link_run L can_open w1 w2 es h s1 = Ended (r, s')" and "lk_host s1 = h"
  shows "host_kept h (lk_host s')"
  using assms lfd_linker_kept [of L w1 w2 es]
  by (fastforce simp: link_run_def link_end_def Let_def host_kept_def split: option.splits prod.splits run.splits if_splits)

lemma link_done_ok:
  assumes "lk_host s1 = h" and "\<And>fd. stat_fd = Some fd \<Longrightarrow> 0 \<le> fd \<and> fd \<notin> k_open w0"
    and "k_open w = k_open w0 \<union> set_option stat_fd"
  shows "wlp kstep (link_done (link_run L ok w1 w2 es h s1) stat_fd c) w (on_return (\<lambda>(r, h', c') w'.
     k_open w' = k_open w0 \<and> host_kept h h'))"
  using assms link_run_kept [OF _ assms(1), of L ok w1 w2 es]
  by (auto simp: link_done_def split: run.split option.split prod.split)

lemma link_program_ok: "link_ok (link_program L dir w1 w2 es s0)"
proof -
  have "wlp kstep (link_program L dir w1 w2 es s0 h c) w (on_return (\<lambda>(r, h', c') w'.
     k_open w' = k_open w \<and> host_kept h h'))" for h c w
    unfolding link_program_def
    by (auto split: option.split prod.split dest!: link_start_host dest: opens_open intro!: link_done_ok)
      (auto simp: host_kept_def)
  then show ?thesis unfolding link_ok_def
    by (intro allI, rule wlp_mono) (erule on_return_mono, auto simp: host_kept_def)
qed

subsection \<open>One attempt\<close>

text \<open>
  The body of the loop: the host and \<open>is_rmt_fd_connected\<close> afterwards, and the value that
  \<open>client_term\<close> was set to when a session was run. \<open>enc\<close> is the challenge cipher.
\<close>

record client_env =
  ce_driver :: driver
  ce_malloc :: "nat \<Rightarrow> char list option"
  ce_realloc :: "char list \<Rightarrow> nat \<Rightarrow> char list option"
  ce_link :: linker
  ce_enc :: "byte list \<Rightarrow> string \<Rightarrow> byte list option"
  ce_port :: int
  ce_svr_name :: string
  ce_persist :: int
  ce_junk :: sockaddr

definition client_session :: "client_env \<Rightarrow> int \<Rightarrow> vtun_host \<Rightarrow> bool \<Rightarrow> (vtun_host \<times> bool \<times> int option) ended sys_prog" where
  "client_session E s host conn =
     Ask (Dialogue s) (\<lambda>d.
       case auth_client (ce_enc E) host (sr_msgs d) of
         None \<Rightarrow> Fault
       | Some (ok, h, _) \<Rightarrow>
           if ok then
             and_go (tunnel (ce_driver E) (ce_malloc E) (ce_realloc E) (ce_link E) (ce_junk E) (h\<lparr>rmt_fd := s\<rparr>) conn)
               (\<lambda>(r, h', c'). Ret (Returned (h', c', Some r)))
           else Ret (Returned (h, conn, None)))"

definition client_round :: "client_env \<Rightarrow> vtun_host \<Rightarrow> bool \<Rightarrow> (vtun_host \<times> bool \<times> int option) ended sys_prog" where
  "client_round E host conn =
     Ask (Set_title (vh_host host @ '' init initializing'')) (\<lambda>_.
     bind_prog (server_addr (ce_port E) (ce_svr_name E) host) (\<lambda>(r1, svr, h1).
     if r1 < 0 then Ret (Returned (h1, conn, None)) else
     bind_prog (local_addr no_addr h1 False) (\<lambda>(r2, my, h2).
     if r2 < 0 then Ret (Returned (h2, conn, None)) else
     Ask (Socket Stream) (\<lambda>a. if sr_ret a = - 1 then Ret (Returned (h2, conn, None)) else
     (let s = sr_ret a in
      Ask (Set_option s Reuse_addr) (\<lambda>_.
      Ask (Bind s my) (\<lambda>b. if sr_ret b \<noteq> 0 then Ret (Returned (h2, conn, None)) else
      (let h3 = h2\<lparr>spd_in := 0, spd_out := 0, vh_flags := vh_flags h2 AND VTUN_CLNT_MASK\<rparr>;
           finish = (\<lambda>(h, c, t). Ask (Close s) (\<lambda>_. Ret (Returned (h\<lparr>vh_sopt := free_sopt (vh_sopt h)\<rparr>, c, t))))
       in Ask (Set_title (vh_host host @ '' connecting to '' @ ce_svr_name E)) (\<lambda>_.
          bind_prog (connect_t s svr (vh_timeout h3)) (\<lambda>k.
            if k \<noteq> 0 then finish (h3, conn, None)
            else and_go (client_session E s h3 conn) finish))))))))))"

subsection \<open>The loop\<close>

text \<open>
  The loop for at most \<open>n\<close> attempts. The first component of what it returns says whether the loop has
  ended; it is \<^const>\<open>False\<close> when a further attempt would follow. The variable \<open>client_term\<close> is looked
  at once a turn.
\<close>

fun client_loop :: "nat \<Rightarrow> client_env \<Rightarrow> int \<Rightarrow> bool \<Rightarrow> vtun_host \<Rightarrow> bool \<Rightarrow> (bool \<times> vtun_host \<times> bool) ended sys_prog" where
  "client_loop 0 E term0 reconnect host conn = Ret (Returned (False, host, conn))"
| "client_loop (Suc n) E term0 reconnect host conn =
     Ask Signals (\<lambda>g.
       let client_term = (if sr_ret g \<noteq> 0 then VTUN_SIG_TERM else term0);
           attempt = and_go (client_round E host conn) (\<lambda>(h, c, t).
             client_loop n E (case t of None \<Rightarrow> client_term | Some r \<Rightarrow> r) True h c)
       in if client_term \<noteq> 0 \<and> client_term \<noteq> VTUN_SIG_HUP then Ret (Returned (True, host, conn))
          else if reconnect \<and> client_term \<noteq> VTUN_SIG_HUP then
            (if ce_persist E \<noteq> 0 \<or> vh_persist host \<noteq> 0 then Ask (Sleep 5) (\<lambda>_. attempt)
             else Ret (Returned (True, host, conn)))
          else attempt)"

definition client :: "nat \<Rightarrow> client_env \<Rightarrow> vtun_host \<Rightarrow> bool \<Rightarrow> (bool \<times> vtun_host \<times> bool) ended sys_prog" where
  "client n E host conn =
     set_signals [(SIGHUP, Ignore), (SIGQUIT, Ignore), (SIGPIPE, Ignore), (SIGCHLD, Ignore),
         (SIGTERM, Run ''sig_term''), (SIGINT, Run ''sig_term'')]
       (client_loop n E 0 False host conn)"

subsection \<open>What the dialogue keeps of the host\<close>

definition opts_only :: "vtun_host \<Rightarrow> vtun_host \<Rightarrow> bool" where
  "opts_only h h' =
     (vh_dev h' = vh_dev h \<and> rmt_fd h' = rmt_fd h \<and> loc_fd h' = loc_fd h \<and> vh_persist h' = vh_persist h)"

lemma opts_only_refl [simp]: "opts_only h h"
  by (simp add: opts_only_def)

lemma opts_only_trans: "opts_only a b \<Longrightarrow> opts_only b c \<Longrightarrow> opts_only a c"
  by (simp add: opts_only_def)

lemma cf2bf_loop_keeps: "opts_only h (snd (cf2bf_loop p h))"
proof (induction "length p" arbitrary: p h rule: less_induct)
  case less
  show ?case
  proof (cases p)
    case (Cons c ptr)
    have IH: "opts_only h (snd (cf2bf_loop q g))" if "length q \<le> length ptr" "opts_only h g" for q g
      using less [of q g] that Cons opts_only_trans by auto
    have g: "opts_only h (set_flags h f)" "opts_only h (set_proto h f)" "opts_only h ((set_flags h f)\<lparr>zlevel := z\<rparr>)"
      "opts_only h ((set_flags h f)\<lparr>cipher := z\<rparr>)" "opts_only h ((set_flags h f)\<lparr>spd_out := z\<rparr>)" for f z
      by (simp_all add: opts_only_def set_flags_def set_proto_def)
    have l: "length (snd (strtol ptr)) \<le> length ptr" by (rule length_strtol)
    show ?thesis unfolding Cons cf2bf_loop.simps(2) [of c ptr h] Let_def
      by (simp only: snd_conv opts_only_refl IH g l order_refl if_True if_False simp_thms split: if_split)
  qed simp
qed

lemma auth_client_keeps:
  assumes "auth_client enc h bufs = Some (ok, h', out)"
  shows "opts_only h h'"
proof -
  have step: "case cli_step enc s b of Continue s' \<Rightarrow> opts_only (c_host s) (c_host s')
      | Break s' \<Rightarrow> opts_only (c_host s) (c_host s') | Crash \<Rightarrow> True" for s b
    using cf2bf_loop_keeps [of "c_host s"]
    by (auto simp: cli_step_def cli_say_def cf2bf_def Let_def split: stage.splits option.splits prod.splits)
      (metis snd_conv)+
  have loop: "opts_only (c_host s) (c_host s')" if "cli_loop enc s bs = Some s'" for s s' bs
    using that
  proof (induction bs arbitrary: s)
    case (Cons b bs)
    then show ?case using step [of s b] by (auto split: turn.splits intro: opts_only_trans)
  qed simp
  show ?thesis using assms loop by (fastforce simp: auth_client_def)
qed

subsection \<open>The descriptors of an attempt\<close>

text \<open>Descriptors are not negative, whatever a program does.\<close>

definition fds_ok :: "kernel \<Rightarrow> bool" where
  "fds_ok w = (\<forall>fd \<in> k_open w. 0 \<le> fd)"

lemma opens_fds_ok: "opens r w = Some w' \<Longrightarrow> fds_ok w \<Longrightarrow> fds_ok w'"
  by (auto simp: opens_def fds_ok_def split: if_splits)

lemma kstep_fds_ok:
  assumes "kstep w q a = Some w'" and "fds_ok w"
  shows "fds_ok w'"
proof -
  have keep: "k_open w1 \<subseteq> k_open w \<Longrightarrow> fds_ok w1" for w1 using assms(2) by (auto simp: fds_ok_def)
  show ?thesis using assms
    by (cases "(w, q, a)" rule: kstep.cases)
      (auto simp: bind_eq_Some_conv split: if_splits option.splits prod.splits intro: opens_fds_ok keep)
qed

lemma wlp_fds_ok: "fds_ok w \<Longrightarrow> wlp kstep p w (\<lambda>_ w'. fds_ok w')"
  by (induction p arbitrary: w) (auto dest: kstep_fds_ok)

text \<open>
  What an attempt of the host \<open>h\<close> leaves, as in \<^const>\<open>settled\<close> but without a connection: one lost
  descriptor at most.
\<close>

definition attempt_fds :: "kernel \<Rightarrow> vtun_host \<Rightarrow> vtun_host \<times> bool \<times> int option \<Rightarrow> kernel \<Rightarrow> bool" where
  "attempt_fds w h x w' =
     (case x of (h', c', t) \<Rightarrow>
        k_open w - {loc_fd h} \<subseteq> k_open w' \<and> vh_dev h' = vh_dev h \<and> (loc_fd h' = loc_fd h \<or> loc_fd h' \<notin> k_open w)
        \<and> (has_kept h \<longrightarrow> loc_fd h' = loc_fd h \<and> (keepif h' \<or> loc_fd h \<notin> k_open w'))
        \<and> (\<exists>lost s. lost \<subseteq> {s} \<and> k_open w' \<subseteq> k_open w \<union> lost \<union> (if keepif h' then {loc_fd h'} else {})))"

definition same_fds :: "vtun_host \<Rightarrow> vtun_host \<Rightarrow> bool" where
  "same_fds h h' = (vh_dev h' = vh_dev h \<and> loc_fd h' = loc_fd h \<and> vh_persist h' = vh_persist h)"

lemma attempt_lost:
  assumes "same_fds h h'" and "k_open w \<subseteq> k_open w'" and "k_open w' \<subseteq> insert s (k_open w)"
  shows "attempt_fds w h (h', c, t) w'"
proof -
  have "{s} \<subseteq> {s} \<and> k_open w' \<subseteq> k_open w \<union> {s} \<union> (if keepif h' then {loc_fd h'} else {})"
    using assms(3) by auto
  then have "\<exists>lost s. lost \<subseteq> {s} \<and> k_open w' \<subseteq> k_open w \<union> lost \<union> (if keepif h' then {loc_fd h'} else {})"
    by (intro exI)
  then show ?thesis using assms(1,2) unfolding attempt_fds_def prod.case same_fds_def has_kept_def keepif_def by auto
qed

lemma attempt_settled:
  assumes "settled h1 (insert s (k_open w)) {s, loc_fd h1} (r, h', c) w'" and "same_fds h h1" and "s \<notin> k_open w"
    and "k_open w2 = k_open w' - {s}" and "same_fds h' h2"
  shows "attempt_fds w h (h2, c2, t) w2"
proof -
  obtain lost x where l: "lost \<subseteq> {x}" "k_open w' \<subseteq> insert s (k_open w) \<union> lost \<union> (if keepif h' then {loc_fd h'} else {})"
    using assms(1) by (auto simp: settled_def)
  have k: "keepif h2 = keepif h'" "loc_fd h2 = loc_fd h'" using assms(5) by (simp_all add: same_fds_def keepif_def)
  have "lost \<subseteq> {x} \<and> k_open w2 \<subseteq> k_open w \<union> lost \<union> (if keepif h2 then {loc_fd h2} else {})"
    using l assms(4) unfolding k by blast
  then have "\<exists>lost s. lost \<subseteq> {s} \<and> k_open w2 \<subseteq> k_open w \<union> lost \<union> (if keepif h2 then {loc_fd h2} else {})"
    by (intro exI)
  moreover have "k_open w - {loc_fd h} \<subseteq> k_open w2" "vh_dev h2 = vh_dev h" "loc_fd h2 = loc_fd h \<or> loc_fd h2 \<notin> k_open w"
    "has_kept h \<longrightarrow> loc_fd h2 = loc_fd h \<and> (keepif h2 \<or> loc_fd h \<notin> k_open w2)"
    using assms by (auto simp: settled_def same_fds_def has_kept_def keepif_def)
  ultimately show ?thesis unfolding attempt_fds_def prod.case by blast
qed

lemma same_fds_refl [simp]: "same_fds h h" "same_fds h (h\<lparr>vh_sopt := x\<rparr>)"
  "same_fds h (h\<lparr>spd_in := 0, spd_out := 0, vh_flags := f\<rparr>)" "same_fds h (h\<lparr>rmt_fd := n\<rparr>)"
  by (simp_all add: same_fds_def)

lemma same_fds_trans: "same_fds a b \<Longrightarrow> same_fds b c \<Longrightarrow> same_fds a c"
  by (simp add: same_fds_def)

lemma opts_only_fds: "opts_only h h' \<Longrightarrow> same_fds h h'"
  by (simp add: opts_only_def same_fds_def)

lemma wlp_server_addr:
  "wlp kstep (server_addr port name h) w (\<lambda>(r, a, h') w'. k_open w' = k_open w \<and> same_fds h h')"
  by (auto simp: server_addr_def Let_def)

lemma wlp_generic_addr: "wlp kstep (generic_addr v) w (\<lambda>x w'. k_open w' = k_open w)"
  by (auto simp: generic_addr_def Let_def split: option.split intro!: wlp_mono [OF wp_wlp [OF wp_getifaddr]])

lemma wlp_local_addr:
  "wlp kstep (local_addr a h False) w (\<lambda>(r, a, h') w'. k_open w' = k_open w \<and> same_fds h h')"
  by (auto simp: local_addr_def Let_def intro!: wlp_mono [OF wlp_generic_addr])

definition client_env_ok :: "client_env \<Rightarrow> bool" where
  "client_env_ok E =
     (ce_driver E \<in> {linux_driver, generic_driver, freebsd_driver, openbsd_driver} \<and> link_ok (ce_link E))"

definition dev_short :: "vtun_host \<Rightarrow> bool" where
  "dev_short h = (case vh_dev h of None \<Rightarrow> True | Some d \<Rightarrow> length d \<le> 8)"

text \<open>After the dialogue and the session: either the host was refused, or a session has ended.\<close>

definition session_fds :: "kernel \<Rightarrow> int \<Rightarrow> vtun_host \<Rightarrow> vtun_host \<times> bool \<times> int option \<Rightarrow> kernel \<Rightarrow> bool" where
  "session_fds w s h x w' =
     (case x of (h', c', t) \<Rightarrow>
        k_open w' = k_open w \<and> same_fds h h'
        \<or> (\<exists>h1 r. same_fds h h1 \<and> settled h1 (k_open w) {s, loc_fd h1} (r, h', c') w'))"

lemma wlp_client_session:
  assumes "client_env_ok E" and "dev_short h" and "0 \<in> k_open w" and "fds_ok w" and "s \<in> k_open w"
  shows "wlp kstep (client_session E s h c) w (on_return (session_fds w s h))"
proof -
  have go: "wlp kstep (and_go (tunnel (ce_driver E) (ce_malloc E) (ce_realloc E) (ce_link E) (ce_junk E) (h1\<lparr>rmt_fd := s\<rparr>) c)
        (\<lambda>(r, h', c'). Ret (Returned (h', c', Some r)))) w (on_return (session_fds w s h))"
    if "same_fds h h1" for h1
  proof -
    let ?h = "h1\<lparr>rmt_fd := s\<rparr>"
    have "case vh_dev ?h of None \<Rightarrow> True | Some d \<Rightarrow> length d \<le> 8"
      using that assms(2) by (simp add: dev_short_def same_fds_def)
    moreover have "- 1 \<notin> k_open w" using assms(4) by (auto simp: fds_ok_def)
    ultimately have "wlp kstep (tunnel (ce_driver E) (ce_malloc E) (ce_realloc E) (ce_link E) (ce_junk E) ?h c) w
        (on_return (settled ?h (k_open w) {rmt_fd ?h, loc_fd ?h}))"
      using assms by (intro builds_settle) (simp_all add: client_env_ok_def)
    moreover have "session_fds w s h (h', c', t) w'"
      if "settled ?h (k_open w) {rmt_fd ?h, loc_fd ?h} (r, h', c') w'" for r h' c' t w'
    proof -
      have "same_fds h ?h" using \<open>same_fds h h1\<close> by (simp add: same_fds_def)
      moreover have "settled ?h (k_open w) {s, loc_fd ?h} (r, h', c') w'" using that by simp
      ultimately show ?thesis unfolding session_fds_def prod.case by blast
    qed
    ultimately show ?thesis
      by (intro wlp_and_go) (erule wlp_mono, erule on_return_mono, auto)
  qed
  show ?thesis unfolding client_session_def
    by (auto split: option.split prod.split simp: session_fds_def dest!: auth_client_keeps opts_only_fds intro: go)
qed

lemma wlp_bind3:
  assumes "wlp step p w (\<lambda>(r, a, h) w'. k_open w' = k_open w0 \<and> same_fds h0 h)"
    and "\<And>r a h w'. k_open w' = k_open w0 \<Longrightarrow> same_fds h0 h \<Longrightarrow> wlp step (f r a h) w' Q"
  shows "wlp step (bind_prog p (\<lambda>(r, a, h). f r a h)) w Q"
  unfolding wlp_bind by (rule wlp_mono [OF assms(1)]) (auto intro: assms(2))

lemma wlp_client_round:
  assumes "client_env_ok E" and "dev_short h" and "0 \<in> k_open w" and "fds_ok w"
  shows "wlp kstep (client_round E h c) w (on_return (attempt_fds w h))"
proof -
  let ?Q = "on_return (attempt_fds w h)"
  have stop: "?Q (Returned (h', c, None)) w'" if "same_fds h h'" "k_open w' = k_open w" for h' w'
    using attempt_lost [of h h' w w' 0 c None] that by auto
  have bound: "?Q (Returned (h', c, None)) w'" if "same_fds h h'" "k_open w' = insert s (k_open w)" for h' w' s
    using attempt_lost [of h h' w w' s c None] that by auto
  let ?fin = "\<lambda>s. \<lambda>(h, c, t). Ask (Close s) (\<lambda>_. Ret (Returned (h\<lparr>vh_sopt := free_sopt (vh_sopt h)\<rparr>, c, t)))"
  have fin0: "wlp kstep (?fin s (h', c', t)) w' ?Q"
    if "same_fds h h'" "s \<notin> k_open w" "k_open w' = insert s (k_open w)" for s h' c' t w'
    using attempt_lost [of h "h'\<lparr>vh_sopt := x\<rparr>" w "w'\<lparr>k_open := k_open w\<rparr>" 0 c' t for x] that by (auto simp: same_fds_def)
  have fin1: "wlp kstep (?fin s (h', c', t)) w' ?Q"
    if "same_fds h h3" "session_fds w3 s h3 (h', c', t) w'" "s \<notin> k_open w" "k_open w3 = insert s (k_open w)" for s h3 h' c' t w' w3
  proof (cases "k_open w' = k_open w3 \<and> same_fds h3 h'")
    case True
    then show ?thesis using fin0 [of h' s w' c' t] that same_fds_trans by metis
  next
    case False
    then have "\<exists>h1 r. same_fds h3 h1 \<and> settled h1 (k_open w3) {s, loc_fd h1} (r, h', c') w'"
      using that(2) unfolding session_fds_def prod.case by blast
    with that(4) obtain h1 r where h1: "same_fds h3 h1" "settled h1 (insert s (k_open w)) {s, loc_fd h1} (r, h', c') w'"
      by auto
    then have "attempt_fds w h (h'\<lparr>vh_sopt := x\<rparr>, c', t) (w'\<lparr>k_open := k_open w' - {s}\<rparr>)" for x
      using that(1,3) same_fds_trans by (intro attempt_settled [OF h1(2)]) auto
    then show ?thesis by simp
  qed
  have conn: "wlp kstep (bind_prog (connect_t s svr tm) (\<lambda>k. if k \<noteq> 0 then ?fin s (h3, c, None)
        else and_go (client_session E s h3 c) (?fin s))) w1 ?Q"
    if "same_fds h h3" "s \<notin> k_open w" "k_open w1 = insert s (k_open w)" "0 \<le> s" for s svr tm h3 w1
    unfolding wlp_bind
  proof (rule wlp_mono [OF wp_wlp [OF wp_connect_t]])
    fix k and w3 :: kernel assume "k_open w3 = k_open w1 \<and> k_sent w3 = k_sent w1 \<and> k_got w3 = k_got w1"
    then have o: "k_open w3 = insert s (k_open w)" using that(3) by simp
    have "dev_short h3" "fds_ok w3" using that assms(2,4) o by (auto simp: dev_short_def same_fds_def fds_ok_def)
    then have "wlp kstep (client_session E s h3 c) w3 (on_return (session_fds w3 s h3))"
      using assms o by (intro wlp_client_session) auto
    then have "wlp kstep (and_go (client_session E s h3 c) (?fin s)) w3 ?Q"
      by (intro wlp_and_go) (erule wlp_mono, erule on_return_mono, use fin1 [OF that(1) _ that(2) o] in auto)
    then show "wlp kstep (if k \<noteq> 0 then ?fin s (h3, c, None) else and_go (client_session E s h3 c) (?fin s)) w3 ?Q"
      using fin0 [OF that(1,2) o] by simp
  qed
  have bind: "wlp kstep (Ask (Bind s my) (\<lambda>b. if sr_ret b \<noteq> 0 then Ret (Returned (h2, c, None)) else p)) w1 ?Q"
    if "same_fds h h2" "k_open w1 = insert s (k_open w)" "wlp kstep p w1 ?Q" for s my h2 p w1
    using that bound by auto
  have sock: "wlp kstep (Ask (Socket Stream) (\<lambda>a. if sr_ret a = - 1 then Ret (Returned (h2, c, None))
        else Ask (Set_option (sr_ret a) Reuse_addr) (\<lambda>_. q (sr_ret a)))) w2 ?Q"
    if "same_fds h h2" "k_open w2 = k_open w"
      "\<And>s w3. s \<notin> k_open w \<Longrightarrow> 0 \<le> s \<Longrightarrow> k_open w3 = insert s (k_open w) \<Longrightarrow> wlp kstep (q s) w3 ?Q" for h2 q w2
    using that stop by (auto dest!: opens_open)
  show ?thesis unfolding client_round_def Let_def
  proof (rule wlp_title, rule wlp_bind3 [OF wlp_server_addr], goal_cases)
    case (1 r1 svr h1 w1)
    have loc: "wlp kstep (bind_prog (local_addr no_addr h1 False) (\<lambda>(r2, my, h2).
        if r2 < 0 then Ret (Returned (h2, c, None)) else p r2 my h2)) w1 ?Q"
      if "\<And>r2 my h2 w2. same_fds h h2 \<Longrightarrow> k_open w2 = k_open w \<Longrightarrow> wlp kstep (p r2 my h2) w2 ?Q" for p
      by (rule wlp_bind3 [OF wlp_local_addr]) (use 1 same_fds_trans stop in \<open>auto intro!: that\<close>)
    have "same_fds h (h2\<lparr>spd_in := 0, spd_out := 0, vh_flags := f\<rparr>)" if "same_fds h h2" for h2 f
      using that by (simp add: same_fds_def)
    note go = conn [OF this]
    show ?case
    proof (cases "r1 < 0")
      case False
      then show ?thesis
        by (subst if_not_P, assumption) (rule loc, rule sock, assumption+, rule bind, assumption+, rule wlp_title, rule go)
    qed (use 1 stop in auto)
  qed
qed

subsection \<open>The descriptors of the loop\<close>

definition kept_fd :: "vtun_host \<Rightarrow> int set" where
  "kept_fd h = (if has_kept h then {loc_fd h} else {})"

text \<open>After at most \<open>n\<close> attempts: what was open is open, and at most \<open>n\<close> descriptors are lost.\<close>

definition loop_fds :: "nat \<Rightarrow> kernel \<Rightarrow> vtun_host \<Rightarrow> bool \<times> vtun_host \<times> bool \<Rightarrow> kernel \<Rightarrow> bool" where
  "loop_fds n w h x w' =
     (case x of (e, h', c') \<Rightarrow>
        k_open w - {loc_fd h} \<subseteq> k_open w'
        \<and> (\<exists>lost. finite lost \<and> card lost \<le> n \<and> k_open w' \<subseteq> (k_open w - kept_fd h) \<union> lost \<union> kept_fd h'))"

lemma loop_fds_stop: "loop_fds n w h (e, h, c) w"
proof -
  have "finite {} \<and> card {} \<le> n \<and> k_open w \<subseteq> (k_open w - kept_fd h) \<union> {} \<union> kept_fd h" by auto
  then have "\<exists>lost. finite lost \<and> card lost \<le> n \<and> k_open w \<subseteq> (k_open w - kept_fd h) \<union> lost \<union> kept_fd h" by (intro exI)
  then show ?thesis unfolding loop_fds_def prod.case by blast
qed

lemma loop_fds_step:
  assumes "attempt_fds w h (h1, c1, t) w1" and "fds_ok w1" and "loop_fds n w1 h1 x w'"
  shows "loop_fds (Suc n) w h x w'"
proof -
  obtain e h' c' where x: "x = (e, h', c')" by (cases x) auto
  obtain lost1 s where l1: "lost1 \<subseteq> {s}" "k_open w1 \<subseteq> k_open w \<union> lost1 \<union> (if keepif h1 then {loc_fd h1} else {})"
    using assms(1) by (auto simp: attempt_fds_def)
  obtain lost where l: "finite lost" "card lost \<le> n" "k_open w' \<subseteq> (k_open w1 - kept_fd h1) \<union> lost \<union> kept_fd h'"
    and low: "k_open w1 - {loc_fd h1} \<subseteq> k_open w'"
    using assms(3) by (auto simp: loop_fds_def x)
  have a: "k_open w - {loc_fd h} \<subseteq> k_open w1" "loc_fd h1 = loc_fd h \<or> loc_fd h1 \<notin> k_open w"
    "has_kept h \<longrightarrow> loc_fd h1 = loc_fd h \<and> (keepif h1 \<or> loc_fd h \<notin> k_open w1)"
    using assms(1) by (simp_all add: attempt_fds_def)
  have "k_open w1 - kept_fd h1 \<subseteq> (k_open w - kept_fd h) \<union> lost1"
    using l1(2) a(3) assms(2) by (auto simp: kept_fd_def has_kept_def fds_ok_def split: if_splits)
  then have "k_open w' \<subseteq> (k_open w - kept_fd h) \<union> (lost1 \<union> lost) \<union> kept_fd h'" using l(3) by blast
  moreover have "finite lost1" "card lost1 \<le> 1" using l1(1) card_mono [of "{s}" lost1] by (auto intro: finite_subset)
  then have "finite (lost1 \<union> lost)" "card (lost1 \<union> lost) \<le> Suc n"
    using l(1,2) card_Un_le [of lost1 lost] by auto
  moreover have "k_open w - {loc_fd h} \<subseteq> k_open w'" using a(1,2) low by auto
  ultimately show ?thesis unfolding loop_fds_def x prod.case by blast
qed

lemma wlp_client_loop:
  assumes "client_env_ok E" and "dev_short h" and "0 \<in> k_open w" and "fds_ok w" and "loc_fd h \<noteq> 0"
  shows "wlp kstep (client_loop n E t rc h c) w (on_return (loop_fds n w h))"
  using assms(2-5)
proof (induction n arbitrary: t rc h c w)
  case (Suc n)
  have stop: "on_return (loop_fds (Suc n) w h) (Returned (e, h, c)) w" for e by (simp add: loop_fds_stop)
  have att: "wlp kstep (and_go (client_round E h c) (\<lambda>(h1, c1, t1).
      client_loop n E (case t1 of None \<Rightarrow> tm | Some r \<Rightarrow> r) True h1 c1)) w (on_return (loop_fds (Suc n) w h))" for tm
  proof (intro wlp_and_go wlp_mono [OF wlp_conj [OF wlp_client_round [OF assms(1) Suc.prems(1-3)] wlp_fds_ok [OF Suc.prems(3)]]])
    fix e and w1 :: kernel assume e: "on_return (attempt_fds w h) e w1 \<and> fds_ok w1"
    show "on_return (\<lambda>r w'. wlp kstep (case r of (h1, c1, t1) \<Rightarrow>
        client_loop n E (case t1 of None \<Rightarrow> tm | Some r \<Rightarrow> r) True h1 c1) w' (on_return (loop_fds (Suc n) w h))) e w1"
    proof (cases e)
      case (Returned r)
      obtain h1 c1 t1 where r: "r = (h1, c1, t1)" by (cases r) auto
      have a: "attempt_fds w h (h1, c1, t1) w1" "fds_ok w1" using e Returned r by auto
      have "dev_short h1" "0 \<in> k_open w1" "loc_fd h1 \<noteq> 0"
        using a(1) Suc.prems by (auto simp: attempt_fds_def dev_short_def)
      then have "wlp kstep (client_loop n E t2 True h1 c1) w1 (on_return (loop_fds n w1 h1))" for t2
        using a(2) by (intro Suc.IH)
      then have "wlp kstep (client_loop n E t2 True h1 c1) w1 (on_return (loop_fds (Suc n) w h))" for t2
        by (rule wlp_mono) (erule on_return_mono, rule loop_fds_step [OF a])
      then show ?thesis by (simp add: Returned r)
    qed auto
  qed
  show ?case using stop att by (simp add: Let_def)
qed (simp add: loop_fds_stop)

subsection \<open>Properties\<close>

text \<open>
  C7. A client keeps its descriptors in order from session to session, on every system but System V and
  whatever the kernel and the server answer: after \<open>n\<close> attempts, or when it ends before, everything
  that was open at the start is open, and what is open besides is the interface of a persistent
  host and at most one lost descriptor for each attempt.
\<close>

theorem client_descriptors:
  assumes "client_env_ok E" and "dev_short h" and "0 \<in> k_open w" and "fds_ok w" and "loc_fd h = - 1"
    and "replay kstep (client n E h c) as w = Some (Some (Returned (e, h', c')), w')"
  shows "k_open w \<subseteq> k_open w'
    \<and> (\<exists>lost. finite lost \<and> card lost \<le> n \<and> k_open w' \<subseteq> k_open w \<union> lost \<union> (if keepif h' then {loc_fd h'} else {}))"
proof -
  have "wlp kstep (client n E h c) w (on_return (loop_fds n w h))"
    unfolding client_def by (intro wp_set_signals(2) wlp_client_loop) (use assms(1-5) in auto)
  from wlp_replay [OF this assms(6)] have l: "loop_fds n w h (e, h', c') w'" by simp
  moreover have "- 1 \<notin> k_open w" using assms(4) by (auto simp: fds_ok_def)
  ultimately have "k_open w \<subseteq> k_open w'" using assms(5) by (auto simp: loop_fds_def)
  moreover obtain lost where "finite lost" "card lost \<le> n" "k_open w' \<subseteq> (k_open w - kept_fd h) \<union> lost \<union> kept_fd h'"
    using l by (auto simp: loop_fds_def)
  then have "finite lost \<and> card lost \<le> n \<and> k_open w' \<subseteq> k_open w \<union> lost \<union> (if keepif h' then {loc_fd h'} else {})"
    by (auto simp: kept_fd_def has_kept_def split: if_splits)
  ultimately show ?thesis by blast
qed

lemma ex_free_fd:
  assumes "finite (k_open w)"
  shows "\<exists>s. 0 \<le> s \<and> s \<notin> k_open w"
proof (intro exI conjI notI)
  assume "Max (insert 0 (k_open w)) + 1 \<in> k_open w"
  then show False using assms Max_ge [of "insert 0 (k_open w)" "Max (insert 0 (k_open w)) + 1"] by simp
qed (use assms Max_ge [of "insert 0 (k_open w)" 0] in simp)

text \<open>
  C35. The bound is reached: a persistent host whose local port cannot be bound loses a socket in every
  attempt, since the code goes on without closing it. After \<open>n\<close> such attempts the process has \<open>n\<close>
  more open descriptors, and the client is still at work.
\<close>

theorem client_bind_leaks:
  assumes "finite (k_open w)" and "vh_persist h \<noteq> 0" and "ad_type (src_addr h) = 0"
  shows "\<exists>as h' w'. replay kstep (client n E h c) as w = Some (Some (Returned (False, h', c)), w')
    \<and> card (k_open w') = card (k_open w) + n"
proof -
  have "\<exists>as h' w'. replay kstep (client_loop n E 0 rc h c) as w = Some (Some (Returned (False, h', c)), w')
      \<and> card (k_open w') = card (k_open w) + n" for rc
    using assms
  proof (induction n arbitrary: rc h w)
    case (Suc n)
    obtain s where s: "0 \<le> s" "s \<notin> k_open w" using ex_free_fd [OF Suc.prems(1)] by blast
    obtain w1 where w1: "opens s w = Some w1" "k_open w1 = insert s (k_open w)" using s by (auto simp: opens_def)
    let ?h = "h\<lparr>vh_sopt := (vh_sopt h)\<lparr>so_raddr := Some (inet_ntoa 0), so_rport := ce_port E, so_laddr := Some (inet_ntoa 0)\<rparr>\<rparr>"
    have "finite (k_open w1)" "vh_persist ?h \<noteq> 0" "ad_type (src_addr ?h) = 0" using Suc.prems w1 by auto
    from Suc.IH [OF this, of True] obtain as h' w' where
      r: "replay kstep (client_loop n E 0 True ?h c) as w1 = Some (Some (Returned (False, h', c)), w')"
        "card (k_open w') = card (k_open w1) + n" by blast
    have "replay kstep (client_loop (Suc n) E 0 rc h c)
        (sys_ret 0 # (if rc then [sys_ret 0] else []) @ [sys_ret 0, sys_ret 0, sys_ret s, sys_ret 0, sys_ret (- 1)] @ as) w
      = Some (Some (Returned (False, h', c)), w')"
      using Suc.prems r(1) s w1(1)
      by (simp add: client_round_def server_addr_def local_addr_def generic_addr_def no_addr_def sys_ret_def Let_def)
    moreover have "card (k_open w') = card (k_open w) + Suc n" using r(2) w1(2) s Suc.prems(1) by simp
    ultimately show ?case by blast
  qed simp
  from this [of False] obtain as h' w' where
    "replay kstep (client_loop n E 0 False h c) as w = Some (Some (Returned (False, h', c)), w')"
    "card (k_open w') = card (k_open w) + n" by blast
  then show ?thesis
    by (intro exI [of _ "replicate 6 (sys_ret 0) @ as"] exI [of _ h'] exI [of _ w'])
      (simp add: client_def numeral_eq_Suc sys_ret_def)
qed

subsection \<open>Examples\<close>

definition ex_client_env :: client_env where
  "ex_client_env = \<lparr>ce_driver = linux_driver, ce_malloc = Command.ex_malloc, ce_realloc = Command.ex_realloc, ce_link = ex_link,
     ce_enc = (\<lambda>chal p. Some chal), ce_port = 5000, ce_svr_name = ''gate'', ce_persist = 0, ce_junk = no_addr\<rparr>"

definition ex_client_answers :: "sys_ans list" where
  "ex_client_answers = [sys_ret 0, sys_ret 0, sys_ret 0, sys_ret 0, sys_ret 0, sys_ret 0,
     sys_ret 0, sys_ret 0, sys_ret 0, sys_ret 9, sys_ret 0, sys_ret (- 1), sys_ret 0]"

theorem client_descriptors_witness:
  "\<exists>h' w'. replay kstep (client 2 ex_client_env ex_new_host True) ex_client_answers ex_kernel
      = Some (Some (Returned (True, h', True)), w')
    \<and> {0, 1, 2, 3} \<subseteq> k_open w' \<and> (\<exists>lost. finite lost \<and> card lost \<le> 2
        \<and> k_open w' \<subseteq> {0, 1, 2, 3} \<union> lost \<union> (if keepif h' then {loc_fd h'} else {}))"
proof -
  obtain h' w' where r: "replay kstep (client 2 ex_client_env ex_new_host True) ex_client_answers ex_kernel
      = Some (Some (Returned (True, h', True)), w')"
    by (simp add: client_def numeral_2_eq_2 ex_client_answers_def client_round_def server_addr_def local_addr_def
        generic_addr_def ex_client_env_def ex_new_host_def default_host_def zero_host_def zero_addr_def opens_def
        ex_kernel_def Let_def)
  have "k_open ex_kernel \<subseteq> k_open w' \<and> (\<exists>lost. finite lost \<and> card lost \<le> 2
      \<and> k_open w' \<subseteq> k_open ex_kernel \<union> lost \<union> (if keepif h' then {loc_fd h'} else {}))"
    by (rule client_descriptors [OF _ _ _ _ _ r])
      (simp_all add: client_env_ok_def ex_client_env_def ex_link_ok dev_short_def fds_ok_def ex_kernel_def ex_new_host_def
        default_host_def zero_host_def)
  with r show ?thesis by (auto simp: ex_kernel_def)
qed

theorem client_bind_leaks_witness:
  "\<exists>as h' w'. replay kstep (client 100 ex_client_env (ex_new_host\<lparr>vh_persist := 1\<rparr>) True) as ex_kernel
      = Some (Some (Returned (False, h', True)), w')
    \<and> card (k_open w') = 104"
  using client_bind_leaks [of ex_kernel "ex_new_host\<lparr>vh_persist := 1\<rparr>" 100 ex_client_env True]
  by (simp add: ex_kernel_def ex_new_host_def default_host_def zero_host_def zero_addr_def)

end
