(* ===== verification/Server.thy ===== *)
theory Server
  imports ClientLoop
begin

section \<open>The server (\<open>server.c\<close>)\<close>

text \<open>
  \<open>listener\<close> accepts connections and forks a process for each; \<open>connection\<close> is that process:
  it authenticates the client, runs the session, gives the lock of the host back and ends. A
  process that \<open>fork\<close> answers with 0 is the child: the programs follow either of the two.
\<close>

record server_env =
  sv_driver :: driver
  sv_malloc :: "nat \<Rightarrow> char list option"
  sv_realloc :: "char list \<Rightarrow> nat \<Rightarrow> char list option"
  sv_link :: linker
  sv_junk :: sockaddr
  sv_bind :: vtun_addr
  sv_auth :: srv_env
  sv_lock_junk :: string
  sv_errno :: errno
  sv_self :: int
  sv_lock_dir :: string

subsection \<open>The connection\<close>

text \<open>
  \<^const>\<open>auth_server\<close> with the calls of \<^const>\<open>lock_host\<close> that it makes: they come when the client has
  proved itself, that is when the dialogue would give a host if the lock were granted.
\<close>

definition locking_auth :: "server_env \<Rightarrow> char list list \<Rightarrow> vtun_host option sys_prog" where
  "locking_auth E msgs =
     (case auth_server ((sv_auth E)\<lparr>se_lock_host := \<lambda>_. 0\<rparr>) msgs of
        None \<Rightarrow> Fault
      | Some (None, _) \<Rightarrow> Ret None
      | Some (Some h, _) \<Rightarrow>
          bind_prog (on_lock (lock_host (sv_lock_junk E) (sv_errno E) (sv_self E) (sv_lock_dir E) h)) (\<lambda>r.
            case auth_server ((sv_auth E)\<lparr>se_lock_host := \<lambda>_. r\<rparr>) msgs of
              None \<Rightarrow> Fault
            | Some (h', _) \<Rightarrow> Ret h'))"

definition session_host :: "server_env \<Rightarrow> int \<Rightarrow> sockaddr \<Rightarrow> sockaddr \<Rightarrow> vtun_host \<Rightarrow> vtun_host" where
  "session_host E sock my_addr cl_addr h =
     h\<lparr>rmt_fd := sock, vh_sopt := (vh_sopt h)\<lparr>so_laddr := Some (inet_ntoa (s_addr my_addr)),
        so_lport := ad_port (sv_bind E), so_raddr := Some (inet_ntoa (s_addr cl_addr)),
        so_rport := uint (s_port cl_addr)\<rparr>\<rparr>"

definition connection :: "server_env \<Rightarrow> bool \<Rightarrow> int \<Rightarrow> unit ended sys_prog" where
  "connection E conn sock =
     Ask (Get_peer_name sock) (\<lambda>p. if sr_ret p \<noteq> 0 then Ret (Exited 1) else
     Ask (Get_sock_name sock) (\<lambda>m. if sr_ret m < 0 then Ret (Exited 1) else
     Ask (Dialogue sock) (\<lambda>d.
     bind_prog (locking_auth E (sr_msgs d)) (\<lambda>host.
     and_go
       (case host of
          None \<Rightarrow> Ret (Returned ())
        | Some h \<Rightarrow> set_signals [(SIGHUP, Ignore)]
            (and_go (tunnel (sv_driver E) (sv_malloc E) (sv_realloc E) (sv_link E) (sv_junk E)
                (session_host E sock (sr_addr m) (sr_addr p) h) conn)
              (\<lambda>(_, h', _). bind_prog (on_lock (unlock_host (sv_lock_dir E) h')) (\<lambda>_. Ret (Returned ())))))
       (\<lambda>_. Ask (Close sock) (\<lambda>_. Ret (Exited 0)))))))"

subsection \<open>The listener\<close>

text \<open>
  The loop for at most \<open>n\<close> turns; the result says whether a signal has ended it. A failing
  \<open>fork\<close> falls through to the case of the parent.
\<close>

fun accept_loop :: "nat \<Rightarrow> server_env \<Rightarrow> bool \<Rightarrow> int \<Rightarrow> bool ended sys_prog" where
  "accept_loop 0 E conn s = Ret (Returned False)"
| "accept_loop (Suc n) E conn s =
     Ask Signals (\<lambda>g. if sr_ret g \<noteq> 0 then Ret (Returned True) else
     Ask (Accept s) (\<lambda>a. if sr_ret a < 0 then accept_loop n E conn s else
     Ask Fork (\<lambda>p.
       if sr_ret p = 0 then
         Ask (Close s) (\<lambda>_. and_go (connection E conn (sr_ret a)) (\<lambda>_. accept_loop n E conn s))
       else Ask (Close (sr_ret a)) (\<lambda>_. accept_loop n E conn s))))"

definition listener :: "nat \<Rightarrow> server_env \<Rightarrow> bool \<Rightarrow> bool ended sys_prog" where
  "listener n E conn =
     bind_prog (generic_addr (sv_bind E)) (\<lambda>(r, my). if r < 0 then Ret (Exited 1) else
     Ask (Socket Stream) (\<lambda>a. if sr_ret a = - 1 then Ret (Exited 1) else
     Ask (Set_option (sr_ret a) Reuse_addr) (\<lambda>_.
     Ask (Bind (sr_ret a) my) (\<lambda>b. if sr_ret b \<noteq> 0 then Ret (Exited 1) else
     Ask (Listen (sr_ret a) 10) (\<lambda>l. if sr_ret l \<noteq> 0 then Ret (Exited 1) else
     set_signals [(SIGTERM, Run ''sig_term''), (SIGINT, Run ''sig_term'')]
       (Ask (Set_title (''waiting for connections on port '' @ show_int (ad_port (sv_bind E)))) (\<lambda>_.
        accept_loop n E conn (sr_ret a))))))))"

definition server :: "nat \<Rightarrow> server_env \<Rightarrow> int \<Rightarrow> bool \<Rightarrow> int \<Rightarrow> bool ended sys_prog" where
  "server n E svr_type conn sock =
     set_signals [(SIGINT, Ignore), (SIGQUIT, Ignore), (SIGCHLD, Ignore), (SIGPIPE, Ignore), (SIGUSR1, Ignore)]
       (if svr_type = VTUN_STAND_ALONE then listener n E conn
        else if svr_type = VTUN_INETD then and_go (connection E conn sock) (\<lambda>_. Ret (Returned True))
        else Ret (Returned True))"

subsection \<open>The descriptors of the listener\<close>

text \<open>The process of a connection never comes back to the loop.\<close>

lemma connection_ends: "wlp kstep (connection E conn sock) w (on_return Q)"
proof -
  have "wlp kstep (and_go p (\<lambda>_. Ask (Close sock) (\<lambda>_. Ret (Exited 0)))) w1 (on_return Q)" for p :: "unit ended sys_prog" and w1
    by (intro wlp_child) simp
  then have "wlp kstep (bind_prog (locking_auth E msgs) (\<lambda>host. and_go (p host) (\<lambda>_. Ask (Close sock) (\<lambda>_. Ret (Exited 0))))) w1
      (on_return Q)" for p :: "vtun_host option \<Rightarrow> unit ended sys_prog" and msgs w1
    unfolding wlp_bind by (rule wlp_mono [OF wlp_true])
  then show ?thesis by (simp add: connection_def)
qed

lemma accept_loop_fds: "wlp kstep (accept_loop n E conn s) w (on_return (\<lambda>_ w'. k_open w' = k_open w))"
proof (induction n arbitrary: w)
  case (Suc n)
  let ?Q = "on_return (\<lambda>_ w'. k_open w' = k_open w) :: bool ended \<Rightarrow> kernel \<Rightarrow> bool"
  have child: "wlp kstep (and_go (connection E conn c) (\<lambda>_. accept_loop n E conn s)) w1 ?Q" for c w1
    by (intro wlp_and_go connection_ends)
  have loop: "wlp kstep (accept_loop n E conn s) w1 ?Q" if "k_open w1 = k_open w" for w1
    using Suc [of w1] that by simp
  have "wlp kstep (if sr_ret a < 0 then accept_loop n E conn s else Ask Fork (\<lambda>p.
      if sr_ret p = 0 then Ask (Close s) (\<lambda>_. and_go (connection E conn (sr_ret a)) (\<lambda>_. accept_loop n E conn s))
      else Ask (Close (sr_ret a)) (\<lambda>_. accept_loop n E conn s))) w1 ?Q"
    if "opens (sr_ret a) w = Some w1" for a w1
  proof (cases "sr_ret a = - 1")
    case True
    then show ?thesis using that loop [of w] by simp
  next
    case False
    have o: "0 \<le> sr_ret a" "sr_ret a \<notin> k_open w" "k_open w1 = insert (sr_ret a) (k_open w)"
      using opens_open [OF that False] by auto
    then have "wlp kstep (accept_loop n E conn s) (w1\<lparr>k_open := k_open w1 - {sr_ret a}\<rparr>) ?Q" by (intro loop) auto
    then show ?thesis using o(1) child by simp
  qed
  then have accept: "wlp kstep (Ask (Accept s) (\<lambda>a. if sr_ret a < 0 then accept_loop n E conn s else Ask Fork (\<lambda>p.
      if sr_ret p = 0 then Ask (Close s) (\<lambda>_. and_go (connection E conn (sr_ret a)) (\<lambda>_. accept_loop n E conn s))
      else Ask (Close (sr_ret a)) (\<lambda>_. accept_loop n E conn s)))) w ?Q"
    by (simp only: wlp.simps(3) kstep.simps) blast
  have look: "wlp kstep (Ask Signals (\<lambda>g. if sr_ret g \<noteq> 0 then Ret (Returned True) else p)) w ?Q"
    if "wlp kstep p w ?Q" for p using that by simp
  show ?case unfolding accept_loop.simps by (rule look [OF accept])
qed simp

lemma wlp_listener:
  "wlp kstep (listener n E conn) w (on_return (\<lambda>_ w'. \<exists>s. s \<notin> k_open w \<and> k_open w' = insert s (k_open w)))"
proof -
  let ?Q = "on_return (\<lambda>_ w'. \<exists>s. s \<notin> k_open w \<and> k_open w' = insert s (k_open w)) :: bool ended \<Rightarrow> kernel \<Rightarrow> bool"
  have loop: "wlp kstep (accept_loop n E conn s) w1 ?Q" if "s \<notin> k_open w" "k_open w1 = insert s (k_open w)" for s w1
    by (rule wlp_mono [OF accept_loop_fds]) (erule on_return_mono, use that in auto)
  have bound: "wlp kstep (Ask (Bind s my) (\<lambda>b. if sr_ret b \<noteq> 0 then Ret (Exited 1) else
     Ask (Listen s 10) (\<lambda>l. if sr_ret l \<noteq> 0 then Ret (Exited 1) else
     set_signals gs (Ask (Set_title t) (\<lambda>_. accept_loop n E conn s))))) w1 ?Q"
    if "s \<notin> k_open w" "k_open w1 = insert s (k_open w)" for s my t gs w1
  proof -
    have "wlp kstep (set_signals gs (Ask (Set_title t) (\<lambda>_. accept_loop n E conn s))) w1 ?Q"
      by (rule wp_set_signals(2)) (use loop [OF that] in simp)
    then show ?thesis by simp
  qed
  have sock: "wlp kstep (Ask (Socket Stream) (\<lambda>a. if sr_ret a = - 1 then Ret (Exited 1) else
      Ask (Set_option (sr_ret a) Reuse_addr) (\<lambda>_. p (sr_ret a)))) w1 ?Q"
    if "\<And>s w2. s \<notin> k_open w \<Longrightarrow> k_open w2 = insert s (k_open w) \<Longrightarrow> wlp kstep (p s) w2 ?Q" "k_open w1 = k_open w" for p w1
    using that by (auto dest!: opens_open)
  show ?thesis unfolding listener_def wlp_bind
  proof (rule wlp_mono [OF wlp_generic_addr])
    fix x :: "int \<times> sockaddr" and w1 :: kernel assume o: "k_open w1 = k_open w"
    obtain r my where x: "x = (r, my)" by (cases x)
    show "wlp kstep (case x of (r, my) \<Rightarrow> if r < 0 then Ret (Exited 1) else
      Ask (Socket Stream) (\<lambda>a. if sr_ret a = - 1 then Ret (Exited 1) else
      Ask (Set_option (sr_ret a) Reuse_addr) (\<lambda>_.
      Ask (Bind (sr_ret a) my) (\<lambda>b. if sr_ret b \<noteq> 0 then Ret (Exited 1) else
      Ask (Listen (sr_ret a) 10) (\<lambda>l. if sr_ret l \<noteq> 0 then Ret (Exited 1) else
      set_signals [(SIGTERM, Run ''sig_term''), (SIGINT, Run ''sig_term'')]
        (Ask (Set_title (''waiting for connections on port '' @ show_int (ad_port (sv_bind E)))) (\<lambda>_.
         accept_loop n E conn (sr_ret a)))))))) w1 ?Q"
    proof (cases "r < 0")
      case False
      then show ?thesis unfolding x prod.case by (subst if_not_P, assumption) (rule sock [OF bound o])
    qed (simp add: x)
  qed
qed

subsection \<open>The calls of a session\<close>

text \<open>
  \<open>parent_calls Q p\<close>: on every path of \<open>p\<close> where \<open>fork\<close> answers as it does in a parent, no call goes to a lock
  file, and \<open>Q\<close> holds of the result.
\<close>

primrec parent_calls :: "('r \<Rightarrow> bool) \<Rightarrow> 'r sys_prog \<Rightarrow> bool" where
  "parent_calls Q (Ret r) = Q r"
| "parent_calls Q Fault = True"
| "parent_calls Q (Ask q k) =
     ((\<forall>c. q \<noteq> On_lock c) \<and> (\<forall>a. (q = Fork \<longrightarrow> sr_ret a \<noteq> 0) \<longrightarrow> parent_calls Q (k a)))"

lemma parent_calls_bind [simp]: "parent_calls Q (bind_prog p f) = parent_calls (\<lambda>r. parent_calls Q (f r)) p"
  by (induction p) auto

lemma parent_calls_mono: "parent_calls Q p \<Longrightarrow> (\<And>r. Q r \<Longrightarrow> R r) \<Longrightarrow> parent_calls R p"
  by (induction p) auto

definition came_back :: "('r \<Rightarrow> bool) \<Rightarrow> 'r ended \<Rightarrow> bool" where
  "came_back Q e = (case e of Returned r \<Rightarrow> Q r | Exited n \<Rightarrow> False | Hangs \<Rightarrow> True)"

lemma came_back_simps [simp]:
  "came_back Q (Returned r) = Q r" "came_back Q (Exited n) = False" "came_back Q Hangs = True"
  by (simp_all add: came_back_def)

lemma parent_calls_go:
  assumes "parent_calls (came_back Q) p" and "\<And>r. Q r \<Longrightarrow> parent_calls (came_back R) (f r)"
  shows "parent_calls (came_back R) (and_go p f)"
  unfolding and_go_def parent_calls_bind
  by (rule parent_calls_mono [OF assms(1)]) (auto simp: came_back_def split: ended.splits intro: assms(2))

abbreviation quiet :: "'r sys_prog \<Rightarrow> bool" where
  "quiet \<equiv> parent_calls (\<lambda>_. True)"

lemma scans_quiet: "quiet (dev_scan pre is)" "quiet (bsd_scan is fd)" "quiet (linux_scan pre is)"
  "quiet (pty_scan xs)"
proof -
  show "quiet (dev_scan pre is)" by (induction "is") auto
  show "quiet (bsd_scan is fd)" by (induction "is" arbitrary: fd) auto
  show "quiet (linux_scan pre is)" by (induction "is") auto
  show "quiet (pty_scan xs)" by (induction xs) auto
qed

lemma open_named_quiet [simp]: "quiet (open_named dev)"
  by (simp add: open_named_def)

lemma opens_quiet: "quiet (generic_open pre dev)" "quiet (openbsd_tun_open dev)" "quiet (tun_open_common0 t dev)"
  "quiet pty_open_search" "quiet (dev_close fd dev)" "quiet pipe_open" "quiet pty_open_getpt"
proof -
  show "quiet (generic_open pre dev)" "quiet (openbsd_tun_open dev)" "quiet (tun_open_common0 t dev)" "quiet pty_open_search"
    unfolding generic_open_def openbsd_tun_open_def tun_open_common0_def pty_open_search_def
    by (simp_all only: scans_quiet open_named_quiet split: if_split) simp_all
  show "quiet (dev_close fd dev)" "quiet pipe_open" "quiet pty_open_getpt"
    by (simp_all add: dev_close_def pipe_open_def pty_open_getpt_def)
qed

lemma tun_open_quiet: "quiet (tun_open_common t dev)" "quiet (freebsd_tun_open dev)"
proof -
  show "quiet (tun_open_common t dev)" by (auto simp: tun_open_common_def Let_def opens_quiet)
  have r: "parent_calls (\<lambda>x. parent_calls (\<lambda>_. True) (f x)) p" if "quiet p" "\<And>x. quiet (f x)"
    for p :: "(int \<times> string) sys_prog" and f :: "int \<times> string \<Rightarrow> (int \<times> string) sys_prog"
    using that(1) by (rule parent_calls_mono) (rule that(2))
  show "quiet (freebsd_tun_open dev)" unfolding freebsd_tun_open_def parent_calls_bind
    by (rule r) (simp only: scans_quiet open_named_quiet split: if_split, auto split: prod.splits)
qed

definition driver_quiet :: "driver \<Rightarrow> bool" where
  "driver_quiet D =
     ((\<forall>d. quiet (dr_tun_open D d) \<and> quiet (dr_tap_open D d)) \<and> quiet (dr_pty_open D)
      \<and> (\<forall>fd d. quiet (dr_tun_close D fd d) \<and> quiet (dr_tap_close D fd d)))"

lemma builds_quiet: "D \<in> {linux_driver, generic_driver, freebsd_driver, openbsd_driver} \<Longrightarrow> driver_quiet D"
  by (auto simp: driver_quiet_def linux_driver_def generic_driver_def freebsd_driver_def openbsd_driver_def
      linux_tun_open_def linux_tap_open_def generic_tun_open_def generic_tap_open_def opens_quiet tun_open_quiet)

lemma quiet_bindI: "quiet p \<Longrightarrow> (\<And>x. parent_calls Q (f x)) \<Longrightarrow> parent_calls Q (bind_prog p f)"
  unfolding parent_calls_bind by (erule parent_calls_mono)

text \<open>What a session keeps of the host for the lock: its name, and whether it denies.\<close>

definition same_lock :: "vtun_host \<Rightarrow> int \<times> vtun_host \<times> bool \<Rightarrow> bool" where
  "same_lock h x = (case x of (r, h', c) \<Rightarrow> vh_host h' = vh_host h \<and> vh_multi h' = vh_multi h)"

definition link_quiet :: "linker \<Rightarrow> bool" where
  "link_quiet link = (\<forall>h c. parent_calls (came_back (same_lock h)) (link h c))"

lemma link_done_quiet:
  assumes "lk_host s1 = h"
  shows "parent_calls (came_back (same_lock h)) (link_done (link_run L ok w1 w2 es h s1) stat_fd c)"
  using link_run_kept [OF _ assms, of L ok w1 w2 es]
  by (auto simp: link_done_def same_lock_def host_kept_def split: run.split option.split prod.split)

lemma link_program_quiet: "link_quiet (link_program L dir w1 w2 es s0)"
  unfolding link_quiet_def link_program_def
  by (auto split: option.split prod.split dest!: link_start_host intro!: link_done_quiet)
    (auto simp: same_lock_def)

lemma run_cmds_quiet: "parent_calls (came_back (\<lambda>_. True)) (run_cmds malloc realloc cs opt)"
proof (induction cs)
  case (Cons c cs)
  have "parent_calls (came_back (\<lambda>r. r = 0)) (run_cmd malloc realloc c opt)" by (simp add: run_cmd_def Let_def)
  then show ?case unfolding run_cmds.simps by (rule parent_calls_go) (simp add: Cons)
qed simp

lemma sys_io_quiet:
  "parent_calls (came_back (\<lambda>_. True)) (sys_write_n fd bs)" "parent_calls (came_back (\<lambda>_. True)) (sys_readn_t fd n t)"
  by (auto simp: sys_write_n_def sys_readn_t_def split: option.split)

lemma udp_session_quiet: "parent_calls (came_back (same_lock h)) (udp_session junk h c)"
proof -
  have meet: "parent_calls (came_back (same_lock h)) (udp_meet s own h1 c)" if "same_lock h (r, h1, c)" for s own h1 r
    unfolding udp_meet_def by (rule parent_calls_go [OF sys_io_quiet(2)]) (use that in \<open>auto simp: same_lock_def Let_def\<close>)
  have tail: "parent_calls (came_back (same_lock h)) (and_go (sys_write_n fd bs) (\<lambda>x.
      if x < 0 then Ret (Returned (- 1, h1, c)) else udp_meet s own h2 c))"
    if "same_lock h (r, h1, c)" "same_lock h (r, h2, c)" for fd bs s own h1 h2 r
    by (rule parent_calls_go [OF sys_io_quiet(1)]) (use that meet in \<open>auto simp: same_lock_def\<close>)
  show ?thesis unfolding udp_session_def udp_setup_def local_addr_def Let_def
    by (auto intro!: tail simp: same_lock_def)
qed

lemma end_session_quiet:
  assumes "driver_quiet D" and "same_lock h x"
  shows "parent_calls (came_back (same_lock h)) (end_session D malloc realloc fd0 fd1 dev x)"
proof -
  obtain r h' c where x: "x = (r, h', c)" by (cases x) auto
  have closing: "quiet (if keepif h' then Ret () else Ask (Set_title t) (\<lambda>_.
      bind_prog (if dev_type h' = VTUN_TUN then dr_tun_close D fd0 dev else if dev_type h' = VTUN_ETHER
        then dr_tap_close D fd0 dev else Ret 0) (\<lambda>_. Ask (Close (loc_fd h')) (\<lambda>_. Ret ()))))" for t
    using assms(1) by (auto simp: driver_quiet_def)
  have rest: "parent_calls (came_back (same_lock h)) (bind_prog (if keepif h' then Ret () else Ask (Set_title t) (\<lambda>_.
      bind_prog (if dev_type h' = VTUN_TUN then dr_tun_close D fd0 dev else if dev_type h' = VTUN_ETHER
        then dr_tap_close D fd0 dev else Ret 0) (\<lambda>_. Ask (Close (loc_fd h')) (\<lambda>_. Ret ())))) (\<lambda>_.
      Ask (Close (rmt_fd h')) (\<lambda>_. Ask (Close fd1) (\<lambda>_. Ret (Returned (r, h', c))))))" for t
    by (rule quiet_bindI [OF closing]) (use assms(2) in \<open>simp add: x\<close>)
  have cmds: "parent_calls (came_back (same_lock h)) (Ask (Set_title t)
      (\<lambda>_. and_go (run_cmds malloc realloc cs opt) (\<lambda>_. p)))"
    if "parent_calls (came_back (same_lock h)) p" for p cs opt t
    using parent_calls_go [OF run_cmds_quiet, of "same_lock h" "\<lambda>_. p"] that by simp
  show ?thesis unfolding end_session_def x prod.case by (rule cmds, rule rest)
qed

lemma same_lock_trans: "same_lock h (r, h1, c) \<Longrightarrow> same_lock h1 x \<Longrightarrow> same_lock h x"
  by (auto simp: same_lock_def)

lemma run_session_quiet:
  assumes "driver_quiet D" and "link_quiet link" and "same_lock h0 (r, h, c)"
  shows "parent_calls (came_back (same_lock h0)) (run_session D malloc realloc link fd0 fd1 dev h c)"
proof -
  have l: "parent_calls (came_back (same_lock h)) (link h c)" using assms(2) by (simp add: link_quiet_def)
  have "parent_calls (came_back (same_lock h0)) (and_go (link h c) (end_session D malloc realloc fd0 fd1 dev))"
    by (rule parent_calls_go [OF l]) (rule end_session_quiet [OF assms(1) same_lock_trans [OF assms(3)]])
  then show ?thesis unfolding run_session_def Let_def by (intro quiet_bindI) simp_all
qed

lemma start_session_quiet:
  assumes "driver_quiet D" and "link_quiet link" and "same_lock h0 (r, h, c)"
  shows "parent_calls (came_back (same_lock h0)) (start_session D malloc realloc link junk already fd0 fd1 dev h c)"
proof -
  have prot: "parent_calls (came_back (\<lambda>(ok, h', c'). same_lock h0 (0, h', c'))) (set_protocol junk h c)"
  proof -
    have "parent_calls (came_back (\<lambda>(ok, h', c'). same_lock h0 (0, h', c')))
        (and_go (udp_session junk h c) (\<lambda>(r, h, c). Ret (Returned (r \<noteq> - 1, h, c))))"
      by (rule parent_calls_go [OF udp_session_quiet]) (use assms(3) in \<open>auto simp: same_lock_def\<close>)
    then show ?thesis using assms(3) by (simp add: set_protocol_def same_lock_def)
  qed
  have fork: "parent_calls Q (Ask Fork (\<lambda>p. if sr_ret p = - 1 then A else if sr_ret p = 0 then B else C))"
    if "parent_calls Q A" "parent_calls Q C" for Q A B and C :: "(int \<times> vtun_host \<times> bool) ended sys_prog"
    using that by simp
  show ?thesis unfolding start_session_def
  proof (rule parent_calls_go [OF prot], clarify)
    fix ok c1 and h1 :: vtun_host assume s: "same_lock h0 (0, h1, c1)"
    have stop: "parent_calls (came_back (same_lock h0)) (bind_prog (if keepif h1 then Ret () else Ask (Close fd0) (\<lambda>_. Ret ())) (\<lambda>_.
        Ask (Close fd1) (\<lambda>_. Ret (Returned (0, h1, c1)))))"
      "parent_calls (came_back (same_lock h0)) (Ask (Close fd1) (\<lambda>_. if keepif h1 then Ret (Returned (0, h1, c1))
        else Ask (Close fd0) (\<lambda>_. Ret (Returned (0, h1, c1)))))"
      using s by simp_all
    show "parent_calls (came_back (same_lock h0)) (if \<not> ok then
         Ask (Close fd1) (\<lambda>_.
           if keepif h1 then Ret (Returned (0, h1, c1))
           else Ask (Close fd0) (\<lambda>_. Ret (Returned (0, h1, c1))))
       else Ask Fork (\<lambda>p.
         if sr_ret p = - 1 then
           bind_prog (if keepif h1 then Ret () else Ask (Close fd0) (\<lambda>_. Ret ())) (\<lambda>_.
           Ask (Close fd1) (\<lambda>_. Ret (Returned (0, h1, c1))))
         else if sr_ret p = 0 then
           and_go (if already then Ret (Returned ()) else child_fds h1 fd0 fd1 dev) (\<lambda>_.
           Ask (Set_title (vh_host h1 @ '' running up commands'')) (\<lambda>_.
           and_go (run_cmds malloc realloc (vh_up h1) (vh_sopt h1)) (\<lambda>_. Ret (Exited 0))))
         else run_session D malloc realloc link fd0 fd1 dev h1 c1))"
      using stop(2) fork [OF stop(1) run_session_quiet [OF assms(1,2) s]] by (simp only: split: if_split) simp
  qed
qed

lemma tunnel_quiet:
  assumes "driver_quiet D" and "link_quiet link"
  shows "parent_calls (came_back (same_lock h)) (tunnel D malloc realloc link junk h c)"
proof -
  have one: "quiet (bind_prog p (\<lambda>(fd, name). Ret (if fd < 0 then None else Some (fd, - 1, name))))" if "quiet p"
    for p :: "(int \<times> string) sys_prog"
    by (rule quiet_bindI [OF that]) (simp split: prod.split)
  have "quiet (bind_prog pipe_open (\<lambda>(r, fd0, fd1). Ret (if r < 0 then None else Some (fd0, fd1, d))))" for d
    by (rule quiet_bindI [OF opens_quiet(6)]) (simp split: prod.split)
  then have dev: "quiet (open_device D h d)" for d
    using assms(1) unfolding open_device_def Let_def driver_quiet_def by (auto simp del: parent_calls_bind intro!: one)
  have start: "parent_calls (came_back (same_lock h)) (start_session D malloc realloc link junk a fd0 fd1 n h1 c)"
    if "vh_host h1 = vh_host h" "vh_multi h1 = vh_multi h" for a fd0 fd1 n h1
    by (rule start_session_quiet [OF assms, where r = 0]) (use that in \<open>simp add: same_lock_def\<close>)
  show ?thesis unfolding tunnel_def Let_def
    by (rule quiet_bindI) (auto simp: dev same_lock_def split: option.split intro!: start)
qed

subsection \<open>A session and its lock\<close>

text \<open>
  The process of a connection with the directory of locks: the calls on lock files do what they should,
  with no other process at work there, and every other call answers as \<^const>\<open>kstep\<close> allows. \<open>fork\<close>
  answers as in a parent.
\<close>

record server_world =
  sw_kernel :: kernel
  sw_locks :: lock_world

definition answers :: "sys_ans \<Rightarrow> ans \<Rightarrow> bool" where
  "answers a b = (a_ret b = sr_ret a \<and> a_errno b = sr_errno a \<and> a_data b = sr_name a)"

definition sstep :: "server_world \<Rightarrow> sys_call \<Rightarrow> sys_ans \<Rightarrow> server_world option" where
  "sstep w q a =
     (case q of
        On_lock c \<Rightarrow> (case lock_exec None c (sw_locks w) of (b, l) \<Rightarrow>
          if answers a b then Some (w\<lparr>sw_locks := l\<rparr>) else None)
      | _ \<Rightarrow> if q = Fork \<and> sr_ret a = 0 then None
             else map_option (\<lambda>k. w\<lparr>sw_kernel := k\<rparr>) (kstep (sw_kernel w) q a))"

lemma sstep_lock:
  "sstep w (On_lock c) a = (case lock_exec None c (sw_locks w) of (b, l) \<Rightarrow>
     if answers a b then Some (w\<lparr>sw_locks := l\<rparr>) else None)"
  by (simp add: sstep_def)

lemma sstep_other:
  "sstep w q a = Some w' \<Longrightarrow> (\<forall>c. q \<noteq> On_lock c) \<Longrightarrow> sw_locks w' = sw_locks w \<and> (q = Fork \<longrightarrow> sr_ret a \<noteq> 0)"
  by (auto simp: sstep_def split: sys_call.splits if_splits)

lemma wlp_ask:
  assumes "\<forall>c. q \<noteq> On_lock c" and "\<And>a w'. sw_locks w' = sw_locks w \<Longrightarrow> wlp sstep (k a) w' Q"
  shows "wlp sstep (Ask q k) w Q"
  using assms sstep_other by fastforce

lemma wlp_parent: "parent_calls Q p \<Longrightarrow> wlp sstep p w (\<lambda>r w'. Q r \<and> sw_locks w' = sw_locks w)"
proof (induction p arbitrary: w)
  case (Ask q k)
  have "wlp sstep (k a) w1 (\<lambda>r w'. Q r \<and> sw_locks w' = sw_locks w)" if "sstep w q a = Some w1" for a w1
    using Ask.IH [of "k a" w1] Ask.prems sstep_other [OF that] by auto
  then show ?case by simp
qed auto

lemma wlp_on_lock:
  "alone p (sw_locks w) = Some (r, l) \<Longrightarrow> wlp sstep (on_lock p) w (\<lambda>x w'. x = r \<and> sw_locks w' = l)"
proof (induction p arbitrary: w)
  case (Ask q k)
  obtain b l1 where e: "lock_exec None q (sw_locks w) = (b, l1)" by (cases "lock_exec None q (sw_locks w)")
  have "wlp sstep (on_lock (k b)) (w\<lparr>sw_locks := l1\<rparr>) (\<lambda>x w'. x = r \<and> sw_locks w' = l)"
    using Ask.IH [of "k b" "w\<lparr>sw_locks := l1\<rparr>"] Ask.prems e by simp
  moreover have "\<lparr>a_ret = sr_ret a, a_errno = sr_errno a, a_data = sr_name a\<rparr> = b" if "answers a b" for a
    using that by (simp add: answers_def)
  ultimately show ?case by (auto simp: on_lock_def sstep_lock e split: if_splits)
qed (auto simp: on_lock_def)

lemma wlp_go:
  assumes "wlp step p w (\<lambda>e w'. case e of Returned r \<Rightarrow> wlp step (f r) w' R | Exited n \<Rightarrow> R (Exited n) w' | Hangs \<Rightarrow> R Hangs w')"
  shows "wlp step (and_go p f) w R"
  unfolding and_go_def wlp_bind by (rule wlp_mono [OF assms]) (auto split: ended.splits)

definition lock_ready :: "server_env \<Rightarrow> lock_world \<Rightarrow> vtun_host \<Rightarrow> bool" where
  "lock_ready E w h =
     (vh_multi h = VTUN_MULTI_ALLOW \<or>
      deny h \<and> lock_fits (sv_self E) (lock_file (sv_lock_dir E) h)
      \<and> lw_files w (lock_tmp (sv_self E) (lock_file (sv_lock_dir E) h)) = None
      \<and> (\<exists>q. lw_files w (lock_file (sv_lock_dir E) h) = map_option lock_text q \<and> (\<forall>r. q = Some r \<longrightarrow> pid_ok r)))"

text \<open>The locks are as before, but for locks of dead processes that are gone.\<close>

definition locks_back :: "lock_world \<Rightarrow> lock_world \<Rightarrow> bool" where
  "locks_back w w' =
     (\<forall>f. lw_files w' f = lw_files w f \<or>
        lw_files w' f = None \<and> (\<exists>q. lw_files w f = Some (lock_text q) \<and> pid_ok q \<and> \<not> lw_alive w q))"

lemma locks_back_refl [simp]: "locks_back w w"
  by (simp add: locks_back_def)

text \<open>What \<^const>\<open>lock_host\<close> and a later \<^const>\<open>unlock_host\<close> do to the directory.\<close>

lemma lock_unlock:
  assumes "lock_ready E w h" and "sv_errno E \<noteq> ERANGE"
  obtains r w1 where "alone (lock_host (sv_lock_junk E) (sv_errno E) (sv_self E) (sv_lock_dir E) h) w = Some (r, w1)"
    and "r < 0 \<Longrightarrow> w1 = w" and "0 \<le> r \<Longrightarrow> r = 0"
    and "\<And>h'. 0 \<le> r \<Longrightarrow> vh_host h' = vh_host h \<Longrightarrow> vh_multi h' = vh_multi h
      \<Longrightarrow> \<exists>w2. alone (unlock_host (sv_lock_dir E) h') w1 = Some ((), w2) \<and> locks_back w w2"
proof (cases "vh_multi h = VTUN_MULTI_ALLOW")
  case True
  then show ?thesis by (intro that [of 0 w]) (simp_all add: lock_host_def unlock_host_def)
next
  case False
  let ?f = "lock_file (sv_lock_dir E) h"
  have l: "deny h" "lock_fits (sv_self E) ?f" "lw_files w (lock_tmp (sv_self E) ?f) = None"
    using assms(1) False by (simp_all add: lock_ready_def)
  obtain q where q: "lw_files w ?f = map_option lock_text q" "\<forall>r. q = Some r \<longrightarrow> pid_ok r"
    using assms(1) False by (auto simp: lock_ready_def)
  note lh = lock_host_alone [OF l(1) assms(2) l(2,3) q, of "sv_lock_junk E"]
  show ?thesis
  proof (cases "\<exists>r. q = Some r \<and> lw_alive w r")
    case True
    then show ?thesis using lh by (intro that [of "- 1" w]) auto
  next
    case False
    let ?w1 = "set_file ?f (Some (lock_text (sv_self E))) w"
    have "locks_back w (set_file ?f None ?w1)"
      using q False by (cases q) (auto simp: locks_back_def set_file_def)
    moreover have "alone (unlock_host (sv_lock_dir E) h') ?w1 = Some ((), set_file ?f None ?w1)"
      if "vh_host h' = vh_host h" "vh_multi h' = vh_multi h" for h'
      using unlock_alone [of h' "sv_lock_dir E" ?w1] that \<open>vh_multi h \<noteq> VTUN_MULTI_ALLOW\<close> lock_fits_file [OF l(2)]
      by (simp add: lock_file_def)
    ultimately show ?thesis using lh False by (intro that [of 0 ?w1]) auto
  qed
qed

definition server_env_ok :: "server_env \<Rightarrow> bool" where
  "server_env_ok E =
     (sv_driver E \<in> {linux_driver, generic_driver, freebsd_driver, openbsd_driver} \<and> link_quiet (sv_link E)
      \<and> sv_errno E \<noteq> ERANGE)"

definition on_exit :: "('w \<Rightarrow> bool) \<Rightarrow> 'r ended \<Rightarrow> 'w \<Rightarrow> bool" where
  "on_exit Q e w = (\<forall>n. e = Exited n \<longrightarrow> Q w)"

lemma on_exit_simps [simp]: "on_exit Q (Returned r) w" "on_exit Q (Exited n) w = Q w" "on_exit Q Hangs w"
  by (simp_all add: on_exit_def)

lemma wlp_connection:
  assumes "server_env_ok E" and ready: "\<And>name h. se_find_host (sv_auth E) name = Some h \<Longrightarrow> lock_ready E (sw_locks w) h"
  shows "wlp sstep (connection E conn sock) w (on_exit (\<lambda>w'. locks_back (sw_locks w) (sw_locks w')))"
proof -
  let ?Q = "on_exit (\<lambda>w'. locks_back (sw_locks w) (sw_locks w')) :: unit ended \<Rightarrow> server_world \<Rightarrow> bool"
  let ?serve = "\<lambda>m p h. and_go (tunnel (sv_driver E) (sv_malloc E) (sv_realloc E) (sv_link E) (sv_junk E)
      (session_host E sock m p h) conn)
    (\<lambda>(_, h', _). bind_prog (on_lock (unlock_host (sv_lock_dir E) h')) (\<lambda>_. Ret (Returned ())))"
  let ?go = "\<lambda>m p h. set_signals [(SIGHUP, Ignore)] (?serve m p h)"
  let ?bye = "\<lambda>_. Ask (Close sock) (\<lambda>_. Ret (Exited 0)) :: unit ended sys_prog"
  have fin: "wlp sstep (Ask (Close sock) (\<lambda>_. Ret (Exited 0))) w1 ?Q" if "locks_back (sw_locks w) (sw_locks w1)" for w1
    using that by (auto dest: sstep_other)
  have deny: "wlp sstep (and_go (Ret (Returned ())) ?bye) w1 ?Q" if "sw_locks w1 = sw_locks w" for w1
    using fin [of w1] that by simp
  have go0: "wlp sstep (and_go (?serve m p h) ?bye) w1 ?Q"
    if h: "\<And>h'. vh_host h' = vh_host h \<Longrightarrow> vh_multi h' = vh_multi h
        \<Longrightarrow> \<exists>l. alone (unlock_host (sv_lock_dir E) h') (sw_locks w1) = Some ((), l) \<and> locks_back (sw_locks w) l"
    for m p h w1
  proof -
    have t: "wlp sstep (tunnel (sv_driver E) (sv_malloc E) (sv_realloc E) (sv_link E) (sv_junk E)
        (session_host E sock m p h) conn) w1
        (\<lambda>e w'. came_back (same_lock (session_host E sock m p h)) e \<and> sw_locks w' = sw_locks w1)"
      using assms(1) by (intro wlp_parent tunnel_quiet builds_quiet) (simp_all add: server_env_ok_def)
    have u: "wlp sstep (bind_prog (on_lock (unlock_host (sv_lock_dir E) h')) (\<lambda>_. Ret (Returned ()))) w2
        (\<lambda>e w'. e = Returned () \<and> locks_back (sw_locks w) (sw_locks w'))"
      if h': "same_lock (session_host E sock m p h) (r, h', c')" and w2: "sw_locks w2 = sw_locks w1" for r h' c' w2
    proof -
      obtain l where "alone (unlock_host (sv_lock_dir E) h') (sw_locks w2) = Some ((), l)" "locks_back (sw_locks w) l"
        using h [of h'] h' w2 by (auto simp: same_lock_def session_host_def)
      then show ?thesis unfolding wlp_bind using wlp_mono [OF wlp_on_lock] by fastforce
    qed
    have "wlp sstep (?serve m p h) w1 (\<lambda>e w'. case e of Returned r \<Rightarrow> wlp sstep (?bye r) w' ?Q
        | Exited n \<Rightarrow> ?Q (Exited n) w' | Hangs \<Rightarrow> ?Q Hangs w')"
    proof (rule wlp_go, rule wlp_mono [OF t], goal_cases)
      case (1 e w2)
      show ?case
      proof (cases e)
        case (Returned x)
        obtain r h' c' where x: "x = (r, h', c')" by (cases x) auto
        have "wlp sstep (bind_prog (on_lock (unlock_host (sv_lock_dir E) h')) (\<lambda>_. Ret (Returned ()))) w2
            (\<lambda>e w'. e = Returned () \<and> locks_back (sw_locks w) (sw_locks w'))"
          using 1 Returned x by (intro u) auto
        then show ?thesis unfolding Returned x ended.case prod.case by (rule wlp_mono) (auto dest: sstep_other)
      qed (use 1 in auto)
    qed
    then show ?thesis by (rule wlp_go)
  qed
  have go: "wlp sstep (and_go (?go m p h) ?bye) w1 ?Q"
    if "\<And>h'. vh_host h' = vh_host h \<Longrightarrow> vh_multi h' = vh_multi h
        \<Longrightarrow> \<exists>l. alone (unlock_host (sv_lock_dir E) h') (sw_locks w1) = Some ((), l) \<and> locks_back (sw_locks w) l"
    for m p h w1
    unfolding set_signals.simps and_go_simps by (rule wlp_ask) (simp, rule go0, simp only: that)
  have auth: "wlp sstep (bind_prog (locking_auth E msgs) (\<lambda>host. and_go
      (case host of None \<Rightarrow> Ret (Returned ()) | Some h \<Rightarrow> ?go m p h) ?bye)) w1 ?Q"
    if w1: "sw_locks w1 = sw_locks w" for msgs m p w1
  proof (cases "auth_server ((sv_auth E)\<lparr>se_lock_host := \<lambda>_. 0\<rparr>) msgs")
    case None
    then show ?thesis by (simp add: locking_auth_def)
  next
    case (Some x)
    obtain ho out where x: "x = (ho, out)" by (cases x)
    show ?thesis
    proof (cases ho)
      case None
      then show ?thesis using Some x deny [OF w1] by (simp add: locking_auth_def)
    next
      case (Some h)
      note first = \<open>auth_server ((sv_auth E)\<lparr>se_lock_host := \<lambda>_. 0\<rparr>) msgs = Some x\<close> [unfolded x Some]
      obtain name where "se_find_host (sv_auth E) name = Some h" using auth_server_host [OF first] by auto
      from ready [OF this] have "lock_ready E (sw_locks w) h" .
      from lock_unlock [OF this] assms(1) obtain r l where l: "alone (lock_host (sv_lock_junk E) (sv_errno E) (sv_self E) (sv_lock_dir E) h) (sw_locks w)
            = Some (r, l)" "r < 0 \<Longrightarrow> l = sw_locks w" "0 \<le> r \<Longrightarrow> r = 0"
          "\<And>h'. 0 \<le> r \<Longrightarrow> vh_host h' = vh_host h \<Longrightarrow> vh_multi h' = vh_multi h
            \<Longrightarrow> \<exists>w2. alone (unlock_host (sv_lock_dir E) h') l = Some ((), w2) \<and> locks_back (sw_locks w) w2"
        unfolding server_env_ok_def by blast
      let ?again = "auth_server ((sv_auth E)\<lparr>se_lock_host := \<lambda>_. r\<rparr>) msgs"
      have none: "?again = Some (Some h', out') \<Longrightarrow> 0 \<le> r" for h' out' using auth_server_host [of _ msgs h' out'] by fastforce
      have "wlp sstep (case ?again of None \<Rightarrow> Fault | Some (h', _) \<Rightarrow> Ret h') w2
          (\<lambda>host w'. wlp sstep (and_go (case host of None \<Rightarrow> Ret (Returned ()) | Some h \<Rightarrow> ?go m p h) ?bye) w' ?Q)"
        if w2: "sw_locks w2 = l" for w2
      proof (cases "r < 0")
        case True
        then show ?thesis using none l(2) deny [of w2] w2 by (auto split: option.split)
      next
        case False
        then have "?again = Some (Some h, out)" using first l(3) by simp
        then show ?thesis using go [of h w2] l(4) False w2 by simp
      qed
      then show ?thesis
        unfolding locking_auth_def first option.case prod.case wlp_bind
        using wlp_mono [OF wlp_on_lock [of _ w1 r l]] l(1) w1 by fastforce
    qed
  qed
  have asks: "wlp sstep (Ask (Get_peer_name sock) (\<lambda>p. if sr_ret p \<noteq> 0 then Ret (Exited 1) else
     Ask (Get_sock_name sock) (\<lambda>m. if sr_ret m < 0 then Ret (Exited 1) else
     Ask (Dialogue sock) (\<lambda>d. P p m d)))) w ?Q"
    if "\<And>p m d w1. sw_locks w1 = sw_locks w \<Longrightarrow> wlp sstep (P p m d) w1 ?Q" for P
  proof (rule wlp_ask, simp)
    fix p and w1 :: server_world assume w1: "sw_locks w1 = sw_locks w"
    have m: "wlp sstep (if sr_ret m < 0 then Ret (Exited 1) else Ask (Dialogue sock) (\<lambda>d. P p m d)) w2 ?Q"
      if "sw_locks w2 = sw_locks w" for m w2
      using that \<open>\<And>p m d w1. sw_locks w1 = sw_locks w \<Longrightarrow> wlp sstep (P p m d) w1 ?Q\<close> by (cases "sr_ret m < 0") (simp, simp only: if_False, intro wlp_ask, auto)
    show "wlp sstep (if sr_ret p \<noteq> 0 then Ret (Exited 1) else
     Ask (Get_sock_name sock) (\<lambda>m. if sr_ret m < 0 then Ret (Exited 1) else Ask (Dialogue sock) (\<lambda>d. P p m d))) w1 ?Q"
    proof (cases "sr_ret p = 0")
      case True
      then have "\<not> sr_ret p \<noteq> 0" by simp
      then show ?thesis by (subst if_not_P, assumption) (rule wlp_ask, simp, rule m, simp add: w1)
    qed (simp add: w1)
  qed
  show ?thesis unfolding connection_def by (rule asks, rule auth)
qed

subsection \<open>Properties\<close>

text \<open>
  C21. The process that listens keeps its descriptors in order whatever the kernel answers: after any
  number of connections, accepted, failed or without a process to serve them, it has the listening
  socket open and what was open before, and nothing else; and the process that serves a
  connection never comes back to the loop.
\<close>

theorem listener_descriptors:
  assumes "replay kstep (listener n E c) as w = Some (Some (Returned e), w')"
  shows "(\<exists>s. s \<notin> k_open w \<and> k_open w' = insert s (k_open w))
    \<and> replay kstep (connection E c sock) bs v \<noteq> Some (Some (Returned ()), v')"
proof
  show "\<exists>s. s \<notin> k_open w \<and> k_open w' = insert s (k_open w)"
    using wlp_replay [OF wlp_listener assms] by simp
  show "replay kstep (connection E c sock) bs v \<noteq> Some (Some (Returned ()), v')"
    using wlp_replay [OF connection_ends [of E c sock v "\<lambda>_ _. False"], of bs "Returned ()" v'] by auto
qed

text \<open>
  C6. A connection gives the lock of its host back: alone in the directory of locks, and with hosts
  that allow any number of connections or deny a second one, the process that serves a
  connection leaves every lock file as it found it when it ends, whether it refused the client,
  the device did not open, or a session has run; only locks of dead processes may be gone.
\<close>

theorem connection_returns_lock:
  assumes "server_env_ok E" and "\<And>name h. se_find_host (sv_auth E) name = Some h \<Longrightarrow> lock_ready E (sw_locks w) h"
    and "replay sstep (connection E c sock) as w = Some (Some (Exited n), w')"
  shows "locks_back (sw_locks w) (sw_locks w')"
  using wlp_replay [OF wlp_connection [OF assms(1,2)] assms(3)] by simp

subsection \<open>Examples\<close>

definition ex_gate :: vtun_host where
  "ex_gate = ex_host\<lparr>vh_multi := VTUN_MULTI_DENY\<rparr>"

definition ex_server_env :: server_env where
  "ex_server_env = \<lparr>sv_driver = linux_driver, sv_malloc = Command.ex_malloc, sv_realloc = Command.ex_realloc,
     sv_link = ex_link, sv_junk = no_addr, sv_bind = zero_addr,
     sv_auth = (ex_env decrypt_chal)\<lparr>se_find_host := \<lambda>n. if n = ''cobra'' then Some ex_gate else None\<rparr>,
     sv_lock_junk = [], sv_errno = EOTHER, sv_self = 8, sv_lock_dir = ''/lock''\<rparr>"

definition ex_server_world :: server_world where
  "ex_server_world = \<lparr>sw_kernel = ex_kernel, sw_locks = \<lparr>lw_files = Map.empty, lw_alive = (\<lambda>p. p = 8)\<rparr>\<rparr>"

lemma ex_server_fields:
  "sv_driver ex_server_env = linux_driver" "sv_bind ex_server_env = zero_addr" "sv_errno ex_server_env = EOTHER"
  "sv_self ex_server_env = 8" "sv_lock_dir ex_server_env = ''/lock''" "sv_lock_junk ex_server_env = []"
  by (simp_all add: ex_server_env_def)

lemma ex_gate_auth:
  "\<exists>msgs out. auth_server ((sv_auth ex_server_env)\<lparr>se_lock_host := \<lambda>_. 0\<rparr>) msgs = Some (Some ex_gate, out)"
proof -
  let ?env = "(sv_auth ex_server_env)\<lparr>se_lock_host := \<lambda>_. 0\<rparr>"
  have "flag_text ex_gate = flag_text ex_host" "negotiable ex_gate = negotiable ex_host"
    by (simp_all add: ex_gate_def flag_text_def negotiable_def has_flag_def)
  moreover have "bf2cf [] ex_gate = Some (''<UuL9K>'', flag_text ex_gate)"
    using ex_matched calculation(1) by (simp add: bf2cf_def matched_def)
  ultimately have "matched ?env ex_client ex_gate ''secret'' ''<UuL9K>''"
    using ex_matched [of decrypt_chal] by (simp add: matched_def ex_server_env_def ex_env_def ex_gate_def ex_client_def
        ex_host_def default_host_def zero_host_def)
  moreover have "se_decrypt ?env = decrypt_chal" by (simp add: ex_server_env_def ex_env_def)
  ultimately show ?thesis using xorc.session by blast
qed

lemma ex_gate_ready:
  "se_find_host (sv_auth ex_server_env) name = Some h \<Longrightarrow> lock_ready ex_server_env (sw_locks ex_server_world) h"
proof -
  have "length (show_int 8) \<le> 10" by (rule show_int_length) (simp add: pid_ok_def)
  then have "lock_ready ex_server_env (sw_locks ex_server_world) ex_gate"
    by (auto simp: lock_ready_def ex_server_env_def ex_server_world_def ex_gate_def ex_host_def default_host_def zero_host_def
        deny_def lock_fits_def lock_tmp_def lock_file_def intro: exI [of _ None])
  then show "se_find_host (sv_auth ex_server_env) name = Some h \<Longrightarrow> lock_ready ex_server_env (sw_locks ex_server_world) h"
    by (simp add: ex_server_env_def split: if_splits)
qed

theorem listener_descriptors_witness:
  "\<exists>w'. replay kstep (listener 2 ex_server_env True)
      [sys_ret 5, sys_ret 0, sys_ret 0, sys_ret 0, sys_ret 0, sys_ret 0, sys_ret 0, sys_ret 0, sys_ret 9, sys_ret 77, sys_ret 0,
       sys_ret 0, sys_ret (- 1)] ex_kernel = Some (Some (Returned False), w')
    \<and> (\<exists>s. s \<notin> {0, 1, 2, 3} \<and> k_open w' = insert s {0, 1, 2, 3})"
proof -
  obtain w' where r: "replay kstep (listener 2 ex_server_env True)
      [sys_ret 5, sys_ret 0, sys_ret 0, sys_ret 0, sys_ret 0, sys_ret 0, sys_ret 0, sys_ret 0, sys_ret 9, sys_ret 77, sys_ret 0,
       sys_ret 0, sys_ret (- 1)] ex_kernel = Some (Some (Returned False), w')"
    by (simp add: listener_def generic_addr_def ex_server_env_def zero_addr_def ex_kernel_def opens_def numeral_2_eq_2 Let_def)
  then show ?thesis using listener_descriptors [OF r] by (auto simp: ex_kernel_def)
qed

theorem connection_returns_lock_witness:
  "\<exists>as w'. replay sstep (connection ex_server_env True 3) as ex_server_world = Some (Some (Exited 0), w')
    \<and> locks_back (sw_locks ex_server_world) (sw_locks w')"
proof -
  obtain msgs out where a: "auth_server ((sv_auth ex_server_env)\<lparr>se_lock_host := \<lambda>_. 0\<rparr>) msgs = Some (Some ex_gate, out)"
    using ex_gate_auth by blast
  have p: "show_int 8 = ''8''" by (simp add: show_int_def show_nat.simps digits10_def)
  let ?enoent = "(sys_ret (- 1))\<lparr>sr_errno := ENOENT\<rparr>"
  have "\<exists>w'. replay sstep (connection ex_server_env True 3)
      ([sys_ret 0, sys_ret 0, (sys_ret 0)\<lparr>sr_msgs := msgs\<rparr>, ?enoent, sys_ret 3, sys_ret 2, sys_ret 0, sys_ret 0, sys_ret 0]
       @ [sys_ret 0, sys_ret 5, sys_ret (- 1), sys_ret 0] @ [sys_ret 0, sys_ret 0]) ex_server_world = Some (Some (Exited 0), w')"
    by (simp add: connection_def locking_auth_def a on_lock_def lock_host_def read_lock_def create_lock_def unlock_host_def
        lock_tmp_def lock_text_def lock_file_def p sstep_def answers_def set_file_def sys_ret_def succeeded_def failed_def
        tunnel_def open_device_def dev_type_def keepif_def linux_driver_def linux_tun_open_def tun_open_common_def session_host_def
        ex_server_fields ex_server_world_def ex_kernel_def ex_gate_def ex_host_def default_host_def zero_host_def
        opens_def Let_def)
  then obtain as w' where r: "replay sstep (connection ex_server_env True 3) as ex_server_world = Some (Some (Exited 0), w')"
    by blast
  have "locks_back (sw_locks ex_server_world) (sw_locks w')"
    by (rule connection_returns_lock [OF _ ex_gate_ready r])
      (simp_all add: server_env_ok_def ex_server_env_def link_quiet_def ex_link_def same_lock_def)
  with r show ?thesis by blast
qed

end
