(* ===== verification/HostOpts.thy ===== *)
theory HostOpts
  imports AuthFlags
begin

section \<open>Host options of the configuration (\<open>cfg_kwords.h\<close>, \<open>cfg_file.l\<close>, \<open>cfg_file.y\<close>)\<close>

text \<open>
  How a line of a host section becomes options of the host: the keyword tables, the values the
  lexer makes of parameters, and the actions of the grammar, each as a function on the host. The
  grammar itself is turned into C by yacc; what it accepts is a list of options in file order.
\<close>

subsection \<open>Keywords\<close>

datatype kw_token =
  K_OPTIONS | K_DEFAULT | K_PORT | K_BINDADDR | K_PERSIST | K_TIMEOUT | K_PASSWD | K_PROG | K_PPP
| K_SPEED | K_IFCFG | K_FWALL | K_ROUTE | K_DEVICE | K_MULTI | K_SRCADDR | K_IFACE | K_ADDR
| K_TYPE | K_PROT | K_NAT_HACK | K_COMPRESS | K_ENCRYPT | K_KALIVE | K_STAT | K_UP | K_DOWN
| K_SYSLOG | K_IPROUTE

definition cfg_keyword :: "(string \<times> kw_token) list" where
  "cfg_keyword =
    [(''options'', K_OPTIONS), (''default'', K_DEFAULT), (''up'', K_UP), (''down'', K_DOWN),
     (''port'', K_PORT), (''srcaddr'', K_SRCADDR), (''addr'', K_ADDR), (''iface'', K_IFACE),
     (''bindaddr'', K_BINDADDR), (''persist'', K_PERSIST), (''multi'', K_MULTI), (''iface'', K_IFACE),
     (''timeout'', K_TIMEOUT), (''passwd'', K_PASSWD), (''password'', K_PASSWD), (''program'', K_PROG),
     (''speed'', K_SPEED), (''compress'', K_COMPRESS), (''encrypt'', K_ENCRYPT), (''type'', K_TYPE),
     (''proto'', K_PROT), (''nat_hack'', K_NAT_HACK), (''delay_udp'', K_NAT_HACK), (''device'', K_DEVICE),
     (''ppp'', K_PPP), (''ifconfig'', K_IFCFG), (''ifcfg'', K_IFCFG), (''firewall'', K_FWALL),
     (''route'', K_ROUTE), (''ip'', K_IPROUTE), (''keepalive'', K_KALIVE), (''stat'', K_STAT),
     (''syslog'', K_SYSLOG)]"

definition cfg_param :: "(string \<times> int) list" where
  "cfg_param =
    [(''yes'', 1), (''no'', 0), (''allow'', 1), (''deny'', 0), (''enable'', 1), (''disable'', 0),
     (''tty'', uint VTUN_TTY), (''pipe'', uint VTUN_PIPE), (''ether'', uint VTUN_ETHER), (''tun'', uint VTUN_TUN),
     (''tcp'', uint VTUN_TCP), (''udp'', uint VTUN_UDP), (''client'', uint VTUN_NAT_HACK_CLIENT),
     (''server'', uint VTUN_NAT_HACK_SERVER), (''lzo'', uint VTUN_LZO), (''zlib'', uint VTUN_ZLIB),
     (''wait'', 1), (''killold'', VTUN_MULTI_KILL), (''inetd'', VTUN_INETD), (''stand'', VTUN_STAND_ALONE),
     (''keep'', VTUN_PERSIST_KEEPIF), (''oldblowfish128ecb'', VTUN_LEGACY_ENCRYPT),
     (''blowfish128ecb'', 1), (''blowfish128cbc'', 2), (''blowfish128cfb'', 3), (''blowfish128ofb'', 4),
     (''blowfish256ecb'', 5), (''blowfish256cbc'', 6), (''blowfish256cfb'', 7), (''blowfish256ofb'', 8),
     (''aes128ecb'', 9), (''aes128cbc'', 10), (''aes128cfb'', 11), (''aes128ofb'', 12),
     (''aes256ecb'', 13), (''aes256cbc'', 14), (''aes256cfb'', 15), (''aes256ofb'', 16)]"

text \<open>\<open>find_keyword\<close> compares at most 20 characters; \<^const>\<open>None\<close> is its -1.\<close>

fun find_keyword :: "(string \<times> 'k) list \<Rightarrow> string \<Rightarrow> 'k option" where
  "find_keyword [] str = None"
| "find_keyword ((w, k) # kw) str = (if strn_eq str w 20 then Some k else find_keyword kw str)"

subsection \<open>Parameters\<close>

text \<open>What the lexer makes of the text of a parameter: a number, two numbers, or a word.\<close>

datatype param = P_num int | P_dnum int int | P_word string

definition atoi :: "string \<Rightarrow> int" where
  "atoi s = to_int32 (fst (strtol s))"

definition keyword_num :: "string \<Rightarrow> int" where
  "keyword_num w = (case find_keyword cfg_param w of None \<Rightarrow> - 1 | Some k \<Rightarrow> k)"

definition lex_param :: "string \<Rightarrow> param" where
  "lex_param s =
     (let w = takeWhile (\<lambda>c. c \<noteq> CHR '':'') s;
          rest = dropWhile (\<lambda>c. c \<noteq> CHR '':'') s;
          num = list_all is_digit w
      in case rest of
           [] \<Rightarrow> if num then P_num (atoi w)
                 else if keyword_num w \<noteq> - 1 then P_num (keyword_num w) else P_word w
         | _ # n \<Rightarrow> P_dnum (if num then atoi w else keyword_num w) (atoi n))"

subsection \<open>Options\<close>

datatype host_opt =
    O_passwd string
  | O_device string
  | O_multi int
  | O_timeout int
  | O_speed param
  | O_compress param
  | O_encrypt int
  | O_kalive param
  | O_stat int
  | O_persist int
  | O_type int
  | O_prot int
  | O_nat_hack int
  | O_srcaddr string
  | O_srciface string
  | O_srcport int
  | O_up "vtun_cmd list"
  | O_down "vtun_cmd list"

definition or_flags :: "flags \<Rightarrow> vtun_host \<Rightarrow> vtun_host" where
  "or_flags f h = h\<lparr>vh_flags := vh_flags h OR f\<rparr>"

definition drop_flags :: "flags \<Rightarrow> vtun_host \<Rightarrow> vtun_host" where
  "drop_flags f h = h\<lparr>vh_flags := vh_flags h AND NOT f\<rparr>"

text \<open>
  The actions on \<open>parse_host\<close>; the second component is \<open>vtun.persist\<close>, which the first \<open>persist\<close>
  option sets when the command line did not. A word where the grammar wants a number is an error of
  the parser, and such an option does not occur.
\<close>

fun host_option :: "host_opt \<Rightarrow> vtun_host \<times> int \<Rightarrow> vtun_host \<times> int" where
  "host_option (O_passwd w) (h, vp) = (h\<lparr>vh_passwd := Some w\<rparr>, vp)"
| "host_option (O_device w) (h, vp) = (h\<lparr>vh_dev := Some w\<rparr>, vp)"
| "host_option (O_multi n) (h, vp) = (h\<lparr>vh_multi := n\<rparr>, vp)"
| "host_option (O_timeout n) (h, vp) = (h\<lparr>vh_timeout := n\<rparr>, vp)"
| "host_option (O_speed (P_num n)) (h, vp) =
     ((if n \<noteq> 0 then or_flags VTUN_SHAPE (h\<lparr>spd_in := n, spd_out := n\<rparr>) else drop_flags VTUN_SHAPE h), vp)"
| "host_option (O_speed (P_dnum a b)) (h, vp) =
     ((if a \<noteq> 0 \<or> b \<noteq> 0 then or_flags VTUN_SHAPE (h\<lparr>spd_out := a, spd_in := b\<rparr>)
       else drop_flags VTUN_SHAPE h), vp)"
| "host_option (O_compress (P_num n)) (h, vp) =
     (let h1 = drop_flags (VTUN_ZLIB OR VTUN_LZO) h
      in (if n \<noteq> 0 then (or_flags VTUN_ZLIB h1)\<lparr>zlevel := n\<rparr> else h1, vp))"
| "host_option (O_compress (P_dnum a b)) (h, vp) =
     ((or_flags (word_of_int a) (drop_flags (VTUN_ZLIB OR VTUN_LZO) h))\<lparr>zlevel := b\<rparr>, vp)"
| "host_option (O_encrypt n) (h, vp) =
     ((if n \<noteq> 0 then (or_flags VTUN_ENCRYPT h)\<lparr>cipher := n\<rparr> else drop_flags VTUN_ENCRYPT h), vp)"
| "host_option (O_kalive (P_num n)) (h, vp) =
     (let h1 = drop_flags VTUN_KEEP_ALIVE h in (if n \<noteq> 0 then or_flags VTUN_KEEP_ALIVE h1 else h1, vp))"
| "host_option (O_kalive (P_dnum a b)) (h, vp) =
     (let h1 = drop_flags VTUN_KEEP_ALIVE h
      in (if a \<noteq> 0 then (or_flags VTUN_KEEP_ALIVE h1)\<lparr>ka_interval := a, ka_maxfail := b\<rparr> else h1, vp))"
| "host_option (O_stat n) (h, vp) =
     ((if n \<noteq> 0 then or_flags VTUN_STAT h else drop_flags VTUN_STAT h), vp)"
| "host_option (O_persist n) (h, vp) = (h\<lparr>vh_persist := n\<rparr>, if vp = - 1 then n else vp)"
| "host_option (O_type n) (h, vp) = (or_flags (word_of_int n) (drop_flags VTUN_TYPE_MASK h), vp)"
| "host_option (O_prot n) (h, vp) = (or_flags (word_of_int n) (drop_flags VTUN_PROT_MASK h), vp)"
| "host_option (O_nat_hack n) (h, vp) = (or_flags (word_of_int n) (drop_flags VTUN_NAT_HACK_MASK h), vp)"
| "host_option (O_srcaddr w) (h, vp) =
     (h\<lparr>src_addr := (src_addr h)\<lparr>ad_name := Some w, ad_type := VTUN_ADDR_NAME\<rparr>\<rparr>, vp)"
| "host_option (O_srciface w) (h, vp) =
     (h\<lparr>src_addr := (src_addr h)\<lparr>ad_name := Some w, ad_type := VTUN_ADDR_IFACE\<rparr>\<rparr>, vp)"
| "host_option (O_srcport n) (h, vp) = (h\<lparr>src_addr := (src_addr h)\<lparr>ad_port := n\<rparr>\<rparr>, vp)"
| "host_option (O_up cs) (h, vp) = (h\<lparr>vh_up := cs\<rparr>, vp)"
| "host_option (O_down cs) (h, vp) = (h\<lparr>vh_down := cs\<rparr>, vp)"
| "host_option _ s = s"

text \<open>A host section: a copy of the default host under a name of its own, without its password.\<close>

definition new_host :: "string \<Rightarrow> vtun_host \<Rightarrow> vtun_host" where
  "new_host n d = d\<lparr>vh_host := n, vh_passwd := None, vh_sopt := (vh_sopt d)\<lparr>so_host := Some n\<rparr>\<rparr>"

definition host_section :: "string \<Rightarrow> host_opt list \<Rightarrow> vtun_host \<times> int \<Rightarrow> vtun_host \<times> int" where
  "host_section n os s = fold host_option os (new_host n (fst s), snd s)"

subsection \<open>Bits that an option sets\<close>

lemma mask_new: "n AND m = n \<Longrightarrow> (w AND NOT m OR n) AND m = (n :: flags)"
proof -
  assume a: "n AND m = n"
  have "(w AND NOT m OR n) AND m = (w AND (NOT m AND m)) OR (n AND m)"
    by (simp only: bit.conj_disj_distrib2 and.assoc)
  then show ?thesis using a by simp
qed

lemma mask_other: "n AND k = 0 \<Longrightarrow> m AND k = 0 \<Longrightarrow> (w AND NOT m OR n) AND k = w AND (k :: flags)"
proof -
  assume n: "n AND k = 0" and m: "m AND k = 0"
  have "(w AND NOT m OR n) AND k = (w AND (NOT m AND k)) OR (n AND k)"
    by (simp only: bit.conj_disj_distrib2 and.assoc)
  moreover have "NOT m AND k = k"
    using m by (intro bit_word_eqI) (auto simp: bit_simps bit_eq_iff [of "m AND k"])
  ultimately show ?thesis using n by simp
qed

text \<open>
  Options as the manual describes them: the keyword of a device type, of a protocol or of a
  compression method where one is expected, and numbers the negotiation can carry over.
\<close>

fun sensible :: "host_opt \<Rightarrow> bool" where
  "sensible (O_speed (P_num n)) = plain_int n"
| "sensible (O_speed (P_dnum a b)) = (plain_int b \<and> (b = 0 \<longrightarrow> a = 0))"
| "sensible (O_compress (P_num n)) = plain_int n"
| "sensible (O_compress (P_dnum a b)) = ((a = uint VTUN_ZLIB \<or> a = uint VTUN_LZO) \<and> plain_int b)"
| "sensible (O_encrypt n) = plain_int n"
| "sensible (O_type n) = (n \<in> {uint VTUN_TTY, uint VTUN_PIPE, uint VTUN_ETHER, uint VTUN_TUN})"
| "sensible (O_prot n) = (n = uint VTUN_TCP \<or> n = uint VTUN_UDP)"
| "sensible (O_nat_hack n) = (n \<in> {0, uint VTUN_NAT_HACK_CLIENT, uint VTUN_NAT_HACK_SERVER})"
| "sensible _ = True"

text \<open>The invariant of a host under construction.\<close>

definition opt_inv :: "vtun_host \<Rightarrow> bool" where
  "opt_inv h =
     ((vh_flags h AND VTUN_PROT_MASK = VTUN_TCP \<or> vh_flags h AND VTUN_PROT_MASK = VTUN_UDP)
      \<and> vh_flags h AND VTUN_TYPE_MASK \<in> {VTUN_TTY, VTUN_PIPE, VTUN_ETHER, VTUN_TUN}
      \<and> plain_int (spd_in h) \<and> plain_int (zlevel h) \<and> plain_int (cipher h)
      \<and> (has_flag h VTUN_SHAPE \<longrightarrow> spd_in h \<noteq> 0) \<and> (has_flag h VTUN_ENCRYPT \<longrightarrow> cipher h \<noteq> 0))"

lemma opt_inv_negotiable: "opt_inv h \<Longrightarrow> negotiable h"
  by (simp add: opt_inv_def negotiable_def)

lemma or_flags_drop [simp]: "vh_flags (or_flags f (drop_flags m h)) = vh_flags h AND NOT m OR f"
  by (simp add: or_flags_def drop_flags_def)

lemma or_flags_fields [simp]:
  "vh_flags (or_flags f h) = vh_flags h OR f" "spd_in (or_flags f h) = spd_in h"
  "zlevel (or_flags f h) = zlevel h" "cipher (or_flags f h) = cipher h"
  "vh_flags (drop_flags m h) = vh_flags h AND NOT m" "spd_in (drop_flags m h) = spd_in h"
  "zlevel (drop_flags m h) = zlevel h" "cipher (drop_flags m h) = cipher h"
  by (simp_all add: or_flags_def drop_flags_def)

lemmas mask_or = mask_other [where m = 0, simplified]
lemmas mask_drop = mask_other [where n = 0, simplified]

text \<open>One option and the bits of the invariant: a type or protocol is replaced, any other bit is out of the way.\<close>

lemma opt_inv_flags:
  assumes "opt_inv h" and f: "f \<in> {VTUN_ZLIB, VTUN_LZO, VTUN_KEEP_ALIVE, VTUN_STAT, VTUN_NAT_HACK_CLIENT,
      VTUN_NAT_HACK_SERVER, 0}"
    and m: "m \<in> {VTUN_ZLIB OR VTUN_LZO, VTUN_KEEP_ALIVE, VTUN_STAT, VTUN_NAT_HACK_MASK, 0}"
    and g: "vh_flags g = vh_flags h AND NOT m OR f" "spd_in g = spd_in h" "plain_int (zlevel g)" "cipher g = cipher h"
  shows "opt_inv g"
proof -
  have "f AND k = 0 \<and> m AND k = 0" if "k \<in> {VTUN_PROT_MASK, VTUN_TYPE_MASK, VTUN_SHAPE, VTUN_ENCRYPT}" for k
    using f m that by auto
  then have eq: "vh_flags g AND k = vh_flags h AND k"
    if "k \<in> {VTUN_PROT_MASK, VTUN_TYPE_MASK, VTUN_SHAPE, VTUN_ENCRYPT}" for k
    using mask_other [of f k m "vh_flags h"] that g(1) by simp
  then have "vh_flags g AND VTUN_PROT_MASK = vh_flags h AND VTUN_PROT_MASK"
    "vh_flags g AND VTUN_TYPE_MASK = vh_flags h AND VTUN_TYPE_MASK"
    "vh_flags g AND VTUN_SHAPE = vh_flags h AND VTUN_SHAPE"
    "vh_flags g AND VTUN_ENCRYPT = vh_flags h AND VTUN_ENCRYPT" by blast+
  then have "vh_flags g AND VTUN_PROT_MASK = vh_flags h AND VTUN_PROT_MASK"
    "vh_flags g AND VTUN_TYPE_MASK = vh_flags h AND VTUN_TYPE_MASK"
    "has_flag g VTUN_SHAPE = has_flag h VTUN_SHAPE" "has_flag g VTUN_ENCRYPT = has_flag h VTUN_ENCRYPT"
    by (simp_all only: has_flag_def)
  then show ?thesis using assms(1) g(2-4) unfolding opt_inv_def by simp
qed

lemma opt_inv_type:
  assumes "opt_inv h" and "f \<in> {VTUN_TTY, VTUN_PIPE, VTUN_ETHER, VTUN_TUN}"
  shows "opt_inv (or_flags f (drop_flags VTUN_TYPE_MASK h))"
proof -
  let ?w = "vh_flags h AND NOT VTUN_TYPE_MASK OR f"
  have "f AND VTUN_TYPE_MASK = f" using assms(2) by auto
  then have "?w AND VTUN_TYPE_MASK = f" by (rule mask_new)
  moreover have "f AND k = 0 \<and> VTUN_TYPE_MASK AND k = 0"
    if "k \<in> {VTUN_PROT_MASK, VTUN_SHAPE, VTUN_ENCRYPT}" for k using assms(2) that by auto
  then have "?w AND k = vh_flags h AND k" if "k \<in> {VTUN_PROT_MASK, VTUN_SHAPE, VTUN_ENCRYPT}" for k
    using mask_other [of f k VTUN_TYPE_MASK] that by blast
  then have "?w AND VTUN_PROT_MASK = vh_flags h AND VTUN_PROT_MASK" "?w AND VTUN_SHAPE = vh_flags h AND VTUN_SHAPE"
    "?w AND VTUN_ENCRYPT = vh_flags h AND VTUN_ENCRYPT" by blast+
  ultimately show ?thesis using assms
    unfolding opt_inv_def has_flag_def or_flags_drop by (simp only: or_flags_fields) simp
qed

lemma opt_inv_prot:
  assumes "opt_inv h" and "f \<in> {VTUN_TCP, VTUN_UDP}"
  shows "opt_inv (or_flags f (drop_flags VTUN_PROT_MASK h))"
proof -
  let ?w = "vh_flags h AND NOT VTUN_PROT_MASK OR f"
  have "f AND VTUN_PROT_MASK = f" using assms(2) by auto
  then have "?w AND VTUN_PROT_MASK = f" by (rule mask_new)
  moreover have "f AND k = 0 \<and> VTUN_PROT_MASK AND k = 0"
    if "k \<in> {VTUN_TYPE_MASK, VTUN_SHAPE, VTUN_ENCRYPT}" for k using assms(2) that by auto
  then have "?w AND k = vh_flags h AND k" if "k \<in> {VTUN_TYPE_MASK, VTUN_SHAPE, VTUN_ENCRYPT}" for k
    using mask_other [of f k VTUN_PROT_MASK] that by blast
  then have "?w AND VTUN_TYPE_MASK = vh_flags h AND VTUN_TYPE_MASK" "?w AND VTUN_SHAPE = vh_flags h AND VTUN_SHAPE"
    "?w AND VTUN_ENCRYPT = vh_flags h AND VTUN_ENCRYPT" by blast+
  ultimately show ?thesis using assms
    unfolding opt_inv_def has_flag_def or_flags_drop by (simp only: or_flags_fields) simp
qed

lemma opt_inv_onoff:
  assumes "opt_inv h" and "s \<in> {VTUN_SHAPE, VTUN_ENCRYPT}" and "f = 0 \<or> f = s"
    and g: "vh_flags g = vh_flags h AND NOT m OR f" "m = s \<or> m = 0" "f = 0 \<longrightarrow> m = s"
    and "plain_int (spd_in g)" "plain_int (zlevel g)" "plain_int (cipher g)"
    and "f = VTUN_SHAPE \<longrightarrow> spd_in g \<noteq> 0" "s = VTUN_ENCRYPT \<longrightarrow> spd_in g = spd_in h"
    and "f = VTUN_ENCRYPT \<longrightarrow> cipher g \<noteq> 0" "s = VTUN_SHAPE \<longrightarrow> cipher g = cipher h"
  shows "opt_inv g"
proof -
  have z: "f AND k = 0 \<and> m AND k = 0" if "k \<in> {VTUN_PROT_MASK, VTUN_TYPE_MASK, VTUN_SHAPE, VTUN_ENCRYPT} - {s}" for k
    using assms(2,3) g(2) that by auto
  have eq: "vh_flags g AND k = vh_flags h AND k"
    if "k \<in> {VTUN_PROT_MASK, VTUN_TYPE_MASK, VTUN_SHAPE, VTUN_ENCRYPT} - {s}" for k
    using mask_other [of f k m "vh_flags h"] z [OF that] g(1) by simp
  have s: "s \<noteq> VTUN_PROT_MASK" "s \<noteq> VTUN_TYPE_MASK" using assms(2) by auto
  have off: "vh_flags g AND s = 0" if "f = 0"
    using that g by (simp add: and.assoc)
  show ?thesis
  proof (cases "s = VTUN_SHAPE")
    case True
    then have "vh_flags g AND VTUN_PROT_MASK = vh_flags h AND VTUN_PROT_MASK"
      "vh_flags g AND VTUN_TYPE_MASK = vh_flags h AND VTUN_TYPE_MASK"
      "vh_flags g AND VTUN_ENCRYPT = vh_flags h AND VTUN_ENCRYPT"
      using eq [of VTUN_PROT_MASK] eq [of VTUN_TYPE_MASK] eq [of VTUN_ENCRYPT] by auto
    moreover have "vh_flags g AND VTUN_SHAPE \<noteq> 0 \<longrightarrow> spd_in g \<noteq> 0"
      using off assms(3,10) True by metis
    ultimately show ?thesis using assms(1,7-9,13) True unfolding opt_inv_def has_flag_def by simp
  next
    case False
    then have e: "s = VTUN_ENCRYPT" using assms(2) by blast
    then have "vh_flags g AND VTUN_PROT_MASK = vh_flags h AND VTUN_PROT_MASK"
      "vh_flags g AND VTUN_TYPE_MASK = vh_flags h AND VTUN_TYPE_MASK"
      "vh_flags g AND VTUN_SHAPE = vh_flags h AND VTUN_SHAPE"
      using eq [of VTUN_PROT_MASK] eq [of VTUN_TYPE_MASK] eq [of VTUN_SHAPE] by auto
    moreover have "vh_flags g AND VTUN_ENCRYPT \<noteq> 0 \<longrightarrow> cipher g \<noteq> 0"
      using off assms(3,12) e by metis
    ultimately show ?thesis using assms(1,7-9,11) e unfolding opt_inv_def has_flag_def by simp
  qed
qed

lemma opt_inv_shape:
  assumes "opt_inv h" and "zlevel g = zlevel h" and "cipher g = cipher h"
  shows "vh_flags g = vh_flags h OR VTUN_SHAPE \<Longrightarrow> plain_int (spd_in g) \<Longrightarrow> spd_in g \<noteq> 0 \<Longrightarrow> opt_inv g"
    and "vh_flags g = vh_flags h AND NOT VTUN_SHAPE \<Longrightarrow> spd_in g = spd_in h \<Longrightarrow> opt_inv g"
proof -
  have p: "plain_int (spd_in h)" "plain_int (zlevel g)" "plain_int (cipher g)"
    using assms by (simp_all add: opt_inv_def)
  have ne: "VTUN_SHAPE \<noteq> VTUN_ENCRYPT" "VTUN_SHAPE \<noteq> 0" "0 \<noteq> VTUN_SHAPE" "0 \<noteq> VTUN_ENCRYPT" by simp_all
  show "vh_flags g = vh_flags h OR VTUN_SHAPE \<Longrightarrow> plain_int (spd_in g) \<Longrightarrow> spd_in g \<noteq> 0 \<Longrightarrow> opt_inv g"
    by (rule opt_inv_onoff [OF assms(1), where s = VTUN_SHAPE and f = VTUN_SHAPE and m = 0])
      (use p assms ne in \<open>simp_all only: simp_thms insertI1 bit.compl_zero and.right_neutral\<close>)
  show "vh_flags g = vh_flags h AND NOT VTUN_SHAPE \<Longrightarrow> spd_in g = spd_in h \<Longrightarrow> opt_inv g"
    by (rule opt_inv_onoff [OF assms(1), where s = VTUN_SHAPE and f = 0 and m = VTUN_SHAPE])
      (use p assms ne in \<open>simp_all only: simp_thms insertI1 or.right_neutral\<close>)
qed

lemma opt_inv_encrypt:
  assumes "opt_inv h" and "zlevel g = zlevel h" and "spd_in g = spd_in h"
  shows "vh_flags g = vh_flags h OR VTUN_ENCRYPT \<Longrightarrow> plain_int (cipher g) \<Longrightarrow> cipher g \<noteq> 0 \<Longrightarrow> opt_inv g"
    and "vh_flags g = vh_flags h AND NOT VTUN_ENCRYPT \<Longrightarrow> cipher g = cipher h \<Longrightarrow> opt_inv g"
proof -
  have p: "plain_int (cipher h)" "plain_int (zlevel g)" "plain_int (spd_in g)"
    using assms by (simp_all add: opt_inv_def)
  have ne: "VTUN_ENCRYPT \<noteq> VTUN_SHAPE" "VTUN_ENCRYPT \<noteq> 0" "0 \<noteq> VTUN_SHAPE" "0 \<noteq> VTUN_ENCRYPT" "VTUN_ENCRYPT \<in> {VTUN_SHAPE, VTUN_ENCRYPT}" by simp_all
  show "vh_flags g = vh_flags h OR VTUN_ENCRYPT \<Longrightarrow> plain_int (cipher g) \<Longrightarrow> cipher g \<noteq> 0 \<Longrightarrow> opt_inv g"
    by (rule opt_inv_onoff [OF assms(1), where s = VTUN_ENCRYPT and f = VTUN_ENCRYPT and m = 0])
      (use p assms ne in \<open>simp_all only: simp_thms bit.compl_zero and.right_neutral\<close>)
  show "vh_flags g = vh_flags h AND NOT VTUN_ENCRYPT \<Longrightarrow> cipher g = cipher h \<Longrightarrow> opt_inv g"
    by (rule opt_inv_onoff [OF assms(1), where s = VTUN_ENCRYPT and f = 0 and m = VTUN_ENCRYPT])
      (use p assms ne in \<open>simp_all only: simp_thms or.right_neutral\<close>)
qed

lemma opt_inv_same:
  "opt_inv h \<Longrightarrow> vh_flags g = vh_flags h \<Longrightarrow> spd_in g = spd_in h \<Longrightarrow> zlevel g = zlevel h
    \<Longrightarrow> cipher g = cipher h \<Longrightarrow> opt_inv g"
  unfolding opt_inv_def has_flag_def by simp

text \<open>The values of the constants, which \<open>simp\<close> would compute, are kept out of the steps.\<close>

lemmas flag_consts = VTUN_SHAPE_def VTUN_ENCRYPT_def VTUN_ZLIB_def VTUN_LZO_def VTUN_KEEP_ALIVE_def
  VTUN_STAT_def VTUN_NAT_HACK_MASK_def VTUN_NAT_HACK_CLIENT_def VTUN_NAT_HACK_SERVER_def
  VTUN_TYPE_MASK_def VTUN_PROT_MASK_def

lemma zero_or: "w OR 0 = (w :: flags)" "w AND NOT 0 = (w :: flags)" by simp_all

lemma speed_inv: "opt_inv h \<Longrightarrow> sensible (O_speed q) \<Longrightarrow> opt_inv (fst (host_option (O_speed q) (h, vp)))"
proof (cases q)
  case (P_num n)
  assume h: "opt_inv h" and "sensible (O_speed q)"
  then have n: "plain_int n" using P_num by simp
  have "opt_inv (or_flags VTUN_SHAPE (h\<lparr>spd_in := n, spd_out := n\<rparr>))" if "n \<noteq> 0"
    by (rule opt_inv_shape(1) [OF h]) (use n that in \<open>simp_all del: flag_consts\<close>)
  moreover have "opt_inv (drop_flags VTUN_SHAPE h)"
    by (rule opt_inv_shape(2) [OF h]) (simp_all del: flag_consts)
  ultimately show ?thesis unfolding P_num by (cases "n = 0") (simp_all del: flag_consts)
next
  case (P_dnum a b)
  assume h: "opt_inv h" and "sensible (O_speed q)"
  then have n: "plain_int b" "b = 0 \<longrightarrow> a = 0" using P_dnum by simp_all
  have "opt_inv (or_flags VTUN_SHAPE (h\<lparr>spd_out := a, spd_in := b\<rparr>))" if "b \<noteq> 0"
    by (rule opt_inv_shape(1) [OF h]) (use n that in \<open>simp_all del: flag_consts\<close>)
  moreover have "opt_inv (drop_flags VTUN_SHAPE h)"
    by (rule opt_inv_shape(2) [OF h]) (simp_all del: flag_consts)
  ultimately show ?thesis unfolding P_dnum using n(2) by (cases "b = 0") (simp_all del: flag_consts)
qed simp

lemma encrypt_inv: "opt_inv h \<Longrightarrow> plain_int n \<Longrightarrow> opt_inv (fst (host_option (O_encrypt n) (h, vp)))"
proof -
  assume h: "opt_inv h" and n: "plain_int n"
  have "opt_inv ((or_flags VTUN_ENCRYPT h)\<lparr>cipher := n\<rparr>)" if "n \<noteq> 0"
    by (rule opt_inv_encrypt(1) [OF h]) (use n that in \<open>simp_all del: flag_consts\<close>)
  moreover have "opt_inv (drop_flags VTUN_ENCRYPT h)"
    by (rule opt_inv_encrypt(2) [OF h]) (simp_all del: flag_consts)
  ultimately show ?thesis by (cases "n = 0") (simp_all del: flag_consts)
qed

lemma plain_zlevel: "opt_inv h \<Longrightarrow> plain_int (zlevel h)"
  by (simp add: opt_inv_def)

lemma compress_inv:
  assumes h: "opt_inv h" and s: "sensible (O_compress q)"
  shows "opt_inv (fst (host_option (O_compress q) (h, vp)))"
proof (cases q)
  case (P_num n)
  then have n: "plain_int n" using s by simp
  have "opt_inv ((or_flags VTUN_ZLIB (drop_flags (VTUN_ZLIB OR VTUN_LZO) h))\<lparr>zlevel := n\<rparr>)"
    by (rule opt_inv_flags [OF h, where f = VTUN_ZLIB and m = "VTUN_ZLIB OR VTUN_LZO"])
      (use n in \<open>simp_all del: flag_consts\<close>)
  moreover have "opt_inv (drop_flags (VTUN_ZLIB OR VTUN_LZO) h)"
    by (rule opt_inv_flags [OF h, where f = 0 and m = "VTUN_ZLIB OR VTUN_LZO"])
      (use plain_zlevel [OF h] in \<open>simp_all del: flag_consts\<close>)
  ultimately show ?thesis unfolding P_num by (cases "n = 0") (simp_all del: flag_consts)
next
  case (P_dnum a b)
  then have f: "word_of_int a = VTUN_ZLIB \<or> word_of_int a = VTUN_LZO" and b: "plain_int b" using s by auto
  have "opt_inv ((or_flags (word_of_int a) (drop_flags (VTUN_ZLIB OR VTUN_LZO) h))\<lparr>zlevel := b\<rparr>)"
    by (rule opt_inv_flags [OF h, where f = "word_of_int a" and m = "VTUN_ZLIB OR VTUN_LZO"])
      (use f b in \<open>auto simp del: flag_consts\<close>)
  then show ?thesis unfolding P_dnum by (simp del: flag_consts)
qed (use s h in simp)

lemma flags_only_inv:
  assumes h: "opt_inv h" and "f \<in> {VTUN_KEEP_ALIVE, VTUN_STAT, VTUN_NAT_HACK_CLIENT, VTUN_NAT_HACK_SERVER, 0}"
    and "m \<in> {VTUN_KEEP_ALIVE, VTUN_STAT, VTUN_NAT_HACK_MASK, 0}"
  shows "opt_inv (or_flags f (drop_flags m h))"
  by (rule opt_inv_flags [OF h, where f = f and m = m])
    (use assms plain_zlevel [OF h] in \<open>auto simp del: flag_consts\<close>)

lemma flag_upd_id: "or_flags 0 h = h" "drop_flags 0 h = h"
  by (simp_all add: or_flags_def drop_flags_def)

lemma kalive_inv:
  assumes h: "opt_inv h"
  shows "opt_inv (fst (host_option (O_kalive q) (h, vp)))"
proof -
  have on: "opt_inv (or_flags VTUN_KEEP_ALIVE (drop_flags VTUN_KEEP_ALIVE h))"
    by (rule flags_only_inv [OF h]) blast+
  have off: "opt_inv (drop_flags VTUN_KEEP_ALIVE h)"
    using flags_only_inv [OF h, of 0 VTUN_KEEP_ALIVE] by (simp add: flag_upd_id del: flag_consts)
  show ?thesis
    by (cases q) (auto simp: Let_def on off h simp del: flag_consts intro: opt_inv_same [OF on])
qed

lemma stat_inv:
  assumes h: "opt_inv h"
  shows "opt_inv (fst (host_option (O_stat n) (h, vp)))"
  using flags_only_inv [OF h, of 0 VTUN_STAT] flags_only_inv [OF h, of VTUN_STAT 0]
  by (simp add: flag_upd_id del: flag_consts)

lemma host_option_inv:
  assumes h: "opt_inv h" and s: "sensible op"
  shows "opt_inv (fst (host_option op (h, vp)))"
proof (cases op)
  case (O_speed q)
  then show ?thesis using speed_inv h s by blast
next
  case (O_compress q)
  then show ?thesis using compress_inv h s by blast
next
  case (O_encrypt n)
  then show ?thesis using encrypt_inv [OF h] s by simp
next
  case (O_kalive q)
  then show ?thesis using kalive_inv [OF h] by simp
next
  case (O_stat n)
  then show ?thesis using stat_inv [OF h] by simp
next
  case (O_type n)
  then have "word_of_int n \<in> {VTUN_TTY, VTUN_PIPE, VTUN_ETHER, VTUN_TUN}" using s by auto
  then show ?thesis using opt_inv_type [OF h] O_type by (simp only: host_option.simps fst_conv)
next
  case (O_prot n)
  then have "word_of_int n \<in> {VTUN_TCP, VTUN_UDP}" using s by auto
  then show ?thesis using opt_inv_prot [OF h] O_prot by (simp only: host_option.simps fst_conv)
next
  case (O_nat_hack n)
  then have "word_of_int n = (0 :: flags) \<or> word_of_int n = VTUN_NAT_HACK_CLIENT \<or> word_of_int n = VTUN_NAT_HACK_SERVER"
    using s by auto
  then show ?thesis using flags_only_inv [OF h, of "word_of_int n" VTUN_NAT_HACK_MASK] O_nat_hack
    by (auto simp del: flag_consts)
qed (use h in \<open>simp_all add: opt_inv_same [OF h]\<close>)

lemma fold_option_inv:
  "\<forall>op\<in>set os. sensible op \<Longrightarrow> opt_inv h \<Longrightarrow> opt_inv (fst (fold host_option os (h, vp)))"
proof (induction os arbitrary: h vp)
  case (Cons op os)
  obtain h' vp' where s: "host_option op (h, vp) = (h', vp')" by (cases "host_option op (h, vp)")
  have "opt_inv h'" using host_option_inv [of h op vp] Cons.prems s by simp
  with Cons.IH Cons.prems(1) s show ?case by simp
qed simp

lemma default_inv: "opt_inv default_host"
  by (simp add: opt_inv_def default_host_def zero_host_def has_flag_def plain_int_def ERANGE_num_def)

subsection \<open>Properties\<close>

text \<open>
  C18. The options of the configuration leave a host that can be negotiated: whatever sensible options the
  \<open>default\<close> section and the host's own section hold, in any order, the host has exactly one device type and one
  protocol, and no number in use that the text of the flags would lose (\<open>negotiable\<close>). Sensible options name a
  device type, protocol or compression method that there is, and their speeds, levels and ciphers are \<open>int\<close>s other than
  34, with no speed of the form \<open>n:0\<close>. Whether the text fits the 20 bytes of \<open>bf2cf\<close> is not said here.
\<close>

theorem options_negotiable:
  assumes "\<forall>op\<in>set ds. sensible op" and "\<forall>op\<in>set os. sensible op"
  shows "negotiable (fst (host_section n os (fold host_option ds (default_host, vp))))"
proof -
  obtain d vp' where d: "fold host_option ds (default_host, vp) = (d, vp')" by (cases "fold host_option ds (default_host, vp)")
  have "opt_inv d" using fold_option_inv [OF assms(1) default_inv, of vp] d by simp
  then have "opt_inv (new_host n d)" by (rule opt_inv_same) (simp_all add: new_host_def)
  then show ?thesis using fold_option_inv [OF assms(2)] d
    by (auto simp: host_section_def intro!: opt_inv_negotiable)
qed

text \<open>
  A misspelt compression method with a level is not reported: the lexer makes -1 of the unknown
  keyword, and the action sets all 32 flags of the host, among them every device type, both protocols
  and encryption.
\<close>

theorem compress_typo_sets_all:
  assumes "find_keyword cfg_param w = None" and "CHR '':'' \<notin> set w" and "\<not> list_all is_digit w"
  shows "vh_flags (fst (host_option (O_compress (lex_param (w @ CHR '':'' # n))) (h, vp))) = - 1"
proof -
  have "takeWhile (\<lambda>c. c \<noteq> CHR '':'') (w @ CHR '':'' # n) = w"
    "dropWhile (\<lambda>c. c \<noteq> CHR '':'') (w @ CHR '':'' # n) = CHR '':'' # n"
    using assms(2) by (induction w) auto
  then have "lex_param (w @ CHR '':'' # n) = P_dnum (- 1) (atoi n)"
    using assms(1,3) by (simp add: lex_param_def keyword_num_def)
  then show ?thesis by (simp add: or_flags_def)
qed

subsection \<open>The properties at work\<close>

lemma options_negotiable_witness:
  "negotiable (fst (host_section ''gw'' [O_type (uint VTUN_TUN), O_compress (lex_param ''zlib:9''), O_passwd ''pw'',
      O_speed (lex_param ''256:128''), O_encrypt 6]
     (fold host_option [O_prot (uint VTUN_UDP), O_kalive (lex_param ''yes'')] (default_host, - 1))))"
proof (rule options_negotiable)
  have "lex_param ''zlib:9'' = P_dnum (uint VTUN_ZLIB) 9" "lex_param ''256:128'' = P_dnum 256 128"
    "lex_param ''yes'' = P_num 1" by code_simp+
  then show "\<forall>op\<in>set [O_type (uint VTUN_TUN), O_compress (lex_param ''zlib:9''), O_passwd ''pw'',
      O_speed (lex_param ''256:128''), O_encrypt 6]. sensible op"
    by (simp add: plain_int_def ERANGE_num_def)
qed simp

lemma compress_typo_sets_all_witness:
  "vh_flags (fst (host_option (O_compress (lex_param (''zlob'' @ CHR '':'' # ''9''))) (default_host, - 1))) = - 1"
proof (rule compress_typo_sets_all)
  show "find_keyword cfg_param ''zlob'' = None" "\<not> list_all is_digit ''zlob''" by code_simp+
qed simp

end
