(* ===== verification/CfgLex.thy ===== *)
theory CfgLex
  imports HostOpts
begin

section \<open>The lexer of the configuration file (\<open>cfg_file.l\<close>)\<close>

text \<open>
  The rules of the lexer with the meaning lex gives them: of the rules that are active in the current
  mode, the one that matches most characters is applied, the first one if several do. The static
  variables are part of the state of the lexer; messages and the line number, which only they use, are left
  out.
\<close>

subsection \<open>Patterns\<close>

definition alnum :: "char \<Rightarrow> bool" where
  "alnum c = (let n = of_char c :: nat in 48 \<le> n \<and> n \<le> 57 \<or> 65 \<le> n \<and> n \<le> 90 \<or> 97 \<le> n \<and> n \<le> 122)"

definition NL :: char where "NL = CHR 0x0A"

definition QUOTE :: char where "QUOTE = CHR 0x22"

definition word_char :: "char \<Rightarrow> bool" where
  "word_char c = (alnum c \<or> c \<in> set (CHR 0x5C # ''-_+=!$#%&*^@~.''))"

definition kword_char :: "char \<Rightarrow> bool" where
  "kword_char c = (alnum c \<or> c \<in> set ''_-'')"

definition fname_char :: "char \<Rightarrow> bool" where
  "fname_char c = (alnum c \<or> c \<in> set ''_.-'')"

text \<open>How many characters a pattern matches at most; 0 if it does not match.\<close>

definition m_class :: "(char \<Rightarrow> bool) \<Rightarrow> string \<Rightarrow> nat" where
  "m_class P s = length (takeWhile P s)"

definition m_char :: "(char \<Rightarrow> bool) \<Rightarrow> string \<Rightarrow> nat" where
  "m_char P s = (case s of [] \<Rightarrow> 0 | c # _ \<Rightarrow> if P c then 1 else 0)"

definition m_comment :: "string \<Rightarrow> nat" where
  "m_comment s =
     (case s of
        [] \<Rightarrow> 0
      | c # r \<Rightarrow> if c = CHR ''#'' \<and> dropWhile (\<lambda>c. c \<noteq> NL) r \<noteq> [] then length (takeWhile (\<lambda>c. c \<noteq> NL) r) + 2 else 0)"

text \<open>A string reaches to the last quote of its line.\<close>

definition m_string :: "string \<Rightarrow> nat" where
  "m_string s =
     (case s of
        [] \<Rightarrow> 0
      | c # r \<Rightarrow>
          (let q = dropWhile (\<lambda>c. c \<noteq> QUOTE) (rev (takeWhile (\<lambda>c. c \<noteq> NL) r))
           in if c = QUOTE \<and> q \<noteq> [] then Suc (length q) else 0))"

text \<open>Two parts with a colon between them.\<close>

definition m_pair :: "(char \<Rightarrow> bool) \<Rightarrow> string \<Rightarrow> nat" where
  "m_pair P s =
     (case dropWhile P s of
        [] \<Rightarrow> 0
      | c # r \<Rightarrow>
          (if m_class P s > 0 \<and> c = CHR '':'' \<and> m_class is_digit r > 0
           then m_class P s + 1 + m_class is_digit r else 0))"

fun m_path :: "string \<Rightarrow> nat" where
  "m_path [] = 0"
| "m_path (c # r) =
     (let n = m_class fname_char r
      in if c = CHR ''/'' \<and> n > 0 then 1 + n + m_path (drop n r) else 0)"

subsection \<open>Rules\<close>

datatype lex_mode = M_INITIAL | M_OPTION | M_PARAM

datatype lex_rule = R_space | R_newline | R_comment | R_kword | R_word | R_open | R_close | R_option
  | R_string | R_dnum | R_num | R_pword | R_wordnm | R_path | R_semi | R_garbage

text \<open>The rules that are active in a mode, in the order of the file.\<close>

fun rules :: "lex_mode \<Rightarrow> lex_rule list" where
  "rules M_INITIAL = [R_space, R_newline, R_comment, R_kword, R_word, R_open, R_close, R_garbage]"
| "rules M_OPTION = [R_space, R_newline, R_comment, R_open, R_close, R_option, R_garbage]"
| "rules M_PARAM = [R_space, R_newline, R_open, R_close, R_string, R_dnum, R_num, R_pword, R_wordnm, R_path,
     R_semi, R_garbage]"

fun matched :: "string \<Rightarrow> lex_rule \<Rightarrow> nat" where
  "matched s R_space = m_char (\<lambda>c. c = CHR '' '' \<or> c = CHR 0x09) s"
| "matched s R_newline = m_char (\<lambda>c. c = NL) s"
| "matched s R_comment = m_comment s"
| "matched s R_kword = m_class kword_char s"
| "matched s R_word = m_class word_char s"
| "matched s R_open = m_char (\<lambda>c. c = CHR ''{'') s"
| "matched s R_close = m_char (\<lambda>c. c = CHR ''}'') s"
| "matched s R_option = m_class word_char s"
| "matched s R_string = m_string s"
| "matched s R_dnum = m_pair is_digit s"
| "matched s R_num = m_class is_digit s"
| "matched s R_pword = m_class word_char s"
| "matched s R_wordnm = m_pair word_char s"
| "matched s R_path = m_path s"
| "matched s R_semi = m_char (\<lambda>c. c = CHR '';'') s"
| "matched s R_garbage = m_char (\<lambda>c. c \<noteq> NL) s"

fun longest :: "string \<Rightarrow> lex_rule list \<Rightarrow> (lex_rule \<times> nat) option" where
  "longest s [] = None"
| "longest s (r # rs) =
     (case longest s rs of
        None \<Rightarrow> if matched s r = 0 then None else Some (r, matched s r)
      | Some (r', n) \<Rightarrow> if n \<le> matched s r then Some (r, matched s r) else Some (r', n))"

subsection \<open>Tokens\<close>

datatype token =
    T_kw kw_token
  | T_host string
  | T_error string
  | T_num int
  | T_dnum int int
  | T_word string
  | T_string string
  | T_path string
  | T_open
  | T_close
  | T_end

record lexer =
  lx_in :: string
  lx_mode :: lex_mode
  lx_stack :: "lex_mode list"

text \<open>\<open>PUSH_STATE\<close> and \<open>POP_STATE\<close>; where they fail they return \<open>K_ERROR\<close> from \<open>yylex\<close>.\<close>

definition STACK_SIZE :: nat where [simp]: "STACK_SIZE = 16"

definition push_state :: "lex_mode \<Rightarrow> token option \<Rightarrow> lexer \<Rightarrow> token option \<times> lexer" where
  "push_state m t lx =
     (if length (lx_stack lx) = STACK_SIZE then (Some (T_error []), lx)
      else (t, lx\<lparr>lx_stack := lx_mode lx # lx_stack lx, lx_mode := m\<rparr>))"

definition pop_state :: "token option \<Rightarrow> lexer \<Rightarrow> token option \<times> lexer" where
  "pop_state t lx =
     (case lx_stack lx of
        [] \<Rightarrow> (Some (T_error []), lx)
      | m # ms \<Rightarrow> (t, lx\<lparr>lx_stack := ms, lx_mode := m\<rparr>))"

definition STR_BUF_SIZE :: nat where [simp]: "STR_BUF_SIZE = 255"

definition after_colon :: "string \<Rightarrow> string" where
  "after_colon s = drop 1 (dropWhile (\<lambda>c. c \<noteq> CHR '':'') s)"

text \<open>What a rule does with the text \<open>t\<close> it has matched: a token, or nothing and the lexer goes on.\<close>

fun act :: "lex_rule \<Rightarrow> string \<Rightarrow> lexer \<Rightarrow> token option \<times> lexer" where
  "act R_kword t lx =
     (case find_keyword cfg_keyword t of Some k \<Rightarrow> (Some (T_kw k), lx) | None \<Rightarrow> (Some (T_host t), lx))"
| "act R_word t lx = (Some (T_error t), lx)"
| "act R_open t lx = push_state M_OPTION (Some T_open) lx"
| "act R_close t lx = pop_state (Some T_close) lx"
| "act R_option t lx =
     (case find_keyword cfg_keyword t of
        Some k \<Rightarrow> push_state M_PARAM (Some (T_kw k)) lx
      | None \<Rightarrow> (Some (T_error t), lx))"
| "act R_string t lx = (Some (if length t > STR_BUF_SIZE - 1 then T_end else T_string (butlast (drop 1 t))), lx)"
| "act R_dnum t lx = (Some (T_dnum (atoi t) (atoi (after_colon t))), lx)"
| "act R_num t lx = (Some (T_num (atoi t)), lx)"
| "act R_pword t lx =
     (Some (if keyword_num t \<noteq> - 1 then T_num (keyword_num t) else T_word t), lx)"
| "act R_wordnm t lx =
     (Some (T_dnum (keyword_num (takeWhile (\<lambda>c. c \<noteq> CHR '':'') t)) (atoi (after_colon t))), lx)"
| "act R_path t lx = (Some (T_path t), lx)"
| "act R_semi t lx = pop_state None lx"
| "act _ t lx = (None, lx)"

subsection \<open>Termination\<close>

lemma longest_some: "r \<in> set rs \<Longrightarrow> 0 < matched s r \<Longrightarrow> longest s rs \<noteq> None"
  by (induction rs) (auto split: option.splits prod.splits)

lemma matched_pos: "s \<noteq> [] \<Longrightarrow> longest s (rules m) \<noteq> None"
proof -
  assume s: "s \<noteq> []"
  have r: "R_newline \<in> set (rules m)" "R_garbage \<in> set (rules m)" by (cases m; simp)+
  have "0 < matched s R_newline \<or> 0 < matched s R_garbage" using s by (cases s) (auto simp: m_char_def)
  then show ?thesis using longest_some [OF r(1), of s] longest_some [OF r(2), of s] by blast
qed

lemma m_class_le: "m_class P s \<le> length s"
  by (simp add: m_class_def length_takeWhile_le)

lemma m_path_le: "m_path s \<le> length s"
proof (induction s rule: m_path.induct)
  case (2 c r)
  have "m_class fname_char r \<le> length r" by (rule m_class_le)
  with 2 show ?case by (auto simp: Let_def)
qed simp

lemma dropWhile_length: "dropWhile P s = c # r \<Longrightarrow> m_class P s + Suc (length r) = length s"
proof -
  assume a: "dropWhile P s = c # r"
  have "length (takeWhile P s) + length (dropWhile P s) = length s"
    by (metis length_append takeWhile_dropWhile_id)
  with a show ?thesis by (simp add: m_class_def)
qed

lemma m_pair_le: "m_pair P s \<le> length s"
proof (cases "dropWhile P s")
  case (Cons c r)
  then show ?thesis using dropWhile_length [OF Cons] m_class_le [of is_digit r] by (simp add: m_pair_def)
next
  case Nil
  then show ?thesis unfolding m_pair_def Nil by simp
qed

lemma m_comment_le: "m_comment s \<le> length s"
proof (cases s)
  case (Cons c r)
  have "length (takeWhile (\<lambda>c. c \<noteq> NL) r) < length r" if "dropWhile (\<lambda>c. c \<noteq> NL) r \<noteq> []"
    using that dropWhile_length [of "\<lambda>c. c \<noteq> NL" r] by (cases "dropWhile (\<lambda>c. c \<noteq> NL) r") (auto simp: m_class_def)
  then show ?thesis using Cons by (auto simp: m_comment_def Suc_le_eq)
qed (simp add: m_comment_def)

lemma m_string_le: "m_string s \<le> length s"
proof (cases s)
  case (Cons c r)
  have "length (dropWhile (\<lambda>c. c \<noteq> QUOTE) (rev (takeWhile (\<lambda>c. c \<noteq> NL) r))) \<le> length r"
    by (metis length_dropWhile_le length_rev length_takeWhile_le order_trans)
  then show ?thesis using Cons by (auto simp: m_string_def Let_def)
qed (simp add: m_string_def)

lemma m_char_le: "m_char P s \<le> length s"
  by (simp add: m_char_def split: list.splits)

lemma matched_le: "matched s r \<le> length s"
  by (cases r) (simp_all add: m_char_le m_class_le m_pair_le m_comment_le m_string_le m_path_le)

lemma longest_matched: "longest s rs = Some (r, n) \<Longrightarrow> n = matched s r \<and> 0 < n"
  by (induction rs arbitrary: r n) (fastforce split: option.splits if_splits)+

text \<open>A step of the lexer takes at least one character.\<close>

lemma longest_bounds: "longest s rs = Some (r, n) \<Longrightarrow> 0 < n \<and> n \<le> length s"
  using longest_matched matched_le by blast

lemma act_input: "lx_in (snd (act r t lx)) = lx_in lx"
  by (cases r) (auto simp: push_state_def pop_state_def split: option.splits list.splits)

text \<open>One rule: \<^const>\<open>None\<close> at the end of the input.\<close>

definition lex_step :: "lexer \<Rightarrow> (token option \<times> lexer) option" where
  "lex_step lx =
     map_option (\<lambda>(r, n). act r (take n (lx_in lx)) (lx\<lparr>lx_in := drop n (lx_in lx)\<rparr>))
       (longest (lx_in lx) (rules (lx_mode lx)))"

lemma lex_step_shorter: "lex_step lx = Some (a, lx') \<Longrightarrow> length (lx_in lx') < length (lx_in lx)"
proof -
  assume s: "lex_step lx = Some (a, lx')"
  then obtain r n where r: "longest (lx_in lx) (rules (lx_mode lx)) = Some (r, n)"
    "act r (take n (lx_in lx)) (lx\<lparr>lx_in := drop n (lx_in lx)\<rparr>) = (a, lx')" by (auto simp: lex_step_def)
  have "lx_in lx' = drop n (lx_in lx)"
    using act_input [of r "take n (lx_in lx)" "lx\<lparr>lx_in := drop n (lx_in lx)\<rparr>"] r(2) by simp
  moreover have "0 < n" "0 < length (lx_in lx)" using longest_bounds [OF r(1)] by auto
  ultimately show ?thesis by simp
qed

lemma lex_step_end: "lex_step lx = None \<longleftrightarrow> lx_in lx = []"
proof
  show "lex_step lx = None \<Longrightarrow> lx_in lx = []" using matched_pos [of "lx_in lx" "lx_mode lx"] by (auto simp: lex_step_def)
  have "longest [] rs = None" for rs
    using longest_bounds [of "[]" rs] by (cases "longest [] rs") auto
  then show "lx_in lx = [] \<Longrightarrow> lex_step lx = None" by (simp add: lex_step_def)
qed

subsection \<open>The function\<close>

function yylex :: "lexer \<Rightarrow> token \<times> lexer" where
  "yylex lx =
     (case lex_step lx of
        None \<Rightarrow> (T_end, lx)
      | Some (a, lx') \<Rightarrow> (case a of Some t \<Rightarrow> (t, lx') | None \<Rightarrow> yylex lx'))"
  by pat_completeness auto

termination
  by (relation "measure (length \<circ> lx_in)") (auto dest: lex_step_shorter)

declare yylex.simps [simp del]

lemma yylex_eqs:
  "lex_step lx = None \<Longrightarrow> yylex lx = (T_end, lx)"
  "lex_step lx = Some (Some t, lx') \<Longrightarrow> yylex lx = (t, lx')"
  "lex_step lx = Some (None, lx') \<Longrightarrow> yylex lx = yylex lx'"
  by (simp_all add: yylex.simps [of lx])

lemma yylex_rule [case_names finish token skip]:
  assumes "\<And>lx. lex_step lx = None \<Longrightarrow> P lx" and "\<And>lx t lx'. lex_step lx = Some (Some t, lx') \<Longrightarrow> P lx"
    and "\<And>lx lx'. lex_step lx = Some (None, lx') \<Longrightarrow> P lx' \<Longrightarrow> P lx"
  shows "P lx"
proof (induction "length (lx_in lx)" arbitrary: lx rule: less_induct)
  case less
  show ?case
  proof (cases "lex_step lx")
    case None
    then show ?thesis by (rule assms(1))
  next
    case (Some x)
    obtain a lx' where x: "x = (a, lx')" by (cases x)
    show ?thesis
    proof (cases a)
      case None
      then show ?thesis using assms(3) [of lx lx'] less [of lx'] lex_step_shorter [of lx a lx'] Some x by simp
    next
      case (Some t)
      then show ?thesis using assms(2) [of lx t lx'] \<open>lex_step lx = Some x\<close> x by simp
    qed
  qed
qed

text \<open>Every token but the last takes characters away.\<close>

lemma yylex_shorter:
  "yylex lx = (t, lx') \<Longrightarrow> length (lx_in lx') \<le> length (lx_in lx) \<and> (t \<noteq> T_end \<longrightarrow> length (lx_in lx') < length (lx_in lx))"
proof (induction lx rule: yylex_rule)
  case (skip lx lx1)
  then show ?case using lex_step_shorter [OF skip(1)] by (simp add: yylex_eqs(3) [OF skip(1)])
qed (auto simp: yylex_eqs dest: lex_step_shorter)

text \<open>The tokens up to the end.\<close>

function tokens :: "lexer \<Rightarrow> token list" where
  "tokens lx = (case yylex lx of (t, lx') \<Rightarrow> if t = T_end then [] else t # tokens lx')"
  by pat_completeness auto

termination
  by (relation "measure (length \<circ> lx_in)") (auto dest!: sym [of "(_, _)"] yylex_shorter)

declare tokens.simps [simp del]

lemma tokens_eqs:
  "lex_step lx = None \<Longrightarrow> tokens lx = []"
  "lex_step lx = Some (Some t, lx') \<Longrightarrow> tokens lx = (if t = T_end then [] else t # tokens lx')"
  "lex_step lx = Some (None, lx') \<Longrightarrow> tokens lx = tokens lx'"
  by (simp_all add: tokens.simps [of lx] tokens.simps [of lx'] yylex_eqs)

subsection \<open>The stack of modes\<close>

text \<open>The stack stays within its array.\<close>

definition stack_ok :: "lexer \<Rightarrow> bool" where
  "stack_ok lx = (length (lx_stack lx) \<le> STACK_SIZE)"

lemma act_stack: "stack_ok lx \<Longrightarrow> stack_ok (snd (act r t lx))"
  by (cases r) (auto simp: stack_ok_def push_state_def pop_state_def split: option.splits list.splits)

lemma lex_step_stack: "lex_step lx = Some (a, lx') \<Longrightarrow> stack_ok lx \<Longrightarrow> stack_ok lx'"
proof -
  assume s: "lex_step lx = Some (a, lx')" and ok: "stack_ok lx"
  from s obtain r n where r: "act r (take n (lx_in lx)) (lx\<lparr>lx_in := drop n (lx_in lx)\<rparr>) = (a, lx')"
    by (auto simp: lex_step_def)
  have "stack_ok (lx\<lparr>lx_in := drop n (lx_in lx)\<rparr>)" using ok by (simp add: stack_ok_def)
  from act_stack [OF this, of r "take n (lx_in lx)"] show ?thesis by (simp add: r)
qed

lemma yylex_stack: "stack_ok lx \<Longrightarrow> stack_ok (snd (yylex lx))"
  by (induction lx rule: yylex_rule) (simp_all add: yylex_eqs lex_step_stack)

end
