(* ===== verification/CfgLines.thy ===== *)
theory CfgLines
  imports CfgLex
begin

section \<open>Lines of the configuration file\<close>

text \<open>
  What the lexer makes of a file with one word, number, path, string or bracket in a line. A line is lexed
  as if there was nothing behind it, which is not so for words that share one (\<open>strings_merge\<close>).
\<close>

subsection \<open>Characters\<close>

lemma classes_NL [simp]: "\<not> word_char NL" "\<not> kword_char NL" "\<not> fname_char NL" "\<not> is_digit NL" "NL \<noteq> CHR '':''" "CHR '':'' \<noteq> NL"
  by (simp_all add: word_char_def kword_char_def fname_char_def is_digit_def digits10_def alnum_def NL_def)

lemma digit_cases_char: "is_digit c \<longleftrightarrow> c \<in> {CHR ''0'', CHR ''1'', CHR ''2'', CHR ''3'', CHR ''4'', CHR ''5'', CHR ''6'', CHR ''7'', CHR ''8'', CHR ''9''}"
  by (auto simp: is_digit_def digits10_def)

lemma digit_word: "is_digit c \<Longrightarrow> word_char c"
  unfolding digit_cases_char by (elim insertE emptyE) (simp_all add: word_char_def alnum_def)

lemma kword_word: "kword_char c \<Longrightarrow> word_char c"
  by (auto simp: kword_char_def word_char_def)

text \<open>The characters that have a meaning of their own.\<close>

definition specials :: "char set" where
  "specials = {CHR '' '', CHR 0x09, CHR 0x0A, CHR ''{'', CHR ''}'', CHR '';'', CHR '':'', CHR ''/'', CHR 0x22}"

lemma word_not_special: "word_char c \<Longrightarrow> c \<notin> specials"
  by (auto simp: specials_def word_char_def alnum_def)

lemma word_char_not:
  "word_char c \<Longrightarrow> c \<noteq> CHR '' ''" "word_char c \<Longrightarrow> c \<noteq> CHR 0x09" "word_char c \<Longrightarrow> c \<noteq> NL"
  "word_char c \<Longrightarrow> c \<noteq> CHR ''{''" "word_char c \<Longrightarrow> c \<noteq> CHR ''}''" "word_char c \<Longrightarrow> c \<noteq> CHR '';''"
  "word_char c \<Longrightarrow> c \<noteq> CHR '':''" "word_char c \<Longrightarrow> c \<noteq> CHR ''/''" "word_char c \<Longrightarrow> c \<noteq> QUOTE"
  using word_not_special by (auto simp: specials_def NL_def QUOTE_def)

lemma kword_not_comment: "kword_char c \<Longrightarrow> c \<noteq> CHR ''#''"
  by (auto simp: kword_char_def alnum_def)

subsection \<open>A line and what is behind it\<close>

lemma takeWhile_line: "\<not> P NL \<Longrightarrow> takeWhile P (w @ NL # s) = takeWhile P w"
  by (induction w) auto

lemma dropWhile_line: "\<not> P NL \<Longrightarrow> dropWhile P (w @ NL # s) = dropWhile P w @ NL # s"
  by (induction w) auto

lemma m_class_line: "\<not> P NL \<Longrightarrow> m_class P (w @ NL # s) = m_class P w"
  by (simp add: m_class_def takeWhile_line)

lemma m_char_line: "w \<noteq> [] \<Longrightarrow> m_char P (w @ NL # s) = m_char P w"
  by (cases w) (simp_all add: m_char_def)

lemma m_pair_line:
  assumes "\<not> P NL"
  shows "m_pair P (w @ NL # s) = m_pair P w"
proof (cases "dropWhile P w")
  case Nil
  then show ?thesis unfolding m_pair_def dropWhile_line [where P = P, OF assms] Nil by simp
next
  case (Cons c r)
  then show ?thesis by (simp add: m_pair_def m_class_line dropWhile_line assms)
qed

lemma m_path_line: "m_path (w @ NL # s) = m_path w"
proof (induction w rule: m_path.induct)
  case 1
  then show ?case by (simp add: NL_def)
next
  case (2 c r)
  let ?n = "m_class fname_char r"
  have "?n \<le> length r" by (rule m_class_le)
  then have "drop ?n (r @ NL # s) = drop ?n r @ NL # s" by simp
  with 2 show ?case by (auto simp: m_class_line Let_def)
qed

lemma m_string_line: "w \<noteq> [] \<Longrightarrow> m_string (w @ NL # s) = m_string w"
  by (cases w) (simp_all add: m_string_def takeWhile_line)

lemma m_comment_other: "w \<noteq> [] \<Longrightarrow> hd w \<noteq> CHR ''#'' \<Longrightarrow> m_comment (w @ s) = 0"
  by (cases w) (simp_all add: m_comment_def)

lemma matched_line:
  assumes "w \<noteq> []" and "r = R_comment \<longrightarrow> hd w \<noteq> CHR ''#''"
  shows "matched (w @ NL # s) r = matched w r"
proof (cases "r = R_comment")
  case True
  then show ?thesis using assms m_comment_other [of w "NL # s"] m_comment_other [of w "[]"] by simp
next
  case False
  then show ?thesis using assms(1)
    by (cases r) (simp_all only: matched.simps m_class_line m_char_line m_pair_line m_path_line m_string_line classes_NL
      not_False_eq_True simp_thms)
qed

lemma longest_line:
  "w \<noteq> [] \<Longrightarrow> R_comment \<in> set rs \<longrightarrow> hd w \<noteq> CHR ''#'' \<Longrightarrow> longest (w @ NL # s) rs = longest w rs"
proof (induction rs)
  case (Cons r rs)
  have "matched (w @ NL # s) r = matched w r" by (rule matched_line) (use Cons.prems in auto)
  then show ?case using Cons by (simp split: option.split)
qed simp

text \<open>A rule that matches the whole line is applied unless one before it does so, too.\<close>

lemma longest_whole:
  assumes "\<forall>x \<in> set xs. matched w x < length w" and "matched w r = length w" and "w \<noteq> []"
  shows "longest w (xs @ r # ys) = Some (r, length w)"
  using assms(1)
proof (induction xs)
  case Nil
  have "n \<le> length w" if "longest w ys = Some (r', n)" for r' n using longest_bounds [OF that] by simp
  then show ?case using assms(2,3) by (auto split: option.splits)
next
  case (Cons x xs)
  then show ?case by simp
qed

subsection \<open>Files of lines\<close>

definition lines :: "string list \<Rightarrow> string" where
  "lines ws = concat (map (\<lambda>w. w @ [NL]) ws)"

lemma lines_simps [simp]: "lines [] = []" "lines (w # ws) = w @ NL # lines ws"
  by (simp_all add: lines_def)

definition lexed :: "string list \<Rightarrow> lex_mode \<Rightarrow> lex_mode list \<Rightarrow> token list" where
  "lexed ws m k = tokens \<lparr>lx_in = lines ws, lx_mode = m, lx_stack = k\<rparr>"

lemma skip_NL: "tokens \<lparr>lx_in = NL # s, lx_mode = m, lx_stack = k\<rparr> = tokens \<lparr>lx_in = s, lx_mode = m, lx_stack = k\<rparr>"
proof (rule tokens_eqs(3))
  have z: "\<forall>r. r \<noteq> R_newline \<longrightarrow> matched (NL # s) r = 0"
  proof (intro allI impI)
    fix r
    assume "r \<noteq> R_newline"
    then show "matched (NL # s) r = 0"
      by (cases r) (simp_all add: m_char_def m_class_def m_pair_def m_comment_def m_string_def NL_def QUOTE_def
        word_char_def kword_char_def alnum_def is_digit_def digits10_def)
  qed
  have n: "matched (NL # s) R_newline = 1" by (simp add: m_char_def)
  have "longest (NL # s) rs = (if R_newline \<in> set rs then Some (R_newline, 1) else None)" for rs
  proof (induction rs)
    case (Cons r rs)
    then show ?case using z n by (cases "r = R_newline") auto
  qed simp
  moreover have "R_newline \<in> set (rules m)" by (cases m) simp_all
  ultimately show "lex_step \<lparr>lx_in = NL # s, lx_mode = m, lx_stack = k\<rparr> = Some (None, \<lparr>lx_in = s, lx_mode = m, lx_stack = k\<rparr>)"
    by (simp add: lex_step_def)
qed

lemma lexed_Nil [simp]: "lexed [] m k = []"
  by (simp add: lexed_def tokens_eqs(1) lex_step_end)

text \<open>One line, by the rule that matches it.\<close>

lemma lexed_line:
  assumes "rules m = xs @ r # ys" and "\<forall>x \<in> set xs. matched w x < length w" and "matched w r = length w"
    and "w \<noteq> []" and "m = M_PARAM \<or> hd w \<noteq> CHR ''#''"
    and "act r w \<lparr>lx_in = NL # lines ws, lx_mode = m, lx_stack = k\<rparr> = (a, \<lparr>lx_in = NL # lines ws, lx_mode = m', lx_stack = k'\<rparr>)"
  shows "lexed (w # ws) m k
    = (case a of None \<Rightarrow> lexed ws m' k' | Some t \<Rightarrow> if t = T_end then [] else t # lexed ws m' k')"
proof -
  have c: "R_comment \<in> set (rules m) \<longrightarrow> hd w \<noteq> CHR ''#''" using assms(5) by (cases m) auto
  have "longest (w @ NL # lines ws) (rules m) = Some (r, length w)"
    unfolding longest_line [OF assms(4) c] unfolding assms(1) by (rule longest_whole [OF assms(2,3,4)])
  then have s: "lex_step \<lparr>lx_in = w @ NL # lines ws, lx_mode = m, lx_stack = k\<rparr>
      = Some (a, \<lparr>lx_in = NL # lines ws, lx_mode = m', lx_stack = k'\<rparr>)"
    using assms(6) by (simp add: lex_step_def)
  show ?thesis
  proof (cases a)
    case None
    with s have "tokens \<lparr>lx_in = w @ NL # lines ws, lx_mode = m, lx_stack = k\<rparr>
        = tokens \<lparr>lx_in = NL # lines ws, lx_mode = m', lx_stack = k'\<rparr>" by (intro tokens_eqs(3)) simp
    then show ?thesis using None by (simp add: lexed_def skip_NL)
  next
    case (Some t)
    with s have "tokens \<lparr>lx_in = w @ NL # lines ws, lx_mode = m, lx_stack = k\<rparr>
        = (if t = T_end then [] else t # tokens \<lparr>lx_in = NL # lines ws, lx_mode = m', lx_stack = k'\<rparr>)"
      by (intro tokens_eqs(2)) simp
    then show ?thesis using Some by (simp add: lexed_def skip_NL)
  qed
qed

subsection \<open>What the lines become\<close>

definition num_text :: "string \<Rightarrow> bool" where
  "num_text w = (w \<noteq> [] \<and> list_all is_digit w)"

text \<open>A word that is neither a number nor one of the special parameters.\<close>

definition word_text :: "string \<Rightarrow> bool" where
  "word_text w = (w \<noteq> [] \<and> list_all word_char w \<and> \<not> list_all is_digit w \<and> keyword_num w = - 1)"

definition name_text :: "string \<Rightarrow> bool" where
  "name_text w = (w \<noteq> [] \<and> list_all kword_char w \<and> find_keyword cfg_keyword w = None)"

definition path_text :: "string \<Rightarrow> bool" where
  "path_text w = (w \<noteq> [] \<and> m_path w = length w)"

definition quoted_text :: "string \<Rightarrow> bool" where
  "quoted_text s = (NL \<notin> set s \<and> length s \<le> 252)"

definition quoted :: "string \<Rightarrow> string" where
  "quoted s = QUOTE # s @ [QUOTE]"

lemma m_class_all: "list_all P w \<Longrightarrow> m_class P w = length w"
  by (metis m_class_def takeWhile_eq_all_conv list_all_iff)

lemma m_class_part: "\<not> list_all P w \<Longrightarrow> m_class P w < length w"
proof (induction w)
  case (Cons c w)
  then show ?case by (auto simp: m_class_def)
qed simp

lemma m_char_hd: "w \<noteq> [] \<Longrightarrow> \<not> P (hd w) \<Longrightarrow> m_char P w = 0"
  by (cases w) (simp_all add: m_char_def)

lemma m_string_hd: "w \<noteq> [] \<Longrightarrow> hd w \<noteq> QUOTE \<Longrightarrow> m_string w = 0"
  by (cases w) (simp_all add: m_string_def Let_def)

lemma m_pair_no_colon: "CHR '':'' \<notin> set w \<Longrightarrow> m_pair P w = 0"
proof (cases "dropWhile P w")
  case (Cons c r)
  assume "CHR '':'' \<notin> set w"
  then have "c \<noteq> CHR '':''" using set_dropWhileD [of c P w] Cons by auto
  then show ?thesis by (simp add: m_pair_def Cons)
next
  case Nil
  show ?thesis unfolding m_pair_def Nil by simp
qed

lemma hd_class: "w \<noteq> [] \<Longrightarrow> list_all P w \<Longrightarrow> P (hd w)"
  by (cases w) simp_all

lemmas first_rules = m_char_hd m_string_hd word_char_not

lemma lexed_name:
  assumes "w \<noteq> []" and "list_all kword_char w"
  shows "lexed (w # ws) M_INITIAL k
    = (case find_keyword cfg_keyword w of Some t \<Rightarrow> T_kw t | None \<Rightarrow> T_host w) # lexed ws M_INITIAL k"
proof -
  have h: "kword_char (hd w)" "word_char (hd w)" using hd_class [OF assms] kword_word by auto
  have "m_comment w = 0" using m_comment_other [of w "[]"] kword_not_comment h(1) assms(1) by auto
  then have "lexed (w # ws) M_INITIAL k
      = (case Some (case find_keyword cfg_keyword w of Some t \<Rightarrow> T_kw t | None \<Rightarrow> T_host w) of
           None \<Rightarrow> lexed ws M_INITIAL k | Some t \<Rightarrow> if t = T_end then [] else t # lexed ws M_INITIAL k)"
    using assms h kword_not_comment [of "hd w"]
    by (intro lexed_line [where xs = "[R_space, R_newline, R_comment]" and r = R_kword and
        ys = "[R_word, R_open, R_close, R_garbage]"])
      (auto simp: first_rules m_class_all split: option.splits)
  then show ?thesis by (simp split: option.splits)
qed

lemma lexed_option:
  assumes "w \<noteq> []" and "list_all word_char w" and "hd w \<noteq> CHR ''#''" and "find_keyword cfg_keyword w = Some t"
    and "length k < STACK_SIZE"
  shows "lexed (w # ws) M_OPTION k = T_kw t # lexed ws M_PARAM (M_OPTION # k)"
proof -
  have h: "word_char (hd w)" using hd_class [OF assms(1,2)] .
  have "m_comment w = 0" using m_comment_other [of w "[]"] assms(1,3) by auto
  then have "lexed (w # ws) M_OPTION k
      = (case Some (T_kw t) of None \<Rightarrow> lexed ws M_PARAM (M_OPTION # k)
         | Some t \<Rightarrow> if t = T_end then [] else t # lexed ws M_PARAM (M_OPTION # k))"
    using assms h
    by (intro lexed_line [where xs = "[R_space, R_newline, R_comment, R_open, R_close]" and r = R_option and ys = "[R_garbage]"])
      (auto simp: first_rules m_class_all push_state_def)
  then show ?thesis by simp
qed

lemma bracket_chars: "\<not> word_char (CHR ''{'')" "\<not> word_char (CHR ''}'')" "\<not> word_char (CHR '';'')"
  "\<not> kword_char (CHR ''{'')" "\<not> kword_char (CHR ''}'')" "\<not> is_digit (CHR '';'')" "CHR ''{'' \<noteq> NL" "CHR ''}'' \<noteq> NL" "CHR '';'' \<noteq> NL"
  "QUOTE \<noteq> CHR '';''" "QUOTE \<noteq> CHR ''{''" "QUOTE \<noteq> CHR ''}''" "QUOTE \<noteq> NL" "QUOTE \<noteq> CHR '' ''" "QUOTE \<noteq> CHR 0x09"
  by (simp_all add: word_char_def kword_char_def alnum_def NL_def QUOTE_def is_digit_def digits10_def)

lemma lexed_open:
  assumes "length k < STACK_SIZE"
  shows "lexed (''{'' # ws) m k = T_open # lexed ws M_OPTION (m # k)"
proof -
  have "lexed (''{'' # ws) m k = (case Some T_open of None \<Rightarrow> lexed ws M_OPTION (m # k)
      | Some t \<Rightarrow> if t = T_end then [] else t # lexed ws M_OPTION (m # k))"
  proof (cases m)
    case M_INITIAL
    then show ?thesis using assms
      by (intro lexed_line [where xs = "[R_space, R_newline, R_comment, R_kword, R_word]" and r = R_open and ys = "[R_close, R_garbage]"])
        (auto simp: m_char_def m_class_def m_comment_def bracket_chars push_state_def)
  next
    case M_OPTION
    then show ?thesis using assms
      by (intro lexed_line [where xs = "[R_space, R_newline, R_comment]" and r = R_open and ys = "[R_close, R_option, R_garbage]"])
        (auto simp: m_char_def m_class_def m_comment_def bracket_chars push_state_def)
  next
    case M_PARAM
    then show ?thesis using assms
      by (intro lexed_line [where xs = "[R_space, R_newline]" and r = R_open and
          ys = "[R_close, R_string, R_dnum, R_num, R_pword, R_wordnm, R_path, R_semi, R_garbage]"])
        (auto simp: m_char_def bracket_chars push_state_def)
  qed
  then show ?thesis by simp
qed

lemma lexed_close: "lexed (''}'' # ws) m (m' # k) = T_close # lexed ws m' k"
proof -
  have "lexed (''}'' # ws) m (m' # k) = (case Some T_close of None \<Rightarrow> lexed ws m' k
      | Some t \<Rightarrow> if t = T_end then [] else t # lexed ws m' k)"
  proof (cases m)
    case M_INITIAL
    then show ?thesis
      by (intro lexed_line [where xs = "[R_space, R_newline, R_comment, R_kword, R_word, R_open]" and r = R_close and ys = "[R_garbage]"])
        (auto simp: m_char_def m_class_def m_comment_def bracket_chars pop_state_def)
  next
    case M_OPTION
    then show ?thesis
      by (intro lexed_line [where xs = "[R_space, R_newline, R_comment, R_open]" and r = R_close and ys = "[R_option, R_garbage]"])
        (auto simp: m_char_def m_class_def m_comment_def bracket_chars pop_state_def)
  next
    case M_PARAM
    then show ?thesis
      by (intro lexed_line [where xs = "[R_space, R_newline, R_open]" and r = R_close and
          ys = "[R_string, R_dnum, R_num, R_pword, R_wordnm, R_path, R_semi, R_garbage]"])
        (auto simp: m_char_def bracket_chars pop_state_def)
  qed
  then show ?thesis by simp
qed

text \<open>Parameters.\<close>

lemma lexed_semi: "lexed ('';'' # ws) M_PARAM (m # k) = lexed ws m k"
proof -
  have p: "m_path '';'' = 0" "m_string '';'' = 0" "m_pair P '';'' = 0" for P
    by (simp_all add: m_string_def m_pair_no_colon Let_def bracket_chars)
  have "lexed ('';'' # ws) M_PARAM (m # k) = (case None of None \<Rightarrow> lexed ws m k
      | Some t \<Rightarrow> if t = T_end then [] else t # lexed ws m k)"
    by (intro lexed_line [where xs = "[R_space, R_newline, R_open, R_close, R_string, R_dnum, R_num, R_pword, R_wordnm, R_path]"
          and r = R_semi and ys = "[R_garbage]"])
      (auto simp: m_char_def m_class_def bracket_chars pop_state_def p)
  then show ?thesis by simp
qed

text \<open>A parameter that changes neither mode nor stack.\<close>

lemma lexed_param:
  assumes "rules M_PARAM = xs @ r # ys" and "\<forall>x \<in> set xs. matched w x < length w" and "matched w r = length w"
    and "w \<noteq> []" and "\<And>lx. act r w lx = (Some t, lx)" and "t \<noteq> T_end"
  shows "lexed (w # ws) M_PARAM k = t # lexed ws M_PARAM k"
  using lexed_line [OF assms(1-4) _ assms(5)] assms(6) by simp

lemma word_no_colon: "list_all word_char w \<Longrightarrow> CHR '':'' \<notin> set w"
  using word_char_not(7) by (auto simp: list_all_iff)

lemma at_colon:
  assumes "CHR '':'' \<notin> set a"
  shows "takeWhile (\<lambda>c. c \<noteq> CHR '':'') (a @ CHR '':'' # b) = a" "dropWhile (\<lambda>c. c \<noteq> CHR '':'') (a @ CHR '':'' # b) = CHR '':'' # b"
    "takeWhile (\<lambda>c. c \<noteq> CHR '':'') a = a" "dropWhile (\<lambda>c. c \<noteq> CHR '':'') a = []"
  using assms by (induction a) auto

lemma lexed_num:
  assumes "num_text w"
  shows "lexed (w # ws) M_PARAM k = T_num (atoi w) # lexed ws M_PARAM k"
proof -
  have w: "w \<noteq> []" "list_all is_digit w" "word_char (hd w)" "list_all word_char w"
    using assms hd_class [of w is_digit] digit_word by (auto simp: num_text_def list_all_iff)
  show ?thesis
    by (intro lexed_param [where xs = "[R_space, R_newline, R_open, R_close, R_string, R_dnum]" and r = R_num
          and ys = "[R_pword, R_wordnm, R_path, R_semi, R_garbage]"])
      (use w in \<open>auto simp: first_rules m_class_all m_pair_no_colon word_no_colon\<close>)
qed

text \<open>A word that is not a number, special or not.\<close>

lemma lexed_special:
  assumes "w \<noteq> []" and "list_all word_char w" and "\<not> list_all is_digit w"
  shows "lexed (w # ws) M_PARAM k
    = (if keyword_num w \<noteq> - 1 then T_num (keyword_num w) else T_word w) # lexed ws M_PARAM k"
proof -
  have h: "word_char (hd w)" using assms hd_class by blast
  show ?thesis
    by (intro lexed_param [where xs = "[R_space, R_newline, R_open, R_close, R_string, R_dnum, R_num]" and r = R_pword
          and ys = "[R_wordnm, R_path, R_semi, R_garbage]"])
      (use h assms in \<open>auto simp: first_rules m_class_all m_class_part m_pair_no_colon word_no_colon\<close>)
qed

lemma lexed_word: "word_text w \<Longrightarrow> lexed (w # ws) M_PARAM k = T_word w # lexed ws M_PARAM k"
  by (simp add: word_text_def lexed_special)

lemma lexed_dnum:
  assumes "num_text a" and "num_text b"
  shows "lexed ((a @ CHR '':'' # b) # ws) M_PARAM k
    = T_dnum (atoi (a @ CHR '':'' # b)) (atoi b) # lexed ws M_PARAM k"
proof -
  let ?w = "a @ CHR '':'' # b"
  have a: "a \<noteq> []" "list_all is_digit a" "b \<noteq> []" "list_all is_digit b" using assms by (auto simp: num_text_def)
  have h: "word_char (hd ?w)" using a hd_class [of a is_digit] digit_word by simp
  have c: "\<not> is_digit (CHR '':'')" by (simp add: is_digit_def digits10_def)
  have tw: "takeWhile is_digit ?w = a" "dropWhile is_digit ?w = CHR '':'' # b"
    using a(2) c by (simp_all add: list_all_iff)
  have m: "m_pair is_digit ?w = length ?w"
    unfolding m_pair_def tw by (use a tw in \<open>simp add: m_class_def [of is_digit ?w] m_class_all\<close>)
  have "\<forall>c \<in> set a. c \<noteq> CHR '':''" using a(2) c by (auto simp: list_all_iff)
  then have ac: "after_colon ?w = b" by (simp add: after_colon_def)
  show ?thesis
    by (intro lexed_param [where xs = "[R_space, R_newline, R_open, R_close, R_string]" and r = R_dnum
          and ys = "[R_num, R_pword, R_wordnm, R_path, R_semi, R_garbage]"])
      (use h m ac in \<open>auto simp: first_rules\<close>)
qed

text \<open>A word that is not a number, with a number.\<close>

lemma lexed_wordnm:
  assumes "a \<noteq> []" and "list_all word_char a" and "\<not> list_all is_digit a" and "num_text b"
  shows "lexed ((a @ CHR '':'' # b) # ws) M_PARAM k = T_dnum (keyword_num a) (atoi b) # lexed ws M_PARAM k"
proof -
  let ?w = "a @ CHR '':'' # b"
  have b: "b \<noteq> []" "list_all is_digit b" using assms(4) by (simp_all add: num_text_def)
  have h: "word_char (hd ?w)" "\<not> word_char (CHR '':'')" using assms(1,2) hd_class [of a word_char] word_char_not(7) by auto
  have tw: "takeWhile word_char ?w = a" "dropWhile word_char ?w = CHR '':'' # b"
    using assms(2) h(2) by (simp_all add: list_all_iff)
  have m: "m_pair word_char ?w = length ?w" "m_class word_char ?w = length a"
    unfolding m_pair_def tw by (use assms(1) b tw in \<open>simp_all add: m_class_def [of word_char ?w] m_class_all\<close>)
  have nc: "takeWhile (\<lambda>c. c \<noteq> CHR '':'') ?w = a" "after_colon ?w = b"
    using at_colon(1,2) [OF word_no_colon [OF assms(2)], of b] by (simp_all add: after_colon_def)
  have "dropWhile is_digit a \<noteq> []" using assms(3) by (auto simp: list_all_iff)
  then obtain c r where c: "dropWhile is_digit a = c # r" by (cases "dropWhile is_digit a") auto
  have "c \<in> set a" using c by (metis list.set_intros(1) set_dropWhileD)
  then have "c \<noteq> CHR '':''" using word_no_colon [OF assms(2)] by auto
  moreover have "dropWhile is_digit ?w = c # r @ CHR '':'' # b" using c assms(3) by (auto simp: dropWhile_append list_all_iff)
  ultimately have d: "m_pair is_digit ?w = 0" "m_class is_digit ?w < length ?w"
    using m_class_part [of is_digit ?w] assms(3) by (auto simp: m_pair_def)
  show ?thesis
    by (intro lexed_param [where xs = "[R_space, R_newline, R_open, R_close, R_string, R_dnum, R_num, R_pword]" and r = R_wordnm
          and ys = "[R_path, R_semi, R_garbage]"])
      (use h m d nc assms(1) in \<open>auto simp: first_rules\<close>)
qed

lemma lexed_quoted:
  assumes "quoted_text s"
  shows "lexed (quoted s # ws) M_PARAM k = T_string s # lexed ws M_PARAM k"
proof -
  have n: "NL \<notin> set s" "NL \<noteq> QUOTE" using assms bracket_chars by (auto simp: quoted_text_def)
  have "takeWhile (\<lambda>c. c \<noteq> NL) (s @ [QUOTE]) = s @ [QUOTE]" using n by (subst takeWhile_eq_all_conv) auto
  then have m: "m_string (quoted s) = length (quoted s)" by (simp add: m_string_def quoted_def)
  have l: "length s < 253" using assms by (simp add: quoted_text_def)
  show ?thesis
    by (intro lexed_param [where xs = "[R_space, R_newline, R_open, R_close]" and r = R_string
          and ys = "[R_dnum, R_num, R_pword, R_wordnm, R_path, R_semi, R_garbage]"])
      (use m l in \<open>auto simp: m_char_def quoted_def bracket_chars\<close>)
qed

lemma path_hd: "path_text w \<Longrightarrow> hd w = CHR ''/''"
  by (cases w) (auto simp: path_text_def Let_def split: if_splits)

lemma lexed_path:
  assumes "path_text w"
  shows "lexed (w # ws) M_PARAM k = T_path w # lexed ws M_PARAM k"
proof -
  have w: "w \<noteq> []" "m_path w = length w" "hd w = CHR ''/''" using assms path_hd by (auto simp: path_text_def)
  have c: "\<not> word_char (CHR ''/'')" "\<not> is_digit (CHR ''/'')" "CHR ''/'' \<noteq> NL" "CHR ''/'' \<noteq> QUOTE"
    by (simp_all add: word_char_def alnum_def is_digit_def digits10_def NL_def QUOTE_def)
  have z: "m_class P w = 0" if "\<not> P (CHR ''/'')" for P using w(1,3) that by (cases w) (simp_all add: m_class_def)
  have "m_pair P w = 0" if "\<not> P (CHR ''/'')" for P
    using z [where P = P, OF that] by (simp add: m_pair_def split: list.splits)
  then show ?thesis
    by (intro lexed_param [where xs = "[R_space, R_newline, R_open, R_close, R_string, R_dnum, R_num, R_pword, R_wordnm]" and r = R_path
          and ys = "[R_semi, R_garbage]"])
      (use w c z in \<open>auto simp: m_char_hd m_string_hd\<close>)
qed

text \<open>
  Two strings in one line are one: the text from the first quote to the last of the line, whatever is
  between them.
\<close>

lemma strings_merge:
  assumes "quoted_text (s @ [QUOTE] @ u @ [QUOTE] @ t)"
  shows "lexed ((quoted s @ u @ quoted t) # ws) M_PARAM k
    = T_string (s @ [QUOTE] @ u @ [QUOTE] @ t) # lexed ws M_PARAM k"
  using lexed_quoted [OF assms] by (simp add: quoted_def)

end
