(* ===== verification/LList.thy ===== *)
theory LList
  imports VtunHost "HOL-Library.Sublist"
begin

section \<open>Linked lists (\<open>llist.c\<close>)\<close>

text \<open>
  The singly linked lists of the configuration (hosts, commands). The heap maps the address of an
  element to its \<open>data\<close> and \<open>next\<close>; \<open>free\<close> takes the element out of it. Reading an element that is
  not there, or the \<open>tail\<close> of a list that has none, is undefined: the result is \<^const>\<open>None\<close>.
  \<open>malloc\<close> is a parameter that chooses an address or NULL. The functions passed to a walk act on a
  state of their own.
\<close>

type_synonym addr = nat

record 'd elm =
  e_next :: "addr option"
  e_data :: 'd

type_synonym 'd heap = "addr \<Rightarrow> 'd elm option"

record llist =
  l_head :: "addr option"
  l_tail :: "addr option"

definition llist_init :: llist where
  "llist_init = \<lparr>l_head = None, l_tail = None\<rparr>"

definition llist_empty :: "llist \<Rightarrow> bool" where
  "llist_empty l = (l_tail l = None)"

definition llist_add :: "('d heap \<Rightarrow> addr option) \<Rightarrow> llist \<Rightarrow> 'd \<Rightarrow> 'd heap \<Rightarrow> (int \<times> llist \<times> 'd heap) option" where
  "llist_add malloc l d H =
     (case malloc H of
        None \<Rightarrow> Some (- 1, l, H)
      | Some e \<Rightarrow>
          (let H1 = H(e \<mapsto> \<lparr>e_next = None, e_data = d\<rparr>);
               l1 = l\<lparr>l_tail := Some e\<rparr>
           in if l_head l = None then Some (0, l1\<lparr>l_head := Some e\<rparr>, H1)
              else (case l_tail l of
                      None \<Rightarrow> None
                    | Some t \<Rightarrow>
                        (case H t of
                           None \<Rightarrow> None
                         | Some x \<Rightarrow> Some (0, l1, (H(t \<mapsto> x\<lparr>e_next := Some e\<rparr>))
                                                  (e \<mapsto> \<lparr>e_next = None, e_data = d\<rparr>))))))"

partial_function (option) trav_from :: "('d \<Rightarrow> 's \<Rightarrow> int \<times> 's) \<Rightarrow> 'd heap \<Rightarrow> addr option \<Rightarrow> 's
    \<Rightarrow> ('d option \<times> 's) option" where
  "trav_from f H i s =
     (case i of
        None \<Rightarrow> Some (None, s)
      | Some a \<Rightarrow>
          (case H a of
             None \<Rightarrow> None
           | Some x \<Rightarrow>
               (case f (e_data x) s of
                  (r, s') \<Rightarrow> if r \<noteq> 0 then Some (Some (e_data x), s') else trav_from f H (e_next x) s')))"

definition llist_trav :: "llist \<Rightarrow> ('d \<Rightarrow> 's \<Rightarrow> int \<times> 's) \<Rightarrow> 'd heap \<Rightarrow> 's \<Rightarrow> ('d option \<times> 's) option" where
  "llist_trav l f H s = trav_from f H (l_head l) s"

text \<open>\<open>llist_copy\<close>: the result of \<open>llist_add\<close> is not looked at.\<close>

partial_function (option) copy_from :: "('d heap \<Rightarrow> addr option) \<Rightarrow> ('d \<Rightarrow> 's \<Rightarrow> 'd \<times> 's) \<Rightarrow> addr option
    \<Rightarrow> llist \<Rightarrow> 'd heap \<Rightarrow> 's \<Rightarrow> (llist \<times> 'd heap \<times> 's) option" where
  "copy_from malloc f i t H s =
     (case i of
        None \<Rightarrow> Some (t, H, s)
      | Some a \<Rightarrow>
          (case H a of
             None \<Rightarrow> None
           | Some x \<Rightarrow>
               (case f (e_data x) s of
                  (d, s') \<Rightarrow>
                    (case llist_add malloc t d H of
                       None \<Rightarrow> None
                     | Some (_, t', H') \<Rightarrow>
                         (case H' a of
                            None \<Rightarrow> None
                          | Some y \<Rightarrow> copy_from malloc f (e_next y) t' H' s')))))"

definition llist_copy :: "('d heap \<Rightarrow> addr option) \<Rightarrow> llist \<Rightarrow> ('d \<Rightarrow> 's \<Rightarrow> 'd \<times> 's) \<Rightarrow> 'd heap \<Rightarrow> 's
    \<Rightarrow> (int \<times> llist \<times> 'd heap \<times> 's) option" where
  "llist_copy malloc l f H s =
     map_option (\<lambda>(t, H', s'). (0, t, H', s')) (copy_from malloc f (l_head l) llist_init H s)"

text \<open>\<open>llist_free\<close>: an element for which \<open>f\<close> answers is kept, and the data of the last such is the result.\<close>

partial_function (option) free_from :: "('d \<Rightarrow> 's \<Rightarrow> int \<times> 's) \<Rightarrow> addr option \<Rightarrow> 'd option \<Rightarrow> 'd heap \<Rightarrow> 's
    \<Rightarrow> ('d option \<times> 'd heap \<times> 's) option" where
  "free_from f i ff H s =
     (case i of
        None \<Rightarrow> Some (ff, H, s)
      | Some a \<Rightarrow>
          (case H a of
             None \<Rightarrow> None
           | Some x \<Rightarrow>
               (case f (e_data x) s of
                  (r, s') \<Rightarrow> if r \<noteq> 0 then free_from f (e_next x) (Some (e_data x)) H s'
                             else free_from f (e_next x) ff (H(a := None)) s')))"

definition llist_free :: "llist \<Rightarrow> ('d \<Rightarrow> 's \<Rightarrow> int \<times> 's) \<Rightarrow> 'd heap \<Rightarrow> 's
    \<Rightarrow> ('d option \<times> llist \<times> 'd heap \<times> 's) option" where
  "llist_free l f H s =
     map_option (\<lambda>(ff, H', s'). (ff, llist_init, H', s')) (free_from f (l_head l) None H s)"

subsection \<open>The lists they represent\<close>

text \<open>The elements from a pointer to the end, with their addresses.\<close>

fun lseg :: "'d heap \<Rightarrow> addr option \<Rightarrow> (addr \<times> 'd) list \<Rightarrow> bool" where
  "lseg H i [] = (i = None)"
| "lseg H i ((a, d) # xs) = (i = Some a \<and> (\<exists>n. H a = Some \<lparr>e_next = n, e_data = d\<rparr> \<and> lseg H n xs))"

definition llist_repr :: "'d heap \<Rightarrow> llist \<Rightarrow> (addr \<times> 'd) list \<Rightarrow> bool" where
  "llist_repr H l xs = (lseg H (l_head l) xs \<and> distinct (map fst xs)
     \<and> l_tail l = (if xs = [] then None else Some (fst (last xs))))"

text \<open>What the walks do, on lists.\<close>

fun trav_list :: "('d \<Rightarrow> 's \<Rightarrow> int \<times> 's) \<Rightarrow> 'd list \<Rightarrow> 's \<Rightarrow> 'd option \<times> 's" where
  "trav_list f [] s = (None, s)"
| "trav_list f (d # ds) s = (case f d s of (r, s') \<Rightarrow> if r \<noteq> 0 then (Some d, s') else trav_list f ds s')"

fun free_list :: "('d \<Rightarrow> 's \<Rightarrow> int \<times> 's) \<Rightarrow> 'd list \<Rightarrow> 'd option \<Rightarrow> 's \<Rightarrow> 'd option \<times> 's" where
  "free_list f [] ff s = (ff, s)"
| "free_list f (d # ds) ff s =
     (case f d s of (r, s') \<Rightarrow> free_list f ds (if r \<noteq> 0 then Some d else ff) s')"

fun map_state :: "('d \<Rightarrow> 's \<Rightarrow> 'd \<times> 's) \<Rightarrow> 'd list \<Rightarrow> 's \<Rightarrow> 'd list \<times> 's" where
  "map_state f [] s = ([], s)"
| "map_state f (d # ds) s =
     (case f d s of (d', s') \<Rightarrow> (case map_state f ds s' of (ds', s'') \<Rightarrow> (d' # ds', s'')))"

lemma lseg_frame: "lseg H i xs \<Longrightarrow> (\<And>a. a \<in> fst ` set xs \<Longrightarrow> H' a = H a) \<Longrightarrow> lseg H' i xs"
  by (induction H i xs rule: lseg.induct) auto

lemma lseg_upd [simp]: "a \<notin> fst ` set xs \<Longrightarrow> lseg (H(a := v)) i xs = lseg H i xs"
proof -
  assume a: "a \<notin> fst ` set xs"
  then have e: "(H(a := v)) b = H b" "H b = (H(a := v)) b" if "b \<in> fst ` set xs" for b using that by auto
  show ?thesis using lseg_frame [where H = H and H' = "H(a := v)", OF _ e(1)]
      lseg_frame [where H' = H and H = "H(a := v)", OF _ e(2)] by blast
qed

lemma trav_from_list: "lseg H i xs \<Longrightarrow> trav_from f H i s = Some (trav_list f (map snd xs) s)"
  by (induction H i xs arbitrary: s rule: lseg.induct) (auto simp: trav_from.simps split: prod.splits)

lemma llist_trav_list: "llist_repr H l xs \<Longrightarrow> llist_trav l f H s = Some (trav_list f (map snd xs) s)"
  by (simp add: llist_trav_def llist_repr_def trav_from_list)

lemma lseg_mem: "lseg H i xs \<Longrightarrow> a \<in> fst ` set xs \<Longrightarrow> H a \<noteq> None"
  by (induction H i xs rule: lseg.induct) auto

lemma lseg_snoc:
  assumes "lseg H i xs" and "xs \<noteq> []" and "distinct (map fst xs)" and "H e = None"
    and "H (fst (last xs)) = Some x"
  shows "lseg (H(fst (last xs) \<mapsto> x\<lparr>e_next := Some e\<rparr>, e \<mapsto> \<lparr>e_next = None, e_data = d\<rparr>)) i (xs @ [(e, d)])"
  using assms
proof (induction xs arbitrary: i)
  case (Cons y xs)
  obtain a b where y: "y = (a, b)" by (cases y)
  from Cons.prems(1) y obtain n where n: "i = Some a" "H a = Some \<lparr>e_next = n, e_data = b\<rparr>" "lseg H n xs" by auto
  have ne: "a \<noteq> e" using n Cons.prems(4) by auto
  show ?case
  proof (cases "xs = []")
    case True
    then show ?thesis using n y ne Cons.prems(5) by (cases x) auto
  next
    case False
    then have "fst (last xs) \<noteq> a" using Cons.prems(3) y by (metis distinct.simps(2) fst_conv image_eqI last_in_set list.simps(9) set_map)
    then show ?thesis using Cons.IH [OF n(3) False] Cons.prems(3-5) n y False ne by simp
  qed
qed simp

lemma llist_add_repr:
  assumes r: "llist_repr H l xs" and m: "malloc H = Some e" and e: "H e = None"
  shows "\<exists>l' H'. llist_add malloc l d H = Some (0, l', H') \<and> llist_repr H' l' (xs @ [(e, d)])
    \<and> (\<forall>a. a \<noteq> e \<longrightarrow> a \<notin> fst ` set xs \<longrightarrow> H' a = H a)"
proof (cases "xs = []")
  case True
  then show ?thesis using r m by (simp add: llist_add_def llist_repr_def Let_def)
next
  case False
  let ?t = "fst (last xs)"
  have l: "lseg H (l_head l) xs" "distinct (map fst xs)" "l_tail l = Some ?t"
    using r False by (simp_all add: llist_repr_def)
  have t: "?t \<in> fst ` set xs" using False by simp
  obtain x where x: "H ?t = Some x" using lseg_mem [OF l(1) t] by auto
  have h: "l_head l \<noteq> None" using l(1) False by (cases xs) auto
  have "e \<notin> fst ` set xs" using lseg_mem [OF l(1)] e by blast
  moreover have "lseg (H(?t \<mapsto> x\<lparr>e_next := Some e\<rparr>, e \<mapsto> \<lparr>e_next = None, e_data = d\<rparr>)) (l_head l) (xs @ [(e, d)])"
    by (rule lseg_snoc [OF l(1) False l(2) e x])
  moreover have "\<forall>a. a \<noteq> e \<longrightarrow> a \<notin> fst ` set xs \<longrightarrow>
      (H(?t \<mapsto> x\<lparr>e_next := Some e\<rparr>, e \<mapsto> \<lparr>e_next = None, e_data = d\<rparr>)) a = H a"
    using t by (metis fun_upd_apply)
  moreover have "llist_add malloc l d H = Some (0, l\<lparr>l_tail := Some e\<rparr>,
      H(?t \<mapsto> x\<lparr>e_next := Some e\<rparr>, e \<mapsto> \<lparr>e_next = None, e_data = d\<rparr>))"
    using m h l(3) x by (auto simp: llist_add_def Let_def)
  ultimately show ?thesis using l by (simp add: llist_repr_def)
qed

text \<open>What is left on the heap: the elements the function answered for.\<close>

fun kept :: "('d \<Rightarrow> 's \<Rightarrow> int \<times> 's) \<Rightarrow> (addr \<times> 'd) list \<Rightarrow> 's \<Rightarrow> addr list" where
  "kept f [] s = []"
| "kept f ((a, d) # xs) s = (case f d s of (r, s') \<Rightarrow> (if r \<noteq> 0 then [a] else []) @ kept f xs s')"

lemma kept_subset: "set (kept f xs s) \<subseteq> fst ` set xs"
  by (induction f xs s rule: kept.induct) (auto split: prod.splits if_splits)

lemma llist_free_from:
  assumes "lseg H i xs" and "distinct (map fst xs)"
  shows "free_from f i ff H s
    = Some (fst (free_list f (map snd xs) ff s),
            (\<lambda>a. if a \<in> fst ` set xs \<and> a \<notin> set (kept f xs s) then None else H a),
            snd (free_list f (map snd xs) ff s))"
  using assms
proof (induction xs arbitrary: i H s ff)
  case Nil
  then show ?case by (simp add: free_from.simps)
next
  case (Cons y xs)
  obtain a d where y: "y = (a, d)" by (cases y)
  from Cons.prems(1) y obtain n where n: "i = Some a" "H a = Some \<lparr>e_next = n, e_data = d\<rparr>" "lseg H n xs" by auto
  have a: "a \<notin> fst ` set xs" "distinct (map fst xs)" using Cons.prems(2) y by auto
  obtain r s' where f: "f d s = (r, s')" by (cases "f d s")
  have na: "a \<notin> set (kept f xs s')" using kept_subset [of f xs s'] a(1) by auto
  show ?case
  proof (cases "r \<noteq> 0")
    case True
    then show ?thesis using n y f Cons.IH [OF n(3) a(2)] a(1) by (auto simp: free_from.simps [of f "Some a"] fun_eq_iff)
  next
    case False
    have "lseg (H(a := None)) n xs" using n(3) a(1) by simp
    note ih = Cons.IH [OF this a(2)]
    have "free_from f i ff H s = free_from f n ff (H(a := None)) s'"
      using n f False by (simp add: free_from.simps [of f "Some a"] del: fun_upd_apply)
    then show ?thesis unfolding ih using y f False a(1) na by (auto simp: fun_eq_iff)
  qed
qed

lemma llist_free_list:
  assumes "llist_repr H l xs"
  shows "\<exists>H'. llist_free l f H s
      = Some (fst (free_list f (map snd xs) None s), llist_init, H', snd (free_list f (map snd xs) None s))
    \<and> llist_repr H' llist_init []
    \<and> (\<forall>a\<in>fst ` set xs. H' a = (if a \<in> set (kept f xs s) then H a else None))
    \<and> (\<forall>a. a \<notin> fst ` set xs \<longrightarrow> H' a = H a)"
  using llist_free_from [of H "l_head l" xs f None s] assms
  by (auto simp: llist_free_def llist_repr_def llist_init_def)

text \<open>
  \<open>llist_copy\<close> makes a list of its own, with the images in the same order. \<open>malloc\<close> hands out
  addresses that are not in use, or fails; then the element is missing in the copy.
\<close>

definition fresh_malloc :: "('d heap \<Rightarrow> addr option) \<Rightarrow> bool" where
  "fresh_malloc malloc = (\<forall>H e. malloc H = Some e \<longrightarrow> H e = None)"

lemma llist_add_any:
  assumes "llist_repr H l xs" and "fresh_malloc malloc"
  shows "\<exists>r l' H' zs. llist_add malloc l d H = Some (r, l', H') \<and> llist_repr H' l' (xs @ zs)
    \<and> (zs = [] \<or> (\<exists>e. zs = [(e, d)] \<and> H e = None)) \<and> (\<forall>a. H a \<noteq> None \<longrightarrow> a \<notin> fst ` set xs \<longrightarrow> H' a = H a)"
proof (cases "malloc H")
  case None
  then have "llist_add malloc l d H = Some (- 1, l, H)" by (simp add: llist_add_def)
  moreover have "llist_repr H l (xs @ [])" using assms(1) by simp
  ultimately show ?thesis by blast
next
  case (Some e)
  then have e: "H e = None" using assms(2) by (simp add: fresh_malloc_def)
  from llist_add_repr [where malloc = malloc and d = d, OF assms(1) Some e] obtain l' H' where
    l': "llist_add malloc l d H = Some (0, l', H')" "llist_repr H' l' (xs @ [(e, d)])"
    "\<forall>a. a \<noteq> e \<longrightarrow> a \<notin> fst ` set xs \<longrightarrow> H' a = H a" by blast
  moreover have "\<forall>a. H a \<noteq> None \<longrightarrow> a \<notin> fst ` set xs \<longrightarrow> H' a = H a" using l'(3) e by metis
  ultimately show ?thesis using e by blast
qed

lemma copy_from_list:
  assumes "lseg H i xs" and "llist_repr H t ys" and "fst ` set xs \<inter> fst ` set ys = {}"
    and "distinct (map fst xs)" and m: "fresh_malloc malloc"
  shows "\<exists>t' H' zs. copy_from malloc f i t H s = Some (t', H', snd (map_state f (map snd xs) s))
    \<and> llist_repr H' t' (ys @ zs) \<and> subseq (map snd zs) (fst (map_state f (map snd xs) s))
    \<and> (\<forall>a. H a \<noteq> None \<longrightarrow> a \<notin> fst ` set ys \<longrightarrow> H' a = H a)"
  using assms(1-4)
proof (induction xs arbitrary: i t H s ys)
  case Nil
  then show ?case by (intro exI [of _ t] exI [of _ H] exI [of _ "[]"]) (simp add: copy_from.simps)
next
  case (Cons y xs)
  obtain a d where y: "y = (a, d)" by (cases y)
  from Cons.prems(1) y obtain n where n: "i = Some a" "H a = Some \<lparr>e_next = n, e_data = d\<rparr>" "lseg H n xs" by auto
  obtain d' s' where f: "f d s = (d', s')" by (cases "f d s")
  from llist_add_any [OF Cons.prems(2) m, of d'] obtain r t1 H1 ws where
    add: "llist_add malloc t d' H = Some (r, t1, H1)" and r1: "llist_repr H1 t1 (ys @ ws)"
    and ws: "ws = [] \<or> (\<exists>e. ws = [(e, d')] \<and> H e = None)"
    and fr: "\<forall>a. H a \<noteq> None \<longrightarrow> a \<notin> fst ` set ys \<longrightarrow> H1 a = H a" by blast
  have src: "H1 b = H b" if "b \<in> fst ` set (y # xs)" for b
    using fr lseg_mem [OF Cons.prems(1) that] that Cons.prems(3) by blast
  have a1: "H1 a = Some \<lparr>e_next = n, e_data = d\<rparr>" using src [of a] n(2) y by simp
  have l1: "lseg H1 n xs" by (rule lseg_frame [OF n(3)]) (use src in auto)
  have new: "\<forall>b\<in>fst ` set ws. H b = None" using ws by auto
  then have "fst ` set xs \<inter> fst ` set ws = {}" using lseg_mem [OF n(3)] by blast
  then have dj: "fst ` set xs \<inter> fst ` set (ys @ ws) = {}" using Cons.prems(3) by auto
  have "distinct (map fst xs)" using Cons.prems(4) by simp
  from Cons.IH [OF l1 r1 dj this, of s'] obtain t' H' zs where
    ih: "copy_from malloc f n t1 H1 s' = Some (t', H', snd (map_state f (map snd xs) s'))"
      "llist_repr H' t' ((ys @ ws) @ zs)" "subseq (map snd zs) (fst (map_state f (map snd xs) s'))"
      "\<forall>a. H1 a \<noteq> None \<longrightarrow> a \<notin> fst ` set (ys @ ws) \<longrightarrow> H' a = H1 a" by blast
  have "copy_from malloc f i t H s = copy_from malloc f n t1 H1 s'"
    using n(1,2) f add a1 by (simp add: copy_from.simps [of malloc f "Some a"])
  moreover have "\<forall>b. H b \<noteq> None \<longrightarrow> b \<notin> fst ` set ys \<longrightarrow> H' b = H b"
  proof (intro allI impI)
    fix b assume b: "H b \<noteq> None" "b \<notin> fst ` set ys"
    then have "H1 b = H b" "b \<notin> fst ` set ws" using fr new by auto
    moreover have "b \<notin> fst ` set (ys @ ws)" using b(2) calculation(2) by auto
    ultimately show "H' b = H b" using ih(4) b(1) by metis
  qed
  moreover have "subseq (map snd (ws @ zs)) (fst (map_state f (map snd (y # xs)) s))"
    using ih(3) y f ws by (auto split: prod.splits)
  ultimately show ?case using ih y f
    by (intro exI [of _ t'] exI [of _ H'] exI [of _ "ws @ zs"]) (simp split: prod.splits)
qed

subsection \<open>The interface\<close>

text \<open>
  What the users of a list rely on: walks see the data from head to tail, and a list that was freed
  is empty, with the last data the function answered for as the result.
\<close>

locale elem_list =
  fixes repr :: "'h \<Rightarrow> 'l \<Rightarrow> 'd list \<Rightarrow> bool"
    and trav :: "'l \<Rightarrow> ('d \<Rightarrow> 's \<Rightarrow> int \<times> 's) \<Rightarrow> 'h \<Rightarrow> 's \<Rightarrow> ('d option \<times> 's) option"
    and release :: "'l \<Rightarrow> ('d \<Rightarrow> 's \<Rightarrow> int \<times> 's) \<Rightarrow> 'h \<Rightarrow> 's \<Rightarrow> ('d option \<times> 'l \<times> 'h \<times> 's) option"
  assumes trav: "repr H l ds \<Longrightarrow> trav l f H s = Some (trav_list f ds s)"
    and release: "repr H l ds \<Longrightarrow> \<exists>l' H'. release l f H s
      = Some (fst (free_list f ds None s), l', H', snd (free_list f ds None s)) \<and> repr H' l' []"
begin

text \<open>A function that never answers is applied to all data.\<close>

lemma trav_all:
  assumes "repr H l ds" and "\<And>d s. f d s = (0, g d s)"
  shows "trav l f H s = Some (None, foldl (\<lambda>s d. g d s) s ds)"
proof -
  have "trav_list f ds s = (None, foldl (\<lambda>s d. g d s) s ds)" for s
    by (induction ds arbitrary: s) (simp_all add: assms(2))
  then show ?thesis by (simp add: trav [OF assms(1)])
qed

text \<open>Looking something up by releasing the list works once.\<close>

lemma release_once:
  assumes "repr H l ds" and "free_list f ds None s = (r, s')"
  shows "\<exists>l' H'. release l f H s = Some (r, l', H', s')
    \<and> (\<forall>g t. \<exists>l2 H2. release l' g H' t = Some (None, l2, H2, t))"
proof -
  from release [OF assms(1), of f s] assms(2) obtain l' H' where
    l': "release l f H s = Some (r, l', H', s')" "repr H' l' []" by auto
  have "\<exists>l2 H2. release l' g H' t = Some (None, l2, H2, t)" for g t
    using release [OF l'(2), of g t] by auto
  with l'(1) show ?thesis by blast
qed

end

definition data_repr :: "'d heap \<Rightarrow> llist \<Rightarrow> 'd list \<Rightarrow> bool" where
  "data_repr H l ds = (\<exists>xs. llist_repr H l xs \<and> ds = map snd xs)"

interpretation ll: elem_list data_repr llist_trav llist_free
proof unfold_locales
  fix H :: "'d heap" and l ds and f :: "'d \<Rightarrow> 's \<Rightarrow> int \<times> 's" and s
  assume "data_repr H l ds"
  then obtain xs where xs: "llist_repr H l xs" "ds = map snd xs" by (auto simp: data_repr_def)
  show "llist_trav l f H s = Some (trav_list f ds s)" using llist_trav_list [OF xs(1)] xs(2) by simp
  show "\<exists>l' H'. llist_free l f H s
      = Some (fst (free_list f ds None s), l', H', snd (free_list f ds None s)) \<and> data_repr H' l' []"
    using llist_free_list [OF xs(1), of f s] xs(2) by (auto simp: data_repr_def)
qed

subsection \<open>A property\<close>

lemma map_state_length: "length (fst (map_state f ds s)) = length ds"
  by (induction f ds s rule: map_state.induct) (auto split: prod.splits)

text \<open>
  \<open>llist_copy\<close> walks the list to its end and builds a new list of the images of the data, in the
  same order. It reports success even when memory runs out, and then elements are missing; the
  copy is complete when it has as many elements. The list it copies is still there.
\<close>

theorem llist_copy_images:
  assumes "llist_repr H l xs" and "fresh_malloc malloc"
  shows "\<exists>t H' zs. llist_copy malloc l f H s = Some (0, t, H', snd (map_state f (map snd xs) s))
    \<and> llist_repr H' t zs \<and> subseq (map snd zs) (fst (map_state f (map snd xs) s))
    \<and> (length zs = length xs \<longrightarrow> map snd zs = fst (map_state f (map snd xs) s)) \<and> llist_repr H' l xs"
proof -
  have r: "lseg H (l_head l) xs" "distinct (map fst xs)" using assms(1) by (simp_all add: llist_repr_def)
  have "llist_repr H llist_init []" by (simp add: llist_repr_def llist_init_def)
  from copy_from_list [OF r(1) this _ r(2) assms(2), of f s] obtain t H' zs where
    c: "copy_from malloc f (l_head l) llist_init H s = Some (t, H', snd (map_state f (map snd xs) s))"
    "llist_repr H' t zs" "subseq (map snd zs) (fst (map_state f (map snd xs) s))" "\<forall>a. H a \<noteq> None \<longrightarrow> H' a = H a"
    by auto
  have "lseg H' (l_head l) xs" by (rule lseg_frame [OF r(1)]) (use c(4) lseg_mem [OF r(1)] in auto)
  then have "llist_repr H' l xs" using assms(1) by (simp add: llist_repr_def)
  moreover have "length zs = length xs \<longrightarrow> map snd zs = fst (map_state f (map snd xs) s)"
    using subseq_same_length [OF c(3)] by (simp add: map_state_length)
  ultimately show ?thesis using c by (auto simp: llist_copy_def)
qed

subsection \<open>The property at work\<close>

definition ex_malloc_elm :: "'d heap \<Rightarrow> addr option" where
  "ex_malloc_elm H = find (\<lambda>a. H a = None) [1, 2, 3, 4]"

definition ex_heap :: "int heap" where
  "ex_heap = [1 \<mapsto> \<lparr>e_next = Some 2, e_data = 10\<rparr>, 2 \<mapsto> \<lparr>e_next = None, e_data = 20\<rparr>]"

definition ex_list :: llist where
  "ex_list = \<lparr>l_head = Some 1, l_tail = Some 2\<rparr>"

lemma llist_copy_images_witness:
  "\<exists>t H' zs. llist_copy ex_malloc_elm ex_list (\<lambda>d s. (d + 1, s + 1)) ex_heap (0 :: int) = Some (0, t, H', 2)
    \<and> llist_repr H' t zs \<and> subseq (map snd zs) [11, 21] \<and> (length zs = 2 \<longrightarrow> map snd zs = [11, 21])
    \<and> llist_repr H' ex_list [(1, 10), (2, 20)]"
proof -
  have r: "llist_repr ex_heap ex_list [(1, 10), (2, 20)]"
    by (simp add: llist_repr_def ex_heap_def ex_list_def)
  have "fresh_malloc (ex_malloc_elm :: int heap \<Rightarrow> addr option)"
    by (auto simp: fresh_malloc_def ex_malloc_elm_def split: if_splits)
  from llist_copy_images [OF r this, of "\<lambda>d s. (d + 1, s + 1)" "0 :: int"]
  show ?thesis by (simp add: numeral_2_eq_2 split: prod.splits)
qed

end
