(* ===== verification/HostList.thy ===== *)
theory HostList
  imports LList
begin

section \<open>The list of hosts (\<open>cfg_file.y\<close>)\<close>

text \<open>
  The configuration keeps the hosts in a linked list of pointers. The structures they point to are a
  store of their own; \<open>DEFAULT_HOST\<close> is the address of the static \<open>default_host\<close>, which must never be
  freed. A store that has been misused (a structure freed twice, a static one freed, a dangling
  pointer read) is \<^const>\<open>None\<close> from then on. The strings of a host are values, with the marks below for
  its device name; the parser that fills
  the list is generated and hence a parameter.
\<close>

type_synonym host_store = "(addr \<Rightarrow> vtun_host option) option"

definition DEFAULT_HOST :: addr where [simp]: "DEFAULT_HOST = 0"

text \<open>
  The device names are pointers as well: a new host has the very string of the default host, since
  \<open>memcpy\<close> copies the pointer. \<open>cf_shared\<close> are the hosts that have the string that the default host has now,
  \<open>cf_freed\<close> the hosts, the default host among them, whose string has been freed.
\<close>

record cfg =
  cf_heap :: "addr heap"
  cf_list :: llist
  cf_hosts :: host_store
  cf_loaded :: bool
  cf_shared :: "addr set"
  cf_freed :: "addr set"

definition free_addr :: "vtun_host \<Rightarrow> vtun_host" where
  "free_addr h =
     (if ad_type (src_addr h) \<noteq> 0
      then h\<lparr>src_addr := (src_addr h)\<lparr>ad_type := 0, ad_name := None\<rparr>\<rparr> else h)"

definition copy_addr :: "vtun_host \<Rightarrow> vtun_host \<Rightarrow> vtun_host" where
  "copy_addr h from_h =
     (let a = (if ad_type (src_addr from_h) \<noteq> 0
               then (src_addr h)\<lparr>ad_type := ad_type (src_addr from_h), ad_name := ad_name (src_addr from_h)\<rparr>
               else src_addr h)
      in h\<lparr>src_addr := a\<lparr>ad_port := ad_port (src_addr from_h)\<rparr>\<rparr>)"

text \<open>
  \<open>free_host\<close>, called for each element: it answers for the host it looks for; any other is
  released, the structure itself only when it has a password (its strings are gone either way).
\<close>

definition free_host :: "string option \<Rightarrow> addr \<Rightarrow> host_store \<Rightarrow> int \<times> host_store" where
  "free_host u p st =
     (case st of
        None \<Rightarrow> (0, None)
      | Some hs \<Rightarrow>
          (case hs p of
             None \<Rightarrow> (0, None)
           | Some h \<Rightarrow>
               if u = Some (vh_host h) then (1, Some hs)
               else if vh_passwd h = None
                 then (0, Some (hs(p \<mapsto> free_addr (h\<lparr>vh_up := [], vh_down := []\<rparr>))))
               else if p = DEFAULT_HOST then (0, None)
               else (0, Some (hs(p := None)))))"

definition find_host :: "string \<Rightarrow> cfg \<Rightarrow> (addr option \<times> cfg) option" where
  "find_host name s =
     map_option (\<lambda>(r, l, H, hs). (r, s\<lparr>cf_list := l, cf_heap := H, cf_hosts := hs\<rparr>))
       (llist_free (cf_list s) (free_host (Some name)) (cf_heap s) (cf_hosts s))"

definition free_host_list :: "cfg \<Rightarrow> cfg option" where
  "free_host_list s =
     map_option (\<lambda>(_, l, H, hs). s\<lparr>cf_list := l, cf_heap := H, cf_hosts := hs\<rparr>)
       (llist_free (cf_list s) (free_host None) (cf_heap s) (cf_hosts s))"

definition clear_flag :: "flags \<Rightarrow> addr \<Rightarrow> host_store \<Rightarrow> int \<times> host_store" where
  "clear_flag f p st =
     (case st of
        None \<Rightarrow> (0, None)
      | Some hs \<Rightarrow> (case hs p of None \<Rightarrow> (0, None)
                    | Some h \<Rightarrow> (0, Some (hs(p \<mapsto> h\<lparr>vh_flags := vh_flags h AND NOT f\<rparr>)))))"

definition clear_nat_hack_server :: "addr \<Rightarrow> host_store \<Rightarrow> int \<times> host_store" where
  "clear_nat_hack_server = clear_flag VTUN_NAT_HACK_CLIENT"

definition clear_nat_hack_client :: "addr \<Rightarrow> host_store \<Rightarrow> int \<times> host_store" where
  "clear_nat_hack_client = clear_flag VTUN_NAT_HACK_SERVER"

definition clear_nat_hack_flags :: "bool \<Rightarrow> cfg \<Rightarrow> cfg option" where
  "clear_nat_hack_flags svr s =
     map_option (\<lambda>(_, hs). s\<lparr>cf_hosts := hs\<rparr>)
       (llist_trav (cf_list s) (if svr then clear_nat_hack_server else clear_nat_hack_client)
         (cf_heap s) (cf_hosts s))"

text \<open>\<open>read_config\<close>: \<open>opened\<close> says whether the file opens, \<open>parse\<close> is what \<open>yyparse\<close> does to the lists.\<close>

definition read_config :: "(cfg \<Rightarrow> cfg option) \<Rightarrow> bool \<Rightarrow> cfg \<Rightarrow> (int \<times> cfg) option" where
  "read_config parse opened s =
     (case (if cf_loaded s then free_host_list s else Some s) of
        None \<Rightarrow> None
      | Some s1 \<Rightarrow>
          (let s2 = s1\<lparr>cf_loaded := True, cf_list := llist_init\<rparr>
           in if \<not> opened then Some (- 1, s2)
              else (case parse s2 of
                      None \<Rightarrow> None
                    | Some s3 \<Rightarrow>
                        (let s4 = s3\<lparr>cf_hosts := snd (free_host None DEFAULT_HOST (cf_hosts s3))\<rparr>
                         in Some (if llist_empty (cf_list s4) then 0 else 1, s4)))))"

subsection \<open>Looking up a host\<close>

text \<open>The pointers of the list are distinct and point to hosts that have passwords.\<close>

definition hosts_ok :: "(addr \<Rightarrow> vtun_host option) \<Rightarrow> addr list \<Rightarrow> bool" where
  "hosts_ok hs ps = (distinct ps \<and> (\<forall>p\<in>set ps. p \<noteq> DEFAULT_HOST \<and> (\<exists>h. hs p = Some h \<and> vh_passwd h \<noteq> None)))"

definition named :: "(addr \<Rightarrow> vtun_host option) \<Rightarrow> string \<Rightarrow> addr \<Rightarrow> bool" where
  "named hs n p = (map_option vh_host (hs p) = Some n)"

text \<open>The last host of that name, and the store with only the hosts of that name left of the list.\<close>

definition last_named :: "(addr \<Rightarrow> vtun_host option) \<Rightarrow> string \<Rightarrow> addr list \<Rightarrow> addr option" where
  "last_named hs n ps = (case rev (filter (named hs n) ps) of [] \<Rightarrow> None | p # _ \<Rightarrow> Some p)"

definition keep_named :: "(addr \<Rightarrow> vtun_host option) \<Rightarrow> string \<Rightarrow> addr list \<Rightarrow> addr \<Rightarrow> vtun_host option" where
  "keep_named hs n ps p = (if p \<in> set ps \<and> \<not> named hs n p then None else hs p)"

lemma last_named_Cons:
  "last_named hs n (p # ps) = (case last_named hs n ps of Some q \<Rightarrow> Some q
     | None \<Rightarrow> if named hs n p then Some p else None)"
  by (simp add: last_named_def split: list.splits)

lemma named_upd: "p \<notin> set ps \<Longrightarrow> last_named (hs(p := v)) n ps = last_named hs n ps"
proof -
  assume "p \<notin> set ps"
  then have "filter (named (hs(p := v)) n) ps = filter (named hs n) ps"
    by (intro filter_cong) (auto simp: named_def)
  then show ?thesis by (simp add: last_named_def)
qed

lemma free_list_find:
  assumes "hosts_ok hs ps"
  shows "free_list (free_host (Some n)) ps ff (Some hs)
    = ((case last_named hs n ps of Some q \<Rightarrow> Some q | None \<Rightarrow> ff), Some (keep_named hs n ps))"
  using assms
proof (induction ps arbitrary: hs ff)
  case Nil
  then show ?case by (simp add: last_named_def keep_named_def fun_eq_iff)
next
  case (Cons p ps)
  then obtain h where h: "hs p = Some h" "vh_passwd h \<noteq> None" "p \<noteq> DEFAULT_HOST" "p \<notin> set ps"
    by (auto simp: hosts_ok_def)
  have ok: "hosts_ok hs ps" "hosts_ok (hs(p := None)) ps"
    using Cons.prems h(4) by (auto simp: hosts_ok_def)
  show ?case
  proof (cases "vh_host h = n")
    case True
    then have "free_host (Some n) p (Some hs) = (1, Some hs)" "named hs n p"
      using h by (simp_all add: free_host_def named_def)
    then show ?thesis using Cons.IH [OF ok(1)] h(4)
      by (auto simp: last_named_Cons keep_named_def fun_eq_iff split: option.splits)
  next
    case False
    then have f: "free_host (Some n) p (Some hs) = (0, Some (hs(p := None)))" "\<not> named hs n p"
      using h by (auto simp: free_host_def named_def)
    have "keep_named (hs(p := None)) n ps = keep_named hs n (p # ps)"
      using h(4) f(2) by (auto simp: keep_named_def named_def fun_eq_iff)
    moreover have "free_list (free_host (Some n)) (p # ps) ff (Some hs)
        = free_list (free_host (Some n)) ps ff (Some (hs(p := None)))" using f(1) by simp
    ultimately show ?thesis unfolding last_named_Cons Cons.IH [OF ok(2)] named_upd [OF h(4)] using f(2)
      by (simp split: option.splits)
  qed
qed

lemma find_host_last:
  assumes "data_repr (cf_heap s) (cf_list s) ps" and "cf_hosts s = Some hs" and "hosts_ok hs ps"
  shows "\<exists>s'. find_host n s = Some (last_named hs n ps, s') \<and> cf_hosts s' = Some (keep_named hs n ps)
    \<and> cf_freed s' = cf_freed s"
proof -
  have "free_list (free_host (Some n)) ps None (Some hs) = (last_named hs n ps, Some (keep_named hs n ps))"
    unfolding free_list_find [OF assms(3)] by (simp split: option.splits)
  then show ?thesis using ll.release [OF assms(1), of "free_host (Some n)" "Some hs"] assms(2) by (auto simp: find_host_def)
qed

text \<open>
  \<open>find_host\<close> yields the last host of the name it is given, or NULL, and as its comment says it can
  be called only once: it releases every host of another name and empties the list, so a second
  call finds nothing.
\<close>

theorem find_host_once:
  assumes "data_repr (cf_heap s) (cf_list s) ps" and "cf_hosts s = Some hs" and "hosts_ok hs ps"
  shows "\<exists>s'. find_host n s = Some (last_named hs n ps, s') \<and> cf_hosts s' = Some (keep_named hs n ps)
    \<and> (\<forall>m. \<exists>s2. find_host m s' = Some (None, s2) \<and> cf_hosts s2 = cf_hosts s')"
proof -
  have "free_list (free_host (Some n)) ps None (Some hs) = (last_named hs n ps, Some (keep_named hs n ps))"
    unfolding free_list_find [OF assms(3)] by (simp split: option.splits)
  from ll.release_once [OF assms(1) this] obtain l' H' where
    r: "llist_free (cf_list s) (free_host (Some n)) (cf_heap s) (Some hs)
      = Some (last_named hs n ps, l', H', Some (keep_named hs n ps))"
    and once: "\<forall>g (t :: host_store). \<exists>l2 H2. llist_free l' g H' t = Some (None, l2, H2, t)" by blast
  have "\<exists>s2. find_host m (s\<lparr>cf_list := l', cf_heap := H', cf_hosts := Some (keep_named hs n ps)\<rparr>) = Some (None, s2)
      \<and> cf_hosts s2 = Some (keep_named hs n ps)" for m
    using spec [OF spec [OF once, of "free_host (Some m)"], of "Some (keep_named hs n ps)"]
    by (auto simp: find_host_def)
  then show ?thesis using r assms(2) by (simp add: find_host_def)
qed

text \<open>What a walk with \<open>clear_flag\<close> leaves in the store.\<close>

lemma trav_clear:
  assumes "hosts_ok hs ps"
  shows "trav_list (clear_flag f) ps (Some hs) = (None, Some (\<lambda>p. if p \<in> set ps
    then map_option (\<lambda>h. h\<lparr>vh_flags := vh_flags h AND NOT f\<rparr>) (hs p) else hs p))"
  using assms
proof (induction ps arbitrary: hs)
  case Nil
  then show ?case by simp
next
  case (Cons p ps)
  then obtain h where h: "hs p = Some h" "p \<notin> set ps" by (auto simp: hosts_ok_def)
  let ?hs = "hs(p \<mapsto> h\<lparr>vh_flags := vh_flags h AND NOT f\<rparr>)"
  have "hosts_ok ?hs ps" using Cons.prems h(2) by (auto simp: hosts_ok_def)
  note ih = Cons.IH [OF this]
  have "trav_list (clear_flag f) (p # ps) (Some hs) = trav_list (clear_flag f) ps (Some ?hs)"
    using h by (simp add: clear_flag_def)
  then show ?case unfolding ih using h by (auto simp: fun_eq_iff)
qed

text \<open>
  A server's hosts keep no flag of the NAT hack for clients, and a client's none of the one for
  servers; no other bit of any host changes.
\<close>

theorem nat_hack_flags_cleared:
  assumes "data_repr (cf_heap s) (cf_list s) ps" and "cf_hosts s = Some hs" and "hosts_ok hs ps"
  shows "clear_nat_hack_flags svr s = Some (s\<lparr>cf_hosts := Some (\<lambda>p. if p \<in> set ps
    then map_option (\<lambda>h. h\<lparr>vh_flags := vh_flags h AND NOT
           (if svr then VTUN_NAT_HACK_CLIENT else VTUN_NAT_HACK_SERVER)\<rparr>) (hs p) else hs p)\<rparr>)"
  unfolding clear_nat_hack_flags_def ll.trav [OF assms(1)] assms(2)
    clear_nat_hack_server_def clear_nat_hack_client_def
  by (cases svr) (simp_all only: if_True if_False trav_clear [OF assms(3)] option.map prod.case)

subsection \<open>Reading the configuration\<close>

text \<open>
  A password in the \<open>default\<close> section makes every reading of the configuration free the static
  structure \<open>default_host\<close>: \<open>free_host\<close> takes a host without password for the static one.
\<close>

theorem default_passwd_freed:
  assumes "parse s2 = Some s3" and "cf_hosts s3 = Some hs" and "hs DEFAULT_HOST = Some d"
    and "vh_passwd d \<noteq> None" and "\<not> cf_loaded s" and "s2 = s\<lparr>cf_loaded := True, cf_list := llist_init\<rparr>"
  shows "\<exists>r s'. read_config parse True s = Some (r, s') \<and> cf_hosts s' = None"
  using assms by (simp add: read_config_def Let_def free_host_def)

subsection \<open>Rereading (\<open>main.c\<close>)\<close>

definition reread_config :: "(cfg \<Rightarrow> cfg option) \<Rightarrow> bool \<Rightarrow> cfg \<Rightarrow> (bool \<times> cfg) option" where
  "reread_config parse opened s =
     (case read_config parse opened s of
        None \<Rightarrow> None
      | Some (r, s') \<Rightarrow> Some (r \<noteq> 0, s'))"

text \<open>
  A configuration file that does not open is reported as -1, which \<open>reread_config\<close> takes for
  success (it only looks for 0, no hosts defined): the daemon goes on, with an empty list.
\<close>

theorem missing_config_goes_on:
  assumes "data_repr (cf_heap s) (cf_list s) ps"
  shows "\<exists>s'. reread_config parse False s = Some (True, s') \<and> llist_empty (cf_list s')"
proof -
  from ll.release [OF assms, of "free_host None" "cf_hosts s"]
  have "\<exists>s1. free_host_list s = Some s1" by (auto simp: free_host_list_def)
  then show ?thesis
    by (auto simp: reread_config_def read_config_def Let_def llist_empty_def llist_init_def)
qed

subsection \<open>The properties at work\<close>

definition ex_hosts :: "addr \<Rightarrow> vtun_host option" where
  "ex_hosts = [0 \<mapsto> default_host,
     5 \<mapsto> default_host\<lparr>vh_host := ''gw'', vh_passwd := Some ''a'', vh_flags := 0xc810\<rparr>,
     6 \<mapsto> default_host\<lparr>vh_host := ''lab'', vh_passwd := Some ''b''\<rparr>,
     7 \<mapsto> default_host\<lparr>vh_host := ''gw'', vh_passwd := Some ''c''\<rparr>]"

definition ex_cfg :: cfg where
  "ex_cfg = \<lparr>cf_heap = [1 \<mapsto> \<lparr>e_next = Some 2, e_data = 5\<rparr>, 2 \<mapsto> \<lparr>e_next = Some 3, e_data = 6\<rparr>,
       3 \<mapsto> \<lparr>e_next = None, e_data = 7\<rparr>],
     cf_list = \<lparr>l_head = Some 1, l_tail = Some 3\<rparr>, cf_hosts = Some ex_hosts, cf_loaded = False,
     cf_shared = {}, cf_freed = {}\<rparr>"

lemma ex_cfg_repr: "data_repr (cf_heap ex_cfg) (cf_list ex_cfg) [5, 6, 7]"
  unfolding data_repr_def
  by (rule exI [of _ "[(1, 5), (2, 6), (3, 7)]"]) (simp add: llist_repr_def ex_cfg_def)

lemma ex_hosts_ok: "hosts_ok ex_hosts [5, 6, 7]"
  by (simp add: hosts_ok_def ex_hosts_def)

lemma find_host_once_witness:
  "\<exists>s'. find_host ''gw'' ex_cfg = Some (Some 7, s') \<and> cf_hosts s' = Some (keep_named ex_hosts ''gw'' [5, 6, 7])
    \<and> (\<forall>m. \<exists>s2. find_host m s' = Some (None, s2) \<and> cf_hosts s2 = cf_hosts s')"
proof -
  have "cf_hosts ex_cfg = Some ex_hosts" by (simp add: ex_cfg_def)
  from find_host_once [OF ex_cfg_repr this ex_hosts_ok, of "''gw''"]
  show ?thesis by (simp add: last_named_def named_def ex_hosts_def)
qed

lemma nat_hack_flags_cleared_witness:
  "clear_nat_hack_flags True ex_cfg = Some (ex_cfg\<lparr>cf_hosts := Some (\<lambda>p. if p \<in> set [5, 6, 7]
    then map_option (\<lambda>h. h\<lparr>vh_flags := vh_flags h AND NOT
           (if True then VTUN_NAT_HACK_CLIENT else VTUN_NAT_HACK_SERVER)\<rparr>) (ex_hosts p) else ex_hosts p)\<rparr>)"
  by (rule nat_hack_flags_cleared [OF ex_cfg_repr _ ex_hosts_ok]) (simp add: ex_cfg_def)

lemma default_passwd_freed_witness:
  "\<exists>r s'. read_config (\<lambda>s. Some (s\<lparr>cf_hosts := Some (ex_hosts(0 \<mapsto> default_host\<lparr>vh_passwd := Some ''x''\<rparr>))\<rparr>)) True
     ex_cfg = Some (r, s') \<and> cf_hosts s' = None"
  by (rule default_passwd_freed [OF refl, where d = "default_host\<lparr>vh_passwd := Some ''x''\<rparr>"
        and hs = "ex_hosts(0 \<mapsto> default_host\<lparr>vh_passwd := Some ''x''\<rparr>)"]) (simp_all add: ex_cfg_def)

lemma missing_config_goes_on_witness:
  "\<exists>s'. reread_config Some False (ex_cfg\<lparr>cf_loaded := True\<rparr>) = Some (True, s') \<and> llist_empty (cf_list s')"
  by (rule missing_config_goes_on [where ps = "[5, 6, 7]"]) (use ex_cfg_repr in simp)

end
