(* ===== verification/CfgFile.thy ===== *)
theory CfgFile
  imports HostOpts HostList
begin

section \<open>The configuration file (\<open>cfg_file.y\<close>)\<close>

text \<open>
  What the actions of the grammar do to the options, the default host and the list of hosts. A file
  is the sequence of its sections, as the generated parser finds them; a section that breaks off in an
  error ends the reading, after the actions for what came before it. \<open>hm\<close> allocates hosts and \<open>em\<close>
  elements of the list; memory for strings and commands does not run out. What the C code must not do
  (\<open>strdup\<close> of NULL, \<open>free\<close> of what is free) is \<^const>\<open>None\<close>.
\<close>

definition set_bind_port :: "int \<Rightarrow> vtun_opts \<Rightarrow> vtun_opts" where
  "set_bind_port p v = v\<lparr>o_bind_addr := (o_bind_addr v)\<lparr>ad_port := p\<rparr>\<rparr>"

subsection \<open>Syslog facilities\<close>

text \<open>The numbers are those of \<open>syslog.h\<close>.\<close>

definition syslog_names :: "(string \<times> int) list" where
  "syslog_names =
    [(''auth'', 32), (''cron'', 72), (''daemon'', 24), (''kern'', 0), (''lpr'', 48), (''mail'', 16),
     (''news'', 56), (''syslog'', 40), (''user'', 8), (''uucp'', 64), (''local0'', 128), (''local1'', 136),
     (''local2'', 144), (''local3'', 152), (''local4'', 160), (''local5'', 168), (''local6'', 176),
     (''local7'', 184)]"

definition parse_syslog :: "string \<Rightarrow> vtun_opts \<Rightarrow> int \<times> vtun_opts" where
  "parse_syslog facility v =
     (case map_of syslog_names facility of None \<Rightarrow> (- 1, v) | Some c \<Rightarrow> (0, v\<lparr>o_syslog := c\<rparr>))"

subsection \<open>Global options\<close>

datatype global_opt =
    G_port int
  | G_bind_addr string
  | G_bind_iface string
  | G_iface string
  | G_type int
  | G_timeout int
  | G_ppp string
  | G_ifcfg string
  | G_route string
  | G_fwall string
  | G_iproute string
  | G_syslog int
  | G_facility string

text \<open>The actions of the grammar; what the command line has set is not overridden.\<close>

fun global_option :: "global_opt \<Rightarrow> vtun_opts \<Rightarrow> vtun_opts" where
  "global_option (G_port n) v = (if ad_port (o_bind_addr v) = - 1 then set_bind_port n v else v)"
| "global_option (G_bind_addr s) v =
     v\<lparr>o_bind_addr := (o_bind_addr v)\<lparr>ad_name := Some s, ad_type := VTUN_ADDR_NAME\<rparr>\<rparr>"
| "global_option (G_bind_iface s) v =
     v\<lparr>o_bind_addr := (o_bind_addr v)\<lparr>ad_name := Some s, ad_type := VTUN_ADDR_IFACE\<rparr>\<rparr>"
| "global_option (G_iface s) v = (if o_svr_addr v = None then v\<lparr>o_svr_addr := Some s\<rparr> else v)"
| "global_option (G_type n) v = (if o_svr_type v = - 1 then v\<lparr>o_svr_type := n\<rparr> else v)"
| "global_option (G_timeout n) v = (if o_timeout v = - 1 then v\<lparr>o_timeout := n\<rparr> else v)"
| "global_option (G_ppp s) v = v\<lparr>o_ppp := Some s\<rparr>"
| "global_option (G_ifcfg s) v = v\<lparr>o_ifcfg := Some s\<rparr>"
| "global_option (G_route s) v = v\<lparr>o_route := Some s\<rparr>"
| "global_option (G_fwall s) v = v\<lparr>o_fwall := Some s\<rparr>"
| "global_option (G_iproute s) v = v\<lparr>o_iproute := Some s\<rparr>"
| "global_option (G_syslog n) v = v\<lparr>o_syslog := n\<rparr>"
| "global_option (G_facility w) v = snd (parse_syslog w v)"

definition global_options :: "global_opt list \<Rightarrow> vtun_opts \<Rightarrow> vtun_opts" where
  "global_options gs v = fold global_option gs v"

subsection \<open>Commands\<close>

datatype prog_opt = P_path string | P_string string | P_flags int

fun prog_option :: "prog_opt \<Rightarrow> vtun_cmd \<Rightarrow> vtun_cmd" where
  "prog_option (P_path s) c = c\<lparr>prog := Some s\<rparr>"
| "prog_option (P_string s) c = c\<lparr>args := Some s\<rparr>"
| "prog_option (P_flags n) c = c\<lparr>cmd_flags := n\<rparr>"

datatype cmd_opt =
    C_prog "prog_opt list"
  | C_ppp string
  | C_ifcfg string
  | C_route string
  | C_fwall string
  | C_iproute string

definition add_cmd :: "string option \<Rightarrow> string option \<Rightarrow> int \<Rightarrow> vtun_cmd" where
  "add_cmd p a f = \<lparr>prog = p, args = a, cmd_flags = f\<rparr>"

text \<open>The command that an option adds to the list.\<close>

fun command_option :: "vtun_opts \<Rightarrow> cmd_opt \<Rightarrow> vtun_cmd" where
  "command_option v (C_prog os) =
     (let c = fold prog_option os \<lparr>prog = None, args = None, cmd_flags = 0\<rparr>
      in add_cmd (prog c) (args c) (cmd_flags c))"
| "command_option v (C_ppp s) = add_cmd (o_ppp v) (Some s) VTUN_CMD_DELAY"
| "command_option v (C_ifcfg s) = add_cmd (o_ifcfg v) (Some s) VTUN_CMD_WAIT"
| "command_option v (C_route s) = add_cmd (o_route v) (Some s) VTUN_CMD_WAIT"
| "command_option v (C_fwall s) = add_cmd (o_fwall v) (Some s) VTUN_CMD_WAIT"
| "command_option v (C_iproute s) = add_cmd (o_iproute v) (Some s) VTUN_CMD_WAIT"

text \<open>\<open>cp_cmd\<close> copies both strings.\<close>

definition cp_cmd :: "vtun_cmd \<Rightarrow> vtun_cmd option" where
  "cp_cmd c =
     (case (prog c, args c) of
        (Some p, Some a) \<Rightarrow> Some \<lparr>prog = Some p, args = Some a, cmd_flags = cmd_flags c\<rparr>
      | _ \<Rightarrow> None)"

subsection \<open>Sections\<close>

datatype host_item =
    I_opt host_opt
  | I_up "cmd_opt list"
  | I_down "cmd_opt list"

fun run_item :: "host_item \<Rightarrow> vtun_host \<times> vtun_opts \<Rightarrow> vtun_host \<times> vtun_opts" where
  "run_item (I_opt x) (h, v) = (case host_option x (h, o_persist v) of (h', p) \<Rightarrow> (h', v\<lparr>o_persist := p\<rparr>))"
| "run_item (I_up cs) (h, v) = (h\<lparr>vh_up := map (command_option v) cs\<rparr>, v)"
| "run_item (I_down cs) (h, v) = (h\<lparr>vh_down := map (command_option v) cs\<rparr>, v)"

datatype conf_section =
    S_options "global_opt list"
  | S_default "host_item list"
  | S_host string "host_item list"

text \<open>A section with the mark that it is complete.\<close>

type_synonym statement = "conf_section \<times> bool"

record cfg_state =
  cs_cfg :: cfg
  cs_vtun :: vtun_opts

definition set_hosts :: "host_store \<Rightarrow> vtun_opts \<Rightarrow> cfg_state \<Rightarrow> cfg_state" where
  "set_hosts hs v st = st\<lparr>cs_cfg := (cs_cfg st)\<lparr>cf_hosts := hs\<rparr>, cs_vtun := v\<rparr>"

fun names_device :: "host_item list \<Rightarrow> bool" where
  "names_device [] = False"
| "names_device (I_opt (O_device w) # xs) = True"
| "names_device (_ # xs) = names_device xs"

text \<open>
  \<open>free\<close> of the device name of the host at \<open>p\<close>, which gets another string after that: freeing it twice is
  undefined; where it is the string of the default host, all others that have it are left with a freed one.
\<close>

definition free_dev :: "addr \<Rightarrow> vtun_host \<Rightarrow> cfg \<Rightarrow> cfg option" where
  "free_dev p h s =
     (if vh_dev h = None then Some (if p = DEFAULT_HOST then s\<lparr>cf_shared := {}\<rparr> else s)
      else if p \<in> cf_freed s then None
      else if p = DEFAULT_HOST \<or> p \<in> cf_shared s
        then Some (s\<lparr>cf_shared := {}, cf_freed := cf_freed s \<union> (insert DEFAULT_HOST (cf_shared s) - {p})\<rparr>)
      else Some s)"

definition drop_device :: "host_item list \<Rightarrow> addr \<Rightarrow> vtun_host \<Rightarrow> cfg_state \<Rightarrow> cfg_state option" where
  "drop_device xs p h st =
     (if names_device xs then map_option (\<lambda>s. st\<lparr>cs_cfg := s\<rparr>) (free_dev p h (cs_cfg st)) else Some st)"

text \<open>The device name of a new host at \<open>p\<close>, copied from the default host \<open>d\<close>.\<close>

definition share_dev :: "addr \<Rightarrow> vtun_host \<Rightarrow> cfg \<Rightarrow> cfg" where
  "share_dev p d s =
     (let s1 = s\<lparr>cf_shared := cf_shared s - {p}, cf_freed := cf_freed s - {p}\<rparr>
      in if vh_dev d = None then s1
         else if DEFAULT_HOST \<in> cf_freed s then s1\<lparr>cf_freed := insert p (cf_freed s1)\<rparr>
         else s1\<lparr>cf_shared := insert p (cf_shared s1)\<rparr>)"

text \<open>A new host, its commands copied; the sections of a host and of the defaults.\<close>

definition copy_host :: "string \<Rightarrow> vtun_host \<Rightarrow> vtun_host option" where
  "copy_host n d =
     (case (those (map cp_cmd (vh_up d)), those (map cp_cmd (vh_down d))) of
        (Some u, Some w) \<Rightarrow> Some ((new_host n d)\<lparr>vh_up := u, vh_down := w\<rparr>)
      | _ \<Rightarrow> None)"

text \<open>
  The end of a host section: without a password the host is released, otherwise it is added to the
  list; that \<open>llist_add\<close> may fail is not looked at.
\<close>

definition end_host :: "(addr heap \<Rightarrow> addr option) \<Rightarrow> addr \<Rightarrow> vtun_host \<Rightarrow> cfg_state \<Rightarrow> cfg_state option" where
  "end_host em p h st =
     (let s = cs_cfg st in
      if vh_passwd h = None then
        (case snd (free_host None p (cf_hosts s)) of
           None \<Rightarrow> None
         | Some hs \<Rightarrow> Some (set_hosts (Some (hs(p := None))) (cs_vtun st) st))
      else
        (case llist_add em (cf_list s) p (cf_heap s) of
           None \<Rightarrow> None
         | Some (_, l, H) \<Rightarrow> Some (st\<lparr>cs_cfg := s\<lparr>cf_list := l, cf_heap := H\<rparr>\<rparr>)))"

definition default_section :: "host_item list \<Rightarrow> vtun_host \<Rightarrow> cfg_state \<Rightarrow> cfg_state option" where
  "default_section xs d st =
     (case cf_hosts (cs_cfg st) of
        None \<Rightarrow> None
      | Some hs \<Rightarrow>
          (case drop_device xs DEFAULT_HOST d st of
             None \<Rightarrow> None
           | Some st1 \<Rightarrow>
               (case fold run_item xs (d, cs_vtun st) of (d', v) \<Rightarrow>
                  Some (set_hosts (Some (hs(DEFAULT_HOST \<mapsto> d'))) v st1))))"

definition new_section :: "(addr heap \<Rightarrow> addr option) \<Rightarrow> addr \<Rightarrow> string \<Rightarrow> host_item list \<Rightarrow> bool \<Rightarrow> vtun_host
    \<Rightarrow> cfg_state \<Rightarrow> cfg_state option" where
  "new_section em p n xs ok d st =
     (case (cf_hosts (cs_cfg st), copy_host n d) of
        (Some hs, Some h0) \<Rightarrow>
          (case drop_device xs p h0 (st\<lparr>cs_cfg := share_dev p d (cs_cfg st)\<rparr>) of
             None \<Rightarrow> None
           | Some st1 \<Rightarrow>
               (case fold run_item xs (h0, cs_vtun st) of (h, v) \<Rightarrow>
                  let st2 = set_hosts (Some (hs(p \<mapsto> h))) v st1
                  in if ok then end_host em p h st2 else Some st2))
      | _ \<Rightarrow> None)"

text \<open>One section; the first component says whether the reading goes on.\<close>

definition the_default :: "cfg_state \<Rightarrow> vtun_host option" where
  "the_default st = Option.bind (cf_hosts (cs_cfg st)) (\<lambda>hs. hs DEFAULT_HOST)"

fun run_statement :: "((addr \<Rightarrow> vtun_host option) \<Rightarrow> addr option) \<Rightarrow> (addr heap \<Rightarrow> addr option)
    \<Rightarrow> statement \<Rightarrow> cfg_state \<Rightarrow> (bool \<times> cfg_state) option" where
  "run_statement hm em (S_options gs, ok) st = Some (ok, st\<lparr>cs_vtun := global_options gs (cs_vtun st)\<rparr>)"
| "run_statement hm em (S_default xs, ok) st =
     map_option (Pair ok) (Option.bind (the_default st) (\<lambda>d. default_section xs d st))"
| "run_statement hm em (S_host n xs, ok) st =
     Option.bind (cf_hosts (cs_cfg st)) (\<lambda>hs.
       case hm hs of
         None \<Rightarrow> Some (False, st)
       | Some p \<Rightarrow> map_option (Pair ok) (Option.bind (the_default st) (\<lambda>d. new_section em p n xs ok d st)))"

fun run_config :: "((addr \<Rightarrow> vtun_host option) \<Rightarrow> addr option) \<Rightarrow> (addr heap \<Rightarrow> addr option)
    \<Rightarrow> statement list \<Rightarrow> cfg_state \<Rightarrow> cfg_state option" where
  "run_config hm em [] st = Some st"
| "run_config hm em (s # ss) st =
     (case run_statement hm em s st of
        None \<Rightarrow> None
      | Some (go, st') \<Rightarrow> if go then run_config hm em ss st' else Some st')"

text \<open>The parser of \<^const>\<open>read_config\<close>, from the state of the options.\<close>

definition config_parse :: "((addr \<Rightarrow> vtun_host option) \<Rightarrow> addr option) \<Rightarrow> (addr heap \<Rightarrow> addr option)
    \<Rightarrow> statement list \<Rightarrow> vtun_opts \<Rightarrow> cfg \<Rightarrow> cfg option" where
  "config_parse hm em ss v s =
     map_option cs_cfg (run_config hm em ss \<lparr>cs_cfg = s, cs_vtun = v\<rparr>)"

subsection \<open>What a configuration means\<close>

text \<open>
  The default host, the options, and the hosts in the order of their sections; and whether a host has been made
  since the default host got its device name, and so shares it.
\<close>

record conf_spec =
  sp_default :: vtun_host
  sp_vtun :: vtun_opts
  sp_hosts :: "vtun_host list"
  sp_held :: bool

definition fresh_spec :: "vtun_host \<Rightarrow> vtun_opts \<Rightarrow> conf_spec" where
  [simp]: "fresh_spec d v = \<lparr>sp_default = d, sp_vtun = v, sp_hosts = [], sp_held = False\<rparr>"

fun spec_statement :: "statement \<Rightarrow> conf_spec \<Rightarrow> conf_spec" where
  "spec_statement (S_options gs, ok) c = c\<lparr>sp_vtun := global_options gs (sp_vtun c)\<rparr>"
| "spec_statement (S_default xs, ok) c =
     (case fold run_item xs (sp_default c, sp_vtun c) of (d, v) \<Rightarrow> 
        c\<lparr>sp_default := d, sp_vtun := v, sp_held := (sp_held c \<and> \<not> names_device xs)\<rparr>)"
| "spec_statement (S_host n xs, ok) c =
     (case fold run_item xs (new_host n (sp_default c), sp_vtun c) of (h, v) \<Rightarrow>
        c\<lparr>sp_vtun := v, sp_hosts := sp_hosts c @ (if ok \<and> vh_passwd h \<noteq> None then [h] else []),
          sp_held := (sp_held c \<or> vh_dev (sp_default c) \<noteq> None)\<rparr>)"

text \<open>The sections that are read: up to the first that is not complete.\<close>

fun taken :: "statement list \<Rightarrow> statement list" where
  "taken [] = []"
| "taken (s # ss) = s # (if snd s then taken ss else [])"

definition spec_config :: "statement list \<Rightarrow> conf_spec \<Rightarrow> conf_spec" where
  "spec_config ss c = fold spec_statement (taken ss) c"

text \<open>
  What the default host must be for the copies to be well defined: its commands have both a path and
  arguments; no host replaces a device name that it has, and no \<open>default\<close> section replaces one that a
  host shares.
\<close>

fun sound_at :: "statement \<Rightarrow> conf_spec \<Rightarrow> bool" where
  "sound_at (S_options gs, ok) c = True"
| "sound_at (S_default xs, ok) c =
     (names_device xs \<longrightarrow> vh_dev (sp_default c) = None \<or> \<not> sp_held c)"
| "sound_at (S_host n xs, ok) c =
     (list_all (\<lambda>x. prog x \<noteq> None \<and> args x \<noteq> None) (vh_up (sp_default c) @ vh_down (sp_default c))
      \<and> (names_device xs \<longrightarrow> vh_dev (sp_default c) = None))"

fun sound_config :: "statement list \<Rightarrow> conf_spec \<Rightarrow> bool" where
  "sound_config [] c = True"
| "sound_config (s # ss) c = (sound_at s c \<and> (snd s \<longrightarrow> sound_config ss (spec_statement s c)))"

definition represents :: "cfg_state \<Rightarrow> conf_spec \<Rightarrow> bool" where
  "represents st c =
     (\<exists>hs ps. cf_hosts (cs_cfg st) = Some hs \<and> data_repr (cf_heap (cs_cfg st)) (cf_list (cs_cfg st)) ps
        \<and> hosts_ok hs ps \<and> map hs ps = map Some (sp_hosts c) \<and> hs DEFAULT_HOST = Some (sp_default c)
        \<and> finite (dom hs) \<and> finite (dom (cf_heap (cs_cfg st)))
        \<and> cs_vtun st = sp_vtun c
        \<and> DEFAULT_HOST \<notin> cf_freed (cs_cfg st) \<and> set ps \<inter> cf_freed (cs_cfg st) = {}
        \<and> (sp_held c \<or> set ps \<inter> cf_shared (cs_cfg st) = {}))"

text \<open>Memory does not run out, and what is allocated was not in use.\<close>

definition allocates :: "(('a \<Rightarrow> 'b option) \<Rightarrow> 'a option) \<Rightarrow> bool" where
  "allocates m = (\<forall>H. finite (dom H) \<longrightarrow> (\<exists>a. m H = Some a \<and> H a = None))"

subsection \<open>The actions against the meaning\<close>

lemma cp_cmd_id: "prog x \<noteq> None \<and> args x \<noteq> None \<Longrightarrow> cp_cmd x = Some x"
  by (auto simp: cp_cmd_def)

lemma those_copies: "list_all (\<lambda>x. prog x \<noteq> None \<and> args x \<noteq> None) cs \<Longrightarrow> those (map cp_cmd cs) = Some cs"
  by (induction cs) (simp_all add: cp_cmd_id)

lemma copy_host_sound:
  "list_all (\<lambda>x. prog x \<noteq> None \<and> args x \<noteq> None) (vh_up d @ vh_down d) \<Longrightarrow> copy_host n d = Some (new_host n d)"
  by (simp add: copy_host_def those_copies new_host_def)

lemma data_repr_add:
  assumes "data_repr H l ps" and "allocates em" and f: "finite (dom H)"
  shows "\<exists>l' H'. llist_add em l d H = Some (0, l', H') \<and> data_repr H' l' (ps @ [d]) \<and> finite (dom H')"
proof -
  obtain xs where xs: "llist_repr H l xs" "ps = map snd xs" using assms(1) by (auto simp: data_repr_def)
  obtain e where e: "em H = Some e" "H e = None" using assms(2) f by (auto simp: allocates_def)
  from llist_add_repr [where malloc = em and d = d, OF xs(1) e] obtain l' H' where
    a: "llist_add em l d H = Some (0, l', H')" "llist_repr H' l' (xs @ [(e, d)])"
      "\<forall>a. a \<noteq> e \<longrightarrow> a \<notin> fst ` set xs \<longrightarrow> H' a = H a" by blast
  have "dom H' \<subseteq> dom H \<union> insert e (fst ` set xs)" using a(3) by (auto simp: dom_def)
  then have "finite (dom H')" by (rule finite_subset) (simp add: f)
  moreover have "data_repr H' l' (ps @ [d])" using a(2) xs(2) unfolding data_repr_def by (intro exI [of _ "xs @ [(e, d)]"]) simp
  ultimately show ?thesis using a(1) by blast
qed

lemma hosts_ok_upd: "hosts_ok hs ps \<Longrightarrow> p \<notin> set ps \<Longrightarrow> hosts_ok (hs(p := x)) ps"
  by (auto simp: hosts_ok_def)

lemma map_upd_other: "p \<notin> set ps \<Longrightarrow> map (hs(p := x)) ps = map hs ps"
  by (auto intro: map_cong)

text \<open>The end of a section.\<close>

lemma end_host_represents:
  assumes "allocates em" and "data_repr (cf_heap s) (cf_list s) ps" and "finite (dom (cf_heap s))"
    and "hosts_ok hs ps" and "map hs ps = map Some (sp_hosts c)" and "hs DEFAULT_HOST = Some (sp_default c)"
    and "finite (dom hs)" and "hs p = None" and "cf_hosts s = Some (hs(p \<mapsto> h))"
    and "DEFAULT_HOST \<notin> cf_freed s" and "insert p (set ps) \<inter> cf_freed s = {}"
    and "held \<or> insert p (set ps) \<inter> cf_shared s = {}"
  shows "\<exists>st'. end_host em p h \<lparr>cs_cfg = s, cs_vtun = v\<rparr> = Some st'
    \<and> represents st' (c\<lparr>sp_vtun := v, sp_hosts := sp_hosts c @ (if vh_passwd h \<noteq> None then [h] else []), sp_held := held\<rparr>)"
proof -
  have p: "p \<notin> set ps" using assms(4,8) by (auto simp: hosts_ok_def)
  have p0: "p \<noteq> DEFAULT_HOST" using assms(6,8) by (metis option.distinct(1))
  note p = p p0
  show ?thesis
  proof (cases "vh_passwd h = None")
    case True
    have "(hs(p := x))(p := None) = hs" for x using assms(8) by auto
    with True assms show ?thesis
      by (auto simp: end_host_def free_host_def set_hosts_def represents_def intro!: exI [of _ ps])
  next
    case False
    from data_repr_add [OF assms(2,1,3), of p] obtain l' H' where
      a: "llist_add em (cf_list s) p (cf_heap s) = Some (0, l', H')" "data_repr H' l' (ps @ [p])" "finite (dom H')" by blast
    have "hosts_ok (hs(p \<mapsto> h)) (ps @ [p])" using hosts_ok_upd [OF assms(4) p(1), of "Some h"] p False
      by (auto simp: hosts_ok_def)
    moreover have "map (hs(p \<mapsto> h)) (ps @ [p]) = map Some (sp_hosts c @ [h])"
      using assms(5) map_upd_other [OF p(1), of hs "Some h"] by simp
    ultimately show ?thesis using False a assms p(2)
      by (auto simp: end_host_def represents_def intro!: exI [of _ "ps @ [p]"])
  qed
qed

lemma share_dev_marks:
  assumes "DEFAULT_HOST \<notin> cf_freed s" and "set ps \<inter> cf_freed s = {}" and "p \<noteq> DEFAULT_HOST"
    and "held \<or> set ps \<inter> cf_shared s = {}"
  shows "DEFAULT_HOST \<notin> cf_freed (share_dev p d s)" and "insert p (set ps) \<inter> cf_freed (share_dev p d s) = {}"
    and "(held \<or> vh_dev d \<noteq> None) \<or> insert p (set ps) \<inter> cf_shared (share_dev p d s) = {}"
    and "cf_hosts (share_dev p d s) = cf_hosts s" and "cf_list (share_dev p d s) = cf_list s"
    and "cf_heap (share_dev p d s) = cf_heap s"
  using assms by (auto simp: share_dev_def Let_def)

lemma new_host_dev [simp]: "vh_dev (new_host n d) = vh_dev d"
  by (simp add: new_host_def copy_addr_def Let_def)

lemma statement_refines:
  assumes "represents st c" and "sound_at s c" and hm: "allocates hm" and em: "allocates em"
  shows "\<exists>st'. run_statement hm em s st = Some (snd s, st') \<and> represents st' (spec_statement s c)"
proof -
  obtain hs ps where r: "cf_hosts (cs_cfg st) = Some hs" "data_repr (cf_heap (cs_cfg st)) (cf_list (cs_cfg st)) ps"
    "hosts_ok hs ps" "map hs ps = map Some (sp_hosts c)" "hs DEFAULT_HOST = Some (sp_default c)"
    "finite (dom hs)" "finite (dom (cf_heap (cs_cfg st)))" "cs_vtun st = sp_vtun c"
    and m: "DEFAULT_HOST \<notin> cf_freed (cs_cfg st)" "set ps \<inter> cf_freed (cs_cfg st) = {}"
      "sp_held c \<or> set ps \<inter> cf_shared (cs_cfg st) = {}"
    using assms(1) unfolding represents_def by blast
  have d: "the_default st = Some (sp_default c)" using r(1,5) by (simp add: the_default_def)
  obtain sec ok where s: "s = (sec, ok)" by (cases s)
  show ?thesis
  proof (cases sec)
    case (S_options gs)
    then show ?thesis using r m s by (auto simp: represents_def intro!: exI [of _ ps])
  next
    case (S_default xs)
    obtain d' v where f: "fold run_item xs (sp_default c, sp_vtun c) = (d', v)" by fastforce
    have n: "DEFAULT_HOST \<notin> set ps" using r(3) by (auto simp: hosts_ok_def)
    have "hosts_ok (hs(DEFAULT_HOST \<mapsto> d')) ps" "map (hs(DEFAULT_HOST \<mapsto> d')) ps = map Some (sp_hosts c)"
      using hosts_ok_upd [OF r(3) n] map_upd_other [OF n, of hs] r(4) by auto
    moreover obtain s1 where "drop_device xs DEFAULT_HOST (sp_default c) st = Some (st\<lparr>cs_cfg := s1\<rparr>)"
      "cf_hosts s1 = Some hs" "cf_list s1 = cf_list (cs_cfg st)" "cf_heap s1 = cf_heap (cs_cfg st)"
      "DEFAULT_HOST \<notin> cf_freed s1" "set ps \<inter> cf_freed s1 = {}"
      "(sp_held c \<and> \<not> names_device xs) \<or> set ps \<inter> cf_shared s1 = {}"
    proof (cases "names_device xs")
      case True
      have "\<exists>s1. free_dev DEFAULT_HOST (sp_default c) (cs_cfg st) = Some s1
          \<and> cf_hosts s1 = Some hs \<and> cf_list s1 = cf_list (cs_cfg st) \<and> cf_heap s1 = cf_heap (cs_cfg st)
          \<and> DEFAULT_HOST \<notin> cf_freed s1 \<and> set ps \<inter> cf_freed s1 = {} \<and> set ps \<inter> cf_shared s1 = {}"
        using assms(2) True m r(1) by (auto simp: s S_default free_dev_def simp del: DEFAULT_HOST_def)
      then show thesis using that True by (auto simp: drop_device_def)
    next
      case False
      have "st = st\<lparr>cs_cfg := cs_cfg st\<rparr>" by simp
      then show thesis using that [of "cs_cfg st"] False r(1) m by (simp add: drop_device_def)
    qed
    ultimately show ?thesis using r d s S_default f
      by (auto simp: default_section_def set_hosts_def represents_def simp del: DEFAULT_HOST_def intro!: exI [of _ ps])
  next
    case (S_host n xs)
    obtain p where p: "hm hs = Some p" "hs p = None" using hm r(6) by (auto simp: allocates_def)
    have np1: "p \<notin> set ps" using p(2) r(3) by (auto simp: hosts_ok_def)
    have np2: "p \<noteq> DEFAULT_HOST" using p(2) r(5) by (metis option.distinct(1))
    note np = np1 np2
    obtain h v where f: "fold run_item xs (new_host n (sp_default c), sp_vtun c) = (h, v)" by fastforce
    let ?s1 = "share_dev p (sp_default c) (cs_cfg st)"
    let ?held = "sp_held c \<or> vh_dev (sp_default c) \<noteq> None"
    have k: "copy_host n (sp_default c) = Some (new_host n (sp_default c))"
      "drop_device xs p (new_host n (sp_default c)) (st\<lparr>cs_cfg := ?s1\<rparr>) = Some (st\<lparr>cs_cfg := ?s1\<rparr>)"
      using assms(2) copy_host_sound np2 by (auto simp: s S_host drop_device_def free_dev_def simp del: DEFAULT_HOST_def)
    note sh = share_dev_marks [OF m(1,2) np2 m(3), of "sp_default c"]
    let ?s = "?s1\<lparr>cf_hosts := Some (hs(p \<mapsto> h))\<rparr>"
    have eq: "set_hosts (Some (hs(p \<mapsto> h))) v (st\<lparr>cs_cfg := ?s1\<rparr>) = \<lparr>cs_cfg = ?s, cs_vtun = v\<rparr>"
      by (cases st) (simp add: set_hosts_def)
    show ?thesis
    proof (cases ok)
      case True
      from end_host_represents [OF em, of ?s ps hs c p h ?held v] r p sh obtain st' where
        "end_host em p h \<lparr>cs_cfg = ?s, cs_vtun = v\<rparr> = Some st'"
        "represents st' (c\<lparr>sp_vtun := v, sp_hosts := sp_hosts c @ (if vh_passwd h \<noteq> None then [h] else []), sp_held := ?held\<rparr>)"
        by auto
      then show ?thesis using True s S_host f k p(1) r(1,8) d eq by (simp add: new_section_def Let_def)
    next
      case False
      have "hosts_ok (hs(p \<mapsto> h)) ps" "map (hs(p \<mapsto> h)) ps = map Some (sp_hosts c)"
        using hosts_ok_upd [OF r(3) np(1)] map_upd_other [OF np(1), of hs] r(4) by auto
      then have "represents \<lparr>cs_cfg = ?s, cs_vtun = v\<rparr> (c\<lparr>sp_vtun := v, sp_hosts := sp_hosts c @ [], sp_held := ?held\<rparr>)"
        using r np(2) sh by (auto simp: represents_def intro!: exI [of _ ps])
      then show ?thesis using False s S_host f k p(1) r(1,8) d eq by (simp add: new_section_def Let_def)
    qed
  qed
qed

lemma run_config_represents:
  assumes "represents st c" and "sound_config ss c" and hm: "allocates hm" and em: "allocates em"
  shows "\<exists>st'. run_config hm em ss st = Some st' \<and> represents st' (spec_config ss c)"
  using assms(1,2)
proof (induction ss arbitrary: st c)
  case Nil
  then show ?case by (simp add: spec_config_def)
next
  case (Cons s ss)
  have "sound_at s c" using Cons.prems(2) by simp
  from statement_refines [OF Cons.prems(1) this hm em] obtain st1 where
    st1: "run_statement hm em s st = Some (snd s, st1)" "represents st1 (spec_statement s c)" by blast
  show ?case
  proof (cases "snd s")
    case True
    with Cons.IH [OF st1(2)] Cons.prems(2) st1(1) show ?thesis by (simp add: spec_config_def)
  next
    case False
    with st1 show ?thesis by (simp add: spec_config_def)
  qed
qed

subsection \<open>Reading and looking up\<close>

lemma find_append: "find P (xs @ ys) = (case find P xs of None \<Rightarrow> find P ys | Some x \<Rightarrow> Some x)"
  by (induction xs) auto

text \<open>The host an address of the store stands for, and whether the device name of that host is valid.\<close>

definition dev_valid :: "addr option \<Rightarrow> cfg \<Rightarrow> bool" where
  "dev_valid r s = (case r of None \<Rightarrow> True | Some p \<Rightarrow> p \<notin> cf_freed s)"

definition host_at :: "addr option \<Rightarrow> cfg \<Rightarrow> vtun_host option" where
  "host_at r s = Option.bind r (\<lambda>p. Option.bind (cf_hosts s) (\<lambda>hs. hs p))"

lemma last_named_some: "last_named hs n ps = Some p \<Longrightarrow> p \<in> set ps \<and> hs p \<noteq> None \<and> named hs n p"
proof -
  assume "last_named hs n ps = Some p"
  then obtain qs where "rev (filter (named hs n) ps) = p # qs" by (auto simp: last_named_def split: list.splits)
  then have "p \<in> set (rev (filter (named hs n) ps))" by simp
  then show ?thesis by (auto simp: named_def)
qed

lemma last_named_find:
  "map hs ps = map Some H \<Longrightarrow> Option.bind (last_named hs n ps) hs = find (\<lambda>h. vh_host h = n) (rev H)"
proof (induction ps arbitrary: H)
  case Nil
  then show ?case by (simp add: last_named_def)
next
  case (Cons p ps)
  then obtain h H' where h: "H = h # H'" "hs p = Some h" "map hs ps = map Some H'" by (cases H) auto
  show ?case using Cons.IH [OF h(3)] h(2)
  proof (cases "last_named hs n ps")
    case (Some q)
    with last_named_some have "hs q \<noteq> None" by blast
    with Some Cons.IH [OF h(3)] show ?thesis by (auto simp: last_named_Cons h(1) find_append split: option.splits)
  qed (auto simp: last_named_Cons h(1) find_append named_def)
qed

lemma free_list_all:
  "hosts_ok hs ps \<Longrightarrow> free_list (free_host None) ps ff (Some hs) = (ff, Some (\<lambda>p. if p \<in> set ps then None else hs p))"
proof (induction ps arbitrary: hs)
  case Nil
  then show ?case by simp
next
  case (Cons p ps)
  then obtain h where h: "hs p = Some h" "vh_passwd h \<noteq> None" "p \<noteq> DEFAULT_HOST" "p \<notin> set ps"
    by (auto simp: hosts_ok_def)
  have "hosts_ok (hs(p := None)) ps" using Cons.prems h(4) by (auto simp: hosts_ok_def)
  note ih = Cons.IH [OF this]
  have "free_host None p (Some hs) = (0, Some (hs(p := None)))" using h by (auto simp: free_host_def)
  then have "free_list (free_host None) (p # ps) ff (Some hs)
      = (ff, Some (\<lambda>q. if q \<in> set ps then None else (hs(p := None)) q))" by (simp add: ih del: fun_upd_apply)
  then show ?case by (auto simp: fun_eq_iff)
qed

text \<open>
  A configuration that can be read, for the first time or again: the device name of the default host has not been freed.
\<close>

definition readable :: "vtun_host \<Rightarrow> cfg \<Rightarrow> bool" where
  "readable d s =
     (\<exists>hs. cf_hosts s = Some hs \<and> hs DEFAULT_HOST = Some d \<and> finite (dom hs) \<and> finite (dom (cf_heap s))
        \<and> DEFAULT_HOST \<notin> cf_freed s
        \<and> (cf_loaded s \<longrightarrow> (\<exists>ps. data_repr (cf_heap s) (cf_list s) ps \<and> hosts_ok hs ps)))"

lemma data_repr_init: "data_repr H llist_init []"
  by (simp add: data_repr_def llist_repr_def llist_init_def)

lemma release_readable:
  assumes "readable d s"
  shows "\<exists>s1. (if cf_loaded s then free_host_list s else Some s) = Some s1
    \<and> represents \<lparr>cs_cfg = s1\<lparr>cf_loaded := True, cf_list := llist_init\<rparr>, cs_vtun = v\<rparr>
        (fresh_spec d v)"
proof -
  obtain hs where hs: "cf_hosts s = Some hs" "hs DEFAULT_HOST = Some d" "finite (dom hs)" "finite (dom (cf_heap s))"
    "DEFAULT_HOST \<notin> cf_freed s" "cf_loaded s \<Longrightarrow> \<exists>ps. data_repr (cf_heap s) (cf_list s) ps \<and> hosts_ok hs ps"
    using assms by (auto simp: readable_def)
  show ?thesis
  proof (cases "cf_loaded s")
    case False
    then show ?thesis using hs data_repr_init by (auto simp: represents_def hosts_ok_def)
  next
    case True
    then obtain xs ps where ps: "llist_repr (cf_heap s) (cf_list s) xs" "ps = map snd xs" "hosts_ok hs ps"
      using hs(6) by (auto simp: data_repr_def)
    let ?hs = "\<lambda>p. if p \<in> set ps then None else hs p"
    from llist_free_list [OF ps(1), of "free_host None" "Some hs"] obtain H' where
      f: "llist_free (cf_list s) (free_host None) (cf_heap s) (Some hs) = Some (None, llist_init, H', Some ?hs)"
      "\<forall>a\<in>fst ` set xs. H' a = (if a \<in> set (kept (free_host None) xs (Some hs)) then cf_heap s a else None)"
      "\<forall>a. a \<notin> fst ` set xs \<longrightarrow> H' a = cf_heap s a"
      using free_list_all [OF ps(3), of None] ps(2) by auto
    have "H' a = cf_heap s a \<or> H' a = None" for a using f(2,3) by metis
    then have "dom H' \<subseteq> dom (cf_heap s)" by (auto simp: dom_def) (metis option.simps(3))
    then have "finite (dom H')" using hs(4) finite_subset by blast
    moreover have "dom ?hs \<subseteq> dom hs" by (auto split: if_splits)
    then have "finite (dom ?hs)" using hs(3) finite_subset by blast
    moreover have "?hs DEFAULT_HOST = Some d" using hs(2) ps(3) by (auto simp: hosts_ok_def)
    ultimately show ?thesis using True f(1) hs(1,5) data_repr_init
      by (auto simp: represents_def hosts_ok_def free_host_list_def)
  qed
qed

text \<open>The configuration holds these hosts, in this order, and their device names are valid.\<close>

definition lists_hosts :: "cfg \<Rightarrow> vtun_host list \<Rightarrow> bool" where
  "lists_hosts s H =
     (\<exists>hs ps. cf_hosts s = Some hs \<and> data_repr (cf_heap s) (cf_list s) ps \<and> hosts_ok hs ps \<and> map hs ps = map Some H
        \<and> set ps \<inter> cf_freed s = {})"

lemma find_host_lists:
  assumes "lists_hosts s H"
  shows "\<exists>r s'. find_host n s = Some (r, s') \<and> (r = None \<longleftrightarrow> host_at r s' = None)
    \<and> host_at r s' = find (\<lambda>h. vh_host h = n) (rev H) \<and> dev_valid r s'"
proof -
  obtain hs ps where r: "cf_hosts s = Some hs" "data_repr (cf_heap s) (cf_list s) ps" "hosts_ok hs ps" "map hs ps = map Some H"
    "set ps \<inter> cf_freed s = {}"
    using assms by (auto simp: lists_hosts_def)
  from find_host_last [OF r(2,1,3)] obtain s' where
    s: "find_host n s = Some (last_named hs n ps, s')" "cf_hosts s' = Some (keep_named hs n ps)" "cf_freed s' = cf_freed s" by blast
  have at: "host_at (last_named hs n ps) s' = Option.bind (last_named hs n ps) hs"
    using last_named_some [of hs n ps] s(2)
    by (cases "last_named hs n ps") (auto simp: host_at_def keep_named_def)
  have "last_named hs n ps \<noteq> None \<longrightarrow> Option.bind (last_named hs n ps) hs \<noteq> None"
    using last_named_some [of hs n ps] by (cases "last_named hs n ps") auto
  moreover have "dev_valid (last_named hs n ps) s'"
    using last_named_some [of hs n ps] s(3) r(5) by (cases "last_named hs n ps") (auto simp: dev_valid_def)
  ultimately show ?thesis using s(1) at last_named_find [OF r(4), of n] by (auto simp: host_at_def)
qed

text \<open>The flags of the NAT hack that the mode of operation has no use for.\<close>

definition no_nat_hack :: "bool \<Rightarrow> vtun_host \<Rightarrow> vtun_host" where
  "no_nat_hack svr h = h\<lparr>vh_flags := vh_flags h AND NOT (if svr then VTUN_NAT_HACK_CLIENT else VTUN_NAT_HACK_SERVER)\<rparr>"

lemma clear_flags_lists:
  assumes "lists_hosts s H"
  shows "\<exists>s'. clear_nat_hack_flags svr s = Some s' \<and> lists_hosts s' (map (no_nat_hack svr) H)"
proof -
  obtain hs ps where r: "cf_hosts s = Some hs" "data_repr (cf_heap s) (cf_list s) ps" "hosts_ok hs ps" "map hs ps = map Some H"
    "set ps \<inter> cf_freed s = {}"
    using assms by (auto simp: lists_hosts_def)
  let ?f = "no_nat_hack svr"
  let ?hs = "\<lambda>p. if p \<in> set ps then map_option ?f (hs p) else hs p"
  have c: "clear_nat_hack_flags svr s = Some (s\<lparr>cf_hosts := Some ?hs\<rparr>)"
    unfolding nat_hack_flags_cleared [OF r(2,1,3)] no_nat_hack_def ..
  have "hosts_ok ?hs ps" using r(3) by (fastforce simp: hosts_ok_def no_nat_hack_def)
  moreover have "map ?hs ps = map (map_option ?f) (map hs ps)" by simp
  then have "map ?hs ps = map Some (map ?f H)" unfolding r(4) by simp
  ultimately show ?thesis unfolding c lists_hosts_def using r(2,5)
    by (intro exI [of _ "s\<lparr>cf_hosts := Some ?hs\<rparr>"] conjI refl exI [of _ ?hs] exI [of _ ps]) simp_all
qed

lemma empty_repr: "data_repr H l ds \<Longrightarrow> llist_empty l \<longleftrightarrow> ds = []"
  by (cases ds) (auto simp: data_repr_def llist_repr_def llist_empty_def split: if_splits)

lemma read_config_lists:
  assumes "readable d s" and "allocates hm" and "allocates em"
    and "sound_config ss (fresh_spec d v)"
    and c: "c = spec_config ss (fresh_spec d v)" and "vh_passwd (sp_default c) = None"
  shows "\<exists>s'. read_config (config_parse hm em ss v) True s = Some (if sp_hosts c = [] then 0 else 1, s')
    \<and> lists_hosts s' (sp_hosts c)"
proof -
  from release_readable [OF assms(1), of v] obtain s1 where
    s1: "(if cf_loaded s then free_host_list s else Some s) = Some s1"
      "represents \<lparr>cs_cfg = s1\<lparr>cf_loaded := True, cf_list := llist_init\<rparr>, cs_vtun = v\<rparr>
        (fresh_spec d v)" by blast
  from run_config_represents [OF s1(2) assms(4,2,3)] obtain st where
    st: "run_config hm em ss \<lparr>cs_cfg = s1\<lparr>cf_loaded := True, cf_list := llist_init\<rparr>, cs_vtun = v\<rparr> = Some st"
      "represents st c" unfolding c by blast
  obtain hs ps where r: "cf_hosts (cs_cfg st) = Some hs" "data_repr (cf_heap (cs_cfg st)) (cf_list (cs_cfg st)) ps"
    "hosts_ok hs ps" "map hs ps = map Some (sp_hosts c)" "hs DEFAULT_HOST = Some (sp_default c)"
    "set ps \<inter> cf_freed (cs_cfg st) = {}"
    using st(2) unfolding represents_def by blast
  obtain d' where d': "snd (free_host None DEFAULT_HOST (cf_hosts (cs_cfg st))) = Some (hs(DEFAULT_HOST \<mapsto> d'))"
    using r(1,5) assms(6) by (auto simp: free_host_def)
  have n: "DEFAULT_HOST \<notin> set ps" using r(3) by (auto simp: hosts_ok_def)
  let ?s' = "(cs_cfg st)\<lparr>cf_hosts := Some (hs(DEFAULT_HOST \<mapsto> d'))\<rparr>"
  have "llist_empty (cf_list (cs_cfg st)) \<longleftrightarrow> sp_hosts c = []" using empty_repr [OF r(2)] r(4) by auto
  then have "read_config (config_parse hm em ss v) True s = Some (if sp_hosts c = [] then 0 else 1, ?s')"
    using s1(1) st(1) d' by (simp add: read_config_def config_parse_def Let_def)
  moreover have "map (hs(DEFAULT_HOST \<mapsto> d')) ps = map Some (sp_hosts c)" unfolding map_upd_other [OF n] by (rule r(4))
  then have "lists_hosts ?s' (sp_hosts c)" unfolding lists_hosts_def using r(2,6) hosts_ok_upd [OF r(3) n, of "Some d'"]
    by (intro exI [of _ "hs(DEFAULT_HOST \<mapsto> d')"] exI [of _ ps]) simp
  ultimately show ?thesis by blast
qed

subsection \<open>Properties\<close>

text \<open>
  C11. What reading a configuration and looking up a host come to, from the sections of the file, as the grammar
  finds them, to the structure that is found: the result says whether the file defines a host, and the host found
  under a name is that of the last complete section of that name, with the options of the \<open>default\<close> sections
  before it and its own, and with a device name that has not been freed, whatever an earlier reading has left in
  the list. Memory does not run out; the file sets no password in a \<open>default\<close> section (which would free the
  static structure), the commands of the default host have a program and arguments, and no device name is
  replaced that another host shares with the default host (\<open>sound_config\<close>).
\<close>

theorem configured_host:
  assumes "readable d s" and "allocates hm" and "allocates em"
    and "sound_config ss (fresh_spec d v)"
    and c: "c = spec_config ss (fresh_spec d v)" and "vh_passwd (sp_default c) = None"
  shows "\<exists>s'. read_config (config_parse hm em ss v) True s = Some (if sp_hosts c = [] then 0 else 1, s')
    \<and> (\<forall>n. \<exists>r s''. find_host n s' = Some (r, s'') \<and> (r = None \<longleftrightarrow> host_at r s'' = None)
        \<and> host_at r s'' = find (\<lambda>h. vh_host h = n) (rev (sp_hosts c)) \<and> dev_valid r s'')"
proof -
  from read_config_lists [OF assms] obtain s' where
    "read_config (config_parse hm em ss v) True s = Some (if sp_hosts c = [] then 0 else 1, s')" "lists_hosts s' (sp_hosts c)"
    by blast
  with find_host_lists show ?thesis by blast
qed

text \<open>A host section with a password and a device of its own, or with a password only.\<close>

lemma host_section_runs:
  assumes st: "cf_hosts (cs_cfg st) = Some hs" "data_repr (cf_heap (cs_cfg st)) (cf_list (cs_cfg st)) ps"
      "finite (dom hs)" "finite (dom (cf_heap (cs_cfg st)))" "hs DEFAULT_HOST = Some d" "vh_dev d \<noteq> None"
    and ok: "list_all (\<lambda>x. prog x \<noteq> None \<and> args x \<noteq> None) (vh_up d @ vh_down d)"
    and hm: "allocates hm" and em: "allocates em"
    and xs: "xs = I_opt (O_passwd q) # (case dev of None \<Rightarrow> [] | Some b \<Rightarrow> [I_opt (O_device b)])"
    and fr: "DEFAULT_HOST \<notin> cf_freed (cs_cfg st)"
  shows "\<exists>st' e h l H. hm hs = Some e \<and> hs e = None \<and> e \<noteq> DEFAULT_HOST
    \<and> run_statement hm em (S_host n xs, True) st = Some (True, st')
    \<and> cs_cfg st' = \<lparr>cf_heap = H, cf_list = l, cf_hosts = Some (hs(e \<mapsto> h)), cf_loaded = cf_loaded (cs_cfg st),
         cf_shared = (if dev = None then insert e (cf_shared (cs_cfg st)) else {}),
         cf_freed = (if dev = None then cf_freed (cs_cfg st) - {e}
           else (cf_freed (cs_cfg st) - {e}) \<union> (insert DEFAULT_HOST (cf_shared (cs_cfg st)) - {e}))\<rparr>
    \<and> data_repr H l (ps @ [e]) \<and> finite (dom H) \<and> vh_host h = n \<and> vh_passwd h \<noteq> None"
proof -
  obtain e where e: "hm hs = Some e" "hs e = None" using hm st(3) by (auto simp: allocates_def)
  have ne: "e \<noteq> DEFAULT_HOST" using e(2) st(5) by (metis option.distinct(1))
  have k: "copy_host n d = Some (new_host n d)" by (rule copy_host_sound [OF ok])
  define h where "h = (new_host n d)\<lparr>vh_passwd := Some q, vh_dev := (if dev = None then vh_dev d else dev)\<rparr>"
  have f: "fold run_item xs (new_host n d, v) = (h, v)" for v
    by (cases dev) (simp_all add: xs h_def)
  from data_repr_add [OF st(2) em st(4), of e] obtain l' H' where
    l: "llist_add em (cf_list (cs_cfg st)) e (cf_heap (cs_cfg st)) = Some (0, l', H')" "data_repr H' l' (ps @ [e])"
      "finite (dom H')" by blast
  have nd: "names_device xs \<longleftrightarrow> dev \<noteq> None" by (cases dev) (simp_all add: xs)
  let ?s1 = "share_dev e d (cs_cfg st)"
  have s1: "?s1 = (cs_cfg st)\<lparr>cf_shared := insert e (cf_shared (cs_cfg st)), cf_freed := cf_freed (cs_cfg st) - {e}\<rparr>"
    using st(6) fr by (auto simp: share_dev_def Let_def simp del: DEFAULT_HOST_def)
  have pw: "vh_passwd h = Some q" "vh_host h = n" by (simp_all add: h_def new_host_def copy_addr_def Let_def)
  have drop: "drop_device xs e (new_host n d) (st\<lparr>cs_cfg := ?s1\<rparr>)
      = Some (st\<lparr>cs_cfg := (if dev = None then ?s1 else ?s1\<lparr>cf_shared := {},
           cf_freed := cf_freed ?s1 \<union> (insert DEFAULT_HOST (cf_shared ?s1) - {e})\<rparr>)\<rparr>)"
    using st(6) ne nd by (auto simp: drop_device_def free_dev_def s1 simp del: DEFAULT_HOST_def)
  let ?c1 = "if dev = None then ?s1 else ?s1\<lparr>cf_shared := {},
       cf_freed := cf_freed ?s1 \<union> (insert DEFAULT_HOST (cf_shared ?s1) - {e})\<rparr>"
  let ?st' = "\<lparr>cs_cfg = ?c1\<lparr>cf_hosts := Some (hs(e \<mapsto> h)), cf_list := l', cf_heap := H'\<rparr>, cs_vtun = cs_vtun st\<rparr>"
  have c1: "cf_list ?c1 = cf_list (cs_cfg st)" "cf_heap ?c1 = cf_heap (cs_cfg st)" by (simp_all add: s1)
  have end1: "end_host em e h (set_hosts (Some (hs(e \<mapsto> h))) (cs_vtun st) (st\<lparr>cs_cfg := ?c1\<rparr>)) = Some ?st'"
    using pw c1 l(1) by (simp add: end_host_def set_hosts_def)
  have "new_section em e n xs True d st = Some ?st'"
    using st(1) k drop end1 by (simp add: new_section_def f Let_def del: DEFAULT_HOST_def)
  then have "run_statement hm em (S_host n xs, True) st = Some (True, ?st')"
    using st(1,5) e(1) by (simp add: the_default_def del: DEFAULT_HOST_def)
  moreover have "cs_cfg ?st' = \<lparr>cf_heap = H', cf_list = l', cf_hosts = Some (hs(e \<mapsto> h)), cf_loaded = cf_loaded (cs_cfg st),
         cf_shared = (if dev = None then insert e (cf_shared (cs_cfg st)) else {}),
         cf_freed = (if dev = None then cf_freed (cs_cfg st) - {e}
           else (cf_freed (cs_cfg st) - {e}) \<union> (insert DEFAULT_HOST (cf_shared (cs_cfg st)) - {e}))\<rparr>"
    unfolding s1 by (cases "cs_cfg st") auto
  ultimately show ?thesis using e ne l(2,3) pw
    by (intro exI [of _ ?st'] exI [of _ e] exI [of _ h] exI [of _ l'] exI [of _ H'])
      (simp del: DEFAULT_HOST_def run_statement.simps)
qed

text \<open>
  A device name in the \<open>default\<close> section and in two hosts: the string of the default host is freed
  twice while the file is read.
\<close>

theorem default_device_freed_twice:
  assumes "represents st c" and "vh_dev (sp_default c) \<noteq> None" and "allocates hm" and "allocates em"
    and "list_all (\<lambda>x. prog x \<noteq> None \<and> args x \<noteq> None) (vh_up (sp_default c) @ vh_down (sp_default c))"
  shows "run_config hm em [(S_host n [I_opt (O_passwd p), I_opt (O_device a)], True),
      (S_host m [I_opt (O_passwd q), I_opt (O_device b)], True)] st = None"
proof -
  obtain hs ps where r: "cf_hosts (cs_cfg st) = Some hs" "data_repr (cf_heap (cs_cfg st)) (cf_list (cs_cfg st)) ps"
    "hs DEFAULT_HOST = Some (sp_default c)" "finite (dom hs)" "finite (dom (cf_heap (cs_cfg st)))"
    "DEFAULT_HOST \<notin> cf_freed (cs_cfg st)"
    using assms(1) unfolding represents_def by blast
  have xs: "[I_opt (O_passwd p), I_opt (O_device a)]
      = I_opt (O_passwd p) # (case Some a of None \<Rightarrow> [] | Some b \<Rightarrow> [I_opt (O_device b)])" by simp
  from host_section_runs [OF r(1,2,4,5,3) assms(2,5,3,4) xs r(6), of n] obtain st' e h where
    st': "run_statement hm em (S_host n [I_opt (O_passwd p), I_opt (O_device a)], True) st = Some (True, st')"
      "cf_hosts (cs_cfg st') = Some (hs(e \<mapsto> h))" "e \<noteq> DEFAULT_HOST" "DEFAULT_HOST \<in> cf_freed (cs_cfg st')" by auto
  have "finite (dom (hs(e \<mapsto> h)))" using r(4) by simp
  then obtain e2 where e2: "hm (hs(e \<mapsto> h)) = Some e2" "(hs(e \<mapsto> h)) e2 = None" using assms(3) unfolding allocates_def by blast
  have ne2: "e2 \<noteq> DEFAULT_HOST" using e2(2) r(3) st'(3) by (auto simp del: DEFAULT_HOST_def split: if_splits)
  have "the_default st' = Some (sp_default c)" using st'(2,3) r(3) by (simp add: the_default_def del: DEFAULT_HOST_def)
  moreover have "new_section em e2 m [I_opt (O_passwd q), I_opt (O_device b)] True (sp_default c) st' = None"
    using st'(2,4) assms(2) ne2
    by (auto simp add: new_section_def copy_host_sound [OF assms(5)] drop_device_def free_dev_def share_dev_def Let_def
        simp del: DEFAULT_HOST_def)
  ultimately show ?thesis using st'(1,2) e2(1) by (simp del: DEFAULT_HOST_def)
qed

text \<open>
  A device name in a \<open>default\<close> section, a host after it, and another device name in a second \<open>default\<close> section:
  the file is read without complaint, but the device name of the host, which is found under its name, has been freed.
\<close>

theorem later_default_frees_device:
  assumes "readable d s" and "\<not> cf_loaded s" and "vh_dev d = None" and "allocates hm" and "allocates em"
    and "list_all (\<lambda>x. prog x \<noteq> None \<and> args x \<noteq> None) (vh_up d @ vh_down d)" and "vh_passwd d = None"
  shows "\<exists>s' p s'' h. read_config (config_parse hm em
      [(S_default [I_opt (O_device a)], True), (S_host n [I_opt (O_passwd q)], True),
       (S_default [I_opt (O_device b)], True)] v) True s = Some (1, s')
    \<and> find_host n s' = Some (Some p, s'') \<and> host_at (Some p) s'' = Some h \<and> \<not> dev_valid (Some p) s''"
proof -
  obtain hs where r: "cf_hosts s = Some hs" "hs DEFAULT_HOST = Some d" "finite (dom hs)" "finite (dom (cf_heap s))"
    "DEFAULT_HOST \<notin> cf_freed s"
    using assms(1) by (auto simp: readable_def)
  let ?s0 = "s\<lparr>cf_loaded := True, cf_list := llist_init\<rparr>"
  define d1 where "d1 = d\<lparr>vh_dev := Some a\<rparr>"
  define st1 where "st1 = \<lparr>cs_cfg = ?s0\<lparr>cf_shared := {}, cf_hosts := Some (hs(DEFAULT_HOST \<mapsto> d1))\<rparr>, cs_vtun = v\<rparr>"
  have 1: "run_statement hm em (S_default [I_opt (O_device a)], True) \<lparr>cs_cfg = ?s0, cs_vtun = v\<rparr> = Some (True, st1)"
    using r(1,2) assms(3)
    by (simp add: the_default_def default_section_def drop_device_def free_dev_def set_hosts_def st1_def d1_def)
  have f1: "cf_hosts (cs_cfg st1) = Some (hs(DEFAULT_HOST \<mapsto> d1))" "finite (dom (hs(DEFAULT_HOST \<mapsto> d1)))"
    "finite (dom (cf_heap (cs_cfg st1)))" "(hs(DEFAULT_HOST \<mapsto> d1)) DEFAULT_HOST = Some d1" "vh_dev d1 \<noteq> None"
    "list_all (\<lambda>x. prog x \<noteq> None \<and> args x \<noteq> None) (vh_up d1 @ vh_down d1)"
    "data_repr (cf_heap (cs_cfg st1)) (cf_list (cs_cfg st1)) []"
    "cf_freed (cs_cfg st1) = cf_freed s" "cf_shared (cs_cfg st1) = {}" "DEFAULT_HOST \<notin> cf_freed (cs_cfg st1)"
    using r assms(6) by (simp_all add: st1_def d1_def data_repr_init)
  have xs: "[I_opt (O_passwd q)] = I_opt (O_passwd q) # (case None of None \<Rightarrow> [] | Some b \<Rightarrow> [I_opt (O_device b)])" by simp
  from host_section_runs [OF f1(1,7,2,3,4,5,6) assms(4,5) xs f1(10), of n] obtain st2 e h l H where
    "run_statement hm em (S_host n [I_opt (O_passwd q)], True) st1 = Some (True, st2)"
    "cs_cfg st2 = \<lparr>cf_heap = H, cf_list = l, cf_hosts = Some (hs(DEFAULT_HOST \<mapsto> d1, e \<mapsto> h)), cf_loaded = cf_loaded (cs_cfg st1),
         cf_shared = (if None = (None :: string option) then insert e (cf_shared (cs_cfg st1)) else {}),
         cf_freed = (if None = (None :: string option) then cf_freed (cs_cfg st1) - {e}
           else (cf_freed (cs_cfg st1) - {e}) \<union> (insert DEFAULT_HOST (cf_shared (cs_cfg st1)) - {e}))\<rparr>"
    "e \<noteq> DEFAULT_HOST" "data_repr H l ([] @ [e])" "vh_host h = n" "vh_passwd h \<noteq> None" by blast
  then have 2: "run_statement hm em (S_host n [I_opt (O_passwd q)], True) st1 = Some (True, st2)"
      "cs_cfg st2 = \<lparr>cf_heap = H, cf_list = l, cf_hosts = Some (hs(DEFAULT_HOST \<mapsto> d1, e \<mapsto> h)),
         cf_loaded = cf_loaded (cs_cfg st1), cf_shared = {e}, cf_freed = cf_freed s - {e}\<rparr>"
      "e \<noteq> DEFAULT_HOST" "data_repr H l [e]" "vh_host h = n" "vh_passwd h \<noteq> None"
    by (simp_all add: f1(8,9) del: DEFAULT_HOST_def run_statement.simps)
  define d2 where "d2 = d1\<lparr>vh_dev := Some b\<rparr>"
  have 3: "\<exists>st3. run_statement hm em (S_default [I_opt (O_device b)], True) st2 = Some (True, st3)
      \<and> cs_cfg st3 = \<lparr>cf_heap = H, cf_list = l, cf_hosts = Some (hs(DEFAULT_HOST \<mapsto> d2, e \<mapsto> h)),
         cf_loaded = cf_loaded (cs_cfg st1), cf_shared = {}, cf_freed = cf_freed s - {e} \<union> {e}\<rparr>"
    using 2(2,3) r(5) f1(5)
    by (auto simp: the_default_def default_section_def drop_device_def free_dev_def set_hosts_def d2_def fun_upd_twist
        simp del: DEFAULT_HOST_def)
  then obtain st3 where st3: "run_statement hm em (S_default [I_opt (O_device b)], True) st2 = Some (True, st3)"
      "cs_cfg st3 = \<lparr>cf_heap = H, cf_list = l, cf_hosts = Some (hs(DEFAULT_HOST \<mapsto> d2, e \<mapsto> h)),
         cf_loaded = cf_loaded (cs_cfg st1), cf_shared = {}, cf_freed = cf_freed s - {e} \<union> {e}\<rparr>" by blast
  have run: "config_parse hm em
      [(S_default [I_opt (O_device a)], True), (S_host n [I_opt (O_passwd q)], True),
       (S_default [I_opt (O_device b)], True)] v ?s0 = Some (cs_cfg st3)"
    using 1 2(1) st3(1) by (simp add: config_parse_def del: run_statement.simps)
  have "vh_passwd d2 = None" using assms(7) by (simp add: d2_def d1_def)
  moreover define d3 where "d3 = free_addr (d2\<lparr>vh_up := [], vh_down := []\<rparr>)"
  ultimately have d3: "snd (free_host None DEFAULT_HOST (cf_hosts (cs_cfg st3))) = Some (hs(DEFAULT_HOST \<mapsto> d3, e \<mapsto> h))"
    using 2(3) by (auto simp: st3(2) free_host_def simp del: DEFAULT_HOST_def)
  let ?s' = "(cs_cfg st3)\<lparr>cf_hosts := Some (hs(DEFAULT_HOST \<mapsto> d3, e \<mapsto> h))\<rparr>"
  have "\<not> llist_empty l" using empty_repr [OF 2(4)] by simp
  then have rc: "read_config (config_parse hm em
      [(S_default [I_opt (O_device a)], True), (S_host n [I_opt (O_passwd q)], True),
       (S_default [I_opt (O_device b)], True)] v) True s = Some (1, ?s')"
    using run d3 assms(2) st3(2) by (simp add: read_config_def Let_def del: DEFAULT_HOST_def)
  have ok: "hosts_ok (hs(DEFAULT_HOST \<mapsto> d3, e \<mapsto> h)) [e]" using 2(3,6) by (auto simp: hosts_ok_def)
  have "last_named (hs(DEFAULT_HOST \<mapsto> d3, e \<mapsto> h)) n [e] = Some e" using 2(5) by (simp add: last_named_def named_def)
  with find_host_last [of ?s' "[e]", OF _ _ ok, of n] 2(4) st3(2) obtain s'' where
    s'': "find_host n ?s' = Some (Some e, s'')" "cf_hosts s'' = Some (keep_named (hs(DEFAULT_HOST \<mapsto> d3, e \<mapsto> h)) n [e])"
      "cf_freed s'' = cf_freed (cs_cfg st3)" by auto
  have "host_at (Some e) s'' = Some h" "\<not> dev_valid (Some e) s''"
    using s''(2,3) 2(5) st3(2) by (auto simp: host_at_def keep_named_def named_def dev_valid_def)
  with rc s''(1) show ?thesis by blast
qed

subsection \<open>The properties at work\<close>

definition first_free :: "(addr \<Rightarrow> 'b option) \<Rightarrow> addr option" where
  "first_free H = Some (Suc (Max (insert 0 (dom H))))"

lemma first_free_allocates: "allocates (first_free :: (addr \<Rightarrow> 'b option) \<Rightarrow> addr option)"
  unfolding allocates_def
proof (intro allI impI)
  fix H :: "addr \<Rightarrow> 'b option"
  assume f: "finite (dom H)"
  have "Suc (Max (insert 0 (dom H))) \<notin> dom H"
  proof
    assume "Suc (Max (insert 0 (dom H))) \<in> dom H"
    then have "Suc (Max (insert 0 (dom H))) \<le> Max (insert 0 (dom H))" using f by (intro Max_ge) auto
    then show False by simp
  qed
  then show "\<exists>a. first_free H = Some a \<and> H a = None" by (auto simp: first_free_def dom_def)
qed

definition ex_fresh_cfg :: cfg where
  "ex_fresh_cfg = \<lparr>cf_heap = Map.empty, cf_list = llist_init, cf_hosts = Some [DEFAULT_HOST \<mapsto> default_host], cf_loaded = False,
     cf_shared = {}, cf_freed = {}\<rparr>"

definition ex_sections :: "statement list" where
  "ex_sections = [(S_default [I_opt (O_timeout 30), I_up [C_ifcfg ''%%'']], True),
     (S_host ''gw'' [I_opt (O_passwd ''a'')], True), (S_host ''lab'' [I_opt (O_multi 2)], True),
     (S_host ''gw'' [I_opt (O_persist 1), I_opt (O_passwd ''b''), I_opt (O_device ''tun0'')], True),
     (S_host ''bad'' [I_opt (O_passwd ''c'')], False), (S_host ''late'' [I_opt (O_passwd ''d'')], True)]"

definition ex_opts :: vtun_opts where
  "ex_opts = \<lparr>o_timeout = - 1, o_persist = - 1, o_cfg_file = [], o_shell = None, o_ppp = None,
     o_ifcfg = Some ''/sbin/ifconfig'', o_route = None, o_fwall = None, o_iproute = None, o_svr_name = None,
     o_svr_addr = None, o_bind_addr = zero_addr, o_svr_type = - 1, o_syslog = 24, o_quiet = 0\<rparr>"

lemma ex_readable: "readable default_host ex_fresh_cfg"
  by (simp add: readable_def ex_fresh_cfg_def)

lemmas ex_eval = ex_sections_def spec_config_def new_host_def default_host_def zero_host_def ex_opts_def add_cmd_def

lemma configured_host_witness:
  "\<exists>s'. read_config (config_parse first_free first_free ex_sections ex_opts) True ex_fresh_cfg = Some (1, s')
    \<and> (\<exists>r s'' h. find_host ''gw'' s' = Some (r, s'') \<and> host_at r s'' = Some h
        \<and> vh_passwd h = Some ''b'' \<and> vh_timeout h = 30
        \<and> vh_up h = [\<lparr>prog = Some ''/sbin/ifconfig'', args = Some ''%%'', cmd_flags = VTUN_CMD_WAIT\<rparr>])
    \<and> (\<exists>s''. find_host ''lab'' s' = Some (None, s'')) \<and> (\<exists>s''. find_host ''late'' s' = Some (None, s''))"
proof -
  let ?c = "spec_config ex_sections (fresh_spec default_host ex_opts)"
  have s: "sound_config ex_sections (fresh_spec default_host ex_opts)"
    by (simp add: ex_eval)
  have p: "vh_passwd (sp_default ?c) = None" by (simp add: ex_eval)
  have ne: "sp_hosts ?c \<noteq> []" by (simp add: ex_eval)
  from configured_host [OF ex_readable first_free_allocates first_free_allocates s refl p] ne obtain s' where
    s': "read_config (config_parse first_free first_free ex_sections ex_opts) True ex_fresh_cfg = Some (1, s')"
    "\<And>n. \<exists>r s''. find_host n s' = Some (r, s'') \<and> (r = None \<longleftrightarrow> host_at r s'' = None)
        \<and> host_at r s'' = find (\<lambda>h. vh_host h = n) (rev (sp_hosts ?c)) \<and> dev_valid r s''" by auto
  obtain h where "find (\<lambda>h. vh_host h = ''gw'') (rev (sp_hosts ?c)) = Some h" "vh_passwd h = Some ''b''" "vh_timeout h = 30"
    "vh_up h = [\<lparr>prog = Some ''/sbin/ifconfig'', args = Some ''%%'', cmd_flags = VTUN_CMD_WAIT\<rparr>]"
    by (simp add: ex_eval)
  moreover have "find (\<lambda>h. vh_host h = ''lab'') (rev (sp_hosts ?c)) = None"
    "find (\<lambda>h. vh_host h = ''late'') (rev (sp_hosts ?c)) = None" by (simp_all add: ex_eval)
  ultimately show ?thesis using s'(1) s'(2) [of "''gw''"] s'(2) [of "''lab''"] s'(2) [of "''late''"] by metis
qed

lemma default_device_freed_twice_witness:
  "run_config first_free first_free [(S_host ''gw'' [I_opt (O_passwd ''a''), I_opt (O_device ''tun0'')], True),
      (S_host ''lab'' [I_opt (O_passwd ''b''), I_opt (O_device ''tun1'')], True)]
     \<lparr>cs_cfg = ex_fresh_cfg\<lparr>cf_hosts := Some [DEFAULT_HOST \<mapsto> default_host\<lparr>vh_dev := Some ''tun''\<rparr>]\<rparr>,
       cs_vtun = ex_opts\<rparr> = None"
  by (rule default_device_freed_twice [where c = "fresh_spec (default_host\<lparr>vh_dev := Some ''tun''\<rparr>) ex_opts",
        OF _ _ first_free_allocates first_free_allocates])
    (simp_all add: represents_def ex_fresh_cfg_def hosts_ok_def data_repr_init default_host_def zero_host_def)

lemma later_default_frees_device_witness:
  "\<exists>s' p s'' h. read_config (config_parse first_free first_free
      [(S_default [I_opt (O_device ''tun0'')], True), (S_host ''gw'' [I_opt (O_passwd ''a'')], True),
       (S_default [I_opt (O_device ''tun1'')], True)] ex_opts) True ex_fresh_cfg = Some (1, s')
    \<and> find_host ''gw'' s' = Some (Some p, s'') \<and> host_at (Some p) s'' = Some h \<and> \<not> dev_valid (Some p) s''"
  by (rule later_default_frees_device [OF ex_readable _ _ first_free_allocates first_free_allocates])
    (simp_all add: ex_fresh_cfg_def default_host_def zero_host_def)

end
