(* ===== verification/CfgText.thy ===== *)
theory CfgText
  imports CfgLines CfgFile
begin

section \<open>The syntax of the configuration file (\<open>cfg_file.y\<close>)\<close>

text \<open>
  The grammar as functions on tokens. Its only conflicts are between \<open>options\<close> that start with an option and
  those that start empty, and the two have the same actions. A function yields what its
  actions have done, whether it has succeeded, and the tokens that are left: an action runs as soon as its symbols
  are read, so an error keeps what came before it. \<open>T_error\<close> is an error everywhere, be it by \<open>YYABORT\<close> or
  because nothing else expects it.
\<close>

type_synonym 'a parser = "token list \<Rightarrow> 'a list \<times> bool \<times> token list"

subsection \<open>Sequences\<close>

text \<open>
  Elements up to a closing bracket; \<open>some\<close> says that one must be there. An element takes at least one
  token, which the test makes plain.
\<close>

function block :: "'a parser \<Rightarrow> bool \<Rightarrow> 'a parser" where
  "block p some ts =
     (case ts of
        T_close # ts' \<Rightarrow> ([], \<not> some, ts')
      | _ \<Rightarrow>
          (case p ts of
             (xs, ok, ts') \<Rightarrow>
               if ok \<and> length ts' < length ts
               then (case block p False ts' of (ys, ok', ts'') \<Rightarrow> (xs @ ys, ok', ts''))
               else (xs, False, ts')))"
  by pat_completeness auto

termination
  by (relation "measure (\<lambda>(p, some, ts). length ts)") auto

declare block.simps [simp del]

definition fail :: "token list \<Rightarrow> 'a list \<times> bool \<times> token list" where
  "fail ts = ([], False, ts)"

definition got :: "'a \<Rightarrow> token list \<Rightarrow> 'a list \<times> bool \<times> token list" where
  "got x ts = ([x], True, ts)"

text \<open>An element that is a single parameter.\<close>

definition num_param :: "(int \<Rightarrow> 'a) \<Rightarrow> 'a parser" where
  "num_param f ts = (case ts of T_num n # ts' \<Rightarrow> got (f n) ts' | _ \<Rightarrow> fail ts)"

definition word_param :: "(string \<Rightarrow> 'a) \<Rightarrow> 'a parser" where
  "word_param f ts = (case ts of T_word w # ts' \<Rightarrow> got (f w) ts' | _ \<Rightarrow> fail ts)"

definition string_param :: "(string \<Rightarrow> 'a) \<Rightarrow> 'a parser" where
  "string_param f ts = (case ts of T_string w # ts' \<Rightarrow> got (f w) ts' | _ \<Rightarrow> fail ts)"

definition path_param :: "(string \<Rightarrow> 'a) \<Rightarrow> 'a parser" where
  "path_param f ts = (case ts of T_path w # ts' \<Rightarrow> got (f w) ts' | _ \<Rightarrow> fail ts)"

definition name_param :: "(string \<Rightarrow> 'a) \<Rightarrow> 'a parser" where
  "name_param f ts =
     (case ts of T_word w # ts' \<Rightarrow> got (f w) ts' | T_string w # ts' \<Rightarrow> got (f w) ts' | _ \<Rightarrow> fail ts)"

text \<open>A number or two; \<open>x\<close> is what has been done when it is neither.\<close>

definition pair_param :: "'a list \<Rightarrow> (param \<Rightarrow> 'a) \<Rightarrow> 'a parser" where
  "pair_param x f ts =
     (case ts of
        T_num n # ts' \<Rightarrow> got (f (P_num n)) ts'
      | T_dnum a b # ts' \<Rightarrow> got (f (P_dnum a b)) ts'
      | _ \<Rightarrow> (x, False, ts))"

subsection \<open>Global options\<close>

text \<open>\<open>bindaddr\<close>: the action is done before the closing bracket is read.\<close>

definition p_bindaddr :: "global_opt parser" where
  "p_bindaddr ts =
     (case ts of
        T_open # T_kw k # ts' \<Rightarrow>
          (case (if k = K_ADDR then word_param G_bind_addr ts' else if k = K_IFACE then name_param G_bind_iface ts' else fail ts') of
             (xs, ok, r) \<Rightarrow> (case r of T_close # r' \<Rightarrow> (xs, ok, r') | _ \<Rightarrow> (xs, False, r)))
      | _ \<Rightarrow> fail ts)"

definition p_syslog :: "global_opt parser" where
  "p_syslog ts =
     (case ts of
        T_num n # ts' \<Rightarrow> got (G_syslog n) ts'
      | T_word w # ts' \<Rightarrow> ([G_facility w], map_of syslog_names w \<noteq> None, ts')
      | _ \<Rightarrow> fail ts)"

definition global_keyword :: "kw_token \<Rightarrow> global_opt parser" where
  "global_keyword k =
     (if k = K_PORT then num_param G_port
      else if k = K_BINDADDR then p_bindaddr
      else if k = K_IFACE then string_param G_iface
      else if k = K_TYPE then num_param G_type
      else if k = K_TIMEOUT then num_param G_timeout
      else if k = K_PPP then path_param G_ppp
      else if k = K_IFCFG then path_param G_ifcfg
      else if k = K_ROUTE then path_param G_route
      else if k = K_FWALL then path_param G_fwall
      else if k = K_IPROUTE then path_param G_iproute
      else if k = K_SYSLOG then p_syslog
      else fail)"

definition keyword_of :: "(kw_token \<Rightarrow> 'a parser) \<Rightarrow> 'a parser" where
  "keyword_of f ts = (case ts of T_kw k # ts' \<Rightarrow> f k ts' | _ \<Rightarrow> fail ts)"

definition p_option :: "global_opt parser" where
  "p_option = keyword_of global_keyword"

subsection \<open>Commands\<close>

fun p_prog :: "token list \<Rightarrow> prog_opt list \<times> token list" where
  "p_prog [] = ([], [])"
| "p_prog (t # ts) =
     (case p_prog ts of
        (os, r) \<Rightarrow>
          (case t of
             T_path w \<Rightarrow> (P_path w # os, r)
           | T_string w \<Rightarrow> (P_string w # os, r)
           | T_num n \<Rightarrow> (P_flags n # os, r)
           | _ \<Rightarrow> ([], t # ts)))"

definition p_program :: "cmd_opt parser" where
  "p_program ts = (case p_prog ts of (os, r) \<Rightarrow> if os = [] then fail r else got (C_prog os) r)"

definition command_keyword :: "kw_token \<Rightarrow> cmd_opt parser" where
  "command_keyword k =
     (if k = K_PROG then p_program
      else if k = K_PPP then string_param C_ppp
      else if k = K_IFCFG then string_param C_ifcfg
      else if k = K_ROUTE then string_param C_route
      else if k = K_FWALL then string_param C_fwall
      else if k = K_IPROUTE then string_param C_iproute
      else fail)"

definition p_command :: "cmd_opt parser" where
  "p_command = keyword_of command_keyword"

subsection \<open>Host options\<close>

definition srcaddr_keyword :: "kw_token \<Rightarrow> host_item parser" where
  "srcaddr_keyword k =
     (if k = K_ADDR then word_param (I_opt \<circ> O_srcaddr)
      else if k = K_IFACE then name_param (I_opt \<circ> O_srciface)
      else if k = K_PORT then num_param (I_opt \<circ> O_srcport)
      else fail)"

definition p_srcaddr :: "host_item parser" where
  "p_srcaddr ts =
     (case ts of T_open # ts' \<Rightarrow> block (keyword_of srcaddr_keyword) False ts' | _ \<Rightarrow> fail ts)"

text \<open>The commands of \<open>up\<close> and \<open>down\<close>; the old ones are gone when the keyword is read.\<close>

definition p_commands :: "(cmd_opt list \<Rightarrow> host_item) \<Rightarrow> host_item parser" where
  "p_commands f ts =
     (case ts of
        T_open # ts' \<Rightarrow> (case block p_command False ts' of (cs, ok, r) \<Rightarrow> ([f cs], ok, r))
      | _ \<Rightarrow> ([f []], False, ts))"

text \<open>
  \<open>compress\<close> and \<open>keepalive\<close> clear their flags when the keyword is read, as with the parameter 0.
\<close>

definition host_keyword :: "kw_token \<Rightarrow> host_item parser" where
  "host_keyword k =
     (if k = K_PASSWD then word_param (I_opt \<circ> O_passwd)
      else if k = K_DEVICE then word_param (I_opt \<circ> O_device)
      else if k = K_MULTI then num_param (I_opt \<circ> O_multi)
      else if k = K_TIMEOUT then num_param (I_opt \<circ> O_timeout)
      else if k = K_SPEED then pair_param [] (I_opt \<circ> O_speed)
      else if k = K_COMPRESS then pair_param [I_opt (O_compress (P_num 0))] (I_opt \<circ> O_compress)
      else if k = K_ENCRYPT then num_param (I_opt \<circ> O_encrypt)
      else if k = K_KALIVE then pair_param [I_opt (O_kalive (P_num 0))] (I_opt \<circ> O_kalive)
      else if k = K_STAT then num_param (I_opt \<circ> O_stat)
      else if k = K_PERSIST then num_param (I_opt \<circ> O_persist)
      else if k = K_TYPE then num_param (I_opt \<circ> O_type)
      else if k = K_PROT then num_param (I_opt \<circ> O_prot)
      else if k = K_NAT_HACK then num_param (I_opt \<circ> O_nat_hack)
      else if k = K_SRCADDR then p_srcaddr
      else if k = K_UP then p_commands I_up
      else if k = K_DOWN then p_commands I_down
      else fail)"

definition p_host_option :: "host_item parser" where
  "p_host_option = keyword_of host_keyword"

subsection \<open>Sections\<close>

text \<open>
  A host is made, and the default host is chosen, when the name is read. Without a section there is
  nothing done.
\<close>

definition p_host_section :: "(host_item list \<Rightarrow> conf_section) \<Rightarrow> token list \<Rightarrow> statement option \<times> token list" where
  "p_host_section f ts =
     (case ts of
        T_open # ts' \<Rightarrow> (case block p_host_option True ts' of (xs, ok, r) \<Rightarrow> (Some (f xs, ok), r))
      | _ \<Rightarrow> (Some (f [], False), ts))"

definition p_options :: "token list \<Rightarrow> statement option \<times> token list" where
  "p_options ts =
     (case ts of
        T_open # ts' \<Rightarrow> (case block p_option True ts' of (gs, ok, r) \<Rightarrow> (Some (S_options gs, ok), r))
      | _ \<Rightarrow> (None, ts))"

definition p_statement :: "token list \<Rightarrow> statement option \<times> token list" where
  "p_statement ts =
     (case ts of
        T_kw k # ts' \<Rightarrow>
          (if k = K_OPTIONS then p_options ts' else if k = K_DEFAULT then p_host_section S_default ts' else (None, ts))
      | T_host n # ts' \<Rightarrow> p_host_section (S_host n) ts'
      | _ \<Rightarrow> (None, ts))"

function p_config :: "token list \<Rightarrow> statement list" where
  "p_config ts =
     (case p_statement ts of
        (None, _) \<Rightarrow> []
      | (Some s, ts') \<Rightarrow> if snd s \<and> length ts' < length ts then s # p_config ts' else [s])"
  by pat_completeness auto

termination
  by (relation "measure length") auto

declare p_config.simps [simp del]

text \<open>The sections of a file, from a state of the lexer, which is the initial one only for the first file.\<close>

definition config_sections :: "lex_mode \<Rightarrow> lex_mode list \<Rightarrow> string \<Rightarrow> statement list" where
  "config_sections m k s = p_config (tokens \<lparr>lx_in = s, lx_mode = m, lx_stack = k\<rparr>)"

end
