(* ===== verification/CfgPrint.thy ===== *)
theory CfgPrint
  imports CfgText
begin

section \<open>Writing configuration files\<close>

text \<open>
  A way to write the sections of a configuration as text, one word in a line, and the proof that lexer and
  grammar read it back. It shows that every configuration can be expressed, and what the words of a
  file must be like to be read as what they are meant for.
\<close>

subsection \<open>Clauses\<close>

text \<open>An option is a keyword with parameters, or with more options in brackets.\<close>

datatype clause = Clause kw_token "token list" | Group kw_token "clause list"

fun kw_name :: "kw_token \<Rightarrow> string" where
  "kw_name K_OPTIONS = ''options''" | "kw_name K_DEFAULT = ''default''" | "kw_name K_PORT = ''port''"
| "kw_name K_BINDADDR = ''bindaddr''" | "kw_name K_PERSIST = ''persist''" | "kw_name K_TIMEOUT = ''timeout''"
| "kw_name K_PASSWD = ''passwd''" | "kw_name K_PROG = ''program''" | "kw_name K_PPP = ''ppp''"
| "kw_name K_SPEED = ''speed''" | "kw_name K_IFCFG = ''ifconfig''" | "kw_name K_FWALL = ''firewall''"
| "kw_name K_ROUTE = ''route''" | "kw_name K_DEVICE = ''device''" | "kw_name K_MULTI = ''multi''"
| "kw_name K_SRCADDR = ''srcaddr''" | "kw_name K_IFACE = ''iface''" | "kw_name K_ADDR = ''addr''"
| "kw_name K_TYPE = ''type''" | "kw_name K_PROT = ''proto''" | "kw_name K_NAT_HACK = ''nat_hack''"
| "kw_name K_COMPRESS = ''compress''" | "kw_name K_ENCRYPT = ''encrypt''" | "kw_name K_KALIVE = ''keepalive''"
| "kw_name K_STAT = ''stat''" | "kw_name K_UP = ''up''" | "kw_name K_DOWN = ''down''"
| "kw_name K_SYSLOG = ''syslog''" | "kw_name K_IPROUTE = ''ip''"

text \<open>Parameters as they are written, and when they are read back.\<close>

definition plain_num :: "int \<Rightarrow> bool" where
  "plain_num n = (0 \<le> n \<and> n < 2 ^ 31)"

fun param_text :: "token \<Rightarrow> string" where
  "param_text (T_num n) = show_int n"
| "param_text (T_dnum a b) = show_int a @ CHR '':'' # show_int b"
| "param_text (T_word w) = w"
| "param_text (T_string s) = quoted s"
| "param_text (T_path p) = p"
| "param_text _ = []"

fun param_ok :: "token \<Rightarrow> bool" where
  "param_ok (T_num n) = plain_num n"
| "param_ok (T_dnum a b) = (plain_num a \<and> plain_num b)"
| "param_ok (T_word w) = word_text w"
| "param_ok (T_string s) = quoted_text s"
| "param_ok (T_path p) = path_text p"
| "param_ok _ = False"

fun clause_words :: "clause \<Rightarrow> string list" where
  "clause_words (Clause k ps) = kw_name k # map param_text ps @ ['';'']"
| "clause_words (Group k cs) = kw_name k # ''{'' # concat (map clause_words cs) @ [''}'', '';'']"

fun clause_tokens :: "clause \<Rightarrow> token list" where
  "clause_tokens (Clause k ps) = T_kw k # ps"
| "clause_tokens (Group k cs) = T_kw k # T_open # concat (map clause_tokens cs) @ [T_close]"

fun clause_ok :: "nat \<Rightarrow> clause \<Rightarrow> bool" where
  "clause_ok d (Clause k ps) = list_all param_ok ps"
| "clause_ok 0 (Group k cs) = False"
| "clause_ok (Suc d) (Group k cs) = list_all (clause_ok d) cs"

subsection \<open>Lexing clauses\<close>

lemma kw_name_ok:
  "find_keyword cfg_keyword (kw_name k) = Some k" "kw_name k \<noteq> []" "list_all word_char (kw_name k)"
  "list_all kword_char (kw_name k)" "hd (kw_name k) \<noteq> CHR ''#''"
  by (cases k; simp add: cfg_keyword_def strn_eq_def word_char_def kword_char_def alnum_def)+

lemma num_text_show: "0 \<le> n \<Longrightarrow> num_text (show_int n)"
  using show_nat_props [of "nat n"] by (simp add: num_text_def show_int_def list_all_iff)

lemma atoi_show:
  assumes "plain_num n" and "r = [] \<or> \<not> is_digit (hd r)"
  shows "atoi (show_int n @ r) = n"
  using strtol_show_int [OF assms(2), of n] assms(1) by (simp add: atoi_def plain_num_def to_int32_id)

lemma lexed_text:
  assumes "param_ok t"
  shows "lexed (param_text t # ws) M_PARAM k = t # lexed ws M_PARAM k"
proof (cases t)
  case (T_num n)
  then show ?thesis using assms atoi_show [of n "[]"] by (simp add: lexed_num num_text_show plain_num_def)
next
  case (T_dnum a b)
  have "\<not> is_digit (CHR '':'')" by (simp add: is_digit_def digits10_def)
  then show ?thesis using T_dnum assms atoi_show [of a "CHR '':'' # show_int b"] atoi_show [of b "[]"]
    by (simp add: lexed_dnum num_text_show plain_num_def)
qed (use assms in \<open>simp_all add: lexed_word lexed_quoted lexed_path\<close>)

lemma lexed_texts: "list_all param_ok ps \<Longrightarrow> lexed (map param_text ps @ ws) M_PARAM k = ps @ lexed ws M_PARAM k"
  by (induction ps) (simp_all add: lexed_text)

lemma lexed_keyword: "length k < STACK_SIZE \<Longrightarrow> lexed (kw_name t # ws) M_OPTION k = T_kw t # lexed ws M_PARAM (M_OPTION # k)"
  by (rule lexed_option) (simp_all add: kw_name_ok)

lemma lexed_concat:
  "(\<And>c ws. c \<in> set cs \<Longrightarrow> lexed (f c @ ws) m k = g c @ lexed ws m k)
    \<Longrightarrow> lexed (concat (map f cs) @ ws) m k = concat (map g cs) @ lexed ws m k"
  by (induction cs) simp_all

lemma lexed_clause:
  "clause_ok d c \<Longrightarrow> length k + 2 * d < STACK_SIZE \<Longrightarrow> lexed (clause_words c @ ws) M_OPTION k = clause_tokens c @ lexed ws M_OPTION k"
proof (induction d c arbitrary: k ws rule: clause_ok.induct)
  case (1 d t ps)
  then show ?case by (simp add: lexed_keyword lexed_texts lexed_semi)
next
  case (3 d t cs)
  let ?k = "M_PARAM # M_OPTION # k"
  have "lexed (concat (map clause_words cs) @ ws') M_OPTION ?k = concat (map clause_tokens cs) @ lexed ws' M_OPTION ?k" for ws'
    by (rule lexed_concat) (use 3 in \<open>auto simp: list_all_iff\<close>)
  then show ?case using 3(3) by (simp add: lexed_keyword lexed_open lexed_close lexed_semi)
qed simp

lemma lexed_clauses:
  "list_all (clause_ok d) cs \<Longrightarrow> length k + 2 * d < STACK_SIZE
    \<Longrightarrow> lexed (concat (map clause_words cs) @ ws) M_OPTION k = concat (map clause_tokens cs) @ lexed ws M_OPTION k"
  by (rule lexed_concat) (auto simp: list_all_iff lexed_clause)

subsection \<open>Options as clauses\<close>

fun global_clause :: "global_opt \<Rightarrow> clause" where
  "global_clause (G_port n) = Clause K_PORT [T_num n]"
| "global_clause (G_bind_addr w) = Group K_BINDADDR [Clause K_ADDR [T_word w]]"
| "global_clause (G_bind_iface s) = Group K_BINDADDR [Clause K_IFACE [T_string s]]"
| "global_clause (G_iface s) = Clause K_IFACE [T_string s]"
| "global_clause (G_type n) = Clause K_TYPE [T_num n]"
| "global_clause (G_timeout n) = Clause K_TIMEOUT [T_num n]"
| "global_clause (G_ppp p) = Clause K_PPP [T_path p]"
| "global_clause (G_ifcfg p) = Clause K_IFCFG [T_path p]"
| "global_clause (G_route p) = Clause K_ROUTE [T_path p]"
| "global_clause (G_fwall p) = Clause K_FWALL [T_path p]"
| "global_clause (G_iproute p) = Clause K_IPROUTE [T_path p]"
| "global_clause (G_syslog n) = Clause K_SYSLOG [T_num n]"
| "global_clause (G_facility w) = Clause K_SYSLOG [T_word w]"

fun prog_token :: "prog_opt \<Rightarrow> token" where
  "prog_token (P_path p) = T_path p"
| "prog_token (P_string s) = T_string s"
| "prog_token (P_flags n) = T_num n"

fun command_clause :: "cmd_opt \<Rightarrow> clause" where
  "command_clause (C_prog os) = Clause K_PROG (map prog_token os)"
| "command_clause (C_ppp s) = Clause K_PPP [T_string s]"
| "command_clause (C_ifcfg s) = Clause K_IFCFG [T_string s]"
| "command_clause (C_route s) = Clause K_ROUTE [T_string s]"
| "command_clause (C_fwall s) = Clause K_FWALL [T_string s]"
| "command_clause (C_iproute s) = Clause K_IPROUTE [T_string s]"

fun param_token :: "param \<Rightarrow> token" where
  "param_token (P_num n) = T_num n"
| "param_token (P_dnum a b) = T_dnum a b"
| "param_token (P_word w) = T_word w"

fun opt_clause :: "host_opt \<Rightarrow> clause" where
  "opt_clause (O_passwd w) = Clause K_PASSWD [T_word w]"
| "opt_clause (O_device w) = Clause K_DEVICE [T_word w]"
| "opt_clause (O_multi n) = Clause K_MULTI [T_num n]"
| "opt_clause (O_timeout n) = Clause K_TIMEOUT [T_num n]"
| "opt_clause (O_speed q) = Clause K_SPEED [param_token q]"
| "opt_clause (O_compress q) = Clause K_COMPRESS [param_token q]"
| "opt_clause (O_encrypt n) = Clause K_ENCRYPT [T_num n]"
| "opt_clause (O_kalive q) = Clause K_KALIVE [param_token q]"
| "opt_clause (O_stat n) = Clause K_STAT [T_num n]"
| "opt_clause (O_persist n) = Clause K_PERSIST [T_num n]"
| "opt_clause (O_type n) = Clause K_TYPE [T_num n]"
| "opt_clause (O_prot n) = Clause K_PROT [T_num n]"
| "opt_clause (O_nat_hack n) = Clause K_NAT_HACK [T_num n]"
| "opt_clause (O_srcaddr w) = Group K_SRCADDR [Clause K_ADDR [T_word w]]"
| "opt_clause (O_srciface s) = Group K_SRCADDR [Clause K_IFACE [T_string s]]"
| "opt_clause (O_srcport n) = Group K_SRCADDR [Clause K_PORT [T_num n]]"
| "opt_clause (O_up cs) = Clause K_UP []"
| "opt_clause (O_down cs) = Clause K_DOWN []"

fun item_clause :: "host_item \<Rightarrow> clause" where
  "item_clause (I_opt x) = opt_clause x"
| "item_clause (I_up cs) = Group K_UP (map command_clause cs)"
| "item_clause (I_down cs) = Group K_DOWN (map command_clause cs)"

text \<open>The parameters of options are read by the lexer as \<^const>\<open>lex_param\<close> reads them.\<close>

lemma read_digits_stops:
  "list_all is_digit a \<Longrightarrow> \<not> is_digit c \<Longrightarrow> read_digits n (a @ c # r) = (fst (read_digits n a), c # r)"
  by (induction a arbitrary: n) simp_all

lemma atoi_stops:
  assumes "num_text a" and "\<not> is_digit c"
  shows "atoi (a @ c # r) = atoi a"
proof -
  obtain d ds where a: "a = d # ds" "is_digit d" "list_all is_digit ds" using assms(1) by (cases a) (auto simp: num_text_def)
  note rd = read_digits_stops [of a c 0 r]
  have "snd (read_digits 0 a) = snd (read_digits 0 a)" by simp
  then show ?thesis using rd assms digit_not_special [OF a(2)] a
    by (auto simp: atoi_def strtol_def num_text_def Let_def case_prod_beta simp del: read_digits.simps)
qed

theorem lexer_reads_params:
  assumes "w \<noteq> []" and "list_all word_char w" and "x = w \<or> (\<exists>n. num_text n \<and> x = w @ CHR '':'' # n)"
  shows "lexed (x # ws) M_PARAM k = param_token (lex_param x) # lexed ws M_PARAM k"
proof -
  have nc: "CHR '':'' \<notin> set w" by (rule word_no_colon [OF assms(2)])
  have one: "lex_param w = (if list_all is_digit w then P_num (atoi w)
      else if keyword_num w \<noteq> - 1 then P_num (keyword_num w) else P_word w)"
    unfolding lex_param_def at_colon(3,4) [OF nc] by (simp add: Let_def)
  have two: "lex_param (w @ CHR '':'' # n) = P_dnum (if list_all is_digit w then atoi w else keyword_num w) (atoi n)" for n
    unfolding lex_param_def at_colon(1,2) [OF nc] by (simp add: Let_def)
  have c: "\<not> is_digit (CHR '':'')" by (simp add: is_digit_def digits10_def)
  from assms(3) show ?thesis
  proof
    assume "x = w"
    then show ?thesis using assms(1,2)
      by (cases "list_all is_digit w") (simp_all add: one lexed_num lexed_special num_text_def)
  next
    assume "\<exists>n. num_text n \<and> x = w @ CHR '':'' # n"
    then obtain n where n: "num_text n" "x = w @ CHR '':'' # n" by blast
    show ?thesis
    proof (cases "list_all is_digit w")
      case True
      then have "num_text w" using assms(1) by (simp add: num_text_def)
      then show ?thesis using n True atoi_stops [OF _ c, of w n] by (simp add: two lexed_dnum)
    next
      case False
      then show ?thesis using n assms(1,2) by (simp add: two lexed_wordnm)
    qed
  qed
qed

text \<open>Options that can be written.\<close>

fun global_ok :: "global_opt \<Rightarrow> bool" where
  "global_ok (G_facility w) = (map_of syslog_names w \<noteq> None \<and> word_text w)"
| "global_ok g = clause_ok 1 (global_clause g)"

fun command_ok :: "cmd_opt \<Rightarrow> bool" where
  "command_ok (C_prog os) = (os \<noteq> [] \<and> clause_ok 0 (command_clause (C_prog os)))"
| "command_ok x = clause_ok 0 (command_clause x)"

fun no_word :: "param \<Rightarrow> bool" where
  "no_word (P_word w) = False"
| "no_word _ = True"

fun opt_ok :: "host_opt \<Rightarrow> bool" where
  "opt_ok (O_up cs) = False"
| "opt_ok (O_down cs) = False"
| "opt_ok (O_speed q) = (no_word q \<and> param_ok (param_token q))"
| "opt_ok (O_compress q) = (no_word q \<and> param_ok (param_token q))"
| "opt_ok (O_kalive q) = (no_word q \<and> param_ok (param_token q))"
| "opt_ok x = clause_ok 1 (opt_clause x)"

fun item_ok :: "host_item \<Rightarrow> bool" where
  "item_ok (I_opt x) = opt_ok x"
| "item_ok (I_up cs) = list_all command_ok cs"
| "item_ok (I_down cs) = list_all command_ok cs"

lemma command_clause_ok: "command_ok x \<Longrightarrow> clause_ok d (command_clause x)"
  by (cases x) simp_all

lemma global_clause_ok: "global_ok g \<Longrightarrow> clause_ok 1 (global_clause g)"
  by (cases g) simp_all

lemma item_clause_ok: "item_ok x \<Longrightarrow> clause_ok 1 (item_clause x)"
proof (cases x)
  case (I_opt y)
  then show "item_ok x \<Longrightarrow> ?thesis" by (cases y) simp_all
qed (auto simp: list_all_iff command_clause_ok)

subsection \<open>Parsing clauses\<close>

text \<open>Where a clause ends: at the next keyword or at a bracket.\<close>

fun quiet :: "token list \<Rightarrow> bool" where
  "quiet (T_kw k # ts) = True"
| "quiet (T_close # ts) = True"
| "quiet _ = False"

lemma quiet_clauses: "quiet ts \<Longrightarrow> quiet (concat (map clause_tokens cs) @ ts)"
proof (cases cs)
  case (Cons c cs')
  then show ?thesis by (cases c) simp_all
qed simp

text \<open>Elements that are parsed one by one are parsed in a row.\<close>

lemma block_clauses:
  assumes "\<And>x ts. x \<in> set xs \<Longrightarrow> quiet ts \<Longrightarrow> p (clause_tokens (f x) @ ts) = ([x], True, ts)"
    and "some \<longrightarrow> xs \<noteq> []"
  shows "block p some (concat (map (clause_tokens \<circ> f) xs) @ T_close # ts) = (xs, True, ts)"
  using assms
proof (induction xs arbitrary: some)
  case Nil
  then show ?case by (simp add: block.simps)
next
  case (Cons x xs)
  let ?r = "concat (map (clause_tokens \<circ> f) xs) @ T_close # ts"
  have q: "quiet ?r" using quiet_clauses [of "T_close # ts" "map f xs"] by (simp add: map_map)
  have p: "p (clause_tokens (f x) @ ?r) = ([x], True, ?r)" by (rule Cons.prems(1)) (use q in auto)
  have ih: "block p False ?r = (xs, True, ts)" by (rule Cons.IH) (use Cons.prems(1) in auto)
  obtain k us where k: "clause_tokens (f x) = T_kw k # us" by (cases "f x") auto
  show ?case using p ih by (simp add: block.simps [of p some] k o_def)
qed

lemma p_prog_tokens: "quiet ts \<Longrightarrow> p_prog (map prog_token os @ ts) = (os, ts)"
proof (induction os)
  case Nil
  then show ?case by (cases ts rule: quiet.cases) (simp_all split: prod.splits)
next
  case (Cons x os)
  then show ?case by (cases x) simp_all
qed

lemma parse_command: "command_ok x \<Longrightarrow> quiet ts \<Longrightarrow> p_command (clause_tokens (command_clause x) @ ts) = ([x], True, ts)"
  by (cases x) (simp_all add: p_command_def keyword_of_def command_keyword_def p_program_def p_prog_tokens got_def
    string_param_def)

lemma parse_global: "global_ok g \<Longrightarrow> p_option (clause_tokens (global_clause g) @ ts) = ([g], True, ts)"
  by (cases g) (simp_all add: p_option_def keyword_of_def global_keyword_def num_param_def string_param_def path_param_def
    word_param_def name_param_def p_bindaddr_def p_syslog_def got_def)

lemma parse_commands:
  assumes "list_all command_ok cs"
  shows "p_commands h (T_open # concat (map (clause_tokens \<circ> command_clause) cs) @ T_close # ts) = ([h cs], True, ts)"
proof -
  have "block p_command False (concat (map (clause_tokens \<circ> command_clause) cs) @ T_close # ts) = (cs, True, ts)"
    by (rule block_clauses) (use assms parse_command in \<open>auto simp: list_all_iff\<close>)
  then show ?thesis by (simp add: p_commands_def)
qed

lemma parse_opt: "opt_ok x \<Longrightarrow> p_host_option (clause_tokens (opt_clause x) @ ts) = ([I_opt x], True, ts)"
proof (cases x)
  case (O_speed q)
  then show "opt_ok x \<Longrightarrow> ?thesis" by (cases q) (simp_all add: p_host_option_def keyword_of_def host_keyword_def pair_param_def got_def)
next
  case (O_compress q)
  then show "opt_ok x \<Longrightarrow> ?thesis" by (cases q) (simp_all add: p_host_option_def keyword_of_def host_keyword_def pair_param_def got_def)
next
  case (O_kalive q)
  then show "opt_ok x \<Longrightarrow> ?thesis" by (cases q) (simp_all add: p_host_option_def keyword_of_def host_keyword_def pair_param_def got_def)
qed (simp_all add: p_host_option_def keyword_of_def host_keyword_def num_param_def word_param_def got_def p_srcaddr_def
    block.simps srcaddr_keyword_def name_param_def)

lemma parse_item: "item_ok x \<Longrightarrow> p_host_option (clause_tokens (item_clause x) @ ts) = ([x], True, ts)"
proof (cases x)
  case (I_opt y)
  then show "item_ok x \<Longrightarrow> ?thesis" by (simp add: parse_opt)
qed (simp_all add: p_host_option_def keyword_of_def host_keyword_def map_map parse_commands)

subsection \<open>Whole files\<close>

fun section_clauses :: "conf_section \<Rightarrow> string \<times> clause list" where
  "section_clauses (S_options gs) = (kw_name K_OPTIONS, map global_clause gs)"
| "section_clauses (S_default xs) = (kw_name K_DEFAULT, map item_clause xs)"
| "section_clauses (S_host n xs) = (n, map item_clause xs)"

definition section_words :: "conf_section \<Rightarrow> string list" where
  "section_words x = (case section_clauses x of (n, cs) \<Rightarrow> n # ''{'' # concat (map clause_words cs) @ [''}''])"

definition config_text :: "statement list \<Rightarrow> string" where
  "config_text ss = lines (concat (map (section_words \<circ> fst) ss))"

fun section_ok :: "conf_section \<Rightarrow> bool" where
  "section_ok (S_options gs) = (gs \<noteq> [] \<and> list_all global_ok gs)"
| "section_ok (S_default xs) = (xs \<noteq> [] \<and> list_all item_ok xs)"
| "section_ok (S_host n xs) = (name_text n \<and> xs \<noteq> [] \<and> list_all item_ok xs)"

definition writable :: "statement list \<Rightarrow> bool" where
  "writable ss = list_all (\<lambda>(x, ok). ok \<and> section_ok x) ss"

fun section_head :: "conf_section \<Rightarrow> token" where
  "section_head (S_options gs) = T_kw K_OPTIONS"
| "section_head (S_default xs) = T_kw K_DEFAULT"
| "section_head (S_host n xs) = T_host n"

lemma lexed_section:
  assumes "section_ok x" and "length k < 12"
  shows "lexed (section_words x @ ws) M_INITIAL k
    = section_head x # T_open # concat (map clause_tokens (snd (section_clauses x))) @ T_close # lexed ws M_INITIAL k"
proof -
  have h: "lexed (fst (section_clauses x) # us) M_INITIAL k = section_head x # lexed us M_INITIAL k" for us
    using assms(1) by (cases x) (simp_all add: lexed_name kw_name_ok name_text_def del: kw_name.simps)
  have "list_all (clause_ok 1) (snd (section_clauses x))"
    using assms(1) by (cases x) (auto simp: list_all_iff global_clause_ok [simplified] item_clause_ok [simplified])
  from lexed_clauses [OF this, of "M_INITIAL # k"] assms(2) h show ?thesis
    by (simp add: section_words_def case_prod_beta lexed_open lexed_close)
qed

lemma parse_section:
  assumes "section_ok x"
  shows "p_statement (section_head x # T_open # concat (map clause_tokens (snd (section_clauses x))) @ T_close # ts)
    = (Some (x, True), ts)"
proof (cases x)
  case (S_options gs)
  have "block p_option True (concat (map (clause_tokens \<circ> global_clause) gs) @ T_close # ts) = (gs, True, ts)"
    by (rule block_clauses) (use assms S_options parse_global in \<open>auto simp: list_all_iff\<close>)
  then show ?thesis using S_options by (simp add: p_statement_def p_options_def map_map)
next
  case (S_default xs)
  have "block p_host_option True (concat (map (clause_tokens \<circ> item_clause) xs) @ T_close # ts) = (xs, True, ts)"
    by (rule block_clauses) (use assms S_default parse_item in \<open>auto simp: list_all_iff\<close>)
  then show ?thesis using S_default by (simp add: p_statement_def p_host_section_def map_map)
next
  case (S_host n xs)
  have "block p_host_option True (concat (map (clause_tokens \<circ> item_clause) xs) @ T_close # ts) = (xs, True, ts)"
    by (rule block_clauses) (use assms S_host parse_item in \<open>auto simp: list_all_iff\<close>)
  then show ?thesis using S_host by (simp add: p_statement_def p_host_section_def map_map)
qed

lemma parse_written:
  "writable ss \<Longrightarrow> p_config (lexed (concat (map (section_words \<circ> fst) ss)) M_INITIAL []) = ss"
proof (induction ss)
  case Nil
  then show ?case by (simp add: p_config.simps p_statement_def)
next
  case (Cons s ss)
  obtain x where s: "s = (x, True)" "section_ok x" using Cons.prems by (cases s) (auto simp: writable_def)
  let ?r = "lexed (concat (map (section_words \<circ> fst) ss)) M_INITIAL []"
  have l: "lexed (section_words x @ concat (map (section_words \<circ> fst) ss)) M_INITIAL []
      = section_head x # T_open # concat (map clause_tokens (snd (section_clauses x))) @ T_close # ?r"
    by (rule lexed_section [OF s(2)]) simp
  have "p_config ?r = ss" using Cons by (simp add: writable_def o_def)
  then show ?case using l parse_section [OF s(2), of ?r] s(1) by (simp add: p_config.simps [of "section_head x # _"] o_def)
qed

lemma read_written: "writable ss \<Longrightarrow> config_sections M_INITIAL [] (config_text ss) = ss"
  using parse_written by (simp add: config_sections_def config_text_def lexed_def)

subsection \<open>Properties\<close>

text \<open>
  C12. A configuration that is written down is read back: for all sections whose words, numbers, paths and
  strings are of the kind that their options expect, lexer and grammar make of the text the very
  sections it was written from.
\<close>

theorem config_roundtrip: "writable ss \<Longrightarrow> config_sections M_INITIAL [] (config_text ss) = ss"
  by (rule read_written)

text \<open>
  C38. A password of digits is no password for the grammar: whatever follows in the file, its reading ends there, with
  a host that has no password and no options, so that this host and all later ones are missing from the list.
\<close>

theorem numeric_password_refused:
  assumes "num_text w" and "name_text n"
  shows "config_sections M_INITIAL [] (lines ([n, ''{'', ''passwd'', w, '';'', ''}''] @ ws)) = [(S_host n [], False)]"
proof -
  have k: "lexed (''passwd'' # us) M_OPTION [M_INITIAL] = T_kw K_PASSWD # lexed us M_PARAM [M_OPTION, M_INITIAL]" for us
    using lexed_keyword [of "[M_INITIAL]" K_PASSWD us] by simp
  have "lexed ([n, ''{'', ''passwd'', w, '';'', ''}''] @ ws) M_INITIAL []
      = [T_host n, T_open, T_kw K_PASSWD, T_num (atoi w), T_close] @ lexed ws M_INITIAL []"
    using assms by (simp add: lexed_name name_text_def lexed_open k lexed_num lexed_semi lexed_close)
  then have t: "tokens \<lparr>lx_in = lines ([n, ''{'', ''passwd'', w, '';'', ''}''] @ ws), lx_mode = M_INITIAL, lx_stack = []\<rparr>
      = [T_host n, T_open, T_kw K_PASSWD, T_num (atoi w), T_close] @ lexed ws M_INITIAL []" by (simp only: lexed_def)
  show ?thesis unfolding config_sections_def t
    by (simp add: p_config.simps p_statement_def p_host_section_def block.simps p_host_option_def keyword_of_def
      host_keyword_def word_param_def fail_def)
qed

text \<open>
  The lexer keeps its mode and its stack from one reading to the next. After a reading that has ended within a
  section, the name of a host at the start of what it reads next is taken for an option, and the new
  reading yields no section at all.
\<close>

theorem stale_lexer_mode:
  assumes "name_text n"
  shows "config_sections M_OPTION k (lines (n # ws)) = []"
proof -
  have n: "n \<noteq> []" "list_all word_char n" "hd n \<noteq> CHR ''#''" "word_char (hd n)" "find_keyword cfg_keyword n = None"
    using assms kword_word kword_not_comment hd_class [of n kword_char] by (auto simp: name_text_def list_all_iff)
  have "m_comment n = 0" using m_comment_other [of n "[]"] n(1,3) by simp
  then have "lexed (n # ws) M_OPTION k = (case Some (T_error n) of None \<Rightarrow> lexed ws M_OPTION k
      | Some t \<Rightarrow> if t = T_end then [] else t # lexed ws M_OPTION k)"
    using n by (intro lexed_line [where xs = "[R_space, R_newline, R_comment, R_open, R_close]" and r = R_option and ys = "[R_garbage]"])
      (auto simp: first_rules m_class_all)
  then show ?thesis by (simp add: config_sections_def lexed_def p_config.simps p_statement_def)
qed

subsection \<open>The properties at work\<close>

lemma lexer_reads_params_witness: "lexed [''lzo:1''] M_PARAM [] = [T_dnum 2 1]"
proof -
  have "list_all word_char ''lzo''" "num_text ''1''" "lex_param ''lzo:1'' = P_dnum 2 1" by code_simp+
  with lexer_reads_params [of "''lzo''" "''lzo:1''" "[]" "[]"] show ?thesis by simp
qed

definition ex_written :: "statement list" where
  "ex_written =
     [(S_options [G_port 6000, G_bind_iface ''eth0'', G_ifcfg ''/sbin/ifconfig'', G_facility ''daemon''], True),
      (S_default [I_opt (O_compress (P_dnum 1 9)), I_opt (O_speed (P_num 0))], True),
      (S_host ''lab'' [I_opt (O_passwd ''s3cret#''), I_opt (O_srcaddr ''10.0.0.1''),
         I_up [C_ifcfg ''%% 10.1.0.1'', C_prog [P_path ''/bin/echo'', P_string ''say up'', P_flags 1]], I_down []], True)]"

lemma ex_writable: "writable ex_written"
  by code_simp

lemma config_roundtrip_witness:
  "config_sections M_INITIAL [] (config_text ex_written) = ex_written \<and> length ex_written = 3"
  using config_roundtrip [OF ex_writable] by (simp add: ex_written_def)

lemma numeric_password_refused_witness:
  "config_sections M_INITIAL [] (lines [''lab'', ''{'', ''passwd'', ''1234'', '';'', ''}'', ''gw'']) = [(S_host ''lab'' [], False)]"
proof -
  have "num_text ''1234''" "name_text ''lab''" by code_simp+
  from numeric_password_refused [OF this, of "[''gw'']"] show ?thesis by simp
qed

lemma stale_lexer_mode_witness: "config_sections M_OPTION [M_INITIAL] (lines [''lab'', ''{'', ''passwd'', ''x'', '';'', ''}'']) = []"
proof -
  have "name_text ''lab''" by code_simp
  from stale_lexer_mode [OF this] show ?thesis by blast
qed

end
