(* ===== verification/Startup.thy ===== *)
theory Startup
  imports Server CfgPrint
begin

section \<open>Starting up (\<open>main.c\<close>)\<close>

text \<open>
  The options of the command line, the defaults for what neither they nor the configuration file set,
  and the turn into a daemon. \<open>getopt\<close> is the C library's: its
  result, the options with their arguments and the words that are left, is the input here.
\<close>

subsection \<open>The command line\<close>

text \<open>The facility \<open>LOG_DAEMON\<close> of \<open>syslog.h\<close>.\<close>

definition LOG_DAEMON :: int where [simp]: "LOG_DAEMON = 24"

text \<open>\<open>vtun\<close> as \<open>main\<close> sets it before it looks at its arguments.\<close>

definition start_opts :: "string \<Rightarrow> vtun_opts" where
  "start_opts cfg_file = \<lparr>o_timeout = - 1, o_persist = - 1, o_cfg_file = cfg_file, o_shell = None,
     o_ppp = Some ''/usr/sbin/pppd'', o_ifcfg = Some ''/sbin/ifconfig'', o_route = Some ''/sbin/route'',
     o_fwall = Some ''/sbin/ipchains'', o_iproute = Some ''/sbin/ip'', o_svr_name = None, o_svr_addr = None,
     o_bind_addr = zero_addr\<lparr>ad_port := - 1\<rparr>, o_svr_type = - 1, o_syslog = LOG_DAEMON, o_quiet = 0\<rparr>"

record startup =
  st_vtun :: vtun_opts
  st_svr :: bool
  st_daemon :: bool

text \<open>
  One option: the state, or the value the process exits with. \<open>mlock\<close> says whether \<open>mlockall\<close> succeeds.
  The case \<open>i\<close> falls through to \<open>s\<close>.
\<close>

definition main_option :: "bool \<Rightarrow> char \<times> string \<Rightarrow> startup \<Rightarrow> int + startup" where
  "main_option mlock x st =
     (let c = fst x; optarg = snd x; v = st_vtun st; opts = (\<lambda>v. Inr (st\<lparr>st_vtun := v\<rparr>))
      in if c = CHR ''m'' then (if mlock then Inr st else Inl (- 1))
         else if c = CHR ''i'' then Inr (st\<lparr>st_vtun := v\<lparr>o_svr_type := VTUN_INETD\<rparr>, st_svr := True\<rparr>)
         else if c = CHR ''s'' then Inr (st\<lparr>st_svr := True\<rparr>)
         else if c = CHR ''L'' then opts (v\<lparr>o_svr_addr := Some optarg\<rparr>)
         else if c = CHR ''P'' then opts (set_bind_port (atoi optarg) v)
         else if c = CHR ''f'' then opts (v\<lparr>o_cfg_file := optarg\<rparr>)
         else if c = CHR ''n'' then Inr (st\<lparr>st_daemon := False\<rparr>)
         else if c = CHR ''p'' then opts (v\<lparr>o_persist := 1\<rparr>)
         else if c = CHR ''t'' then opts (v\<lparr>o_timeout := atoi optarg\<rparr>)
         else if c = CHR ''q'' then opts (v\<lparr>o_quiet := 1\<rparr>)
         else Inl 1)"

fun main_options :: "bool \<Rightarrow> (char \<times> string) list \<Rightarrow> startup \<Rightarrow> int + startup" where
  "main_options mlock [] st = Inr st"
| "main_options mlock (x # xs) st =
     (case main_option mlock x st of Inl e \<Rightarrow> Inl e | Inr st' \<Rightarrow> main_options mlock xs st')"

subsection \<open>Defaults\<close>

definition fill_defaults :: "vtun_opts \<Rightarrow> vtun_opts" where
  "fill_defaults v =
     (let v1 = (if ad_port (o_bind_addr v) = - 1 then set_bind_port VTUN_PORT v else v);
          v2 = (if o_persist v1 = - 1 then v1\<lparr>o_persist := 0\<rparr> else v1);
          v3 = (if o_timeout v2 = - 1 then v2\<lparr>o_timeout := VTUN_TIMEOUT\<rparr> else v2)
      in if o_svr_type v3 = - 1 then v3\<lparr>o_svr_type := VTUN_STAND_ALONE\<rparr> else v3)"

subsection \<open>The daemon\<close>

text \<open>Standard input, output and error become \<open>/dev/null\<close>.\<close>

definition null_fds :: "unit sys_prog" where
  "null_fds =
     Ask (Open_file ''/dev/null'') (\<lambda>f.
     Ask (Close 0) (\<lambda>_. Ask (Dup (sr_ret f)) (\<lambda>_.
     Ask (Close 1) (\<lambda>_. Ask (Dup (sr_ret f)) (\<lambda>_.
     Ask (Close 2) (\<lambda>_. Ask (Dup (sr_ret f)) (\<lambda>_.
     Ask (Close (sr_ret f)) (\<lambda>_. Ret ()))))))))"

text \<open>The parent exits, and so does a process whose \<open>fork\<close> fails.\<close>

definition daemonize :: "bool \<Rightarrow> bool \<Rightarrow> unit ended sys_prog" where
  "daemonize daemon dofork =
     (if daemon then
        (let go = bind_prog null_fds (\<lambda>_. Ask Set_sid (\<lambda>_. Ask (Change_dir ''/'') (\<lambda>_. Ret (Returned ()))))
         in if dofork then Ask Fork (\<lambda>p. if sr_ret p \<noteq> 0 then Ret (Exited 0) else go) else go)
      else Ret (Returned ()))"

text \<open>The socket of the server, a duplicate of standard input when \<open>inetd\<close> has started it.\<close>

definition start_up :: "bool \<Rightarrow> vtun_opts \<Rightarrow> int ended sys_prog" where
  "start_up daemon v =
     bind_prog (if o_svr_type v = VTUN_INETD then Ask (Dup 0) (\<lambda>a. Ret (sr_ret a)) else Ret 0) (\<lambda>sock.
     and_go (daemonize daemon (o_svr_type v \<noteq> VTUN_INETD)) (\<lambda>_. Ret (Returned sock)))"

subsection \<open>Server and client\<close>

text \<open>\<open>pid_file\<close> is \<open>VTUN_PID_FILE\<close>, a path of the build.\<close>

definition write_pid :: "string \<Rightarrow> unit sys_prog" where
  "write_pid pid_file =
     Ask (Create_file pid_file) (\<lambda>f.
     if sr_ret f < 0 then Ret ()
     else Ask Get_pid (\<lambda>p. Ask (Write_text (sr_ret f) (show_int (sr_ret p))) (\<lambda>_.
          Ask (Close (sr_ret f)) (\<lambda>_. Ret ()))))"

definition run_server :: "string \<Rightarrow> (vtun_opts \<Rightarrow> 's \<Rightarrow> int \<Rightarrow> unit ended sys_prog) \<Rightarrow> vtun_opts \<Rightarrow> 's \<Rightarrow> int
    \<Rightarrow> unit ended sys_prog" where
  "run_server pid_file serve v s sock =
     set_signals [(SIGHUP, Run ''reread_config'')] (Ask (Init_title ''vtund[s]: '') (\<lambda>_.
     bind_prog (if o_svr_type v = VTUN_STAND_ALONE then write_pid pid_file else Ret ()) (\<lambda>_. serve v s sock)))"

definition run_client :: "(vtun_opts \<Rightarrow> vtun_host \<Rightarrow> unit ended sys_prog) \<Rightarrow> vtun_opts \<Rightarrow> vtun_host \<Rightarrow> unit ended sys_prog" where
  "run_client connect v h = Ask (Init_title ''vtund[c]: '') (\<lambda>_. connect v h)"

text \<open>\<open>main\<close> opens the log before it knows the facility that the configuration file asks for.\<close>

definition reopen_log :: "vtun_opts \<Rightarrow> 'r sys_prog \<Rightarrow> 'r sys_prog" where
  "reopen_log v p = (if o_syslog v \<noteq> LOG_DAEMON then Ask Close_log (\<lambda>_. Ask (Open_log (o_syslog v)) (\<lambda>_. p)) else p)"

subsection \<open>The whole\<close>

text \<open>
  \<open>reread\<close> is the reading of the configuration file of the given name: whether it defined hosts, the
  hosts and the options.
\<close>

type_synonym reader = "vtun_opts \<Rightarrow> (bool \<times> cfg \<times> vtun_opts) option"

text \<open>The client uses the name of its device; where that string has been freed this is undefined.\<close>

definition client_host :: "string list \<Rightarrow> cfg \<Rightarrow> (int + (string \<times> vtun_host)) option" where
  "client_host left s =
     (case left of
        hst # svr # _ \<Rightarrow>
          (case find_host hst s of
             None \<Rightarrow> None
           | Some (None, s') \<Rightarrow> Some (Inl 1)
           | Some (Some p, s') \<Rightarrow>
               if p \<in> cf_freed s' then None
               else map_option (\<lambda>h. Inr (svr, h)) (Option.bind (cf_hosts s') (\<lambda>hs. hs p)))
      | _ \<Rightarrow> Some (Inl 1))"

text \<open>
  \<open>serve\<close> and \<open>connect\<close> are the server with the socket it gets and the client with its host.
\<close>

definition main_prog :: "string \<Rightarrow> string \<Rightarrow> bool \<Rightarrow> (char \<times> string) list \<Rightarrow> string list \<Rightarrow> reader
    \<Rightarrow> (vtun_opts \<Rightarrow> cfg \<Rightarrow> int \<Rightarrow> unit ended sys_prog) \<Rightarrow> (vtun_opts \<Rightarrow> vtun_host \<Rightarrow> unit ended sys_prog)
    \<Rightarrow> int ended sys_prog" where
  "main_prog cfg_file pid_file mlock opts left reread serve connect =
     Ask (Open_log LOG_DAEMON) (\<lambda>_.
     case main_options mlock opts \<lparr>st_vtun = start_opts cfg_file, st_svr = False, st_daemon = True\<rparr> of
       Inl e \<Rightarrow> Ret (Exited e)
     | Inr st \<Rightarrow>
         (case reread (st_vtun st) of
            None \<Rightarrow> Fault
          | Some (hosts, s0, v0) \<Rightarrow>
              if \<not> hosts then Ret (Exited 1)
              else reopen_log v0
                (case clear_nat_hack_flags (st_svr st) s0 of
                   None \<Rightarrow> Fault
                 | Some s \<Rightarrow>
                     (let run = (\<lambda>v act. and_go (start_up (st_daemon st) v) (\<lambda>sock.
                        and_go (act sock) (\<lambda>_. Ask Close_log (\<lambda>_. Ret (Returned 0)))))
                      in if st_svr st then let v = fill_defaults v0 in run v (run_server pid_file serve v s)
                         else (case client_host left s of
                                 None \<Rightarrow> Fault
                               | Some (Inl e) \<Rightarrow> Ret (Exited e)
                               | Some (Inr (svr, h)) \<Rightarrow>
                                   let v = fill_defaults (v0\<lparr>o_svr_name := Some svr\<rparr>)
                                   in run v (\<lambda>_. run_client connect v h))))))"

subsection \<open>Which setting wins\<close>

definition first_set :: "int list \<Rightarrow> int \<Rightarrow> int" where
  "first_set ns d = (case filter (\<lambda>n. n \<noteq> - 1) ns of [] \<Rightarrow> d | n # _ \<Rightarrow> n)"

lemma first_set_simps [simp]:
  "first_set [] d = d" "first_set (n # ns) d = (if n = - 1 then first_set ns d else n)"
  by (simp_all add: first_set_def)

lemma first_set_append [simp]: "first_set (ns @ ms) d = first_set ns (first_set ms d)"
  by (induction ns) auto

definition last_num :: "char \<Rightarrow> (char \<times> string) list \<Rightarrow> int \<Rightarrow> int" where
  "last_num c xs n = fold (\<lambda>x n. if fst x = c then atoi (snd x) else n) xs n"

lemma last_num_simps [simp]:
  "last_num c [] n = n" "last_num c (x # xs) n = last_num c xs (if fst x = c then atoi (snd x) else n)"
  by (simp_all add: last_num_def)

lemma set_bind_port_simps [simp]:
  "ad_port (o_bind_addr (set_bind_port p v)) = p" "o_timeout (set_bind_port p v) = o_timeout v"
  "o_persist (set_bind_port p v) = o_persist v" "o_svr_type (set_bind_port p v) = o_svr_type v"
  by (simp_all add: set_bind_port_def)

text \<open>What the command line leaves of the four settings.\<close>

definition settings :: "vtun_opts \<Rightarrow> int \<times> int \<times> int \<times> int" where
  "settings v = (ad_port (o_bind_addr v), o_timeout v, o_svr_type v, o_persist v)"

lemma main_option_settings:
  assumes "main_option mlock x st = Inr st'"
  shows "settings (st_vtun st') =
    (last_num (CHR ''P'') [x] (ad_port (o_bind_addr (st_vtun st))), last_num (CHR ''t'') [x] (o_timeout (st_vtun st)),
     if fst x = CHR ''i'' then VTUN_INETD else o_svr_type (st_vtun st),
     if fst x = CHR ''p'' then 1 else o_persist (st_vtun st))"
  using assms by (auto simp: main_option_def settings_def Let_def split: if_splits)

lemma main_options_settings:
  "main_options mlock xs st = Inr st' \<Longrightarrow> settings (st_vtun st') =
    (last_num (CHR ''P'') xs (ad_port (o_bind_addr (st_vtun st))), last_num (CHR ''t'') xs (o_timeout (st_vtun st)),
     if CHR ''i'' \<in> fst ` set xs then VTUN_INETD else o_svr_type (st_vtun st),
     if CHR ''p'' \<in> fst ` set xs then 1 else o_persist (st_vtun st))"
proof (induction xs arbitrary: st)
  case (Cons x xs)
  then obtain st1 where st1: "main_option mlock x st = Inr st1" "main_options mlock xs st1 = Inr st'"
    by (auto split: sum.splits)
  from Cons.IH [OF st1(2)] main_option_settings [OF st1(1)] show ?case by (auto simp: settings_def)
qed (simp add: settings_def)

fun port_of :: "global_opt \<Rightarrow> int list" where
  "port_of (G_port n) = [n]"
| "port_of _ = []"

fun timeout_of :: "global_opt \<Rightarrow> int list" where
  "timeout_of (G_timeout n) = [n]"
| "timeout_of _ = []"

fun type_of :: "global_opt \<Rightarrow> int list" where
  "type_of (G_type n) = [n]"
| "type_of _ = []"

lemma parse_syslog_simps [simp]:
  "o_bind_addr (snd (parse_syslog w v)) = o_bind_addr v" "o_timeout (snd (parse_syslog w v)) = o_timeout v"
  "o_persist (snd (parse_syslog w v)) = o_persist v" "o_svr_type (snd (parse_syslog w v)) = o_svr_type v"
  by (simp_all add: parse_syslog_def split: option.splits)

lemma global_option_settings:
  "settings (global_option g v) = (first_set (ad_port (o_bind_addr v) # port_of g) (- 1),
     first_set (o_timeout v # timeout_of g) (- 1), first_set (o_svr_type v # type_of g) (- 1), o_persist v)"
  by (cases g) (simp_all add: settings_def)

lemma first_set_none [simp]: "first_set ns (- 1) = - 1 \<longleftrightarrow> filter (\<lambda>n. n \<noteq> - 1) ns = []"
  by (induction ns) auto

lemma first_set_default: "first_set ns d = (if first_set ns (- 1) = - 1 then d else first_set ns (- 1))"
  by (induction ns) auto

lemma global_options_settings:
  "settings (global_options gs v) =
    (first_set (ad_port (o_bind_addr v) # concat (map port_of gs)) (- 1),
     first_set (o_timeout v # concat (map timeout_of gs)) (- 1),
     first_set (o_svr_type v # concat (map type_of gs)) (- 1), o_persist v)"
proof (induction gs arbitrary: v)
  case (Cons g gs)
  have "first_set (first_set (a # p) (- 1) # ns) (- 1) = first_set (a # p @ ns) (- 1)" for a p ns
    by (simp add: first_set_default [of p "first_set ns (- 1)"] del: first_set_none)
  then show ?case using Cons [of "global_option g v"] global_option_settings [of g v]
    by (simp only: settings_def prod.inject global_options_def fold_simps o_apply list.map concat.simps)
qed (simp add: global_options_def settings_def)

text \<open>The settings of a whole file: its global options, and the options \<open>persist\<close> of any section.\<close>

fun persist_of :: "host_item \<Rightarrow> int list" where
  "persist_of (I_opt (O_persist n)) = [n]"
| "persist_of _ = []"

fun globals_of :: "statement \<Rightarrow> global_opt list" where
  "globals_of (S_options gs, ok) = gs"
| "globals_of _ = []"

fun items_of :: "statement \<Rightarrow> host_item list" where
  "items_of (S_default xs, ok) = xs"
| "items_of (S_host n xs, ok) = xs"
| "items_of _ = []"

lemma first_set_first: "first_set (first_set (a # p) (- 1) # ns) (- 1) = first_set (a # p @ ns) (- 1)"
  by (simp add: first_set_default [of p "first_set ns (- 1)"] del: first_set_none)

lemma host_option_persist: "snd (host_option x (h, p)) = first_set (p # persist_of (I_opt x)) (- 1)"
proof (cases x)
  case (O_speed q)
  then show ?thesis by (cases q) auto
next
  case (O_compress q)
  then show ?thesis by (cases q) (auto simp: Let_def)
next
  case (O_kalive q)
  then show ?thesis by (cases q) (auto simp: Let_def)
qed auto

lemma run_item_settings:
  "settings (snd (run_item x (h, v)))
    = (ad_port (o_bind_addr v), o_timeout v, o_svr_type v, first_set (o_persist v # persist_of x) (- 1))"
proof (cases x)
  case (I_opt y)
  have "settings (snd (run_item (I_opt y) (h, v)))
      = (ad_port (o_bind_addr v), o_timeout v, o_svr_type v, snd (host_option y (h, o_persist v)))"
    by (simp add: settings_def case_prod_beta del: host_option.simps)
  then show ?thesis unfolding I_opt host_option_persist .
qed (simp_all add: settings_def)

lemma items_settings:
  "settings (snd (fold run_item xs (h, v)))
    = (ad_port (o_bind_addr v), o_timeout v, o_svr_type v, first_set (o_persist v # concat (map persist_of xs)) (- 1))"
proof (induction xs arbitrary: h v)
  case Nil
  then show ?case by (simp add: settings_def)
next
  case (Cons x xs)
  obtain h' v' where r: "run_item x (h, v) = (h', v')" by fastforce
  have "settings v' = (ad_port (o_bind_addr v), o_timeout v, o_svr_type v, first_set (o_persist v # persist_of x) (- 1))"
    using run_item_settings [of x h v] r by simp
  then show ?case using Cons.IH [of h' v'] first_set_first [of "o_persist v" "persist_of x"]
    by (simp only: settings_def prod.inject fold_simps o_apply r list.map concat.simps)
qed

lemma statement_settings:
  "settings (sp_vtun (spec_statement s c)) =
    (first_set (ad_port (o_bind_addr (sp_vtun c)) # concat (map port_of (globals_of s))) (- 1),
     first_set (o_timeout (sp_vtun c) # concat (map timeout_of (globals_of s))) (- 1),
     first_set (o_svr_type (sp_vtun c) # concat (map type_of (globals_of s))) (- 1),
     first_set (o_persist (sp_vtun c) # concat (map persist_of (items_of s))) (- 1))"
proof -
  obtain sec ok where s: "s = (sec, ok)" by (cases s)
  have i: "settings (sp_vtun (case fold run_item xs y of (h, v) \<Rightarrow> f h v)) = settings (snd (fold run_item xs y))"
    if "\<And>h v. sp_vtun (f h v) = v" for xs y f
    using that by (simp add: case_prod_beta)
  show ?thesis
  proof (cases sec)
    case (S_options gs)
    then show ?thesis using s global_options_settings [of gs "sp_vtun c"] by (simp add: settings_def)
  qed (simp_all add: s i items_settings)
qed

lemma spec_settings:
  "settings (sp_vtun (fold spec_statement ss c)) =
    (first_set (ad_port (o_bind_addr (sp_vtun c)) # concat (map port_of (concat (map globals_of ss)))) (- 1),
     first_set (o_timeout (sp_vtun c) # concat (map timeout_of (concat (map globals_of ss)))) (- 1),
     first_set (o_svr_type (sp_vtun c) # concat (map type_of (concat (map globals_of ss)))) (- 1),
     first_set (o_persist (sp_vtun c) # concat (map persist_of (concat (map items_of ss)))) (- 1))"
proof (induction ss arbitrary: c)
  case Nil
  then show ?case by (simp add: settings_def)
next
  case (Cons s ss)
  then show ?case using Cons [of "spec_statement s c"] statement_settings [of s c]
    by (simp only: settings_def prod.inject fold_simps o_apply list.map concat.simps map_append concat_append first_set_first)
qed

text \<open>
  C24. Which setting wins: the port, the timeout and the mode of the server are what the command line says
  last, or else what the configuration file says first, or else the default; the global \<open>persist\<close>, which
  makes every client persistent, is set by the command line, or else it is what the first option
  \<open>persist\<close> of any host or \<open>default\<close> section says, for whichever host the client is started.
\<close>

theorem options_precedence:
  assumes "main_options mlock opts \<lparr>st_vtun = start_opts cfg_file, st_svr = False, st_daemon = True\<rparr> = Inr st"
    and "represents r c" and "cs_vtun r = st_vtun st" and "sound_config ss c" and "allocates hm" and "allocates em"
    and "run_config hm em ss r = Some r'" and "v = fill_defaults (cs_vtun r')"
    and gs: "gs = concat (map globals_of (taken ss))" and xs: "xs = concat (map items_of (taken ss))"
  shows "ad_port (o_bind_addr v) = first_set (last_num (CHR ''P'') opts (- 1) # concat (map port_of gs)) VTUN_PORT
    \<and> o_timeout v = first_set (last_num (CHR ''t'') opts (- 1) # concat (map timeout_of gs)) VTUN_TIMEOUT
    \<and> o_svr_type v = first_set ((if CHR ''i'' \<in> fst ` set opts then VTUN_INETD else - 1) # concat (map type_of gs)) VTUN_STAND_ALONE
    \<and> o_persist v = first_set ((if CHR ''p'' \<in> fst ` set opts then 1 else - 1) # concat (map persist_of xs)) 0"
proof -
  have m: "settings (st_vtun st) = (last_num (CHR ''P'') opts (- 1), last_num (CHR ''t'') opts (- 1),
      if CHR ''i'' \<in> fst ` set opts then VTUN_INETD else - 1, if CHR ''p'' \<in> fst ` set opts then 1 else - 1)"
    using main_options_settings [OF assms(1)] by (simp add: start_opts_def zero_addr_def)
  have d: "settings (fill_defaults u) = (if ad_port (o_bind_addr u) = - 1 then VTUN_PORT else ad_port (o_bind_addr u),
      if o_timeout u = - 1 then VTUN_TIMEOUT else o_timeout u,
      if o_svr_type u = - 1 then VTUN_STAND_ALONE else o_svr_type u, if o_persist u = - 1 then 0 else o_persist u)" for u
    by (simp add: fill_defaults_def settings_def Let_def)
  have f: "(if first_set ns (- 1) = - 1 then e else first_set ns (- 1)) = first_set ns e" for ns e
    by (rule first_set_default [symmetric])
  have "represents r' (spec_config ss c)" using run_config_represents [OF assms(2,4,5,6)] assms(7) by auto
  then have v: "cs_vtun r' = sp_vtun (fold spec_statement (taken ss) c)" by (auto simp: represents_def spec_config_def)
  have c: "sp_vtun c = st_vtun st" using assms(2,3) by (auto simp: represents_def)
  show ?thesis
    using m d [of "cs_vtun r'"] spec_settings [of "taken ss" c]
    by (simp only: assms(8) settings_def prod.inject f v c gs [symmetric] xs [symmetric])
qed

subsection \<open>The client that is started\<close>

lemma find_map: "(\<And>x. P (f x) \<longleftrightarrow> P x) \<Longrightarrow> find P (map f xs) = map_option f (find P xs)"
  by (induction xs) auto

lemma client_host_lists:
  assumes "lists_hosts s H"
  shows "client_host (hst # svr # rest) s = Some (case find (\<lambda>h. vh_host h = hst) (rev H) of
    None \<Rightarrow> Inl 1 | Some h \<Rightarrow> Inr (svr, h))"
proof -
  from find_host_lists [OF assms, of hst] obtain r s' where
    r: "find_host hst s = Some (r, s')" "r = None \<longleftrightarrow> host_at r s' = None"
      "host_at r s' = find (\<lambda>h. vh_host h = hst) (rev H)" "dev_valid r s'" by metis
  show ?thesis
  proof (cases r)
    case None
    then have "find (\<lambda>h. vh_host h = hst) (rev H) = None" using r by simp
    with None r(1) show ?thesis by (simp add: client_host_def)
  next
    case (Some p)
    then obtain h where h: "host_at r s' = Some h" using r(2) by auto
    then have "find (\<lambda>h. vh_host h = hst) (rev H) = Some h" using r(3) by simp
    moreover have "Option.bind (cf_hosts s') (\<lambda>hs. hs p) = Some h" using h Some by (simp add: host_at_def)
    ultimately show ?thesis using Some r(1,4) by (simp add: client_host_def dev_valid_def)
  qed
qed

text \<open>
  The reading of a file with the sections \<open>ss\<close>, when the hosts of the last reading are in \<open>s\<close>: the result of
  \<^const>\<open>read_config\<close>, and the options that the actions leave.
\<close>

definition config_reader :: "((addr \<Rightarrow> vtun_host option) \<Rightarrow> addr option) \<Rightarrow> (addr heap \<Rightarrow> addr option)
    \<Rightarrow> statement list \<Rightarrow> cfg \<Rightarrow> reader" where
  "config_reader hm em ss s v =
     Option.bind (if cf_loaded s then free_host_list s else Some s) (\<lambda>s1.
     Option.bind (run_config hm em ss \<lparr>cs_cfg = s1\<lparr>cf_loaded := True, cf_list := llist_init\<rparr>, cs_vtun = v\<rparr>) (\<lambda>st.
     map_option (\<lambda>(r, s'). (r \<noteq> 0, s', cs_vtun st)) (read_config (config_parse hm em ss v) True s)))"

lemma config_reader_lists:
  assumes "readable d s" and "allocates hm" and "allocates em"
    and "sound_config ss (fresh_spec d v)"
    and c: "c = spec_config ss (fresh_spec d v)" and "vh_passwd (sp_default c) = None"
  shows "\<exists>s'. config_reader hm em ss s v = Some (sp_hosts c \<noteq> [], s', sp_vtun c) \<and> lists_hosts s' (sp_hosts c)"
proof -
  from release_readable [OF assms(1), of v] obtain s1 where
    s1: "(if cf_loaded s then free_host_list s else Some s) = Some s1"
      "represents \<lparr>cs_cfg = s1\<lparr>cf_loaded := True, cf_list := llist_init\<rparr>, cs_vtun = v\<rparr>
        (fresh_spec d v)" by blast
  from run_config_represents [OF s1(2) assms(4,2,3)] obtain st where
    st: "run_config hm em ss \<lparr>cs_cfg = s1\<lparr>cf_loaded := True, cf_list := llist_init\<rparr>, cs_vtun = v\<rparr> = Some st"
      "represents st c" unfolding c by blast
  have "cs_vtun st = sp_vtun c" using st(2) by (auto simp: represents_def)
  then show ?thesis using read_config_lists [OF assms] s1(1) st(1) by (auto simp: config_reader_def)
qed

text \<open>
  The text of the file is read by the lexer and the grammar in their initial state, as \<open>main\<close> finds them. Where the
  file does not open, the result is that of \<open>missing_config_goes_on\<close>.
\<close>

definition text_reader :: "((addr \<Rightarrow> vtun_host option) \<Rightarrow> addr option) \<Rightarrow> (addr heap \<Rightarrow> addr option)
    \<Rightarrow> string option \<Rightarrow> cfg \<Rightarrow> reader" where
  "text_reader hm em file s v =
     (case file of
        None \<Rightarrow> map_option (\<lambda>(r, s'). (r \<noteq> 0, s', v)) (read_config Some False s)
      | Some txt \<Rightarrow> config_reader hm em (config_sections M_INITIAL [] txt) s v)"

text \<open>What is common to both: the file is read, and the flags of the NAT hack are cleared.\<close>

lemma main_reads:
  assumes "main_options mlock opts \<lparr>st_vtun = start_opts cfg_file, st_svr = False, st_daemon = True\<rparr> = Inr st"
    and "readable d s" and "allocates hm" and "allocates em" and "ss = config_sections M_INITIAL [] txt"
    and "sound_config ss (fresh_spec d (st_vtun st))"
    and "c = spec_config ss (fresh_spec d (st_vtun st))" and "vh_passwd (sp_default c) = None"
  obtains s0 s1 where
    "text_reader hm em (Some txt) s (st_vtun st) = Some (sp_hosts c \<noteq> [], s0, sp_vtun c)"
    "clear_nat_hack_flags (st_svr st) s0 = Some s1" "lists_hosts s1 (map (no_nat_hack (st_svr st)) (sp_hosts c))"
proof -
  from config_reader_lists [OF assms(2-4,6-8)] obtain s0 where
    r: "config_reader hm em ss s (st_vtun st) = Some (sp_hosts c \<noteq> [], s0, sp_vtun c)" "lists_hosts s0 (sp_hosts c)" by blast
  from clear_flags_lists [OF r(2), of "st_svr st"] r(1) that show thesis by (auto simp: text_reader_def assms(5))
qed

text \<open>
  What a start comes to, call by call: a row of calls whose results are not looked at, the way into the background,
  the change of the log, the PID file, and the options with the documented defaults.
\<close>

fun in_turn :: "sys_call list \<Rightarrow> 'r sys_prog \<Rightarrow> 'r sys_prog" where
  "in_turn [] p = p"
| "in_turn (q # qs) p = Ask q (\<lambda>_. in_turn qs p)"

definition detached :: "bool \<Rightarrow> bool \<Rightarrow> (int \<Rightarrow> 'r ended sys_prog) \<Rightarrow> 'r ended sys_prog" where
  "detached daemon inetd k =
     (let away = (\<lambda>sock. if daemon then
            Ask (Open_file ''/dev/null'') (\<lambda>f. let fd = sr_ret f in
              in_turn [Close 0, Dup fd, Close 1, Dup fd, Close 2, Dup fd, Close fd, Set_sid, Change_dir ''/''] (k sock))
          else k sock)
      in if inetd then Ask (Dup 0) (\<lambda>a. away (sr_ret a))
         else if daemon then Ask Fork (\<lambda>p. if sr_ret p \<noteq> 0 then Ret (Exited 0) else away 0)
         else k 0)"

definition logging_to :: "int \<Rightarrow> 'r sys_prog \<Rightarrow> 'r sys_prog" where
  "logging_to facility p = (if facility = 24 then p else in_turn [Close_log, Open_log facility] p)"

definition with_pid_file :: "string \<Rightarrow> 'r sys_prog \<Rightarrow> 'r sys_prog" where
  "with_pid_file path p =
     Ask (Create_file path) (\<lambda>f. if sr_ret f < 0 then p
       else Ask Get_pid (\<lambda>n. in_turn [Write_text (sr_ret f) (show_int (sr_ret n)), Close (sr_ret f)] p))"

definition completed :: "vtun_opts \<Rightarrow> vtun_opts" where
  "completed u =
     (let or_else = (\<lambda>n d. if n = - 1 then d else n)
      in u\<lparr>o_timeout := or_else (o_timeout u) 30, o_persist := or_else (o_persist u) 0,
           o_svr_type := or_else (o_svr_type u) VTUN_STAND_ALONE,
           o_bind_addr := (o_bind_addr u)\<lparr>ad_port := or_else (ad_port (o_bind_addr u)) 5000\<rparr>\<rparr>)"

lemma go_if:
  "bind_prog (if b then p else q) f = (if b then bind_prog p f else bind_prog q f)"
  "and_go (if b then p' else q') g = (if b then and_go p' g else and_go q' g)"
  by simp_all

lemma fill_defaults_completed: "fill_defaults u = completed u"
  by (simp add: fill_defaults_def completed_def set_bind_port_def Let_def)

lemma reopen_log_calls: "reopen_log v p = logging_to (o_syslog v) p"
  by (simp add: reopen_log_def logging_to_def)

lemma start_up_calls: "and_go (start_up daemon v) k = detached daemon (o_svr_type v = VTUN_INETD) k"
  by (cases daemon; cases "o_svr_type v = VTUN_INETD")
    (simp_all add: start_up_def daemonize_def null_fds_def detached_def Let_def go_if cong: if_cong)

lemma run_server_calls:
  "run_server pid_file serve v s sock =
     Ask (Sigaction SIGHUP (Run ''reread_config'')) (\<lambda>_. Ask (Init_title ''vtund[s]: '') (\<lambda>_.
       (if o_svr_type v = VTUN_STAND_ALONE then with_pid_file pid_file else id) (serve v s sock)))"
  by (cases "o_svr_type v = VTUN_STAND_ALONE") (simp_all add: run_server_def write_pid_def with_pid_file_def go_if cong: if_cong)

text \<open>
  C13. What \<open>vtund\<close> with a host and a server as arguments does, from the command line and the text of
  the configuration file to the client, call by call: it exits with 1 where no complete section has the name of the
  host; otherwise it turns to the log of the configured facility, goes into the background (a \<open>fork\<close> whose
  parent exits, \<open>/dev/null\<close> on its three standard descriptors, a session of its own, the root directory), unless
  told not to, and is the client of the last such section, for the server it was told, without the flag of the NAT
  hack that is for servers, the options completed by the defaults (port 5000, timeout 30, not persistent, stand-alone). It assumes that memory
  does not run out and the configuration is sound: no password in a \<open>default\<close> section, no device name replaced
  that hosts share with the default host, commands with program and arguments.
\<close>

theorem client_starts:
  assumes "main_options mlock opts \<lparr>st_vtun = start_opts cfg_file, st_svr = False, st_daemon = True\<rparr> = Inr st"
    and "\<not> st_svr st" and "left = hst # svr # rest"
    and "readable d s" and "allocates hm" and "allocates em" and "ss = config_sections M_INITIAL [] txt"
    and "sound_config ss (fresh_spec d (st_vtun st))"
    and "c = spec_config ss (fresh_spec d (st_vtun st))" and "vh_passwd (sp_default c) = None"
  shows "main_prog cfg_file pid_file mlock opts left (text_reader hm em (Some txt) s) serve connect =
    Ask (Open_log 24) (\<lambda>_. if sp_hosts c = [] then Ret (Exited 1) else logging_to (o_syslog (sp_vtun c))
      (case find (\<lambda>h. vh_host h = hst) (rev (sp_hosts c)) of
         None \<Rightarrow> Ret (Exited 1)
       | Some h \<Rightarrow>
           (let v = completed ((sp_vtun c)\<lparr>o_svr_name := Some svr\<rparr>)
            in detached (st_daemon st) (o_svr_type v = VTUN_INETD) (\<lambda>_.
                 Ask (Init_title ''vtund[c]: '') (\<lambda>_.
                 and_go (connect v (no_nat_hack False h)) (\<lambda>_. Ask Close_log (\<lambda>_. Ret (Returned 0))))))))"
proof -
  from main_reads [OF assms(1,4-10)] obtain s0 s1 where
    r: "text_reader hm em (Some txt) s (st_vtun st) = Some (sp_hosts c \<noteq> [], s0, sp_vtun c)"
      "clear_nat_hack_flags False s0 = Some s1" "lists_hosts s1 (map (no_nat_hack False) (sp_hosts c))"
    using assms(2) by auto
  have "find (\<lambda>h. vh_host h = hst) (rev (map (no_nat_hack False) (sp_hosts c)))
      = map_option (no_nat_hack False) (find (\<lambda>h. vh_host h = hst) (rev (sp_hosts c)))"
    unfolding rev_map by (rule find_map) (simp add: no_nat_hack_def)
  note h = client_host_lists [OF r(3), of hst svr rest, unfolded this]
  show ?thesis using assms(1-3) r(1,2) h
    by (auto simp: main_prog_def Let_def fill_defaults_completed reopen_log_calls start_up_calls run_client_def
        split: option.splits)
qed

text \<open>
  C23. What \<open>vtund -s\<close> does, from the command line and the text of the configuration file to the server, call by call:
  where the file defines no host it exits with 1; otherwise it turns to the log of the configured facility, keeps its
  standard input as the socket where \<open>inetd\<close> has started it, goes into the
  background, unless told not to (without a \<open>fork\<close> for \<open>inetd\<close>), has \<open>SIGHUP\<close> handled by \<open>reread_config\<close>, writes its process number to the PID file where it
  stands alone, and then serves all complete sections of the file, in their order, as they are except for the flag
  of the NAT hack that is for clients, with the options completed by the defaults. It assumes that memory does not
  run out and the configuration is sound, as for the client.
\<close>

theorem server_starts:
  assumes "main_options mlock opts \<lparr>st_vtun = start_opts cfg_file, st_svr = False, st_daemon = True\<rparr> = Inr st"
    and "st_svr st"
    and "readable d s" and "allocates hm" and "allocates em" and "ss = config_sections M_INITIAL [] txt"
    and "sound_config ss (fresh_spec d (st_vtun st))"
    and "c = spec_config ss (fresh_spec d (st_vtun st))" and "vh_passwd (sp_default c) = None"
  shows "\<exists>s'. lists_hosts s' (map (no_nat_hack True) (sp_hosts c))
    \<and> main_prog cfg_file pid_file mlock opts left (text_reader hm em (Some txt) s) serve connect =
      Ask (Open_log 24) (\<lambda>_. if sp_hosts c = [] then Ret (Exited 1) else logging_to (o_syslog (sp_vtun c))
        (let v = completed (sp_vtun c)
         in detached (st_daemon st) (o_svr_type v = VTUN_INETD) (\<lambda>sock.
              Ask (Sigaction SIGHUP (Run ''reread_config'')) (\<lambda>_. Ask (Init_title ''vtund[s]: '') (\<lambda>_.
              (if o_svr_type v = VTUN_STAND_ALONE then with_pid_file pid_file else id)
                (and_go (serve v s' sock) (\<lambda>_. Ask Close_log (\<lambda>_. Ret (Returned 0)))))))))"
proof -
  from main_reads [OF assms(1,3-9)] obtain s0 s1 where
    r: "text_reader hm em (Some txt) s (st_vtun st) = Some (sp_hosts c \<noteq> [], s0, sp_vtun c)"
      "clear_nat_hack_flags True s0 = Some s1" "lists_hosts s1 (map (no_nat_hack True) (sp_hosts c))"
    using assms(2) by auto
  have pid: "and_go ((if b then with_pid_file pid_file else id) p) k = (if b then with_pid_file pid_file else id) (and_go p k)"
    for b and p :: "unit ended sys_prog" and k :: "unit \<Rightarrow> int ended sys_prog"
    by (simp add: with_pid_file_def go_if cong: if_cong)
  show ?thesis using assms(1,2) r
    by (intro exI [of _ s1])
      (auto simp: main_prog_def Let_def fill_defaults_completed reopen_log_calls start_up_calls run_server_calls pid)
qed

subsection \<open>The standard descriptors\<close>

text \<open>
  A process with its table of descriptors: which file each one is open on. \<open>open\<close> and \<open>dup\<close> take the lowest
  free descriptor, and a descriptor that is not open cannot be duplicated.
\<close>

type_synonym fd_table = "int \<Rightarrow> string option"

definition lowest_free :: "fd_table \<Rightarrow> int \<Rightarrow> bool" where
  "lowest_free w r = (0 \<le> r \<and> w r = None \<and> (\<forall>i \<in> set (map int [0..<nat r]). w i \<noteq> None))"

fun fd_step :: "fd_table \<Rightarrow> sys_call \<Rightarrow> sys_ans \<Rightarrow> fd_table option" where
  "fd_step w (Open_file n) a = (if lowest_free w (sr_ret a) then Some (w(sr_ret a \<mapsto> n)) else None)"
| "fd_step w (Dup fd) a =
     (case w fd of
        None \<Rightarrow> if sr_ret a = - 1 then Some w else None
      | Some f \<Rightarrow> if lowest_free w (sr_ret a) then Some (w(sr_ret a \<mapsto> f)) else None)"
| "fd_step w (Create_file n) a = (if lowest_free w (sr_ret a) then Some (w(sr_ret a \<mapsto> n)) else None)"
| "fd_step w (Open_log f) a =
     (if sr_ret a = - 1 then Some w else if lowest_free w (sr_ret a) then Some (w(sr_ret a \<mapsto> ''log'')) else None)"
| "fd_step w Close_log a = Some (w(sr_ret a := None))"
| "fd_step w (Close fd) a = Some (w(fd := None))"
| "fd_step w q a = Some w"

lemma lowest_free_iff: "lowest_free w r \<longleftrightarrow> 0 \<le> r \<and> w r = None \<and> (\<forall>i. 0 \<le> i \<and> i < r \<longrightarrow> w i \<noteq> None)"
  by (auto simp: lowest_free_def image_int_atLeastLessThan)

lemma lowest_free_unique: "lowest_free w s \<Longrightarrow> lowest_free w r \<longleftrightarrow> r = s"
  unfolding lowest_free_iff by (metis linorder_neqE)

text \<open>Closing one of the standard descriptors while the lower ones are open makes it the lowest free one.\<close>

lemma lowest_free_std:
  "lowest_free (w(0 := None)) r \<longleftrightarrow> r = 0"
  "w 0 \<noteq> None \<Longrightarrow> lowest_free (w(1 := None)) r \<longleftrightarrow> r = 1"
  "w 0 \<noteq> None \<Longrightarrow> w 1 \<noteq> None \<Longrightarrow> lowest_free (w(2 := None)) r \<longleftrightarrow> r = 2"
proof -
  have two: "0 \<le> i \<and> i < (2 :: int) \<Longrightarrow> i = 0 \<or> i = 1" for i by arith
  show "lowest_free (w(0 := None)) r \<longleftrightarrow> r = 0" by (rule lowest_free_unique) (auto simp: lowest_free_iff)
  show "w 0 \<noteq> None \<Longrightarrow> lowest_free (w(1 := None)) r \<longleftrightarrow> r = 1"
    by (rule lowest_free_unique) (auto simp: lowest_free_iff dest: zless_imp_add1_zle)
  show "w 0 \<noteq> None \<Longrightarrow> w 1 \<noteq> None \<Longrightarrow> lowest_free (w(2 := None)) r \<longleftrightarrow> r = 2"
    by (rule lowest_free_unique) (use two in \<open>auto simp: lowest_free_iff\<close>)
qed

definition null_table :: "fd_table \<Rightarrow> fd_table" where
  "null_table w = w(0 \<mapsto> ''/dev/null'', 1 \<mapsto> ''/dev/null'', 2 \<mapsto> ''/dev/null'')"

lemma wp_null_fds:
  assumes "w 0 \<noteq> None" and "w 1 \<noteq> None" and "w 2 \<noteq> None"
  shows "wp fd_step null_fds w (\<lambda>_ w'. w' = null_table w)"
proof -
  have far: "3 \<le> f" if "lowest_free w f" for f
  proof (rule ccontr)
    assume "\<not> 3 \<le> f"
    then have "f = 0 \<or> f = 1 \<or> f = 2" using that by (auto simp: lowest_free_iff)
    then show False using that assms by (auto simp: lowest_free_iff)
  qed
  have last: "w(f := None) = w" if "lowest_free w f" for f using that by (auto simp: lowest_free_iff)
  have tab: "(w(f \<mapsto> n, 0 \<mapsto> n, 1 \<mapsto> n, 2 \<mapsto> n))(f := None) = w(0 \<mapsto> n, 1 \<mapsto> n, 2 \<mapsto> n)" if "lowest_free w f" for f n
    using far [OF that] last [OF that] by (auto simp: fun_upd_twist)
  have "\<not> lowest_free w 0" "\<not> lowest_free w 1" "\<not> lowest_free w 2" using assms by (simp_all add: lowest_free_iff)
  then show ?thesis unfolding null_fds_def null_table_def
    using far tab by (auto simp: lowest_free_std split: if_splits option.splits)
qed

lemma wp_null_fds_closed:
  assumes "w 0 = None"
  shows "wp fd_step null_fds w (\<lambda>_ w'. w' = w(0 := None, 1 := None, 2 := None))"
proof -
  have "lowest_free w r \<longleftrightarrow> r = 0" for r
    by (rule lowest_free_unique) (use assms in \<open>auto simp: lowest_free_iff\<close>)
  then show ?thesis unfolding null_fds_def by (auto split: if_splits)
qed

lemma wp_daemonize:
  assumes "w 0 \<noteq> None" and "w 1 \<noteq> None" and "w 2 \<noteq> None"
  shows "wp fd_step (daemonize True dofork) w (on_return (\<lambda>_ w'. w' = null_table w))"
  using wp_null_fds [OF assms] by (auto simp: daemonize_def Let_def wp_bind intro: wp_mono)

text \<open>
  C22. The descriptors of a daemon: started with its standard descriptors open, it goes on with the three
  of them on \<open>/dev/null\<close> and nothing else changed; started by \<open>inetd\<close>, the connection it was given as
  standard input is kept on another descriptor, which the server gets.
\<close>

theorem daemon_descriptors:
  assumes "w 0 = Some c" and "w 1 \<noteq> None" and "w 2 \<noteq> None"
    and "replay fd_step (start_up True v) as w = Some (Some (Returned sock), w')"
  shows "if o_svr_type v = VTUN_INETD then 3 \<le> sock \<and> w' = null_table (w(sock \<mapsto> c)) else sock = 0 \<and> w' = null_table w"
proof -
  have d: "wp fd_step (and_go (daemonize True dofork) (\<lambda>_. Ret (Returned s))) u
      (on_return (\<lambda>s' w'. s' = s \<and> w' = null_table u))" if "u 0 \<noteq> None" "u 1 \<noteq> None" "u 2 \<noteq> None" for u s dofork
    by (rule wp_and_go, rule wp_mono [OF wp_daemonize [OF that]]) (erule on_return_mono, simp)
  have far: "3 \<le> f" if "lowest_free w f" for f
  proof (rule ccontr)
    assume "\<not> 3 \<le> f"
    then have "f = 0 \<or> f = 1 \<or> f = 2" using that by (auto simp: lowest_free_iff)
    then show False using that assms(1-3) by (auto simp: lowest_free_iff)
  qed
  have "wp fd_step (start_up True v) w (on_return (\<lambda>s w'. if o_svr_type v = VTUN_INETD
      then 3 \<le> s \<and> w' = null_table (w(s \<mapsto> c)) else s = 0 \<and> w' = null_table w))" (is "wp _ _ _ ?Q")
  proof (cases "o_svr_type v = VTUN_INETD")
    case True
    have "wp fd_step (and_go (daemonize True False) (\<lambda>_. Ret (Returned s))) (w(s \<mapsto> c)) ?Q" if "lowest_free w s" for s
      by (rule wp_mono [OF d]) (use far [OF that] True assms(1-3) in \<open>auto elim: on_return_mono\<close>)
    then show ?thesis using True assms(1) by (simp add: start_up_def)
  next
    case False
    show ?thesis unfolding start_up_def if_not_P [OF False] bind_prog.simps
      by (rule wp_mono [OF d]) (use False assms(1-3) in \<open>auto elim: on_return_mono\<close>)
  qed
  from wp_replay [OF this assms(4)] show ?thesis by auto
qed

text \<open>
  Where descriptor 0 is not open (the program was started with standard input closed, and no connection to the log
  has taken its place), the daemon goes on with none of the three open: \<open>open\<close> gives
  it descriptor 0, which it closes before it duplicates it. The sockets that it opens next become
  its standard descriptors.
\<close>

theorem daemon_closed_stdin:
  assumes "w 0 = None" and "replay fd_step (daemonize True dofork) as w = Some (Some (Returned ()), w')"
  shows "w' = w(0 := None, 1 := None, 2 := None)"
proof -
  have "wp fd_step (daemonize True dofork) w (on_return (\<lambda>_ w'. w' = w(0 := None, 1 := None, 2 := None)))"
    using wp_null_fds_closed [of w, OF assms(1)] by (auto simp: daemonize_def Let_def wp_bind intro: wp_mono)
  from wp_replay [OF this assms(2)] show ?thesis by simp
qed

subsection \<open>Examples\<close>

lemmas ex_written_eval = ex_written_def spec_config_def new_host_def default_host_def zero_host_def add_cmd_def
  or_flags_def drop_flags_def Let_def parse_syslog_def syslog_names_def global_options_def set_bind_port_def

definition ex_table :: fd_table where
  "ex_table = [0 \<mapsto> ''connection'', 1 \<mapsto> ''tty'', 2 \<mapsto> ''tty'']"

theorem options_precedence_witness:
  "\<exists>st r'. main_options True [(CHR ''i'', []), (CHR ''P'', ''7000'')]
      \<lparr>st_vtun = start_opts ''vtund.conf'', st_svr = False, st_daemon = True\<rparr> = Inr st
    \<and> run_config first_free first_free [(S_options [G_port 6000, G_timeout 60], True), (S_host ''lab'' [I_opt (O_persist 2)], True)]
        \<lparr>cs_cfg = ex_fresh_cfg, cs_vtun = st_vtun st\<rparr> = Some r'
    \<and> ad_port (o_bind_addr (fill_defaults (cs_vtun r')))
        = first_set (last_num (CHR ''P'') [(CHR ''i'', []), (CHR ''P'', ''7000'')] (- 1) # [6000]) VTUN_PORT
    \<and> o_timeout (fill_defaults (cs_vtun r')) = 60 \<and> o_persist (fill_defaults (cs_vtun r')) = 2"
proof -
  obtain st where st: "main_options True [(CHR ''i'', []), (CHR ''P'', ''7000'')]
      \<lparr>st_vtun = start_opts ''vtund.conf'', st_svr = False, st_daemon = True\<rparr> = Inr st"
    by (simp add: main_option_def)
  let ?ss = "[(S_options [G_port 6000, G_timeout 60], True), (S_host ''lab'' [I_opt (O_persist 2)], True)]"
  let ?r = "\<lparr>cs_cfg = ex_fresh_cfg, cs_vtun = st_vtun st\<rparr>"
  let ?c = "(fresh_spec default_host (st_vtun st))"
  have r: "represents ?r ?c" by (simp add: represents_def ex_fresh_cfg_def hosts_ok_def data_repr_init)
  have s: "sound_config ?ss ?c" by (simp add: default_host_def zero_host_def)
  from run_config_represents [OF r s first_free_allocates first_free_allocates] obtain r' where
    r': "run_config first_free first_free ?ss ?r = Some r'" by blast
  from options_precedence [OF st r _ s first_free_allocates first_free_allocates r' refl refl refl] st r'
  show ?thesis by simp
qed

theorem client_starts_witness:
  "\<forall>serve connect. \<exists>h v. vh_passwd h = Some ''s3cret#'' \<and> zlevel h = 9 \<and> o_persist v = 1 \<and> o_svr_name v = Some ''server''
    \<and> main_prog ''vtund.conf'' ''vtund.pid'' True [(CHR ''p'', [])] [''lab'', ''server'']
        (text_reader first_free first_free (Some (config_text ex_written)) ex_fresh_cfg) serve connect
      = Ask (Open_log 24) (\<lambda>_. detached True False (\<lambda>_. Ask (Init_title ''vtund[c]: '') (\<lambda>_.
          and_go (connect v (no_nat_hack False h)) (\<lambda>_. Ask Close_log (\<lambda>_. Ret (Returned 0))))))"
proof (intro allI)
  fix serve connect
  obtain st where st: "main_options True [(CHR ''p'', [])]
      \<lparr>st_vtun = start_opts ''vtund.conf'', st_svr = False, st_daemon = True\<rparr> = Inr st" "\<not> st_svr st" "st_daemon st"
      "o_ifcfg (st_vtun st) \<noteq> None" "o_persist (st_vtun st) = 1" "o_syslog (st_vtun st) = LOG_DAEMON"
      "o_svr_type (st_vtun st) = - 1"
    by (simp add: main_option_def start_opts_def Let_def)
  let ?init = "(fresh_spec default_host (st_vtun st))"
  let ?c = "spec_config ex_written ?init"
  have s: "sound_config ex_written ?init" and p: "vh_passwd (sp_default ?c) = None"
    using st(4) by (simp_all add: ex_written_eval)
  have h: "\<exists>h. find (\<lambda>h. vh_host h = ''lab'') (rev (sp_hosts ?c)) = Some h \<and> vh_passwd h = Some ''s3cret#'' \<and> zlevel h = 9"
    and v: "o_persist (sp_vtun ?c) = 1" "o_syslog (sp_vtun ?c) = LOG_DAEMON" "o_svr_type (sp_vtun ?c) = - 1" and n: "sp_hosts ?c \<noteq> []"
    using st(5-7) by (simp_all add: ex_written_eval)
  from h obtain h where h: "find (\<lambda>h. vh_host h = ''lab'') (rev (sp_hosts ?c)) = Some h" "vh_passwd h = Some ''s3cret#''"
    "zlevel h = 9" by blast
  from client_starts [OF st(1,2) refl ex_readable first_free_allocates first_free_allocates
      read_written [OF ex_writable, symmetric] s refl p, of "''vtund.pid''" "''lab''" "''server''" "[]" serve connect]
  show "\<exists>h v. vh_passwd h = Some ''s3cret#'' \<and> zlevel h = 9 \<and> o_persist v = 1 \<and> o_svr_name v = Some ''server''
      \<and> main_prog ''vtund.conf'' ''vtund.pid'' True [(CHR ''p'', [])] [''lab'', ''server'']
          (text_reader first_free first_free (Some (config_text ex_written)) ex_fresh_cfg) serve connect
        = Ask (Open_log 24) (\<lambda>_. detached True False (\<lambda>_. Ask (Init_title ''vtund[c]: '') (\<lambda>_.
            and_go (connect v (no_nat_hack False h)) (\<lambda>_. Ask Close_log (\<lambda>_. Ret (Returned 0))))))"
    using h v n st(3)
    by (intro exI [of _ h] exI [of _ "completed ((sp_vtun ?c)\<lparr>o_svr_name := Some ''server''\<rparr>)"])
      (simp add: completed_def Let_def logging_to_def VTUN_STAND_ALONE_def VTUN_INETD_def)
qed

theorem server_starts_witness:
  "\<forall>serve connect. \<exists>s' v hs. lists_hosts s' hs \<and> map vh_host hs = [''lab''] \<and> ad_port (o_bind_addr v) = 6000 \<and> o_timeout v = 30
    \<and> main_prog ''vtund.conf'' ''vtund.pid'' True [(CHR ''s'', []), (CHR ''n'', [])] []
        (text_reader first_free first_free (Some (config_text ex_written)) ex_fresh_cfg) serve connect
      = Ask (Open_log 24) (\<lambda>_. Ask (Sigaction SIGHUP (Run ''reread_config'')) (\<lambda>_. Ask (Init_title ''vtund[s]: '') (\<lambda>_.
          with_pid_file ''vtund.pid'' (and_go (serve v s' 0) (\<lambda>_. Ask Close_log (\<lambda>_. Ret (Returned 0)))))))"
proof (intro allI)
  fix serve connect
  obtain st where st: "main_options True [(CHR ''s'', []), (CHR ''n'', [])]
      \<lparr>st_vtun = start_opts ''vtund.conf'', st_svr = False, st_daemon = True\<rparr> = Inr st" "st_svr st" "\<not> st_daemon st"
      "o_ifcfg (st_vtun st) \<noteq> None" "o_syslog (st_vtun st) = LOG_DAEMON" "ad_port (o_bind_addr (st_vtun st)) = - 1"
      "o_svr_type (st_vtun st) = - 1" "o_timeout (st_vtun st) = - 1"
    by (simp add: main_option_def start_opts_def Let_def zero_addr_def)
  let ?init = "(fresh_spec default_host (st_vtun st))"
  let ?c = "spec_config ex_written ?init"
  let ?v = "completed (sp_vtun ?c)"
  have s: "sound_config ex_written ?init" and p: "vh_passwd (sp_default ?c) = None" and n: "sp_hosts ?c \<noteq> []"
    and h: "map vh_host (sp_hosts ?c) = [''lab'']" and v: "o_syslog (sp_vtun ?c) = 24" "ad_port (o_bind_addr (sp_vtun ?c)) = 6000"
      "o_svr_type (sp_vtun ?c) = - 1" "o_timeout (sp_vtun ?c) = - 1"
    using st(4-8) by (simp_all add: ex_written_eval)
  have w: "ad_port (o_bind_addr ?v) = 6000" "o_timeout ?v = 30" "o_svr_type ?v = 0"
    using v by (simp_all add: completed_def Let_def)
  have "map vh_host (map (no_nat_hack True) (sp_hosts ?c)) = [''lab'']"
    unfolding h [symmetric] by (simp add: no_nat_hack_def)
  moreover from server_starts [OF st(1,2) ex_readable first_free_allocates first_free_allocates
      read_written [OF ex_writable, symmetric] s refl p, of "''vtund.pid''" "[]" serve connect]
  obtain s' where "lists_hosts s' (map (no_nat_hack True) (sp_hosts ?c))"
    "main_prog ''vtund.conf'' ''vtund.pid'' True [(CHR ''s'', []), (CHR ''n'', [])] []
        (text_reader first_free first_free (Some (config_text ex_written)) ex_fresh_cfg) serve connect
      = Ask (Open_log 24) (\<lambda>_. Ask (Sigaction SIGHUP (Run ''reread_config'')) (\<lambda>_. Ask (Init_title ''vtund[s]: '') (\<lambda>_.
          with_pid_file ''vtund.pid'' (and_go (serve ?v s' 0) (\<lambda>_. Ask Close_log (\<lambda>_. Ret (Returned 0)))))))"
    using v(1) n st(3) w(3) by (auto simp: logging_to_def detached_def Let_def)
  ultimately show "\<exists>s' v hs. lists_hosts s' hs \<and> map vh_host hs = [''lab''] \<and> ad_port (o_bind_addr v) = 6000 \<and> o_timeout v = 30
    \<and> main_prog ''vtund.conf'' ''vtund.pid'' True [(CHR ''s'', []), (CHR ''n'', [])] []
        (text_reader first_free first_free (Some (config_text ex_written)) ex_fresh_cfg) serve connect
      = Ask (Open_log 24) (\<lambda>_. Ask (Sigaction SIGHUP (Run ''reread_config'')) (\<lambda>_. Ask (Init_title ''vtund[s]: '') (\<lambda>_.
          with_pid_file ''vtund.pid'' (and_go (serve v s' 0) (\<lambda>_. Ask Close_log (\<lambda>_. Ret (Returned 0)))))))"
    using w(1,2) by (intro exI [of _ s'] exI [of _ ?v] exI [of _ "map (no_nat_hack True) (sp_hosts ?c)"] conjI)
qed

theorem daemon_descriptors_witness:
  "replay fd_step (start_up True ((start_opts [])\<lparr>o_svr_type := VTUN_INETD\<rparr>))
      [sys_ret 3, sys_ret 4, sys_ret 0, sys_ret 0, sys_ret 0, sys_ret 1, sys_ret 0, sys_ret 2, sys_ret 0,
      sys_ret 1, sys_ret 0] ex_table
      = Some (Some (Returned 3), null_table (ex_table(3 \<mapsto> ''connection'')))"
proof -
  let ?v = "(start_opts [])\<lparr>o_svr_type := VTUN_INETD\<rparr>"
  have "\<exists>w'. replay fd_step (start_up True ?v)
      [sys_ret 3, sys_ret 4, sys_ret 0, sys_ret 0, sys_ret 0, sys_ret 1, sys_ret 0, sys_ret 2, sys_ret 0,
      sys_ret 1, sys_ret 0] ex_table
      = Some (Some (Returned 3), w')"
    by (simp add: start_up_def daemonize_def null_fds_def ex_table_def lowest_free_def upt_rec)
  then obtain w' where r: "replay fd_step (start_up True ?v)
      [sys_ret 3, sys_ret 4, sys_ret 0, sys_ret 0, sys_ret 0, sys_ret 1, sys_ret 0, sys_ret 2, sys_ret 0,
      sys_ret 1, sys_ret 0] ex_table
      = Some (Some (Returned 3), w')" by blast
  from daemon_descriptors [OF _ _ _ r, of "''connection''"] have "w' = null_table (ex_table(3 \<mapsto> ''connection''))"
    by (simp add: ex_table_def)
  with r show ?thesis by simp
qed

theorem daemon_closed_stdin_witness:
  "replay fd_step (daemonize True False)
      [sys_ret 0, sys_ret 0, sys_ret (- 1), sys_ret 0, sys_ret (- 1), sys_ret 0, sys_ret (- 1), sys_ret 0,
      sys_ret 1, sys_ret 0] [1 \<mapsto> ''tty'', 2 \<mapsto> ''tty'']
      = Some (Some (Returned ()), Map.empty)"
proof -
  have "\<exists>w'. replay fd_step (daemonize True False)
      [sys_ret 0, sys_ret 0, sys_ret (- 1), sys_ret 0, sys_ret (- 1), sys_ret 0, sys_ret (- 1), sys_ret 0,
      sys_ret 1, sys_ret 0]
      [1 \<mapsto> ''tty'', 2 \<mapsto> ''tty''] = Some (Some (Returned ()), w')"
    by (simp add: daemonize_def null_fds_def lowest_free_def)
  then obtain w' where r: "replay fd_step (daemonize True False)
      [sys_ret 0, sys_ret 0, sys_ret (- 1), sys_ret 0, sys_ret (- 1), sys_ret 0, sys_ret (- 1), sys_ret 0,
      sys_ret 1, sys_ret 0]
      [1 \<mapsto> ''tty'', 2 \<mapsto> ''tty''] = Some (Some (Returned ()), w')" by blast
  from daemon_closed_stdin [of "[1 \<mapsto> ''tty'', 2 \<mapsto> ''tty'']", OF _ r] have "w' = Map.empty" by (auto simp: fun_eq_iff)
  with r show ?thesis by simp
qed

end
