(* ===== verification/ConfigTypes.thy ===== *)
theory ConfigTypes
  imports CfgText
begin

section \<open>The numbers of the configuration\<close>

text \<open>
  The model has the fields of type \<open>int\<close> of the C structures as unbounded integers. Here it is shown
  that nothing is lost by that: the lexer makes only numbers of 32 bits, and the actions of the grammar store
  them or constants.
\<close>

definition c_int :: "int \<Rightarrow> bool" where
  "c_int n = (- (2 ^ 31) \<le> n \<and> n < 2 ^ 31)"

fun int_param :: "param \<Rightarrow> bool" where
  "int_param (P_num n) = c_int n"
| "int_param (P_dnum a b) = (c_int a \<and> c_int b)"
| "int_param (P_word w) = True"

lemma c_int_small [simp]: "c_int 0" "c_int 1" "c_int 2" "c_int (- 1)"
  by (simp_all add: c_int_def)

lemma c_int_to_int32: "c_int (to_int32 n)"
  using to_int32_range by (simp add: c_int_def)

lemma find_keyword_member: "find_keyword kw s = Some k \<Longrightarrow> k \<in> snd ` set kw"
  by (induction kw s rule: find_keyword.induct) (auto split: if_splits)

lemma cfg_param_ints: "\<forall>k \<in> snd ` set cfg_param. c_int k"
  by (simp add: cfg_param_def c_int_def)

lemma c_int_keyword: "c_int (keyword_num w)"
proof (cases "find_keyword cfg_param w")
  case None
  then show ?thesis by (simp add: keyword_num_def c_int_def)
next
  case (Some k)
  then show ?thesis using bspec [OF cfg_param_ints find_keyword_member [OF Some]] by (simp add: keyword_num_def)
qed

lemma lex_param_int: "int_param (lex_param s)"
  using c_int_keyword c_int_to_int32
  by (simp add: lex_param_def atoi_def Let_def split: list.splits)

subsection \<open>Options with the numbers of the lexer\<close>

fun int_opt :: "host_opt \<Rightarrow> bool" where
  "int_opt (O_multi n) = c_int n"
| "int_opt (O_timeout n) = c_int n"
| "int_opt (O_speed q) = int_param q"
| "int_opt (O_compress q) = int_param q"
| "int_opt (O_encrypt n) = c_int n"
| "int_opt (O_kalive q) = int_param q"
| "int_opt (O_persist n) = c_int n"
| "int_opt (O_srcport n) = c_int n"
| "int_opt (O_up cs) = list_all (\<lambda>x. c_int (cmd_flags x)) cs"
| "int_opt (O_down cs) = list_all (\<lambda>x. c_int (cmd_flags x)) cs"
| "int_opt _ = True"

fun int_prog :: "prog_opt \<Rightarrow> bool" where
  "int_prog (P_flags n) = c_int n"
| "int_prog _ = True"

fun int_cmd :: "cmd_opt \<Rightarrow> bool" where
  "int_cmd (C_prog os) = list_all int_prog os"
| "int_cmd _ = True"

fun int_item :: "host_item \<Rightarrow> bool" where
  "int_item (I_opt x) = int_opt x"
| "int_item (I_up cs) = list_all int_cmd cs"
| "int_item (I_down cs) = list_all int_cmd cs"

fun int_global :: "global_opt \<Rightarrow> bool" where
  "int_global (G_port n) = c_int n"
| "int_global (G_type n) = c_int n"
| "int_global (G_timeout n) = c_int n"
| "int_global (G_syslog n) = c_int n"
| "int_global _ = True"

fun int_section :: "statement \<Rightarrow> bool" where
  "int_section (S_options gs, ok) = list_all int_global gs"
| "int_section (S_default xs, ok) = list_all int_item xs"
| "int_section (S_host n xs, ok) = list_all int_item xs"

subsection \<open>From the text to the options\<close>

fun token_int :: "token \<Rightarrow> bool" where
  "token_int (T_num n) = c_int n"
| "token_int (T_dnum a b) = (c_int a \<and> c_int b)"
| "token_int _ = True"

lemma act_ints: "act r t lx = (Some x, lx') \<Longrightarrow> token_int x"
  by (cases r) (auto simp: push_state_def pop_state_def c_int_keyword c_int_to_int32 atoi_def split: option.splits list.splits if_splits)

lemma yylex_ints: "token_int (fst (yylex lx))"
  by (induction lx rule: yylex_rule) (auto simp: yylex_eqs lex_step_def dest: act_ints)

lemma tokens_ints: "list_all token_int (tokens lx)"
proof (induction lx rule: tokens.induct)
  case (1 lx)
  obtain t lx' where y: "yylex lx = (t, lx')" by fastforce
  then show ?case using yylex_ints [of lx] 1 by (simp add: tokens.simps [of lx])
qed

text \<open>A parser that makes numbers of 32 bits of such numbers, and leaves tokens with such numbers.\<close>

definition keeps :: "('a \<Rightarrow> bool) \<Rightarrow> 'a parser \<Rightarrow> bool" where
  "keeps P p = (\<forall>ts xs ok r. list_all token_int ts \<longrightarrow> p ts = (xs, ok, r) \<longrightarrow> list_all P xs \<and> list_all token_int r)"

lemma keepsI: "(\<And>ts xs ok r. list_all token_int ts \<Longrightarrow> p ts = (xs, ok, r) \<Longrightarrow> list_all P xs \<and> list_all token_int r) \<Longrightarrow> keeps P p"
  by (simp add: keeps_def)

lemma keepsD: "keeps P p \<Longrightarrow> list_all token_int ts \<Longrightarrow> p ts = (xs, ok, r) \<Longrightarrow> list_all P xs \<and> list_all token_int r"
  by (simp add: keeps_def)

lemma keeps_block:
  assumes "keeps P p"
  shows "keeps P (block p some)"
proof (rule keepsI)
  show "list_all token_int ts \<Longrightarrow> block p some ts = (xs, ok, r) \<Longrightarrow> list_all P xs \<and> list_all token_int r" for ts xs ok r
  proof (induction "length ts" arbitrary: ts xs ok r some rule: less_induct)
    case less
    obtain ys k ts' where p: "p ts = (ys, k, ts')" by (metis prod.exhaust)
    note y = keepsD [OF assms less.prems(1) p]
    obtain zs l ts'' where b: "block p False ts' = (zs, l, ts'')" by (metis prod.exhaust)
    have z: "length ts' < length ts \<Longrightarrow> list_all P zs \<and> list_all token_int ts''"
      using less.hyps [OF _ conjunct2 [OF y] b] .
    show ?case using less.prems y z unfolding block.simps [of p some ts] p
      by (auto simp: b split: list.splits token.splits if_splits)
  qed
qed

lemma keeps_fail [simp]: "keeps P fail"
  by (simp add: keeps_def fail_def)

lemma keeps_keyword: "(\<And>k. keeps P (f k)) \<Longrightarrow> keeps P (keyword_of f)"
  by (rule keepsI) (auto simp: keyword_of_def fail_def split: list.splits token.splits dest: keepsD)

lemma keeps_params:
  "(\<And>n. c_int n \<Longrightarrow> P (f n)) \<Longrightarrow> keeps P (num_param f)"
  "(\<And>w. P (g w)) \<Longrightarrow> keeps P (word_param g)" "(\<And>w. P (g w)) \<Longrightarrow> keeps P (string_param g)"
  "(\<And>w. P (g w)) \<Longrightarrow> keeps P (path_param g)" "(\<And>w. P (g w)) \<Longrightarrow> keeps P (name_param g)"
  "(\<And>q. int_param q \<Longrightarrow> P (h q)) \<Longrightarrow> list_all P x \<Longrightarrow> keeps P (pair_param x h)"
  by (rule keepsI; auto simp: num_param_def word_param_def string_param_def path_param_def name_param_def pair_param_def
    got_def fail_def split: list.splits token.splits)+

lemma keeps_syslog: "keeps int_global p_syslog"
  by (rule keepsI) (auto simp: p_syslog_def got_def fail_def split: list.splits token.splits)

lemma keeps_bindaddr: "keeps int_global p_bindaddr"
proof (rule keepsI)
  fix ts xs ok r
  assume a: "list_all token_int ts" "p_bindaddr ts = (xs, ok, r)"
  have k: "list_all int_global ys \<and> list_all token_int us'" if "list_all token_int us"
    "(if k = K_ADDR then word_param G_bind_addr us else if k = K_IFACE then name_param G_bind_iface us else fail us) = (ys, ok', us')"
    for k us ys ok' us'
    using that by (auto simp: word_param_def name_param_def got_def fail_def split: if_splits list.splits token.splits)
  show "list_all int_global xs \<and> list_all token_int r"
  proof (cases "\<exists>k us. ts = T_open # T_kw k # us")
    case True
    then obtain k us where ts: "ts = T_open # T_kw k # us" by blast
    obtain ys ok' us' where c: "(if k = K_ADDR then word_param G_bind_addr us
        else if k = K_IFACE then name_param G_bind_iface us else fail us) = (ys, ok', us')" by (metis prod.exhaust)
    have "list_all int_global ys \<and> list_all token_int us'" by (rule k [OF _ c]) (use a ts in simp)
    then show ?thesis using a(2) unfolding ts p_bindaddr_def by (auto simp: c split: list.splits token.splits)
  next
    case False
    then have "p_bindaddr ts = fail ts" by (auto simp: p_bindaddr_def split: list.splits token.splits)
    then show ?thesis using a by (auto simp: fail_def)
  qed
qed

lemma keeps_option: "keeps int_global p_option"
  unfolding p_option_def by (rule keeps_keyword) (simp add: global_keyword_def keeps_params keeps_syslog keeps_bindaddr)

lemma prog_ints: "list_all token_int ts \<Longrightarrow> p_prog ts = (os, r) \<Longrightarrow> list_all int_prog os \<and> list_all token_int r"
  by (induction ts arbitrary: os r) (auto split: prod.splits token.splits)

lemma keeps_command: "keeps int_cmd p_command"
proof -
  have "keeps int_cmd p_program"
    by (rule keepsI) (auto simp: p_program_def got_def fail_def split: prod.splits if_splits dest: prog_ints)
  then show ?thesis unfolding p_command_def by (intro keeps_keyword) (simp add: command_keyword_def keeps_params)
qed

lemma keeps_commands:
  assumes "\<And>cs. list_all int_cmd cs \<Longrightarrow> int_item (f cs)"
  shows "keeps int_item (p_commands f)"
  by (rule keepsI) (auto simp: p_commands_def assms split: list.splits token.splits prod.splits
    dest: keepsD [OF keeps_block [OF keeps_command]])

lemma keeps_srcaddr: "keeps int_item p_srcaddr"
proof -
  have "keeps int_item (keyword_of srcaddr_keyword)"
    by (rule keeps_keyword) (simp add: srcaddr_keyword_def keeps_params)
  then show ?thesis
    by (intro keepsI) (auto simp: p_srcaddr_def fail_def split: list.splits token.splits dest: keepsD [OF keeps_block])
qed

lemma keeps_host_option: "keeps int_item p_host_option"
  unfolding p_host_option_def
  by (rule keeps_keyword) (simp add: host_keyword_def keeps_params keeps_srcaddr keeps_commands)

lemma statement_int:
  "list_all token_int ts \<Longrightarrow> p_statement ts = (x, r) \<Longrightarrow> (\<forall>s. x = Some s \<longrightarrow> int_section s) \<and> list_all token_int r"
  by (auto simp: p_statement_def p_options_def p_host_section_def split: list.splits token.splits prod.splits if_splits
    dest: keepsD [OF keeps_block [OF keeps_option]] keepsD [OF keeps_block [OF keeps_host_option]])

lemma sections_ints: "list_all token_int ts \<Longrightarrow> list_all int_section (p_config ts)"
proof (induction ts rule: p_config.induct)
  case (1 ts)
  obtain x r where p: "p_statement ts = (x, r)" by fastforce
  show ?case using statement_int [OF 1(2) p] 1(1) p by (cases x) (auto simp: p_config.simps [of ts])
qed

lemma text_ints: "list_all int_section (config_sections m k txt)"
  unfolding config_sections_def by (rule sections_ints [OF tokens_ints])

subsection \<open>The structures\<close>

definition host_ints :: "vtun_host \<Rightarrow> bool" where
  "host_ints h =
     (c_int (vh_timeout h) \<and> c_int (spd_in h) \<and> c_int (spd_out h) \<and> c_int (zlevel h) \<and> c_int (cipher h)
      \<and> c_int (rmt_fd h) \<and> c_int (loc_fd h) \<and> c_int (vh_persist h) \<and> c_int (vh_multi h)
      \<and> c_int (ka_interval h) \<and> c_int (ka_maxfail h) \<and> c_int (ad_port (src_addr h)) \<and> c_int (ad_type (src_addr h))
      \<and> list_all (\<lambda>x. c_int (cmd_flags x)) (vh_up h) \<and> list_all (\<lambda>x. c_int (cmd_flags x)) (vh_down h))"

definition opts_ints :: "vtun_opts \<Rightarrow> bool" where
  "opts_ints v =
     (c_int (o_timeout v) \<and> c_int (o_persist v) \<and> c_int (o_svr_type v) \<and> c_int (o_syslog v) \<and> c_int (o_quiet v)
      \<and> c_int (ad_port (o_bind_addr v)) \<and> c_int (ad_type (o_bind_addr v)))"

definition conf_ints :: "conf_spec \<Rightarrow> bool" where
  "conf_ints c = (host_ints (sp_default c) \<and> opts_ints (sp_vtun c) \<and> list_all host_ints (sp_hosts c))"

lemma host_ints_flags [simp]: "host_ints (or_flags f h) = host_ints h" "host_ints (drop_flags f h) = host_ints h"
  by (simp_all add: host_ints_def or_flags_def drop_flags_def)

lemma host_ints_upd [simp]:
  assumes "host_ints h"
  shows "host_ints (h\<lparr>vh_passwd := w\<rparr>)" "host_ints (h\<lparr>vh_dev := u\<rparr>)" "host_ints (new_host n h)"
    and "c_int k \<Longrightarrow> host_ints (h\<lparr>vh_multi := k\<rparr>)" "c_int k \<Longrightarrow> host_ints (h\<lparr>vh_timeout := k\<rparr>)"
    and "c_int k \<Longrightarrow> host_ints (h\<lparr>zlevel := k\<rparr>)" "c_int k \<Longrightarrow> host_ints (h\<lparr>cipher := k\<rparr>)"
    and "c_int k \<Longrightarrow> host_ints (h\<lparr>vh_persist := k\<rparr>)"
    and "c_int k \<Longrightarrow> c_int j \<Longrightarrow> host_ints (h\<lparr>spd_in := k, spd_out := j\<rparr>)"
    and "c_int k \<Longrightarrow> c_int j \<Longrightarrow> host_ints (h\<lparr>ka_interval := k, ka_maxfail := j\<rparr>)"
    and "c_int (ad_port a) \<Longrightarrow> c_int (ad_type a) \<Longrightarrow> host_ints (h\<lparr>src_addr := a\<rparr>)"
    and "list_all (\<lambda>x. c_int (cmd_flags x)) cs \<Longrightarrow> host_ints (h\<lparr>vh_up := cs\<rparr>)"
    and "list_all (\<lambda>x. c_int (cmd_flags x)) cs \<Longrightarrow> host_ints (h\<lparr>vh_down := cs\<rparr>)"
  using assms by (simp_all add: host_ints_def new_host_def)

lemma host_ints_addr: "host_ints h \<Longrightarrow> c_int (ad_port (src_addr h)) \<and> c_int (ad_type (src_addr h))"
  by (simp add: host_ints_def)

lemma host_option_ints:
  assumes h: "host_ints h" and p: "c_int p" and x: "int_opt x"
  shows "host_ints (fst (host_option x (h, p))) \<and> c_int (snd (host_option x (h, p)))"
proof (cases x)
  case (O_speed q)
  then show ?thesis using h p x by (cases q) (simp_all add: host_ints_def or_flags_def drop_flags_def)
next
  case (O_compress q)
  then show ?thesis using h p x by (cases q) (simp_all add: Let_def)
next
  case (O_kalive q)
  then show ?thesis using h p x by (cases q) (simp_all add: Let_def)
qed (use h p x host_ints_addr [OF h] in simp_all)

lemma fold_prog_ints: "list_all int_prog os \<Longrightarrow> c_int (cmd_flags c) \<Longrightarrow> c_int (cmd_flags (fold prog_option os c))"
proof (induction os arbitrary: c)
  case (Cons x os)
  have "c_int (cmd_flags (prog_option x c))" using Cons.prems by (cases x) simp_all
  then show ?case using Cons by simp
qed simp

lemma command_ints: "int_cmd x \<Longrightarrow> c_int (cmd_flags (command_option v x))"
  using fold_prog_ints by (cases x) (auto simp: add_cmd_def Let_def c_int_def)

lemma run_item_ints:
  assumes "host_ints h" and "opts_ints v" and "int_item x"
  shows "host_ints (fst (run_item x (h, v))) \<and> opts_ints (snd (run_item x (h, v)))"
proof (cases x)
  case (I_opt y)
  have "c_int (o_persist v)" using assms(2) by (simp add: opts_ints_def)
  from host_option_ints [OF assms(1) this] assms(3) I_opt
  have y: "host_ints (fst (host_option y (h, o_persist v)))" "c_int (snd (host_option y (h, o_persist v)))" by auto
  show ?thesis using y assms(2) unfolding I_opt run_item.simps case_prod_beta by (simp add: opts_ints_def)
next
  case (I_up cs)
  then have "list_all (\<lambda>x. c_int (cmd_flags x)) (map (command_option v) cs)"
    using assms(3) command_ints by (auto simp: list_all_iff)
  then show ?thesis using assms I_up by simp
next
  case (I_down cs)
  then have "list_all (\<lambda>x. c_int (cmd_flags x)) (map (command_option v) cs)"
    using assms(3) command_ints by (auto simp: list_all_iff)
  then show ?thesis using assms I_down by simp
qed

lemma items_ints:
  "host_ints h \<Longrightarrow> opts_ints v \<Longrightarrow> list_all int_item xs \<Longrightarrow> fold run_item xs (h, v) = (h', v')
    \<Longrightarrow> host_ints h' \<and> opts_ints v'"
proof (induction xs arbitrary: h v)
  case (Cons x xs)
  obtain h1 v1 where r: "run_item x (h, v) = (h1, v1)" by fastforce
  have "host_ints h1" "opts_ints v1" using run_item_ints [of h v x] Cons.prems r by simp_all
  then show ?case using Cons r by simp
qed simp

lemma facility_ints: "\<forall>k \<in> snd ` set syslog_names. c_int k"
  by (simp add: syslog_names_def c_int_def)

lemma global_ints: "opts_ints v \<Longrightarrow> int_global g \<Longrightarrow> opts_ints (global_option g v)"
proof (cases g)
  case (G_facility w)
  assume v: "opts_ints v"
  have "c_int k" if "map_of syslog_names w = Some k" for k
    using map_of_SomeD [OF that] facility_ints by force
  with v show ?thesis unfolding G_facility by (simp add: parse_syslog_def opts_ints_def split: option.splits)
qed (simp_all add: opts_ints_def set_bind_port_def)

lemma globals_ints: "list_all int_global gs \<Longrightarrow> opts_ints v \<Longrightarrow> opts_ints (global_options gs v)"
  unfolding global_options_def by (induction gs arbitrary: v) (simp_all add: global_ints)

lemma statement_ints: "int_section s \<Longrightarrow> conf_ints c \<Longrightarrow> conf_ints (spec_statement s c)"
proof -
  assume s: "int_section s" and c: "conf_ints c"
  obtain sec ok where e: "s = (sec, ok)" by (cases s)
  show ?thesis
  proof (cases sec)
    case (S_options gs)
    then show ?thesis using s c e globals_ints by (simp add: conf_ints_def)
  next
    case (S_default xs)
    obtain d v where f: "fold run_item xs (sp_default c, sp_vtun c) = (d, v)" by fastforce
    have "host_ints d \<and> opts_ints v"
      by (rule items_ints [OF _ _ _ f]) (use s c e S_default in \<open>simp_all add: conf_ints_def\<close>)
    then show ?thesis using f e S_default c by (simp add: conf_ints_def)
  next
    case (S_host n xs)
    obtain h v where f: "fold run_item xs (new_host n (sp_default c), sp_vtun c) = (h, v)" by fastforce
    have "host_ints h \<and> opts_ints v"
      by (rule items_ints [OF _ _ _ f]) (use s c e S_host in \<open>simp_all add: conf_ints_def\<close>)
    then show ?thesis using f e S_host c by (simp add: conf_ints_def)
  qed
qed

lemma config_ints: "list_all int_section ss \<Longrightarrow> conf_ints c \<Longrightarrow> conf_ints (spec_config ss c)"
proof (induction ss arbitrary: c)
  case Nil
  then show ?case by (simp add: spec_config_def)
next
  case (Cons s ss)
  have s: "conf_ints (spec_statement s c)" using Cons.prems by (simp add: statement_ints)
  then show ?case using Cons.IH [OF _ s] Cons.prems by (auto simp: spec_config_def)
qed

subsection \<open>A property\<close>

text \<open>
  Every number of a configuration is an \<open>int\<close> of C, whatever text the file holds: if the numeric fields of
  the default host, of the options and of the hosts fit before the reading, they do so after it,
  although digits in the file may be as many as one likes.
\<close>

theorem config_well_typed:
  assumes "represents st c" and "conf_ints c"
    and "sound_config (config_sections m k txt) c" and "allocates hm" and "allocates em"
    and "run_config hm em (config_sections m k txt) st = Some st'"
  shows "opts_ints (cs_vtun st')
    \<and> (\<exists>hs ps. cf_hosts (cs_cfg st') = Some hs \<and> data_repr (cf_heap (cs_cfg st')) (cf_list (cs_cfg st')) ps
        \<and> (\<forall>p \<in> insert DEFAULT_HOST (set ps). \<exists>h. hs p = Some h \<and> host_ints h))"
proof -
  let ?c = "spec_config (config_sections m k txt) c"
  have r: "represents st' ?c" using run_config_represents [OF assms(1,3,4,5)] assms(6) by auto
  have i: "conf_ints ?c" by (rule config_ints [OF text_ints assms(2)])
  obtain hs ps where h: "cf_hosts (cs_cfg st') = Some hs" "data_repr (cf_heap (cs_cfg st')) (cf_list (cs_cfg st')) ps"
    "map hs ps = map Some (sp_hosts ?c)" "hs DEFAULT_HOST = Some (sp_default ?c)" "cs_vtun st' = sp_vtun ?c"
    using r by (auto simp: represents_def)
  have "\<exists>h. hs p = Some h \<and> host_ints h" if "p \<in> set ps" for p
  proof -
    have "hs p \<in> set (map hs ps)" using that by simp
    then show ?thesis unfolding h(3) using i by (auto simp: conf_ints_def list_all_iff)
  qed
  then show ?thesis using h i by (auto simp: conf_ints_def)
qed

text \<open>The same of the parameters as \<^const>\<open>lex_param\<close> reads them: \<open>lex_param_int\<close>.\<close>

lemma default_host_ints: "host_ints default_host"
  by (simp add: host_ints_def default_host_def zero_host_def zero_addr_def c_int_def)

definition ex_text :: string where
  "ex_text = ''options { port 4294967296; } lab { passwd x; speed 99999999999; }''"

lemma ex_text_sections: "config_sections M_INITIAL [] ex_text
    = [(S_options [G_port 0], True), (S_host ''lab'' [I_opt (O_passwd ''x''), I_opt (O_speed (P_num 1215752191))], True)]"
  by code_simp

lemma config_well_typed_witness:
  "\<exists>st'. run_config first_free first_free (config_sections M_INITIAL [] ex_text)
      \<lparr>cs_cfg = ex_fresh_cfg, cs_vtun = ex_opts\<rparr> = Some st' \<and> opts_ints (cs_vtun st')"
proof -
  let ?r = "\<lparr>cs_cfg = ex_fresh_cfg, cs_vtun = ex_opts\<rparr>"
  let ?c = "(fresh_spec default_host ex_opts)"
  have r: "represents ?r ?c" by (simp add: represents_def ex_fresh_cfg_def hosts_ok_def data_repr_init)
  have s: "sound_config (config_sections M_INITIAL [] ex_text) ?c" by (simp add: ex_text_sections ex_eval)
  have i: "conf_ints ?c" using default_host_ints by (simp add: conf_ints_def opts_ints_def ex_opts_def zero_addr_def c_int_def)
  from run_config_represents [OF r s first_free_allocates first_free_allocates] obtain st' where
    st': "run_config first_free first_free (config_sections M_INITIAL [] ex_text) ?r = Some st'" by blast
  from config_well_typed [OF r i s first_free_allocates first_free_allocates st'] st' show ?thesis by blast
qed

end
