(* ===== verification/DevIO.thy ===== *)
theory DevIO
  imports DevDriver
begin

section \<open>Reading and writing devices (\<open>generic/\<close>, \<open>linux/\<close>, \<open>freebsd/\<close>, \<open>openbsd/\<close>, \<open>svr4/\<close>)\<close>

text \<open>
  The functions that the linker calls as \<open>dev_read\<close> and \<open>dev_write\<close>. A TUN or TAP device carries packets:
  one write hands one packet to the kernel, one read takes one, and what does not fit into the buffer is
  lost. The first argument of a write says whether the kernel accepts the packet, the last of a read is
  the packet it has, or \<^const>\<open>None\<close> for an error; results are what the function returns together with the
  packet or the bytes stored. Pipes and pseudo-terminals carry streams, as in \<open>LibIO\<close>.
\<close>

type_synonym packet_write = "bool \<Rightarrow> byte list \<Rightarrow> int \<times> byte list option"

type_synonym packet_read = "nat \<Rightarrow> byte list option \<Rightarrow> int \<times> byte list"

subsection \<open>Plain packets\<close>

definition dev_write :: packet_write where
  "dev_write ok buf = (if ok then (int (length buf), Some buf) else (- 1, None))"

definition dev_read :: packet_read where
  "dev_read len x = (case x of None \<Rightarrow> (- 1, []) | Some p \<Rightarrow> (int (length (take len p)), take len p))"

definition generic_tun_write :: packet_write where "generic_tun_write = dev_write"
definition generic_tun_read :: packet_read where "generic_tun_read = dev_read"
definition generic_tap_write :: packet_write where "generic_tap_write = dev_write"
definition generic_tap_read :: packet_read where "generic_tap_read = dev_read"
definition freebsd_tun_write :: packet_write where "freebsd_tun_write = dev_write"
definition freebsd_tun_read :: packet_read where "freebsd_tun_read = dev_read"
definition linux_tun_write :: packet_write where "linux_tun_write = dev_write"
definition linux_tun_read :: packet_read where "linux_tun_read = dev_read"
definition linux_tap_write :: packet_write where "linux_tap_write = dev_write"
definition linux_tap_read :: packet_read where "linux_tap_read = dev_read"

subsection \<open>OpenBSD: packets with their family in front\<close>

text \<open>\<open>htonl(AF_INET)\<close> in memory, and \<open>writev\<close> and \<open>readv\<close> with two parts.\<close>

definition AF_INET_header :: "byte list" where
  "AF_INET_header = [0, 0, 0, 2]"

definition openbsd_tun_write :: packet_write where
  "openbsd_tun_write ok buf = dev_write ok (AF_INET_header @ buf)"

definition openbsd_tun_read :: packet_read where
  "openbsd_tun_read len x =
     (case dev_read (4 + len) x of
        (rlen, d) \<Rightarrow> (if rlen > 0 then rlen - 4 else rlen, drop 4 d))"

subsection \<open>System V: messages\<close>

text \<open>
  \<open>putmsg\<close> and \<open>getmsg\<close> return 0 or more on success, and the length is in the buffer structure. What does
  not fit stays on the queue as the next message: the rest is the third component.
\<close>

definition svr4_write :: packet_write where
  "svr4_write ok buf = (let r = (if ok then 0 else - 1 :: int)
     in (if r \<ge> 0 then int (length buf) else - 1, if ok then Some buf else None))"

definition svr4_get :: "nat \<Rightarrow> byte list option \<Rightarrow> int \<times> byte list \<times> byte list" where
  "svr4_get len x =
     (case x of
        None \<Rightarrow> (- 1, [], [])
      | Some p \<Rightarrow> (int (length (take len p)), take len p, drop len p))"

definition svr4_read :: packet_read where
  "svr4_read len x = (case svr4_get len x of (r, d, _) \<Rightarrow> (r, d))"

definition svr4_tun_write :: packet_write where "svr4_tun_write = svr4_write"
definition svr4_tun_read :: packet_read where "svr4_tun_read = svr4_read"
definition svr4_tap_write :: packet_write where "svr4_tap_write = svr4_write"
definition svr4_tap_read :: packet_read where "svr4_tap_read = svr4_read"

subsection \<open>Pipes and pseudo-terminals\<close>

definition stream_write :: "bool \<Rightarrow> 'b list \<Rightarrow> wr_ev list \<Rightarrow> (int \<times> 'b list \<times> bool \<times> wr_ev list) option" where
  "stream_write canc buf es = write_n canc buf es"

text \<open>A single \<open>read\<close>: what is left over remains for the next.\<close>

definition stream_read :: "nat \<Rightarrow> 'b rd_ev list \<Rightarrow> (int \<times> 'b list \<times> 'b rd_ev list) option" where
  "stream_read len es =
     (case es of
        [] \<Rightarrow> None
      | RdData bs # es' \<Rightarrow>
          Some (int (length (take len bs)), take len bs, if length bs \<le> len then es' else RdData (drop len bs) # es')
      | _ # es' \<Rightarrow> Some (- 1, [], es'))"

definition pipe_write :: "bool \<Rightarrow> 'b list \<Rightarrow> wr_ev list \<Rightarrow> (int \<times> 'b list \<times> bool \<times> wr_ev list) option" where
  "pipe_write = stream_write"
definition pipe_read :: "nat \<Rightarrow> 'b rd_ev list \<Rightarrow> (int \<times> 'b list \<times> 'b rd_ev list) option" where
  "pipe_read = stream_read"
definition pty_write :: "bool \<Rightarrow> 'b list \<Rightarrow> wr_ev list \<Rightarrow> (int \<times> 'b list \<times> bool \<times> wr_ev list) option" where
  "pty_write = stream_write"
definition pty_read :: "nat \<Rightarrow> 'b rd_ev list \<Rightarrow> (int \<times> 'b list \<times> 'b rd_ev list) option" where
  "pty_read = stream_read"

subsection \<open>The interface\<close>

text \<open>What the linker relies on, whatever the system: a packet that was accepted is read back whole.\<close>

locale packet_device =
  fixes wr :: packet_write and rd :: packet_read
  assumes accepted: "\<exists>r p. wr True buf = (r, Some p) \<and> int (length buf) \<le> r"
    and refused: "wr False buf = (- 1, None)"
    and whole: "length buf \<le> n \<Longrightarrow> rd n (snd (wr True buf)) = (int (length buf), buf)"
    and bound: "rd n x = (r, d) \<Longrightarrow> r \<le> int n \<and> (0 \<le> r \<longrightarrow> int (length d) = r)"
    and failed: "rd n None = (- 1, [])"
begin

text \<open>The packets written are the packets read, in their order.\<close>

lemma carried:
  assumes "\<forall>buf \<in> set bufs. length buf \<le> n"
  shows "map (\<lambda>buf. rd n (snd (wr True buf))) bufs = map (\<lambda>buf. (int (length buf), buf)) bufs"
  using assms by (simp add: whole)

text \<open>What is read can be written again, and comes out the same: a packet passed on is not changed.\<close>

lemma passed_on:
  assumes "rd n x = (r, d)" and "0 \<le> r"
  shows "rd n (snd (wr True d)) = (r, d)"
  using bound [OF assms(1)] assms(2) whole [of d n] by simp

end

interpretation plain_dev: packet_device dev_write dev_read
  by unfold_locales (auto simp: dev_write_def dev_read_def split: option.splits)

interpretation openbsd_dev: packet_device openbsd_tun_write openbsd_tun_read
  by unfold_locales
    (auto simp: openbsd_tun_write_def openbsd_tun_read_def AF_INET_header_def dev_write_def dev_read_def
      split: option.splits if_splits)

interpretation svr4_dev: packet_device svr4_write svr4_read
  by unfold_locales (auto simp: svr4_write_def svr4_read_def svr4_get_def split: option.splits)

subsection \<open>The drivers of all systems\<close>

datatype dev_driver = Generic_tun | Generic_tap | Freebsd_tun | Openbsd_tun | Linux_tun | Linux_tap | Svr4_tun | Svr4_tap

fun driver_write :: "dev_driver \<Rightarrow> packet_write" where
  "driver_write Generic_tun = generic_tun_write"
| "driver_write Generic_tap = generic_tap_write"
| "driver_write Freebsd_tun = freebsd_tun_write"
| "driver_write Openbsd_tun = openbsd_tun_write"
| "driver_write Linux_tun = linux_tun_write"
| "driver_write Linux_tap = linux_tap_write"
| "driver_write Svr4_tun = svr4_tun_write"
| "driver_write Svr4_tap = svr4_tap_write"

fun driver_read :: "dev_driver \<Rightarrow> packet_read" where
  "driver_read Generic_tun = generic_tun_read"
| "driver_read Generic_tap = generic_tap_read"
| "driver_read Freebsd_tun = freebsd_tun_read"
| "driver_read Openbsd_tun = openbsd_tun_read"
| "driver_read Linux_tun = linux_tun_read"
| "driver_read Linux_tap = linux_tap_read"
| "driver_read Svr4_tun = svr4_tun_read"
| "driver_read Svr4_tap = svr4_tap_read"

lemmas driver_defs = generic_tun_write_def generic_tap_write_def freebsd_tun_write_def linux_tun_write_def linux_tap_write_def
  svr4_tun_write_def svr4_tap_write_def generic_tun_read_def generic_tap_read_def freebsd_tun_read_def linux_tun_read_def
  linux_tap_read_def svr4_tun_read_def svr4_tap_read_def

interpretation drv: packet_device "driver_write d" "driver_read d" for d
  by (cases d) (simp_all add: driver_defs plain_dev.packet_device_axioms openbsd_dev.packet_device_axioms
    svr4_dev.packet_device_axioms)

text \<open>How a packet lies in the queue of the kernel: a TUN device of OpenBSD has its family in front of it.\<close>

fun framed :: "dev_driver \<Rightarrow> byte list \<Rightarrow> byte list" where
  "framed Openbsd_tun p = AF_INET_header @ p"
| "framed d p = p"

lemma write_framed: "snd (driver_write d True p) = Some (framed d p)"
  by (cases d) (simp_all add: driver_defs dev_write_def openbsd_tun_write_def svr4_write_def)

lemma read_framed: "length p \<le> n \<Longrightarrow> driver_read d n (Some (framed d p)) = (int (length p), p)"
  using drv.whole [of p n d] by (simp add: write_framed)

subsection \<open>Properties\<close>

text \<open>
  On each system the packets that are written to a device and fit the buffer of the
  linker are read back from it one by one, unchanged; for OpenBSD this includes the header of four
  bytes, which neither end of a tunnel ever sees.
\<close>

theorem device_packets:
  assumes "\<forall>buf \<in> set bufs. length buf \<le> VTUN_FRAME_SIZE"
  shows "map (\<lambda>buf. driver_read d VTUN_FRAME_SIZE (snd (driver_write d True buf))) bufs = map (\<lambda>buf. (int (length buf), buf)) bufs"
  by (rule drv.carried [OF assms])

text \<open>
  The family of a packet is lost on the way through a tunnel between OpenBSD systems: whatever header it
  came with, the far end hands it to its kernel as \<open>AF_INET\<close>.
\<close>

theorem openbsd_family_lost:
  assumes "length hdr = 4" and "length p \<le> n"
  shows "openbsd_tun_read n (Some (hdr @ p)) = (int (length p), p)
    \<and> snd (openbsd_tun_write True p) = Some (AF_INET_header @ p)"
  using assms by (simp add: openbsd_tun_read_def openbsd_tun_write_def dev_read_def dev_write_def)

text \<open>A packet that is shorter than the header is reported as an error other than -1.\<close>

theorem openbsd_short_packet:
  assumes "0 < length p" and "length p < 4"
  shows "fst (openbsd_tun_read n (Some p)) = int (length p) - 4"
  using assms by (simp add: openbsd_tun_read_def dev_read_def)

subsection \<open>The properties at work\<close>

lemma device_packets_witness:
  "map (\<lambda>buf. driver_read Openbsd_tun VTUN_FRAME_SIZE (snd (driver_write Openbsd_tun True buf))) [[0x45, 0, 0, 20], []]
    = [(4, [0x45, 0, 0, 20]), (0, [])]"
  using device_packets [of "[[0x45, 0, 0, 20], []]" Openbsd_tun] by simp

lemma openbsd_family_lost_witness:
  "openbsd_tun_read 2048 (Some ([0, 0, 0, 24] @ [0x60, 0])) = (2, [0x60, 0])
    \<and> snd (openbsd_tun_write True [0x60, 0]) = Some ([0, 0, 0, 2] @ [0x60, 0])"
  using openbsd_family_lost [of "[0, 0, 0, 24]" "[0x60, 0]" 2048] by (simp add: AF_INET_header_def)

lemma openbsd_short_packet_witness: "fst (openbsd_tun_read 2048 (Some [0, 0])) = - 2"
  using openbsd_short_packet [of "[0, 0]" 2048] by simp

end
