(* ===== verification/DevTunnel.thy ===== *)
theory DevTunnel
  imports Tunnel DevIO
begin

section \<open>Tunnels between devices\<close>

text \<open>
  The linkers of both ends together with the devices of their systems: the results of the functions that the
  linker calls are those of the drivers.
\<close>

text \<open>
  A turn in which the device of driver \<open>d\<close> has the packet \<open>p\<close>, and one in which a frame arrives whose
  packet the kernel accepts.
\<close>

definition packet_in :: "dev_driver \<Rightarrow> lk_env \<Rightarrow> byte list \<Rightarrow> bool" where
  "packet_in d e p = (calm e \<and> \<not> fd1_set e \<and> fd2_set e \<and> wr_frame e = Wr_all
     \<and> dev_res e = driver_read d VTUN_FRAME_SIZE (Some (framed d p)))"

definition dev_taken :: "dev_driver \<Rightarrow> byte list \<Rightarrow> wr_out" where
  "dev_taken d p = (let r = fst (driver_write d True p) in if int (length p) \<le> r then Wr_all else Wr_part r (nat r))"

definition packet_out :: "dev_driver \<Rightarrow> lk_env \<Rightarrow> (int \<times> byte list) \<times> byte list \<Rightarrow> bool" where
  "packet_out d e x = (case x of (f, p) \<Rightarrow> calm e \<and> fd1_set e \<and> \<not> fd2_set e \<and> net_res e = f
     \<and> wr_dev e = dev_taken d p)"

text \<open>What the kernel has got of an end with driver \<open>d\<close>: every packet that the linker has written.\<close>

definition kernel_got :: "dev_driver \<Rightarrow> ('z, 'c) lk \<Rightarrow> byte list list" where
  "kernel_got d s = map (\<lambda>p. the (snd (driver_write d True p))) (lk_dev s)"

lemma packet_in_turn: "packet_in d e p \<Longrightarrow> length p \<le> VTUN_FRAME_SIZE \<Longrightarrow> dev_turn e p"
  by (simp add: packet_in_def dev_turn_def read_framed)

lemma packet_out_turn: "packet_out d e (f, p) \<Longrightarrow> net_turn e f"
  using drv.accepted [of d p] by (auto simp: packet_out_def net_turn_def dev_taken_def)

lemma packets_in_turns:
  assumes "list_all2 (packet_in d) es ps" and "\<forall>p \<in> set ps. length p \<le> VTUN_FRAME_SIZE"
  shows "list_all2 dev_turn es ps"
  using assms by (induction rule: list_all2_induct) (auto intro: packet_in_turn)

lemma packets_out_turns:
  "list_all2 (packet_out d) es (zip fs ps) \<Longrightarrow> length fs = length ps \<Longrightarrow> list_all2 net_turn es fs"
proof (induction fs arbitrary: es ps)
  case (Cons f fs)
  then show ?case by (cases ps) (auto simp: list_all2_Cons2 intro: packet_out_turn)
qed simp

lemma recv_all_length: "recv_all recv n ch = Some (fs, ch') \<Longrightarrow> length fs = n"
  by (induction n arbitrary: ch fs) (auto split: option.splits)

lemma kernel_got_append: "lk_dev s' = lk_dev s @ ps \<Longrightarrow> kernel_got d s' = kernel_got d s @ map (framed d) ps"
  by (simp add: kernel_got_def write_framed)

text \<open>
  C1. Two networks are joined, over TCP and without shaping: the packets that the kernel of one system queues
  on its device reach the kernel of the other through its device, each one whole and once and in order, for
  all pairs of the supported drivers (the device gives whole packets; on OpenBSD those of the family
  \<open>AF_INET\<close>), whatever modules the two hosts share and however the stream of frames is cut into pieces. The packets are not empty, fit the
  buffer and the blocks of the modules, and their frames have at most 2148 bytes. No signal comes meanwhile and no write fails;
  of the libraries it takes what \<open>joined\<close> states, that both ends have working ciphers and that \<open>zlib\<close>
  gives back on one end what was compressed on the other, for inputs of at most \<open>VTUN_FRAME_SIZE\<close> bytes.
\<close>

theorem tunnel_of_devices:
  assumes "joined L Rz Re hA hB A B" and "\<not> has_flag hA VTUN_SHAPE"
    and "list_all2 (packet_in dA) es ps" and "\<forall>p\<in>set ps. fits_tunnel hA p"
  shows "\<exists>A' fs. lk_loop L es A = Running A' \<and> lk_net A' = lk_net A @ fs
    \<and> (\<forall>ch. rd_clean ch \<and> rd_stream ch = concat (map (\<lambda>(l, b). wire l b) fs) \<longrightarrow>
        (\<exists>got ch'. recv_all (tcp_recv stk) (length ps) ch = Some (got, ch')
          \<and> (\<forall>eBs. list_all2 (packet_out dB) eBs (zip got ps) \<longrightarrow>
               (\<exists>B'. lk_loop L eBs B = Running B' \<and> kernel_got dB B' = kernel_got dB B @ map (framed dB) ps
                  \<and> joined L Rz Re hA hB A' B'))))"
proof -
  have es: "list_all2 dev_turn es ps"
    by (rule packets_in_turns [OF assms(3)]) (use assms(4) in \<open>auto simp: fits_tunnel_def\<close>)
  from tunnel_over_tcp [OF assms(1,2) es assms(4), of stk] obtain A' fs where
    a: "lk_loop L es A = Running A'" "lk_net A' = lk_net A @ fs"
    and b: "\<And>ch. rd_clean ch \<Longrightarrow> rd_stream ch = concat (map (\<lambda>(l, b). wire l b) fs) \<Longrightarrow>
        \<exists>got ch'. recv_all (tcp_recv stk) (length ps) ch = Some (got, ch')
          \<and> (\<forall>eBs. list_all2 net_turn eBs got \<longrightarrow>
               (\<exists>B'. lk_loop L eBs B = Running B' \<and> lk_dev B' = lk_dev B @ ps \<and> joined L Rz Re hA hB A' B'))" by blast
  have "\<exists>got ch'. recv_all (tcp_recv stk) (length ps) ch = Some (got, ch')
      \<and> (\<forall>eBs. list_all2 (packet_out dB) eBs (zip got ps) \<longrightarrow>
           (\<exists>B'. lk_loop L eBs B = Running B' \<and> kernel_got dB B' = kernel_got dB B @ map (framed dB) ps
              \<and> joined L Rz Re hA hB A' B'))"
    if c: "rd_clean ch" "rd_stream ch = concat (map (\<lambda>(l, b). wire l b) fs)" for ch
  proof -
    from b [OF c] obtain got ch' where
      got: "recv_all (tcp_recv stk) (length ps) ch = Some (got, ch')"
      and out: "\<And>eBs. list_all2 net_turn eBs got \<Longrightarrow>
        \<exists>B'. lk_loop L eBs B = Running B' \<and> lk_dev B' = lk_dev B @ ps \<and> joined L Rz Re hA hB A' B'" by blast
    have "length got = length ps" by (rule recv_all_length [OF got])
    then show ?thesis using got out packets_out_turns kernel_got_append by blast
  qed
  with a show ?thesis by blast
qed

subsection \<open>The property at work\<close>

text \<open>A tunnel from an OpenBSD system to a Linux system, with encryption.\<close>

definition ex_packet_env :: "byte list \<Rightarrow> lk_env" where
  "ex_packet_env p = (ex_dev_env [])\<lparr>dev_res := driver_read Openbsd_tun VTUN_FRAME_SIZE (Some (AF_INET_header @ p))\<rparr>"

lemma tunnel_of_devices_witness:
  "\<exists>A' fs. lk_loop ex_libs [ex_packet_env [1, 2, 3], ex_packet_env [4]] ex_lk = Running A' \<and> lk_net A' = lk_net ex_lk @ fs
    \<and> (\<forall>ch. rd_clean ch \<and> rd_stream ch = concat (map (\<lambda>(l, b). wire l b) fs) \<longrightarrow>
        (\<exists>got ch'. recv_all (tcp_recv [0, 0]) (length [[1, 2, 3], [4 :: byte]]) ch = Some (got, ch')
          \<and> (\<forall>eBs. list_all2 (packet_out Linux_tun) eBs (zip got [[1, 2, 3], [4]]) \<longrightarrow>
               (\<exists>B'. lk_loop ex_libs eBs ex_lk = Running B'
                  \<and> kernel_got Linux_tun B' = kernel_got Linux_tun ex_lk @ map (framed Linux_tun) [[1, 2, 3], [4]]
                  \<and> joined ex_libs (\<lambda>_ _. True) (\<lambda>_ _ _. True) ex_tun_host ex_tun_host A' B'))))"
proof (rule tunnel_of_devices [OF ex_lk_joined ex_tun_flags(2)])
  have "packet_in Openbsd_tun (ex_packet_env p) p" for p
    using ex_dev_turn [of "[]"] by (simp add: packet_in_def ex_packet_env_def dev_turn_def calm_def)
  then show "list_all2 (packet_in Openbsd_tun) [ex_packet_env [1, 2, 3], ex_packet_env [4]] [[1, 2, 3], [4]]" by simp
qed (simp add: ex_fits)

end
