(* ===== verification/Builds.thy ===== *)
theory Builds
  imports AuthProto Tunnel
begin

section \<open>Builds without libraries (\<open>auth.c\<close>, \<open>lfd_*.c\<close>)\<close>

text \<open>
  What the program does where OpenSSL, zlib or LZO are missing, or the shaper is not built: the modules of
  \<open>LfdStack\<close> that refuse to be allocated, and a challenge made with \<open>rand\<close>. \<open>rng\<close> stands for \<open>srand\<close> and \<open>rand\<close>:
  \<open>rng t i\<close> is the \<open>i\<close>th number after \<open>srand(t)\<close>, from 0 to \<open>RAND_MAX\<close>.
\<close>

subsection \<open>Modules that are not there\<close>

lemma alloc_list_fails:
  assumes "m \<in> set ms" and "m_alloc (ops m) = Some f" and "\<forall>h v. \<exists>r v'. f h v = Some (r, v') \<and> r \<noteq> 0"
  shows "alloc_list ops h ms s \<noteq> Some (0, s')"
  using assms(1)
proof (induction ms arbitrary: s)
  case (Cons m' ms)
  show ?case
  proof (cases "m' = m")
    case True
    obtain r v' where "f h (s m) = Some (r, v')" "r \<noteq> 0" using assms(3) by blast
    then show ?thesis using True assms(2) by simp
  next
    case False
    then show ?thesis using Cons by (auto simp: Let_def split: option.splits)
  qed
qed simp

text \<open>
  C39. No tunnel without what was agreed on: where both ends have agreed on encryption, compression or shaping
  and the module is not part of the build, \<open>linkfd\<close> comes back with 0 before the first turn, if the other
  modules' allocation is defined: nothing has gone out to the network, in the clear or otherwise, and nothing
  to the device.
\<close>

theorem missing_module_stops:
  assumes "m \<in> set (modules_of h)" and "\<not> l_built L m" and "mods_repr (lk_mods s0) []"
  shows "linkfd L can_open w1 w2 es h s0 = Undefined
    \<or> (\<exists>s'. linkfd L can_open w1 w2 es h s0 = Ended (0, s')
         \<and> lk_net s' = lk_net s0 \<and> lk_torn s' = lk_torn s0 \<and> lk_dev s' = lk_dev s0)"
proof -
  obtain ml where b: "build_mods h (lk_mods s0) = Some ml" "mods_repr ml (modules_of h)"
    using build_mods_repr [OF assms(3), of h] by blast
  obtain f where f: "m_alloc (lfd_mods L m) = Some f" "\<forall>h v. f h v = Some (- 1, v)"
    using not_built [OF assms(2)] by blast
  show ?thesis
  proof (cases "lfd_alloc_mod (lfd_mods L) ml h (lk_cells s0)")
    case None
    then show ?thesis using b(1) by (simp add: linkfd_def link_start_def)
  next
    case (Some x)
    obtain r c where x: "x = (r, c)" by (cases x)
    have "alloc_list (lfd_mods L) h (modules_of h) (lk_cells s0) \<noteq> Some (0, c)"
      by (rule alloc_list_fails [where f = f]) (use assms(1) f in auto)
    then have "r \<noteq> 0" using Some x by (auto simp: lfd_alloc_mod_list [OF b(2)])
    then show ?thesis using Some x b(1) by (simp add: linkfd_def link_start_def)
  qed
qed

subsection \<open>The challenge without OpenSSL\<close>

text \<open>
  \<open>255.0 * rand() / RAND_MAX\<close>, cut to an integer. The quotient is not so close below an integer that a \<open>double\<close>
  would round it up.
\<close>

definition gen_chal :: "(int \<Rightarrow> nat \<Rightarrow> int) \<Rightarrow> int \<Rightarrow> int \<Rightarrow> byte list" where
  "gen_chal rng RAND_MAX now = map (\<lambda>i. word_of_int (255 * rng now i div RAND_MAX)) [0..<VTUN_CHAL_SIZE]"

lemma length_gen_chal [simp]: "length (gen_chal rng rm now) = 16"
  by (simp add: gen_chal_def)

text \<open>What someone who has seen a challenge with its answer replies to another challenge.\<close>

definition forged :: "byte list \<Rightarrow> byte list \<Rightarrow> byte list \<Rightarrow> byte list" where
  "forged seen ans new = map (\<lambda>i. new ! i XOR (seen ! i XOR ans ! i)) [0..<16]"

lemma forged_right:
  assumes "encrypt_chal seen pwd = Some ans"
  shows "encrypt_chal new pwd = Some (forged seen ans new)"
proof -
  have a: "pwd \<noteq> []" "ans = map (\<lambda>i. seen ! i XOR of_char (pwd ! (i mod length pwd))) [0..<16]"
    using assms by (auto simp: encrypt_chal_def split: if_splits)
  have "seen ! i XOR ans ! i = of_char (pwd ! (i mod length pwd))" if "i < 16" for i
  proof -
    have "ans ! i = seen ! i XOR of_char (pwd ! (i mod length pwd))" unfolding a(2) using that by (subst nth_map) auto
    then show ?thesis by (simp add: xor.assoc [symmetric])
  qed
  then have "forged seen ans new = map (\<lambda>i. new ! i XOR of_char (pwd ! (i mod length pwd))) [0..<16]"
    by (auto simp: forged_def)
  with a(1) show ?thesis by (simp add: encrypt_chal_def)
qed

text \<open>
  C40. A build without OpenSSL does not authenticate against someone who has listened once: the challenge of one session
  and its answer, both of which are sent in the clear, make up the answer to any later challenge, and the
  server takes it, without the password.
\<close>

theorem xor_eavesdropper:
  assumes "encrypt_chal seen pwd = Some ans"
    and "matched env c h pwd fl" and "se_decrypt env = decrypt_chal"
  shows "auth_server env (cli_transcript (vh_host c) (forged seen ans (se_chal env))) = Some (Some h, srv_transcript env fl)"
  using xorc.session [OF assms(2,3)] forged_right [OF assms(1)] by auto

text \<open>
  Nor does it need another answer within a second: the challenge depends on the time in seconds only, so the messages
  of a session that has just begun open another one.
\<close>

theorem same_second_replay:
  assumes "matched env c h pwd fl" and "se_decrypt env = decrypt_chal"
    and "encrypt_chal (gen_chal rng rm now) pwd = Some ans" and "se_chal env = gen_chal rng rm now"
  shows "auth_server env (cli_transcript (vh_host c) ans) = Some (Some h, srv_transcript env fl)"
  using xorc.session [OF assms(1,2)] assms(3,4) by auto

subsection \<open>The properties at work\<close>

definition ex_secret_host :: vtun_host where
  "ex_secret_host = ex_host\<lparr>vh_flags := VTUN_TUN OR VTUN_TCP OR VTUN_ENCRYPT, cipher := 1\<rparr>"

definition ex_bare_libs :: "(unit, unit) libs" where
  "ex_bare_libs = ex_libs\<lparr>l_built := (\<lambda>m. m = Lfd_shaper)\<rparr>"

lemma missing_module_stops_witness:
  "\<exists>s'. linkfd ex_bare_libs True Wr_all Wr_all [ex_dev_env [1, 2, 3]] ex_secret_host (ex_lk\<lparr>lk_mods := no_mods\<rparr>) = Ended (0, s')
    \<and> lk_net s' = [] \<and> lk_torn s' = [] \<and> lk_dev s' = []"
proof -
  let ?s = "ex_lk\<lparr>lk_mods := no_mods\<rparr>"
  have m: "modules_of ex_secret_host = [Lfd_encrypt]"
    by (simp add: modules_of_def codecs_of_def ex_secret_host_def has_flag_def VTUN_LEGACY_ENCRYPT_def)
  obtain ml where ml: "build_mods ex_secret_host no_mods = Some ml" "mods_repr ml [Lfd_encrypt]"
    using build_mods_repr [OF no_mods_repr, of ex_secret_host] m by auto
  have nb: "\<not> l_built ex_bare_libs Lfd_encrypt" by (simp add: ex_bare_libs_def)
  have "\<exists>c'. lfd_alloc_mod (lfd_mods ex_bare_libs) ml ex_secret_host c = Some (1, c')" for c
    using not_built [OF nb] by (auto simp: lfd_alloc_mod_list [OF ml(2)] Let_def)
  then obtain c' where "lfd_alloc_mod (lfd_mods ex_bare_libs) ml ex_secret_host (lk_cells ?s) = Some (1, c')" by blast
  then have "linkfd ex_bare_libs True Wr_all Wr_all [ex_dev_env [1, 2, 3]] ex_secret_host ?s \<noteq> Undefined"
    using ml(1) by (simp add: linkfd_def link_start_def)
  with missing_module_stops [OF _ nb, of ex_secret_host ?s True Wr_all Wr_all "[ex_dev_env [1, 2, 3]]"] m no_mods_repr
  show ?thesis by (simp add: ex_lk_def)
qed

lemma xor_eavesdropper_witness:
  "\<exists>ans. encrypt_chal (replicate 16 7) ''secret'' = Some ans
    \<and> auth_server (ex_env decrypt_chal) (cli_transcript ''cobra'' (forged (replicate 16 7) ans (se_chal (ex_env decrypt_chal))))
      = Some (Some ex_host, srv_transcript (ex_env decrypt_chal) ''<UuL9K>'')"
proof -
  obtain ans where a: "encrypt_chal (replicate 16 7) ''secret'' = Some ans" by (simp add: encrypt_chal_def)
  have "se_decrypt (ex_env decrypt_chal) = decrypt_chal" by (simp add: ex_env_def)
  from xor_eavesdropper [OF a ex_matched this] a show ?thesis by (auto simp: ex_client_def)
qed

lemma same_second_replay_witness:
  "\<exists>env ans. encrypt_chal (gen_chal (\<lambda>t i. t + int i) 2147483647 1000) ''secret'' = Some ans
    \<and> auth_server env (cli_transcript ''cobra'' ans) = Some (Some ex_host, srv_transcript env ''<UuL9K>'')"
proof -
  let ?g = "gen_chal (\<lambda>t i. t + int i) 2147483647 1000"
  let ?env = "(ex_env decrypt_chal)\<lparr>se_chal := ?g\<rparr>"
  obtain ans where a: "encrypt_chal ?g ''secret'' = Some ans" by (simp add: encrypt_chal_def)
  have m: "matched ?env ex_client ex_host ''secret'' ''<UuL9K>''" using ex_matched [of decrypt_chal] by (simp add: matched_def)
  have "se_decrypt ?env = decrypt_chal" by (simp add: ex_env_def)
  from same_second_replay [OF m this a] a show ?thesis by (auto simp: ex_client_def)
qed

end
