(* ===== verification/Spec2Isabelle.thy ===== *)
theory Spec2Isabelle
  imports LockPool Startup ConfigTypes DevTunnel Builds
begin

text \<open>
  VTun: virtual tunnels over TCP/IP.

  One process of VTun serves one session. A client and a server authenticate over a TCP connection
  (\<open>auth.c\<close>), agree on the options of the host entry, open a local device, and then the linker
  (\<open>linkfd.c\<close>) moves packets between the device and the network: what it reads from the device runs
  down through a stack of modules (compression, encryption, traffic shaping) and goes out as one
  frame; what arrives runs up through the same stack and is written to the device.

  Theories, from the bottom up:

  \<^item> \<open>CBase\<close>: machine types, errno, and the string functions of the C library the code uses.
  \<^item> \<open>LibIO\<close>: \<open>read_n\<close>, \<open>write_n\<close>, \<open>readn_t\<close>, \<open>print_p\<close> (\<open>lib.h\<close>, \<open>lib.c\<close>). A descriptor is the
    list of the events its system calls will meet; a call that blocks for ever is \<^const>\<open>None\<close>.
  \<^item> \<open>VtunHost\<close>: \<open>struct vtun_host\<close>, its statistics and the constants of \<open>vtun.h\<close>.
  \<^item> \<open>Frames\<close>: \<open>tcp_write\<close>, \<open>tcp_read\<close>, \<open>udp_write\<close>, \<open>udp_read\<close> (\<open>generic/tcp_proto.c\<close>,
    \<open>generic/udp_proto.c\<close>). The locale \<open>framing\<close> is what the linker relies on, a channel that
    delivers frames in order; both protocols are instances of it.
  \<^item> \<open>AuthText\<close>, \<open>AuthFlags\<close>, \<open>AuthProto\<close>: \<open>auth.c\<close>. The texts of challenge and flags with their
    round trips; then both ends of the dialogue as functions of the messages they receive. The
    challenge cipher is a locale with two instances (\<open>HAVE_SSL\<close> or the XOR fallback).
  \<^item> \<open>LinkMods\<close>: \<open>linkfd.h\<close> and the module list of \<open>linkfd.c\<close>. The static structures are cells of a
    store linked by \<open>next\<close> and \<open>prev\<close>; \<open>mods_repr\<close> says which list they represent, and the walks
    are proved equal to folds over it. The locale \<open>lfd_stack\<close> is the contract between the linker and
    its modules: each one keeps a relation between the two ends, a frame encoded at one end decodes
    to itself at the other, and grows by a bounded number of bytes. Its lemma \<open>down_up\<close> lifts the
    contract to stacks.
  \<^item> \<open>LfdEncrypt\<close>, \<open>EncryptSession\<close>: \<open>lfd_encrypt.c\<close>. The state machine that sets up the ciphers and
    repairs them; \<open>enc_sync\<close> is the invariant that relates an encryptor to the decryptor of the
    other end.
  \<^item> \<open>LfdLegacy\<close>, \<open>LfdCompress\<close>, \<open>LfdShaper\<close>: \<open>lfd_legacy_encrypt.c\<close>, \<open>lfd_zlib.c\<close> and \<open>lfd_lzo.c\<close>,
    \<open>lfd_shaper.c\<close>.
  \<^item> \<open>LfdStack\<close>: the five modules as structures of functions on a common store, the stack that
    \<open>linkfd\<close> builds from the flags of the host, and the interpretation of \<open>lfd_stack\<close> on them.
  \<^item> \<open>Linker\<close>: signal handlers, the loop of \<open>lfd_linker\<close>, \<open>linkfd\<close>.
  \<^item> \<open>Builds\<close>: builds without OpenSSL, zlib, LZO or the shaper, with their stubs of the modules, and the weakness of
    the challenge that is made without OpenSSL.
  \<^item> \<open>Tunnel\<close>: two linkers, with the frame layer between them.
  \<^item> \<open>Process\<close>, \<open>SysCall\<close>: the parts of the daemon that mostly talk to the system are programs of system
    calls, trees that branch on what each call returns. \<open>kstep\<close> says which answers the kernel may
    give and what becomes of the descriptors of the process; \<open>wp\<close> and \<open>wlp\<close> are the weakest
    preconditions over all answers, and \<open>replay\<close> runs a program against a list of them. Which signals a process
    ignores or handles is part of its calls (\<open>set_signals\<close>); that one has come is an answer (\<open>Signals\<close>).
  \<^item> \<open>Lock\<close>, \<open>LockPool\<close>: \<open>lock.c\<close>. The functions as programs over a directory of files; then any number
    of processes that lock and unlock a host, with their system calls interleaved in any order.
  \<^item> \<open>LList\<close>: \<open>llist.c\<close> on a heap of cells. The locale \<open>elem_list\<close> is what the users of a list rely
    on; the heap implementation is its instance.
  \<^item> \<open>HostList\<close>: what \<open>cfg_file.y\<close> and \<open>main.c\<close> do with the list of hosts.
  \<^item> \<open>HostOpts\<close>: the keyword tables of \<open>cfg_kwords.h\<close>, the parameters of \<open>cfg_file.l\<close>, and the actions
    of \<open>cfg_file.y\<close> for the options of a host.
  \<^item> \<open>CfgFile\<close>: the actions of \<open>cfg_file.y\<close> for whole sections, on the state they share: options, default
    host, store and list of hosts. \<open>spec_config\<close> is what a file means, a fold over its sections;
    \<open>represents\<close> relates the two, and \<open>run_config_represents\<close> is the simulation. \<open>sound_config\<close> says
    when the copies of the default host are well defined; where it fails the code frees a string
    twice (\<open>default_device_freed_twice\<close>).
  \<^item> \<open>CfgLex\<close>: \<open>cfg_file.l\<close>. Each pattern is a function that says how much of the input it matches, each rule has
    an action on the state of the lexer, and \<open>yylex\<close> applies the longest match, the first rule if several
    match as much; it ends because a step takes at least one character.
  \<^item> \<open>CfgLines\<close>: what the lexer makes of files with one word in a line, the lemmas for the next two.
  \<^item> \<open>CfgText\<close>: the grammar of \<open>cfg_file.y\<close> as functions on tokens that yield what the actions do
    (\<open>p_config\<close>); \<open>config_sections\<close> goes from the text of a file to its sections, the input of \<open>run_config\<close>.
    An error keeps the actions done before it.
  \<^item> \<open>CfgPrint\<close>: a way to write sections as text (\<open>config_text\<close>), which lexer and grammar are proved to invert,
    and texts that are not read as they are meant.
  \<^item> \<open>ConfigTypes\<close>: for every text of the file the numbers of the configuration fit the C type \<open>int\<close>, so that the
    unbounded integers of the model lose nothing.
  \<^item> \<open>Command\<close>: \<open>subst_opt\<close>, \<open>split_args\<close>, \<open>run_cmd\<close>, the guard of \<open>vtun_syslog\<close> and the title of the process (\<open>lib.c\<close>).
  \<^item> \<open>DevDriver\<close>: opening and closing devices (\<open>generic/\<close>, \<open>linux/\<close>, \<open>freebsd/\<close>, \<open>openbsd/\<close>, \<open>svr4/\<close>). The
    locale \<open>tun_driver\<close> is what \<open>tunnel\<close> relies on; the drivers of four systems are instances, those of
    System V are not, because they lose descriptors (\<open>svr4_leaks\<close>).
  \<^item> \<open>DevIO\<close>: reading and writing devices. The locale \<open>packet_device\<close> is what the linker relies on, packets
    that come back whole; the drivers of all systems are instances (\<open>driver_write\<close>, \<open>driver_read\<close>).
  \<^item> \<open>DevTunnel\<close>: two linkers with the devices of their systems, from the queue of one kernel to the other.
  \<^item> \<open>NetLib\<close>: \<open>netlib.c\<close>, with the exchange of ports that turns a TCP connection into a UDP session.
  \<^item> \<open>TunnelSetup\<close>: \<open>tunnel.c\<close>. The drivers of a build are a record of functions, and the locale \<open>drivers\<close>
    is the contract of the four of them together. The linker is an argument; \<open>link_ok\<close> is what a
    session needs of it. \<open>settled\<close> says what a session leaves of the descriptors.
  \<^item> \<open>ClientLoop\<close>: \<open>client.c\<close>. Here \<open>linkfd\<close> becomes a program (\<open>link_program\<close>) and is proved to be
    \<open>link_ok\<close>; the client is a loop of attempts, for any number of them.
  \<^item> \<open>Server\<close>: \<open>server.c\<close>. The process of a connection, with the calls that \<open>lock_host\<close> makes inside the
    dialogue, is run on a directory of locks (\<open>sstep\<close>); the listener on the descriptors.
  \<^item> \<open>Startup\<close>: \<open>main.c\<close>, from the command line and the text of the configuration file to the client or the server, and
    which setting wins over which. The turn into a daemon is run on a table that says which file each
    descriptor is open on (\<open>fd_step\<close>).

  Parameters. OpenSSL, zlib and LZO, \<open>malloc\<close>, \<open>RAND_bytes\<close> and the clock are arguments of the
  definitions; what the proofs need of them is a named hypothesis (\<open>evp_ok\<close>, \<open>z_stream\<close>, \<open>malloc_ok\<close>
  and the like) that states their documented behaviour, and each property has a witness that
  instantiates them. A function of the code that dereferences NULL, leaves its buffer, or never
  ends yields \<^const>\<open>None\<close> (or \<open>Undef\<close>), so a property that says \<^const>\<open>Some\<close> also says that none
  of these happens.

  Bounds. Loops that follow the structure of their input (events, turns) are structural
  recursions on it. The walks over the module list and the flush loop of zlib are partial functions;
  that they return is proved (\<open>run_from_list\<close>, \<open>zlib_loop_returns\<close>) or refuted
  (\<open>module_entered_twice\<close>). The unsigned arithmetic of the shaper and of the counters is on 64-bit
  words. The loops of the client and of the listener, which are meant to run for ever, take the
  number of turns; what is proved of them holds for every number, and their result says whether
  they have ended.

  Not modelled: what lex and yacc generate, which is replaced by the meaning of the rules and of the
  productions. The grammar has conflicts (\<open>%expect 20\<close>) only where a list of options may be read as starting
  empty or not, with the same actions. The buffer in which the lexer keeps characters it has read ahead is not
  part of its state, so a reading after an aborted one is modelled for the characters that it does
  read (\<open>stale_lexer_mode\<close>). The texts of messages and the numbers of lines are left out, with
  \<open>yyerror\<close>, \<open>cfg_error\<close> and \<open>usage\<close>; so are the calls of \<open>sigaction\<close> in \<open>linkfd\<close> (the linker
  takes signals where \<open>select\<close> waits), the variant of \<open>connect_t\<close> for SOCKS, and the macros of \<open>compat.h\<close> and \<open>vtun_socks.h\<close> for
  older systems. Formats of \<open>vtun_syslog\<close> are taken as expanded.
\<close>

end
